(* ===== verification/Prelude.thy ===== *)
theory Prelude
  imports Main "HOL-Library.Word" "HOL-Library.Monad_Syntax" "HOL-Library.Signed_Division"
begin

unbundle bit_operations_syntax

section \<open>Shared vocabulary of the development\<close>

text \<open>
  What every component theory uses: the machine types of the C code, bounds-checked access to
  C arrays, the few string functions of the C library the program calls, and list lemmas.

  A C operation whose behaviour is undefined (an index outside its array, a read past a string)
  is the value \<^const>\<open>None\<close>; \<^const>\<open>Some\<close> is a run with defined behaviour. C \<open>int\<close> values that
  are coordinates, counters and return codes are HOL \<^typ>\<open>int\<close>; bytes, pixels and code units are
  words, and every conversion between them is written out.
\<close>

type_synonym byte = "8 word"
type_synonym u16 = "16 word"
type_synonym u32 = "32 word"

named_theorems keeps \<open>each operation keeps its component's invariant\<close>

subsection \<open>Bounds-checked arrays\<close>

definition arr_get :: "'a list \<Rightarrow> int \<Rightarrow> 'a option" where
  "arr_get xs i = (if 0 \<le> i \<and> i < int (length xs) then Some (xs ! nat i) else None)"

definition arr_set :: "'a list \<Rightarrow> int \<Rightarrow> 'a \<Rightarrow> 'a list option" where
  "arr_set xs i v = (if 0 \<le> i \<and> i < int (length xs) then Some (xs[nat i := v]) else None)"

definition guard :: "bool \<Rightarrow> unit option" where
  "guard b = (if b then Some () else None)"

lemma guard_simps [simp]: "guard True = Some ()" "guard False = None"
  by (simp_all add: guard_def)

lemma guard_bind_eq [simp]: "(guard b \<bind> f = Some y) \<longleftrightarrow> b \<and> f () = Some y"
  by (cases b) auto

lemma arr_get_nat [simp]: "i < length xs \<Longrightarrow> arr_get xs (int i) = Some (xs ! i)"
  by (simp add: arr_get_def)

lemma arr_set_nat [simp]: "i < length xs \<Longrightarrow> arr_set xs (int i) v = Some (xs[i := v])"
  by (simp add: arr_set_def)

lemma arr_get_Cons_0 [simp]: "arr_get (x # xs) 0 = Some x"
  by (simp add: arr_get_def)

lemma arr_get_append [simp]: "arr_get (xs @ y # ys) (int (length xs)) = Some y"
  by (simp add: arr_get_def)

lemma arr_get_behind: "arr_get (xs @ ys) (int (length xs)) = arr_get ys 0"
  by (cases ys) (simp_all add: arr_get_def nth_append)

lemma arr_get_SomeD: "arr_get xs i = Some v \<Longrightarrow> 0 \<le> i \<and> i < int (length xs) \<and> v = xs ! nat i"
  by (auto simp: arr_get_def split: if_splits)

lemma arr_set_SomeD: "arr_set xs i v = Some ys \<Longrightarrow> 0 \<le> i \<and> i < int (length xs) \<and> ys = xs[nat i := v]"
  by (auto simp: arr_set_def split: if_splits)

lemma arr_set_length: "arr_set xs i v = Some ys \<Longrightarrow> length ys = length xs"
  by (auto dest: arr_set_SomeD)

lemma set_update_same: "x \<in> set xs \<Longrightarrow> x \<in> set (xs[i := x])"
  by (cases "i < length xs") (auto intro: set_update_memI simp: list_update_beyond)

lemma arr_get_eq_None: "arr_get xs i = None \<longleftrightarrow> i < 0 \<or> int (length xs) \<le> i"
  by (auto simp: arr_get_def)

lemma arr_set_eq_None: "arr_set xs i v = None \<longleftrightarrow> i < 0 \<or> int (length xs) \<le> i"
  by (auto simp: arr_set_def)

lemma arr_get_outside [simp]: "i < 0 \<Longrightarrow> arr_get xs i = None" "int (length xs) \<le> i \<Longrightarrow> arr_get xs i = None"
  by (auto simp: arr_get_def)

lemma arr_set_outside [simp]: "i < 0 \<Longrightarrow> arr_set xs i v = None" "int (length xs) \<le> i \<Longrightarrow> arr_set xs i v = None"
  by (auto simp: arr_set_def)

subsection \<open>Characters and strings\<close>

lemma unat_byte_less [simp]: "unat (c :: byte) < 256"
  using unsigned_less [of c] by simp

lemma bit_byte_ge [simp]: "8 \<le> n \<Longrightarrow> \<not> bit (b :: byte) n"
  by (auto dest: bit_imp_le_length)

lemma unat_inj_iff: "unat (c :: 'a::len word) = unat d \<longleftrightarrow> c = d"
  by (simp add: word_unat_eq_iff)

definition ascii :: "string \<Rightarrow> byte list" where
  "ascii s = map of_char s"

text \<open>A \<open>char\<close> read as the signed value it is on the targets of the Makefile.\<close>

lemma sint_byte_nonneg: "0 \<le> sint (c :: byte) \<Longrightarrow> sint c = int (unat c) \<and> sint c < 128"
proof -
  assume n: "0 \<le> sint c"
  have l: "sint c < 128" using sint_lt [of c] by simp
  with n have "uint c = sint c" by (simp add: uint_sint take_bit_int_eq_self)
  with l show ?thesis by simp
qed

lemma sint_byte_neg: "sint (c :: byte) < 0 \<longleftrightarrow> 128 \<le> unat c"
proof -
  have u: "uint c = sint c mod 256" by (simp add: uint_sint take_bit_eq_mod)
  have r: "- 128 \<le> sint c" "sint c < 128" using sint_lt [of c] sint_ge [of c] by simp_all
  have "sint c < 0 \<longleftrightarrow> 128 \<le> uint c" proof (cases "sint c < 0")
    case True
    then have "(sint c + 256) mod 256 = sint c + 256" using r by (intro mod_pos_pos_trivial) simp_all
    then show ?thesis using True r by (simp add: u)
  next
    case False
    then show ?thesis using r by (simp add: u mod_pos_pos_trivial)
  qed
  also have "\<dots> \<longleftrightarrow> 128 \<le> unat c"
  proof -
    have "uint c = int (unat c)" by simp
    then show ?thesis by linarith
  qed
  finally show ?thesis .
qed

text \<open>
  A C string is a byte array that holds a NUL. \<^term>\<open>cstr xs\<close> is the text a \<open>char *\<close> to the
  start of \<open>xs\<close> denotes, \<^const>\<open>None\<close> when no NUL stops the read inside the array.
\<close>

definition cstr :: "byte list \<Rightarrow> byte list option" where
  "cstr xs = (if 0 \<in> set xs then Some (takeWhile (\<lambda>c. c \<noteq> 0) xs) else None)"

lemma takeWhile_nul: "0 \<notin> set s \<Longrightarrow> takeWhile (\<lambda>c. c \<noteq> (0::byte)) (s @ 0 # rest) = s"
  by (induction s) auto

lemma cstr_append_nul: "0 \<notin> set s \<Longrightarrow> cstr (s @ 0 # rest) = Some s"
  by (simp add: cstr_def takeWhile_nul)

text \<open>\<open>strcpy\<close> into an array of a given size: the text and its NUL must fit.\<close>

definition c_strcpy :: "byte list \<Rightarrow> byte list \<Rightarrow> byte list option" where
  "c_strcpy dst s = (if length s < length dst then Some (s @ 0 # drop (Suc (length s)) dst) else None)"

lemma c_strcpy_length: "c_strcpy dst s = Some d \<Longrightarrow> length d = length dst"
  by (auto simp: c_strcpy_def split: if_splits)

lemma cstr_c_strcpy: "c_strcpy dst s = Some d \<Longrightarrow> 0 \<notin> set s \<Longrightarrow> cstr d = Some s"
  by (auto simp: c_strcpy_def cstr_append_nul split: if_splits)

text \<open>\<open>strncmp(xs, v, strlen v) == 0\<close>.\<close>

fun has_prefix :: "byte list \<Rightarrow> byte list \<Rightarrow> bool option" where
  "has_prefix [] xs = Some True"
| "has_prefix (v # vs) [] = None"
| "has_prefix (v # vs) (x # xs) = (if v = x then has_prefix vs xs else Some False)"

subsection \<open>Decimal numbers\<close>

definition is_digit :: "byte \<Rightarrow> bool" where
  "is_digit c \<longleftrightarrow> 48 \<le> c \<and> c \<le> 57"

definition digits_value :: "byte list \<Rightarrow> int" where
  "digits_value ds = foldl (\<lambda>a c. 10 * a + (int (unat c) - 48)) 0 ds"

text \<open>What \<open>%d\<close> prints.\<close>

fun nat_dec :: "nat \<Rightarrow> byte list" where
  "nat_dec n = (if n < 10 then [48 + of_nat n] else nat_dec (n div 10) @ [48 + of_nat (n mod 10)])"

declare nat_dec.simps [simp del]

definition dec :: "int \<Rightarrow> byte list" where
  "dec v = (if v < 0 then 45 # nat_dec (nat (- v)) else nat_dec (nat v))"

lemma digit_byte: "d < 10 \<Longrightarrow> is_digit (48 + of_nat d) \<and> uint (48 + of_nat d :: byte) = 48 + int d"
proof -
  have "\<forall>d\<in>set [0..<10]. is_digit (48 + of_nat d) \<and> uint (48 + of_nat d :: byte) = 48 + int d" by code_simp
  then show "d < 10 \<Longrightarrow> ?thesis" by simp
qed

lemma nat_dec_digits: "nat_dec n \<noteq> [] \<and> (\<forall>c\<in>set (nat_dec n). is_digit c)"
proof (induction n rule: nat_dec.induct)
  case (1 n)
  then show ?case using digit_byte [of n] digit_byte [of "n mod 10"] by (subst (1 2) nat_dec.simps) auto
qed

lemma nat_dec_value: "digits_value (nat_dec n) = int n"
proof (induction n rule: nat_dec.induct)
  case (1 n)
  show ?case
  proof (cases "n < 10")
    case True
    then show ?thesis using digit_byte [OF True] by (subst nat_dec.simps) (simp add: digits_value_def)
  next
    case False
    have "uint (48 + of_nat (n mod 10) :: byte) = 48 + int (n mod 10)" using digit_byte [of "n mod 10"] by simp
    with 1 [OF False] False have "digits_value (nat_dec n) = 10 * int (n div 10) + int (n mod 10)"
      by (subst nat_dec.simps) (simp add: digits_value_def)
    also have "\<dots> = int n" using mult_div_mod_eq [of 10 n] by (metis of_nat_add of_nat_mult of_nat_numeral)
    finally show ?thesis .
  qed
qed

definition int_range :: "int \<Rightarrow> bool" where
  "int_range v \<longleftrightarrow> - (2 ^ 31) \<le> v \<and> v < 2 ^ 31"

subsection \<open>The last elements of a list\<close>

definition last_n :: "nat \<Rightarrow> 'a list \<Rightarrow> 'a list" where
  "last_n n xs = drop (length xs - n) xs"

lemma length_last_n [simp]: "length (last_n n xs) = min n (length xs)"
  by (simp add: last_n_def)

lemma last_n_all [simp]: "length xs \<le> n \<Longrightarrow> last_n n xs = xs"
  by (simp add: last_n_def)

lemma last_n_last_n_append: "last_n n (last_n n xs @ ys) = last_n n (xs @ ys)"
proof (cases "length xs \<le> n")
  case False
  then have "length xs - n + (length xs - (length xs - n) + length ys - n) = length xs + length ys - n"
    by simp
  with False show ?thesis
    by (simp add: last_n_def drop_append add.commute)
qed simp

lemma last_n_snoc: "last_n (Suc n) (xs @ [x]) = last_n n xs @ [x]"
  by (simp add: last_n_def)

lemma last_n_nth: "k < n \<Longrightarrow> k < length xs \<Longrightarrow>
  last_n n xs ! (min n (length xs) - Suc k) = xs ! (length xs - Suc k)"
  by (auto simp: last_n_def min_def)

subsection \<open>Option-valued folds\<close>

text \<open>A \<open>for\<close> loop over a list of values whose body may have undefined behaviour.\<close>

fun ofold :: "('a \<Rightarrow> 's \<Rightarrow> 's option) \<Rightarrow> 'a list \<Rightarrow> 's \<Rightarrow> 's option" where
  "ofold f [] s = Some s"
| "ofold f (x # xs) s = do { s' \<leftarrow> f x s; ofold f xs s' }"

lemma ofold_append: "ofold f (xs @ ys) s = do { s' \<leftarrow> ofold f xs s; ofold f ys s' }"
  by (induction xs arbitrary: s) (simp_all split: bind_split)

lemma ofold_map: "ofold f (map g xs) s = ofold (\<lambda>x. f (g x)) xs s"
  by (induction xs arbitrary: s) (simp_all split: bind_split)

lemma ofold_inv:
  assumes "\<And>x s s'. x \<in> set xs \<Longrightarrow> P s \<Longrightarrow> f x s = Some s' \<Longrightarrow> P s'"
  shows "P s \<Longrightarrow> ofold f xs s = Some s' \<Longrightarrow> P s'"
  using assms
proof (induction xs arbitrary: s)
  case (Cons x xs)
  then obtain s1 where "f x s = Some s1" "ofold f xs s1 = Some s'"
    by (auto split: bind_splits)
  moreover have "P s1" using Cons.prems(1,3) calculation(1) by auto
  ultimately show ?case using Cons by auto
qed simp

lemma ofold_total:
  assumes "\<And>x s. x \<in> set xs \<Longrightarrow> P s \<Longrightarrow> \<exists>s'. f x s = Some s' \<and> P s'"
  shows "P s \<Longrightarrow> \<exists>s'. ofold f xs s = Some s' \<and> P s'"
  using assms
proof (induction xs arbitrary: s)
  case (Cons x xs)
  from Cons.prems obtain s1 where "f x s = Some s1" "P s1" by fastforce
  with Cons.IH [of s1] Cons.prems(2) show ?case by auto
qed simp

subsection \<open>Bounded logs\<close>

text \<open>
  The contract of a store that keeps the last \<open>cap\<close> items put into it: the inline data buffer and
  the scrollback ring both meet it. \<open>frame\<close> is the part of the state a put leaves alone.
\<close>

locale bounded_log =
  fixes ok :: "'s \<Rightarrow> bool"
    and content :: "'s \<Rightarrow> 'a list"
    and frame :: "'s \<Rightarrow> 'r"
    and put :: "'a \<Rightarrow> 's \<Rightarrow> 's option"
    and cap :: nat
  assumes put_spec: "ok s \<Longrightarrow>
    \<exists>s'. put x s = Some s' \<and> ok s' \<and> frame s' = frame s \<and> content s' = last_n cap (content s @ [x])"
    and content_bound: "ok s \<Longrightarrow> length (content s) \<le> cap"
begin

lemma push_list:
  "ok s \<Longrightarrow> \<exists>s'. ofold put xs s = Some s' \<and> ok s' \<and> frame s' = frame s \<and> content s' = last_n cap (content s @ xs)"
proof (induction xs arbitrary: s)
  case Nil
  then show ?case using content_bound by simp
next
  case (Cons x xs)
  from put_spec [OF Cons.prems, of x] obtain s1 where s1: "put x s = Some s1" "ok s1" "frame s1 = frame s"
    "content s1 = last_n cap (content s @ [x])" by blast
  from Cons.IH [OF s1(2)] obtain s2 where "ofold put xs s1 = Some s2" "ok s2" "frame s2 = frame s1"
    "content s2 = last_n cap (content s1 @ xs)" by blast
  with s1 show ?case by (simp add: last_n_last_n_append)
qed

text \<open>Two stores with the same content stay alike, however the items are grouped.\<close>

lemma push_list_append:
  assumes "ok s" "ofold put xs s = Some s1" "ofold put ys s1 = Some s2"
  shows "ok s2 \<and> frame s2 = frame s \<and> content s2 = last_n cap (content s @ xs @ ys)"
  using push_list [OF assms(1), of "xs @ ys"] assms(2,3) by (auto simp: ofold_append)

end

end
