(* ===== verification/Parser.thy ===== *)
theory Parser
  imports Prelude
begin

section \<open>The parser of the terminal's input (libvterm/src/parser.c)\<close>

text \<open>
  The bytes a host sends are a mixture of text, control characters and strings that start with an escape
  character. \<open>vterm_push_bytes\<close> gets them in chunks as they were read; a string that is cut by the end
  of a chunk is kept in \<open>strbuffer\<close>. The parser calls the terminal state's functions and then, an
  addition of this program, a second set of functions: those of \<open>main.c\<close>.

  A chunk is an array (\<open>mem\<close>) of which the first \<open>len\<close> bytes are new; pointers into it are offsets. The
  functions called get the memory from a pointer on and a length. The one for device control strings may
  write into that memory, so it hands it back.
\<close>

subsection \<open>State\<close>

datatype parser_state = NORMAL | CSI | OSC | DCS | ESC | ESC_IN_OSC | ESC_IN_DCS

record 's callbacks =
  cb_text :: "(byte list \<Rightarrow> nat \<Rightarrow> 's \<Rightarrow> (nat \<times> 's) option) option"
  cb_control :: "(byte \<Rightarrow> 's \<Rightarrow> (bool \<times> 's) option) option"
  cb_escape :: "(byte list \<Rightarrow> nat \<Rightarrow> 's \<Rightarrow> (bool \<times> 's) option) option"
  cb_csi :: "(byte list option \<Rightarrow> int list \<Rightarrow> byte list option \<Rightarrow> byte \<Rightarrow> 's \<Rightarrow> (bool \<times> 's) option) option"
  cb_osc :: "(byte list \<Rightarrow> nat \<Rightarrow> 's \<Rightarrow> (bool \<times> 's) option) option"
  cb_dcs :: "(byte list \<Rightarrow> nat \<Rightarrow> 's \<Rightarrow> (bool \<times> byte list \<times> 's) option) option"

text \<open>
  A field is \<^const>\<open>None\<close> for a null pointer. \<open>'s\<close> is the state the functions work on (\<open>cbdata\<close>). The
  text function says how many bytes it has used.
\<close>

record 's vterm =
  is_utf8 :: bool
  parser_state :: parser_state
  strbuffer :: "byte list"
  strbuffer_cur :: nat
  cbdata :: 's

text \<open>\<open>vterm_new\<close> allocates and clears 1024000 bytes for \<open>strbuffer\<close>.\<close>

definition strbuffer_size :: nat where "strbuffer_size = 1024000"

definition vterm_new :: "'s \<Rightarrow> 's vterm" where
  "vterm_new s = \<lparr>is_utf8 = False, parser_state = NORMAL, strbuffer = replicate strbuffer_size 0, strbuffer_cur = 0, cbdata = s\<rparr>"

definition vterm_parser_set_utf8 :: "bool \<Rightarrow> 's vterm \<Rightarrow> 's vterm" where
  "vterm_parser_set_utf8 b vt = vt\<lparr>is_utf8 := b\<rparr>"

subsection \<open>Strings\<close>

definition do_control :: "'s callbacks \<Rightarrow> byte \<Rightarrow> 's vterm \<Rightarrow> 's vterm option" where
  "do_control cbs control vt = (case cb_control cbs of
       None \<Rightarrow> Some vt
     | Some f \<Rightarrow> do { (handled, s) \<leftarrow> f control (cbdata vt); Some (vt\<lparr>cbdata := s\<rparr>) })"

text \<open>\<open>strncpy\<close>: it stops reading at a NUL and fills up with NULs.\<close>

fun strncpy :: "nat \<Rightarrow> byte list \<Rightarrow> byte list option" where
  "strncpy 0 src = Some []"
| "strncpy (Suc n) [] = None"
| "strncpy (Suc n) (c # cs) = (if c = 0 then Some (replicate (Suc n) 0) else map_option (Cons c) (strncpy n cs))"

definition append_strbuffer :: "byte list \<Rightarrow> nat \<Rightarrow> 's vterm \<Rightarrow> 's vterm option" where
  "append_strbuffer str len0 vt =
     (let len = min len0 (length (strbuffer vt) - strbuffer_cur vt)
      in if len > 0 then do {
           bytes \<leftarrow> strncpy len str;
           Some (vt\<lparr>strbuffer := take (strbuffer_cur vt) (strbuffer vt) @ bytes @ drop (strbuffer_cur vt + len) (strbuffer vt),
                    strbuffer_cur := strbuffer_cur vt + len\<rparr>) }
         else Some vt)"

text \<open>
  The parameters of a control sequence. \<open>csi_leader\<close> takes the leader bytes (its second component says
  where it stopped); \<open>csi_args_loop\<close> goes on with the arguments: how many bytes are used, and the
  arguments, which are C \<open>long\<close>s whose overflow is undefined.
\<close>

definition CSI_ARGS_MAX :: nat where "CSI_ARGS_MAX = 16"
definition CSI_LEADER_MAX :: nat where "CSI_LEADER_MAX = 16"
definition CSI_INTERMED_MAX :: nat where "CSI_INTERMED_MAX = 16"
definition CSI_ARG_MISSING :: int where "CSI_ARG_MISSING = 2 ^ 31 - 1"
definition CSI_ARG_FLAG_MORE :: int where "CSI_ARG_FLAG_MORE = - (2 ^ 31)"

definition is_leader :: "byte \<Rightarrow> bool" where
  "is_leader c \<longleftrightarrow> 0x3c \<le> c \<and> c \<le> 0x3f"

definition csi_leader :: "byte list \<Rightarrow> byte list \<times> nat" where
  "csi_leader args = (let l = takeWhile is_leader args in (take (CSI_LEADER_MAX - 1) l, length l))"

definition csi_argcount :: "byte list \<Rightarrow> nat" where
  "csi_argcount rest = min CSI_ARGS_MAX (1 + length (filter (\<lambda>c. c = 0x3b \<or> c = 0x3a) rest))"

definition long_range :: "int \<Rightarrow> bool" where
  "long_range n \<longleftrightarrow> - (2 ^ 63) \<le> n \<and> n < 2 ^ 63"

fun csi_args_loop :: "nat \<Rightarrow> byte list \<Rightarrow> nat \<Rightarrow> int list \<Rightarrow> (nat \<times> int list) option" where
  "csi_args_loop argcount [] argi vs = Some (0, vs)"
| "csi_args_loop argcount (c # cs) argi vs =
     (if \<not> argi < argcount then Some (0, vs)
      else if 0x30 \<le> c \<and> c \<le> 0x39 then do {
        v \<leftarrow> arr_get vs (int argi);
        let v1 = (if v = CSI_ARG_MISSING then 0 else v) * 10;
        guard (long_range v1);
        let v2 = v1 + (int (unat c) - 48);
        guard (long_range v2);
        (n, vs') \<leftarrow> csi_args_loop argcount cs argi (vs[argi := v2]);
        Some (Suc n, vs') }
      else if c = 0x3a then do {
        v \<leftarrow> arr_get vs (int argi);
        (n, vs') \<leftarrow> csi_args_loop argcount cs (Suc argi) (vs[argi := v OR CSI_ARG_FLAG_MORE]);
        Some (Suc n, vs') }
      else if c = 0x3b then do {
        (n, vs') \<leftarrow> csi_args_loop argcount cs (Suc argi) vs;
        Some (Suc n, vs') }
      else Some (0, vs))"

definition csi_intermed :: "byte list \<Rightarrow> byte list" where
  "csi_intermed rest = take (CSI_INTERMED_MAX - 1) (takeWhile (\<lambda>c. c AND 0xf0 = 0x20) rest)"

text \<open>What the callback gets: leader and intermediate bytes, null when there are none, and the arguments.\<close>

definition csi_parse :: "byte list \<Rightarrow> (byte list option \<times> int list \<times> byte list option) option" where
  "csi_parse args = do {
     let (leader, i) = csi_leader args;
     let argcount = csi_argcount (drop i args);
     (n, csi_args) \<leftarrow> csi_args_loop argcount (drop (length leader) args) 0 (replicate argcount CSI_ARG_MISSING);
     let intermed = csi_intermed (drop (length leader + n) args);
     Some (if leader = [] then None else Some leader, csi_args, if intermed = [] then None else Some intermed) }"

definition do_string_csi :: "'s callbacks \<Rightarrow> 's callbacks \<Rightarrow> byte list \<Rightarrow> byte \<Rightarrow> 's vterm \<Rightarrow> 's vterm option" where
  "do_string_csi cbs backup args command vt = do {
     (leader, csi_args, intermed) \<leftarrow> csi_parse args;
     s1 \<leftarrow> (case cb_csi cbs of None \<Rightarrow> Some (cbdata vt) | Some f \<Rightarrow> map_option snd (f leader csi_args intermed command (cbdata vt)));
     s2 \<leftarrow> (case cb_csi backup of None \<Rightarrow> Some s1 | Some f \<Rightarrow> map_option snd (f leader csi_args intermed command s1));
     Some (vt\<lparr>cbdata := s2\<rparr>) }"

text \<open>
  A string that is complete: \<open>off\<close> and \<open>len\<close> say where its last part is in the chunk; the first part, if
  there is one, is in \<open>strbuffer\<close>. Only \<open>vterm_push_bytes\<close> calls this, never with a null pointer. The
  result is the number of bytes of text used, the chunk and the state.
\<close>

definition do_text :: "'s callbacks \<Rightarrow> 's callbacks \<Rightarrow> byte list \<Rightarrow> nat \<Rightarrow> 's vterm \<Rightarrow> (nat \<times> 's vterm) option" where
  "do_text cbs backup str len vt = (case cb_text cbs of
       None \<Rightarrow> Some (0, vt)
     | Some f \<Rightarrow> do {
         (eaten, s1) \<leftarrow> f str len (cbdata vt);
         if eaten = 0 then Some (0, vt\<lparr>cbdata := s1\<rparr>)
         else do {
           s2 \<leftarrow> (case cb_text backup of None \<Rightarrow> Some s1 | Some g \<Rightarrow> map_option snd (g str eaten s1));
           Some (eaten, vt\<lparr>cbdata := s2\<rparr>) } })"

text \<open>For escape sequences and operating system commands the second set of functions goes first.\<close>

definition do_both :: "(byte list \<Rightarrow> nat \<Rightarrow> 's \<Rightarrow> (bool \<times> 's) option) option \<Rightarrow> (byte list \<Rightarrow> nat \<Rightarrow> 's \<Rightarrow> (bool \<times> 's) option) option
    \<Rightarrow> byte list \<Rightarrow> nat \<Rightarrow> 's vterm \<Rightarrow> 's vterm option" where
  "do_both cb backup str len vt = do {
     s1 \<leftarrow> (case backup of None \<Rightarrow> Some (cbdata vt) | Some g \<Rightarrow> map_option snd (g str len (cbdata vt)));
     s2 \<leftarrow> (case cb of None \<Rightarrow> Some s1 | Some f \<Rightarrow> map_option snd (f str len s1));
     Some (vt\<lparr>cbdata := s2\<rparr>) }"

definition do_dcs :: "'s callbacks \<Rightarrow> 's callbacks \<Rightarrow> byte list \<Rightarrow> nat \<Rightarrow> 's vterm \<Rightarrow> (byte list \<times> 's vterm) option" where
  "do_dcs cbs backup str len vt = do {
     (handled, str1, s1) \<leftarrow> (case cb_dcs cbs of None \<Rightarrow> Some (False, str, cbdata vt) | Some f \<Rightarrow> f str len (cbdata vt));
     (str2, s2) \<leftarrow> (if handled then Some (str1, s1)
        else case cb_dcs backup of None \<Rightarrow> Some (str1, s1) | Some g \<Rightarrow> map_option snd (g str1 len s1));
     Some (str2, vt\<lparr>cbdata := s2\<rparr>) }"

definition do_string_at :: "'s callbacks \<Rightarrow> 's callbacks \<Rightarrow> byte list \<Rightarrow> nat \<Rightarrow> 's vterm \<Rightarrow> (nat \<times> byte list \<times> 's vterm) option" where
  "do_string_at cbs backup str len vt = (case parser_state vt of
       NORMAL \<Rightarrow> do { (eaten, vt1) \<leftarrow> do_text cbs backup str len vt; Some (eaten, str, vt1) }
     | ESC \<Rightarrow>
         do { c \<leftarrow> arr_get str 0;
              if len = 1 \<and> 0x40 \<le> c \<and> c < 0x60
              then do { vt1 \<leftarrow> do_control cbs (c + 0x40) vt; Some (0, str, vt1) }
              else do { vt1 \<leftarrow> do_both (cb_escape cbs) (cb_escape backup) str len vt; Some (0, str, vt1) } }
     | CSI \<Rightarrow>
         do { guard (0 < len);
              command \<leftarrow> arr_get str (int len - 1);
              vt1 \<leftarrow> do_string_csi cbs backup (take (len - 1) str) command vt;
              Some (0, str, vt1) }
     | OSC \<Rightarrow> do { vt1 \<leftarrow> do_both (cb_osc cbs) (cb_osc backup) str len vt; Some (0, str, vt1) }
     | DCS \<Rightarrow> do { (str1, vt1) \<leftarrow> do_dcs cbs backup str len vt; Some (0, str1, vt1) }
     | _ \<Rightarrow> Some (0, str, vt))"

definition do_string :: "'s callbacks \<Rightarrow> 's callbacks \<Rightarrow> byte list \<Rightarrow> nat \<Rightarrow> nat \<Rightarrow> 's vterm \<Rightarrow> (nat \<times> byte list \<times> 's vterm) option" where
  "do_string cbs backup mem off len vt =
     (if strbuffer_cur vt \<noteq> 0 then do {
        vt1 \<leftarrow> append_strbuffer (drop off mem) len vt;
        (eaten, str, vt2) \<leftarrow> do_string_at cbs backup (strbuffer vt1) (strbuffer_cur vt1) (vt1\<lparr>strbuffer_cur := 0\<rparr>);
        Some (eaten, mem, vt2\<lparr>strbuffer := str\<rparr>) }
      else do {
        (eaten, str, vt1) \<leftarrow> do_string_at cbs backup (drop off mem) len vt;
        Some (eaten, take off mem @ str, vt1) })"

subsection \<open>The bytes of a chunk\<close>

text \<open>
  The loop's variables are the position, the pointer \<open>string_start\<close> (an offset, \<^const>\<open>None\<close> for null),
  the chunk and the state. A byte hands back how many further bytes are skipped, or \<^const>\<open>None\<close> when the
  loop is left (\<open>goto pause\<close>). Lengths are computed in \<open>size_t\<close>.
\<close>

type_synonym 's push = "nat option \<times> byte list \<times> 's vterm"

definition frag_len :: "nat \<Rightarrow> nat \<Rightarrow> int \<Rightarrow> nat" where
  "frag_len pos start extra = nat ((int pos - int start + extra) mod 2 ^ 64)"

definition ENTER_STRING_STATE :: "parser_state \<Rightarrow> nat \<Rightarrow> 's push \<Rightarrow> 's push" where
  "ENTER_STRING_STATE st pos = (\<lambda>(start, mem, vt). (Some (pos + 1), mem, vt\<lparr>parser_state := st\<rparr>))"

definition ENTER_NORMAL_STATE :: "'s push \<Rightarrow> 's push" where
  "ENTER_NORMAL_STATE = (\<lambda>(start, mem, vt). (None, mem, vt\<lparr>parser_state := NORMAL\<rparr>))"

definition save_fragment :: "nat \<Rightarrow> 's push \<Rightarrow> 's push option" where
  "save_fragment pos = (\<lambda>(start, mem, vt).
     if parser_state vt \<noteq> NORMAL then do {
       s \<leftarrow> start;
       vt1 \<leftarrow> append_strbuffer (drop s mem) (frag_len pos s 0) vt;
       Some (start, mem, vt1) }
     else Some (start, mem, vt))"

definition after_fragment :: "nat \<Rightarrow> 's push \<Rightarrow> 's push" where
  "after_fragment pos = (\<lambda>(start, mem, vt). (if parser_state vt \<noteq> NORMAL then Some (pos + 1) else start, mem, vt))"

definition finish_string :: "'s callbacks \<Rightarrow> 's callbacks \<Rightarrow> nat \<Rightarrow> int \<Rightarrow> 's push \<Rightarrow> 's push option" where
  "finish_string cbs backup pos extra = (\<lambda>(start, mem, vt). do {
     s \<leftarrow> start;
     (eaten, mem1, vt1) \<leftarrow> do_string cbs backup mem s (frag_len pos s extra) vt;
     Some (ENTER_NORMAL_STATE (start, mem1, vt1)) })"

text \<open>A byte behind an escape character, then the other states.\<close>

definition escape_byte :: "'s callbacks \<Rightarrow> 's callbacks \<Rightarrow> nat \<Rightarrow> byte \<Rightarrow> 's push \<Rightarrow> 's push option" where
  "escape_byte cbs backup pos c p =
     (if c = 0x50 then Some (ENTER_STRING_STATE DCS pos p)
      else if c = 0x5b then Some (ENTER_STRING_STATE CSI pos p)
      else if c = 0x5d then Some (ENTER_STRING_STATE OSC pos p)
      else if 0x30 \<le> c \<and> c < 0x7f then finish_string cbs backup pos 1 p
      else Some p)"

definition string_byte :: "'s callbacks \<Rightarrow> 's callbacks \<Rightarrow> nat \<Rightarrow> byte \<Rightarrow> 's push \<Rightarrow> 's push option" where
  "string_byte cbs backup pos c = (\<lambda>(start, mem, vt). case parser_state vt of
       ESC_IN_OSC \<Rightarrow> if c = 0x5c then finish_string cbs backup pos (- 1) (start, mem, vt\<lparr>parser_state := OSC\<rparr>)
                     else escape_byte cbs backup pos c (Some pos, mem, vt\<lparr>parser_state := ESC\<rparr>)
     | ESC_IN_DCS \<Rightarrow> if c = 0x5c then finish_string cbs backup pos (- 1) (start, mem, vt\<lparr>parser_state := DCS\<rparr>)
                     else escape_byte cbs backup pos c (Some pos, mem, vt\<lparr>parser_state := ESC\<rparr>)
     | ESC \<Rightarrow> escape_byte cbs backup pos c (start, mem, vt)
     | CSI \<Rightarrow> if 0x40 \<le> c \<and> c \<le> 0x7f then finish_string cbs backup pos 1 (start, mem, vt) else Some (start, mem, vt)
     | _ \<Rightarrow> if c = 0x07 \<or> c = 0x9c \<and> \<not> is_utf8 vt then finish_string cbs backup pos 0 (start, mem, vt) else Some (start, mem, vt))"

definition c1_byte :: "'s callbacks \<Rightarrow> nat \<Rightarrow> byte \<Rightarrow> 's push \<Rightarrow> 's push option" where
  "c1_byte cbs pos c p =
     (if c = 0x90 then Some (ENTER_STRING_STATE DCS pos p)
      else if c = 0x9b then Some (ENTER_STRING_STATE CSI pos p)
      else if c = 0x9d then Some (ENTER_STRING_STATE OSC pos p)
      else (let (start, mem, vt) = p in do { vt1 \<leftarrow> do_control cbs c vt; Some (start, mem, vt1) }))"

definition push_byte :: "'s callbacks \<Rightarrow> 's callbacks \<Rightarrow> nat \<Rightarrow> nat \<Rightarrow> 's push \<Rightarrow> (nat option \<times> 's push) option" where
  "push_byte cbs backup len pos = (\<lambda>(start, mem, vt). do {
     c \<leftarrow> arr_get mem (int pos);
     let st = parser_state vt;
     if c = 0x00 \<or> c = 0x7f then do {
       p \<leftarrow> save_fragment pos (start, mem, vt);
       Some (Some 0, after_fragment pos p) }
     else if c = 0x18 \<or> c = 0x1a then Some (Some 0, ENTER_NORMAL_STATE (start, mem, vt))
     else if c = 0x1b then
       Some (Some 0, if st = OSC then (start, mem, vt\<lparr>parser_state := ESC_IN_OSC\<rparr>)
                     else if st = DCS then (start, mem, vt\<lparr>parser_state := ESC_IN_DCS\<rparr>)
                     else ENTER_STRING_STATE ESC pos (start, mem, vt))
     else if c < 0x20 \<and> \<not> (c = 0x07 \<and> (st = OSC \<or> st = DCS)) then do {
       (start1, mem1, vt1) \<leftarrow> save_fragment pos (start, mem, vt);
       vt2 \<leftarrow> do_control cbs c vt1;
       Some (Some 0, after_fragment pos (start1, mem1, vt2)) }
     else if st \<noteq> NORMAL then do {
       p \<leftarrow> string_byte cbs backup pos c (start, mem, vt);
       Some (Some 0, p) }
     else if 0x80 \<le> c \<and> c < 0xa0 \<and> \<not> is_utf8 vt then do {
       p \<leftarrow> c1_byte cbs pos c (start, mem, vt);
       Some (Some 0, p) }
     else do {
       (eaten, mem1, vt1) \<leftarrow> do_string cbs backup mem pos (len - pos) vt;
       if eaten = 0 then Some (None, Some pos, mem1, vt1)
       else Some (Some (eaten - 1), start, mem1, vt1) } })"

function push_loop :: "'s callbacks \<Rightarrow> 's callbacks \<Rightarrow> nat \<Rightarrow> nat \<Rightarrow> 's push \<Rightarrow> 's push option" where
  "push_loop cbs backup len pos p =
     (if pos < len then
        (case push_byte cbs backup len pos p of
           None \<Rightarrow> None
         | Some (None, p1) \<Rightarrow> Some p1
         | Some (Some skip, p1) \<Rightarrow> push_loop cbs backup len (pos + 1 + skip) p1)
      else Some p)"
  by pat_completeness auto
termination
  by (relation "measure (\<lambda>(cbs, backup, len, pos, p). len - pos)") auto

declare push_loop.simps [simp del]

definition vterm_push_bytes :: "'s callbacks \<Rightarrow> 's callbacks \<Rightarrow> byte list \<Rightarrow> nat \<Rightarrow> 's vterm \<Rightarrow> (byte list \<times> 's vterm) option" where
  "vterm_push_bytes cbs backup mem len vt = do {
     (start, mem1, vt1) \<leftarrow> push_loop cbs backup len 0 (if parser_state vt = NORMAL then None else Some 0, mem, vt);
     vt2 \<leftarrow> (case start of
        None \<Rightarrow> Some vt1
      | Some s \<Rightarrow> if s < len then append_strbuffer (drop s mem1) (len - s) vt1 else Some vt1);
     Some (mem1, vt2) }"

subsection \<open>The buffer for cut strings\<close>

definition vterm_ok :: "'s vterm \<Rightarrow> bool" where
  "vterm_ok vt \<longleftrightarrow> strbuffer_cur vt \<le> length (strbuffer vt)"

lemma strncpy_length: "strncpy n src = Some bytes \<Longrightarrow> length bytes = n"
  by (induction n src arbitrary: bytes rule: strncpy.induct) (auto split: if_splits)

lemma strncpy_run: "0 \<notin> set xs \<Longrightarrow> strncpy (length xs) (xs @ ys) = Some xs"
  by (induction xs) auto

lemma append_strbuffer_ok:
  assumes "append_strbuffer str len vt = Some vt1" "vterm_ok vt"
  shows "vterm_ok vt1 \<and> length (strbuffer vt1) = length (strbuffer vt) \<and> parser_state vt1 = parser_state vt
    \<and> is_utf8 vt1 = is_utf8 vt \<and> cbdata vt1 = cbdata vt"
  using assms by (auto simp: append_strbuffer_def vterm_ok_def Let_def dest!: strncpy_length split: if_splits bind_splits)

text \<open>What one byte of a chunk can do.\<close>

lemma push_byte_cases:
  assumes "push_byte cbs backup len pos (start, mem, vt) = Some (r, p)"
  obtains (frag) p0 where "save_fragment pos (start, mem, vt) = Some p0" "p = after_fragment pos p0"
    | (cancel) "p = ENTER_NORMAL_STATE (start, mem, vt)"
    | (escape) st where "p = ENTER_STRING_STATE st pos (start, mem, vt)"
    | (in_string) st where "parser_state vt \<noteq> NORMAL" "p = (start, mem, vt\<lparr>parser_state := st\<rparr>)"
    | (control) c s1 m1 vt1 vt2 where "save_fragment pos (start, mem, vt) = Some (s1, m1, vt1)"
        "do_control cbs c vt1 = Some vt2" "p = after_fragment pos (s1, m1, vt2)"
    | (string) c where "parser_state vt \<noteq> NORMAL" "string_byte cbs backup pos c (start, mem, vt) = Some p"
    | (c1) c where "parser_state vt = NORMAL" "c1_byte cbs pos c (start, mem, vt) = Some p"
    | (printed) n m1 vt1 where "parser_state vt = NORMAL" "do_string cbs backup mem pos (len - pos) vt = Some (n, m1, vt1)"
        "p = (if n = 0 then Some pos else start, m1, vt1)"
proof -
  obtain c where c: "arr_get mem (int pos) = Some c" using assms by (auto simp: push_byte_def split: bind_splits)
  let ?st = "parser_state vt"
  consider "c = 0 \<or> c = 0x7f" | "c = 0x18 \<or> c = 0x1a" | "c = 0x1b"
    | "c < 0x20 \<and> \<not> (c = 0x07 \<and> (?st = OSC \<or> ?st = DCS))" "\<not> (c = 0 \<or> c = 0x7f)" "\<not> (c = 0x18 \<or> c = 0x1a)" "c \<noteq> 0x1b"
    | "\<not> (c = 0 \<or> c = 0x7f)" "\<not> (c = 0x18 \<or> c = 0x1a)" "c \<noteq> 0x1b" "\<not> (c < 0x20 \<and> \<not> (c = 0x07 \<and> (?st = OSC \<or> ?st = DCS)))"
    by blast
  then show thesis
  proof cases
    case 1
    with assms c obtain p0 where "save_fragment pos (start, mem, vt) = Some p0" "p = after_fragment pos p0"
      by (auto simp: push_byte_def Let_def split: bind_splits)
    then show thesis by (rule frag)
  next
    case 2
    with assms c show thesis by (intro cancel) (auto simp: push_byte_def Let_def)
  next
    case 3
    consider "?st = OSC" | "?st = DCS" | "?st \<noteq> OSC" "?st \<noteq> DCS" by blast
    then show thesis
    proof cases
      case a: 1
      with 3 assms c show thesis by (intro in_string [of ESC_IN_OSC]) (auto simp: push_byte_def Let_def)
    next
      case a: 2
      with 3 assms c show thesis by (intro in_string [of ESC_IN_DCS]) (auto simp: push_byte_def Let_def)
    next
      case a: 3
      with 3 assms c show thesis by (intro escape [of ESC]) (auto simp: push_byte_def Let_def)
    qed
  next
    case 4
    with assms c obtain s1 m1 vt1 vt2 where "save_fragment pos (start, mem, vt) = Some (s1, m1, vt1)"
      "do_control cbs c vt1 = Some vt2" "p = after_fragment pos (s1, m1, vt2)"
      by (auto simp: push_byte_def Let_def split: bind_splits)
    then show thesis by (rule control)
  next
    case 5
    show thesis
    proof (cases "?st = NORMAL")
      case False
      with 5 assms c have "string_byte cbs backup pos c (start, mem, vt) = Some p"
        by (auto simp: push_byte_def Let_def split: bind_splits)
      with False show thesis by (rule string)
    next
      case True
      then consider "c1_byte cbs pos c (start, mem, vt) = Some p"
        | n m1 vt1 where "do_string cbs backup mem pos (len - pos) vt = Some (n, m1, vt1)"
            "p = (if n = 0 then Some pos else start, m1, vt1)"
        using 5 assms c by (auto simp: push_byte_def Let_def split: bind_splits if_splits)
      then show thesis
      proof cases
        case 1
        with True show thesis by (rule c1)
      next
        case (2 n m1 vt1)
        with True show thesis by (rule printed)
      qed
    qed
  qed
qed

text \<open>What the parser relies on: handlers of device control strings leave the size of the memory as it is.\<close>

locale string_handlers =
  fixes cbs backup :: "'s callbacks"
  assumes dcs_law: "cb_dcs cbs = Some f \<Longrightarrow> f str len s = Some (h, str', s') \<Longrightarrow> length str' = length str"
    and backup_law: "cb_dcs backup = Some f \<Longrightarrow> f str len s = Some (h, str', s') \<Longrightarrow> length str' = length str"
begin

lemma do_dcs_keeps: "do_dcs cbs backup str len vt = Some (str', vt') \<Longrightarrow> length str' = length str \<and> (\<exists>s. vt' = vt\<lparr>cbdata := s\<rparr>)"
  by (auto simp: do_dcs_def split: bind_splits option.splits if_splits) (metis dcs_law backup_law)+

lemma do_string_at_keeps:
  "do_string_at cbs backup str len vt = Some (n, str', vt') \<Longrightarrow> length str' = length str \<and> (\<exists>s. vt' = vt\<lparr>cbdata := s\<rparr>)"
  by (auto simp: do_string_at_def do_text_def do_both_def do_control_def do_string_csi_def
      split: parser_state.splits bind_splits option.splits if_splits dest: do_dcs_keeps)
    (metis vterm.surjective vterm.update_convs(5))+

lemma do_string_keeps:
  assumes "do_string cbs backup mem off len vt = Some (n, mem', vt')" "vterm_ok vt" "off \<le> length mem"
  shows "length mem' = length mem \<and> vterm_ok vt' \<and> length (strbuffer vt') = length (strbuffer vt) \<and> parser_state vt' = parser_state vt"
proof (cases "strbuffer_cur vt = 0")
  case True
  with assms obtain str where "do_string_at cbs backup (drop off mem) len vt = Some (n, str, vt')" "mem' = take off mem @ str"
    by (auto simp: do_string_def split: bind_splits)
  with do_string_at_keeps [OF this(1)] assms(2,3) show ?thesis by (auto simp: vterm_ok_def)
next
  case False
  with assms(1) obtain vt1 str vt2 where 1: "append_strbuffer (drop off mem) len vt = Some vt1"
    and 2: "do_string_at cbs backup (strbuffer vt1) (strbuffer_cur vt1) (vt1\<lparr>strbuffer_cur := 0\<rparr>) = Some (n, str, vt2)"
    and 3: "mem' = mem" "vt' = vt2\<lparr>strbuffer := str\<rparr>"
    by (auto simp: do_string_def split: bind_splits)
  from append_strbuffer_ok [OF 1 assms(2)] do_string_at_keeps [OF 2] 3 show ?thesis by (auto simp: vterm_ok_def)
qed

text \<open>The invariant of the loop: the pointer is set whenever a string is being read, and points into the chunk.\<close>

definition push_ok :: "nat \<Rightarrow> nat \<Rightarrow> nat \<Rightarrow> 's push \<Rightarrow> bool" where
  "push_ok m b pos = (\<lambda>(start, mem, vt). length mem = m \<and> vterm_ok vt \<and> length (strbuffer vt) = b
     \<and> (case start of None \<Rightarrow> parser_state vt = NORMAL | Some s \<Rightarrow> s \<le> pos))"

lemma finish_string_keeps:
  assumes "finish_string cbs backup pos e (start, mem, vt) = Some p" "vterm_ok vt" "\<forall>s. start = Some s \<longrightarrow> s \<le> length mem"
  shows "push_ok (length mem) (length (strbuffer vt)) pos' p"
  using assms by (auto simp: finish_string_def ENTER_NORMAL_STATE_def push_ok_def vterm_ok_def split: bind_splits dest!: do_string_keeps)

lemma escape_byte_keeps:
  assumes "escape_byte cbs backup pos c (Some s, mem, vt) = Some p" "vterm_ok vt" "s \<le> pos" "pos < length mem"
  shows "push_ok (length mem) (length (strbuffer vt)) (Suc pos) p"
  using assms finish_string_keeps [of pos 1 "Some s" mem vt p "Suc pos"]
  by (auto simp: escape_byte_def ENTER_STRING_STATE_def push_ok_def vterm_ok_def split: if_splits)

lemma string_byte_keeps:
  assumes "string_byte cbs backup pos c (start, mem, vt) = Some p" "push_ok m b pos (start, mem, vt)" "pos < m" "parser_state vt \<noteq> NORMAL"
  shows "push_ok m b (Suc pos) p"
proof -
  obtain s where s: "start = Some s" "s \<le> pos" and v: "vterm_ok vt" "m = length mem" "b = length (strbuffer vt)"
    using assms(2,4) by (auto simp: push_ok_def split: option.splits)
  have v': "vterm_ok (vt\<lparr>parser_state := st\<rparr>)" for st using v(1) by (simp add: vterm_ok_def)
  have f: "push_ok m b (Suc pos) p" if "finish_string cbs backup pos e (start, mem, vt\<lparr>parser_state := st\<rparr>) = Some p" for e st
    using finish_string_keeps [OF that v'] s assms(3) v by auto
  have f0: "push_ok m b (Suc pos) p" if "finish_string cbs backup pos e (start, mem, vt) = Some p" for e
    using finish_string_keeps [OF that v(1)] s assms(3) v by auto
  have g: "push_ok m b (Suc pos) p" if "escape_byte cbs backup pos c (Some s', mem, vt\<lparr>parser_state := st\<rparr>) = Some p" "s' \<le> pos" for s' st
    using escape_byte_keeps [OF that(1) v' that(2)] assms(3) v by auto
  have g0: "push_ok m b (Suc pos) p" if "escape_byte cbs backup pos c (Some s, mem, vt) = Some p"
    using escape_byte_keeps [OF that v(1) s(2)] assms(3) v by auto
  have i: "push_ok m b (Suc pos) (start, mem, vt)" using s v by (simp add: push_ok_def)
  show ?thesis using assms(1,4) i
    by (auto simp: string_byte_def s(1) [symmetric] split: parser_state.splits if_splits intro: f f0 g g0 dest: s(1) [THEN ssubst])
qed

lemma save_fragment_keeps:
  assumes "save_fragment pos (start, mem, vt) = Some (start1, mem1, vt1)" "vterm_ok vt"
  shows "start1 = start \<and> mem1 = mem \<and> vterm_ok vt1 \<and> length (strbuffer vt1) = length (strbuffer vt) \<and> parser_state vt1 = parser_state vt"
  using assms by (auto simp: save_fragment_def split: if_splits bind_splits dest!: append_strbuffer_ok)

lemma do_control_keeps: "do_control cb c vt = Some vt1 \<Longrightarrow> \<exists>s. vt1 = vt\<lparr>cbdata := s\<rparr>"
  by (cases vt) (auto simp: do_control_def split: option.splits bind_splits)

lemma c1_byte_keeps:
  assumes "c1_byte cbs pos c (start, mem, vt) = Some p" "push_ok m b pos (start, mem, vt)"
  shows "push_ok m b (Suc pos) p"
  using assms by (auto simp: c1_byte_def ENTER_STRING_STATE_def push_ok_def vterm_ok_def
      split: if_splits bind_splits option.splits dest!: do_control_keeps)

lemma push_byte_keeps:
  assumes "push_byte cbs backup len pos (start, mem, vt) = Some (r, p)" "push_ok m b pos (start, mem, vt)" "pos < m"
  shows "push_ok m b (Suc pos) p"
proof -
  let ?st = "parser_state vt"
  from assms(2) have v: "vterm_ok vt" "length mem = m" "length (strbuffer vt) = b" "pos \<le> length mem"
    "start = None \<Longrightarrow> ?st = NORMAL" "\<And>s. start = Some s \<Longrightarrow> s \<le> pos"
    using assms(3) by (auto simp: push_ok_def split: option.splits)
  have a: "push_ok m b (Suc pos) (after_fragment pos (start, mem, vt1))"
    if "vterm_ok vt1" "length (strbuffer vt1) = b" "parser_state vt1 = ?st" for vt1
    using that v by (auto simp: push_ok_def after_fragment_def split: option.splits)
  from assms(1) show ?thesis
  proof (cases rule: push_byte_cases)
    case (frag p0)
    moreover obtain s1 m1 vt1 where "p0 = (s1, m1, vt1)" by (cases p0)
    ultimately show ?thesis using save_fragment_keeps [of pos start mem vt s1 m1 vt1] v a [of vt1] by auto
  next
    case cancel
    then show ?thesis using v by (simp add: push_ok_def ENTER_NORMAL_STATE_def vterm_ok_def)
  next
    case (escape st)
    then show ?thesis using v by (simp add: push_ok_def ENTER_STRING_STATE_def vterm_ok_def)
  next
    case (in_string st)
    then show ?thesis using v by (auto simp: push_ok_def vterm_ok_def split: option.splits)
  next
    case (control c s1 m1 vt1 vt2)
    with save_fragment_keeps [OF control(1) v(1)] do_control_keeps [OF control(2)] v(3) a show ?thesis
      by (auto simp: vterm_ok_def)
  next
    case (string c)
    then show ?thesis using string_byte_keeps assms(2,3) by blast
  next
    case (c1 c)
    then show ?thesis using c1_byte_keeps assms(2) by blast
  next
    case (printed n m1 vt1)
    with do_string_keeps [OF printed(2) v(1,4)] v show ?thesis
      by (auto simp: push_ok_def split: option.splits)
  qed
qed

lemma push_loop_keeps:
  "push_loop cbs backup len pos p = Some p' \<Longrightarrow> push_ok m b pos p \<Longrightarrow> len \<le> m \<Longrightarrow> \<exists>pos'. push_ok m b pos' p'"
proof (induction "len - pos" arbitrary: pos p rule: less_induct)
  case less
  show ?case
  proof (cases "pos < len")
    case False
    with less.prems show ?thesis by (auto simp: push_loop.simps [of cbs backup len pos p])
  next
    case True
    obtain start mem vt where p: "p = (start, mem, vt)" by (cases p)
    obtain r p1 where b1: "push_byte cbs backup len pos p = Some (r, p1)"
      using less.prems(1) True by (subst (asm) push_loop.simps) (auto split: option.splits)
    then have k: "push_ok m b (Suc pos) p1" using push_byte_keeps less.prems(2,3) True unfolding p by fastforce
    show ?thesis
    proof (cases r)
      case None
      then show ?thesis using less.prems(1) True b1 k by (subst (asm) push_loop.simps) auto
    next
      case (Some skip)
      have "push_ok m b (pos + 1 + skip) p1" using k by (cases p1) (auto simp: push_ok_def split: option.splits)
      moreover have "push_loop cbs backup len (pos + 1 + skip) p1 = Some p'"
        using less.prems(1) True b1 Some by (subst (asm) push_loop.simps) auto
      ultimately show ?thesis using less.hyps [of "pos + 1 + skip" p1] less.prems(3) True by auto
    qed
  qed
qed

lemma push_bytes_keeps:
  assumes "vterm_push_bytes cbs backup mem len vt = Some (mem', vt')" "vterm_ok vt" "len \<le> length mem"
  shows "vterm_ok vt' \<and> length (strbuffer vt') = length (strbuffer vt) \<and> length mem' = length mem"
proof -
  from assms(1) obtain start vt1 where 1: "push_loop cbs backup len 0 (if parser_state vt = NORMAL then None else Some 0, mem, vt) = Some (start, mem', vt1)"
    and e: "(case start of None \<Rightarrow> Some vt1
        | Some s \<Rightarrow> if s < len then append_strbuffer (drop s mem') (len - s) vt1 else Some vt1) = Some vt'"
    by (auto simp: vterm_push_bytes_def split: bind_splits)
  from e have 2: "vt' = vt1 \<or> (\<exists>s. append_strbuffer (drop s mem') (len - s) vt1 = Some vt')"
    by (cases start) (auto split: if_splits)
  have "push_ok (length mem) (length (strbuffer vt)) 0 (if parser_state vt = NORMAL then None else Some 0, mem, vt)"
    using assms(2) by (simp add: push_ok_def)
  from push_loop_keeps [OF 1 this assms(3)] have v: "vterm_ok vt1" "length (strbuffer vt1) = length (strbuffer vt)" "length mem' = length mem"
    by (auto simp: push_ok_def)
  from 2 show ?thesis
  proof
    assume "\<exists>s. append_strbuffer (drop s mem') (len - s) vt1 = Some vt'"
    then obtain s where "append_strbuffer (drop s mem') (len - s) vt1 = Some vt'" ..
    from append_strbuffer_ok [OF this v(1)] v show ?thesis by simp
  qed (use v in simp)
qed

end

subsection \<open>A recorder\<close>

text \<open>
  Functions that write down what they are called with: the demonstrations use them, and they show what a
  given input means. They use all of a text and leave control strings to the second set.
\<close>

datatype parser_call =
    PText "byte list"
  | PControl byte
  | PEscape "byte list"
  | PCsi "byte list option" "int list" "byte list option" byte
  | POsc "byte list"
  | PDcs "byte list"

definition recorder :: "parser_call list callbacks" where
  "recorder = \<lparr>cb_text = Some (\<lambda>str len s. Some (len, s @ [PText (take len str)])),
     cb_control = Some (\<lambda>c s. Some (True, s @ [PControl c])),
     cb_escape = Some (\<lambda>str len s. Some (True, s @ [PEscape (take len str)])),
     cb_csi = Some (\<lambda>leader args intermed c s. Some (True, s @ [PCsi leader args intermed c])),
     cb_osc = Some (\<lambda>str len s. Some (True, s @ [POsc (take len str)])),
     cb_dcs = Some (\<lambda>str len s. Some (False, str, s @ [PDcs (take len str)]))\<rparr>"

definition no_callbacks :: "'s callbacks" where
  "no_callbacks = \<lparr>cb_text = None, cb_control = None, cb_escape = None, cb_csi = None, cb_osc = None, cb_dcs = None\<rparr>"

lemma recorder_simps [simp]:
  "cb_text recorder = Some (\<lambda>str len s. Some (len, s @ [PText (take len str)]))"
  "cb_control recorder = Some (\<lambda>c s. Some (True, s @ [PControl c]))"
  "cb_escape recorder = Some (\<lambda>str len s. Some (True, s @ [PEscape (take len str)]))"
  "cb_csi recorder = Some (\<lambda>leader args intermed c s. Some (True, s @ [PCsi leader args intermed c]))"
  "cb_osc recorder = Some (\<lambda>str len s. Some (True, s @ [POsc (take len str)]))"
  "cb_dcs recorder = Some (\<lambda>str len s. Some (False, str, s @ [PDcs (take len str)]))"
  "cb_text no_callbacks = None" "cb_control no_callbacks = None" "cb_escape no_callbacks = None"
  "cb_csi no_callbacks = None" "cb_osc no_callbacks = None" "cb_dcs no_callbacks = None"
  by (simp_all add: recorder_def no_callbacks_def)

lemma vterm_new_simps [simp]:
  "is_utf8 (vterm_new s) = False" "parser_state (vterm_new s) = NORMAL" "strbuffer_cur (vterm_new s) = 0"
  "length (strbuffer (vterm_new s)) = strbuffer_size" "cbdata (vterm_new s) = s"
  by (simp_all add: vterm_new_def)

interpretation recording: string_handlers recorder no_callbacks
  by unfold_locales auto

end
