(* ===== verification/Chunks.thy ===== *)
theory Chunks
  imports Parser
begin

section \<open>Strings cut by the end of a chunk (libvterm/src/parser.c)\<close>

text \<open>
  What the host sends is read in chunks that may cut a control sequence or string anywhere. This theory
  follows the parser through such a string: it is understood as if it had come whole, with three
  exceptions that the source has and that are proved here too.
\<close>

lemma vterm_same [simp]:
  "strbuffer_cur vt = n \<Longrightarrow> vt\<lparr>strbuffer_cur := n\<rparr> = vt" "strbuffer vt = b \<Longrightarrow> vt\<lparr>strbuffer := b\<rparr> = vt"
  "parser_state vt = st \<Longrightarrow> vt\<lparr>parser_state := st\<rparr> = vt"
  by auto

lemma append_run:
  assumes "take (length w) (strbuffer vt) = w" "strbuffer_cur vt = length w" "length (w @ xs) \<le> length (strbuffer vt)" "0 \<notin> set xs"
  obtains sb where "append_strbuffer (xs @ ys) (length xs) vt = Some (vt\<lparr>strbuffer := sb, strbuffer_cur := length (w @ xs)\<rparr>)"
    "length sb = length (strbuffer vt)" "take (length (w @ xs)) sb = w @ xs"
proof (cases "xs = []")
  case True
  then show ?thesis using that [of "strbuffer vt"] assms by (simp add: append_strbuffer_def)
next
  case False
  then show ?thesis
    using that [of "w @ xs @ drop (length w + length xs) (strbuffer vt)"] assms strncpy_run [OF assms(4), of ys]
    by (simp add: append_strbuffer_def Let_def min_def)
qed

text \<open>A complete string arrives whole, wherever its parts are.\<close>

lemma do_string_run:
  assumes "take (length w) (strbuffer vt) = w" "strbuffer_cur vt = length w" "length (w @ xs) \<le> length (strbuffer vt)" "0 \<notin> set xs"
  obtains str sb where "take (length (w @ xs)) str = w @ xs" "w = [] \<Longrightarrow> str = xs @ ys" "length sb = length (strbuffer vt)"
    "do_string cbs backup (pre @ xs @ ys) (length pre) (length xs) vt =
      map_option (\<lambda>(n, str', v). if w = [] then (n, pre @ str', v) else (n, pre @ xs @ ys, v\<lparr>strbuffer := str'\<rparr>))
        (do_string_at cbs backup str (length (w @ xs)) (vt\<lparr>strbuffer := sb, strbuffer_cur := 0\<rparr>))"
proof (cases "w = []")
  case True
  show ?thesis
    by (rule that [of "xs @ ys" "strbuffer vt"])
      (use assms(2) True in \<open>auto simp: do_string_def map_option_case case_prod_beta split: option.split\<close>)
next
  case False
  obtain sb where sb: "append_strbuffer (xs @ ys) (length xs) vt = Some (vt\<lparr>strbuffer := sb, strbuffer_cur := length (w @ xs)\<rparr>)"
    "length sb = length (strbuffer vt)" "take (length (w @ xs)) sb = w @ xs" by (rule append_run [OF assms])
  show ?thesis
    by (rule that [OF sb(3) _ sb(2)])
      (use assms(2) False sb(1) in \<open>auto simp: do_string_def map_option_case case_prod_beta split: option.split\<close>)
qed

text \<open>Bytes that only lengthen the string being read.\<close>

fun plain :: "parser_state \<Rightarrow> bool \<Rightarrow> byte \<Rightarrow> bool" where
  "plain CSI utf8 c \<longleftrightarrow> 0x20 \<le> c \<and> c < 0x40"
| "plain OSC utf8 c \<longleftrightarrow> 0x20 \<le> c \<and> c \<noteq> 0x7f \<and> (utf8 \<or> c \<noteq> 0x9c)"
| "plain DCS utf8 c \<longleftrightarrow> 0x20 \<le> c \<and> c \<noteq> 0x7f \<and> (utf8 \<or> c \<noteq> 0x9c)"
| "plain _ utf8 c \<longleftrightarrow> False"

lemma plain_cases:
  assumes "plain st utf8 c"
  shows "st = CSI \<or> st = OSC \<or> st = DCS" "c \<noteq> 0" "c \<noteq> 0x7f" "c \<noteq> 0x18" "c \<noteq> 0x1a" "c \<noteq> 0x1b" "\<not> c < 0x20" "c \<noteq> 7"
proof -
  from assms show "st = CSI \<or> st = OSC \<or> st = DCS" by (cases st) auto
  from assms have g: "0x20 \<le> c" by (cases st) auto
  then have "32 \<le> unat c" by (simp add: word_le_nat_alt)
  then show "c \<noteq> 0" "c \<noteq> 0x18" "c \<noteq> 0x1a" "c \<noteq> 0x1b" "c \<noteq> 7" by auto
  show "\<not> c < 0x20" using g by simp
  show "c \<noteq> 0x7f" using assms by (cases st) (auto simp: word_less_nat_alt)
qed

lemma push_plain:
  assumes "plain (parser_state vt) (is_utf8 vt) c"
  shows "push_byte cbs backup len (length pre) (start, pre @ c # rest, vt) = Some (Some 0, start, pre @ c # rest, vt)"
proof -
  note p = plain_cases [OF assms]
  have "string_byte cbs backup (length pre) c (start, pre @ c # rest, vt) = Some (start, pre @ c # rest, vt)"
    using assms p(1,8) by (auto simp: string_byte_def)
  moreover have "parser_state vt \<noteq> NORMAL" using p(1) by auto
  ultimately show ?thesis using p(2-8) unfolding push_byte_def by (simp add: Let_def)
qed

lemma push_step: "push_byte cbs backup len pos p = Some (Some k, p1) \<Longrightarrow> pos < len \<Longrightarrow>
    push_loop cbs backup len pos p = push_loop cbs backup len (pos + 1 + k) p1"
  by (subst push_loop.simps) simp

lemma push_plain_run:
  assumes "\<forall>c\<in>set xs. plain (parser_state vt) (is_utf8 vt) c" "length pre + length xs \<le> len"
  shows "push_loop cbs backup len (length pre) (start, pre @ xs @ ys, vt) = push_loop cbs backup len (length pre + length xs) (start, pre @ xs @ ys, vt)"
  using assms
proof (induction xs arbitrary: pre)
  case (Cons x xs)
  have "push_byte cbs backup len (length pre) (start, pre @ x # (xs @ ys), vt) = Some (Some 0, start, pre @ x # (xs @ ys), vt)"
    by (rule push_plain) (use Cons.prems(1) in simp)
  from push_step [OF this] Cons.prems(2) Cons.IH [of "pre @ [x]"] Cons.prems(1) show ?case by simp
qed simp

text \<open>The beginning of a string: an escape character and the byte that says which kind it is.\<close>

fun introducer :: "parser_state \<Rightarrow> byte" where
  "introducer CSI = 0x5b"
| "introducer DCS = 0x50"
| "introducer _ = 0x5d"

lemma push_escape:
  assumes "parser_state vt = NORMAL" "length pre < len"
  shows "push_loop cbs backup len (length pre) (start, pre @ 27 # rest, vt)
    = push_loop cbs backup len (length pre + 1) (Some (length pre + 1), pre @ 27 # rest, vt\<lparr>parser_state := ESC\<rparr>)"
proof -
  have "push_byte cbs backup len (length pre) (start, pre @ 27 # rest, vt)
    = Some (Some 0, Some (length pre + 1), pre @ 27 # rest, vt\<lparr>parser_state := ESC\<rparr>)"
    unfolding push_byte_def using assms(1) by (simp add: Let_def ENTER_STRING_STATE_def)
  from push_step [OF this assms(2)] show ?thesis by simp
qed

lemma push_introducer:
  assumes "parser_state vt = ESC" "length pre < len" "st = CSI \<or> st = OSC \<or> st = DCS"
  shows "push_loop cbs backup len (length pre) (start, pre @ introducer st # rest, vt)
    = push_loop cbs backup len (length pre + 1) (Some (length pre + 1), pre @ introducer st # rest, vt\<lparr>parser_state := st\<rparr>)"
proof -
  have "push_byte cbs backup len (length pre) (start, pre @ introducer st # rest, vt)
    = Some (Some 0, Some (length pre + 1), pre @ introducer st # rest, vt\<lparr>parser_state := st\<rparr>)"
    unfolding push_byte_def using assms(1,3) by (auto simp: Let_def ENTER_STRING_STATE_def string_byte_def escape_byte_def)
  from push_step [OF this assms(2)] show ?thesis by simp
qed

text \<open>
  The state after the first \<open>k\<close> bytes of a string of kind \<open>st\<close>, when they were a chunk (or the end of one)
  and the parser was in state \<open>vt\<close> before them.
\<close>

definition reading :: "parser_state \<Rightarrow> byte list \<Rightarrow> nat \<Rightarrow> 's vterm \<Rightarrow> 's vterm \<Rightarrow> bool" where
  "reading st body k vt v \<longleftrightarrow>
     (if k = 0 then v = vt else if k = 1 then v = vt\<lparr>parser_state := ESC\<rparr>
      else \<exists>sb. v = vt\<lparr>parser_state := st, strbuffer := sb, strbuffer_cur := k - 2\<rparr>
        \<and> length sb = length (strbuffer vt) \<and> take (k - 2) sb = take (k - 2) body)"

text \<open>What is assumed of the string and of the parser's state before it.\<close>

definition string_fits :: "parser_state \<Rightarrow> byte list \<Rightarrow> 's vterm \<Rightarrow> bool" where
  "string_fits st body vt \<longleftrightarrow> st \<in> {CSI, OSC, DCS} \<and> parser_state vt = NORMAL \<and> strbuffer_cur vt = 0
     \<and> (\<forall>c\<in>set body. plain st (is_utf8 vt) c) \<and> length body < length (strbuffer vt) \<and> length (strbuffer vt) = strbuffer_size"

lemma string_fits_simps:
  assumes "string_fits st body vt"
  shows "st = CSI \<or> st = OSC \<or> st = DCS" "parser_state vt = NORMAL" "strbuffer_cur vt = 0" "0 \<notin> set body"
    "length body < strbuffer_size"
    "set xs \<subseteq> set body \<Longrightarrow> \<forall>c\<in>set xs. plain st (is_utf8 vt) c" "length body < length (strbuffer vt)"
  using assms by (auto simp: string_fits_def dest: plain_cases(2))

lemma push_prefix:
  assumes "string_fits st body vt" "k \<le> 2 + length body"
  shows "\<exists>v. vterm_push_bytes cbs backup (take k (27 # introducer st # body) @ junk) k vt
      = Some (take k (27 # introducer st # body) @ junk, v) \<and> reading st body k vt v"
proof -
  note f = string_fits_simps(1-4,6,7) [OF assms(1)]
  consider "k = 0" | "k = 1" | j where "k = Suc (Suc j)" "j \<le> length body" using assms(2) by (cases k; cases "k - 1") auto
  then show ?thesis
  proof cases
    case 1
    then show ?thesis by (simp add: vterm_push_bytes_def push_loop.simps reading_def f(2))
  next
    case 2
    with push_escape [of vt "[]" 1 cbs backup None junk] f(2) show ?thesis
      by (simp add: vterm_push_bytes_def push_loop.simps reading_def)
  next
    case 3
    let ?v1 = "vt\<lparr>parser_state := ESC\<rparr>" and ?v2 = "vt\<lparr>parser_state := st\<rparr>"
    let ?mem = "27 # introducer st # take j body @ junk"
    have t: "take k (27 # introducer st # body) @ junk = ?mem" using 3 by simp
    have 1: "push_loop cbs backup k 0 (None, ?mem, vt) = push_loop cbs backup k 1 (Some 1, ?mem, ?v1)"
      using push_escape [of vt "[]" k cbs backup None] f(2) 3 by simp
    have 2: "push_loop cbs backup k 1 (Some 1, ?mem, ?v1) = push_loop cbs backup k 2 (Some 2, ?mem, ?v2)"
      using push_introducer [of ?v1 "[27]" k st cbs backup "Some 1"] f(1) 3 by (simp add: numeral_2_eq_2)
    have "push_loop cbs backup k 2 (Some 2, ?mem, ?v2) = push_loop cbs backup k k (Some 2, ?mem, ?v2)"
      using push_plain_run [of "take j body" ?v2 "[27, introducer st]" k cbs backup "Some 2" junk] f(5) [of "take j body"] 3
      by (simp add: set_take_subset numeral_2_eq_2)
    then have l: "push_loop cbs backup k 0 (None, ?mem, vt) = Some (Some 2, ?mem, ?v2)"
      using 1 2 by (simp add: push_loop.simps [of cbs backup k k])
    obtain sb where sb: "append_strbuffer (take j body @ junk) (length (take j body)) ?v2
        = Some (?v2\<lparr>strbuffer := sb, strbuffer_cur := length ([] @ take j body)\<rparr>)"
      "length sb = length (strbuffer ?v2)" "take (length ([] @ take j body)) sb = [] @ take j body"
      by (rule append_run [of "[]" ?v2 "take j body" junk]) (use f(3,4,6) 3 in \<open>auto dest: in_set_takeD\<close>)
    have tj: "length (take j body) = j" using 3 by simp
    note sb = sb [unfolded append_Nil tj]
    have "vterm_push_bytes cbs backup ?mem k vt = Some (?mem, ?v2\<lparr>strbuffer := sb, strbuffer_cur := j\<rparr>)"
      if "0 < j" using that l sb(1) f(2) 3 by (simp add: vterm_push_bytes_def numeral_2_eq_2)
    moreover have "vterm_push_bytes cbs backup ?mem k vt = Some (?mem, ?v2)"
      if "j = 0" using that l f(2) 3 by (simp add: vterm_push_bytes_def)
    moreover have "reading st body k vt (?v2\<lparr>strbuffer := sb, strbuffer_cur := j\<rparr>)"
      using sb 3 by (auto simp: reading_def)
    moreover have "reading st body k vt ?v2" if "j = 0"
      using 3 that f(3) by (auto simp: reading_def intro!: exI [of _ "strbuffer vt"])
    ultimately show ?thesis unfolding t by (cases "j = 0") auto
  qed
qed

text \<open>Reading on from there up to the bytes that end the string.\<close>

lemma reach_end:
  assumes "string_fits st body vt" "k \<le> 2 + length body" "reading st body k vt v"
    and "mem = drop k (27 # introducer st # body) @ rest" "2 + length body - k < len"
  obtains w frag pre sb where "w @ frag = body" "mem = pre @ frag @ rest" "length (pre @ frag) = 2 + length body - k"
    "take (length w) sb = w" "length sb = length (strbuffer vt)"
    "push_loop cbs backup len 0 (if parser_state v = NORMAL then None else Some 0, mem, v)
      = push_loop cbs backup len (length (pre @ frag)) (Some (length pre), mem,
          vt\<lparr>parser_state := st, strbuffer := sb, strbuffer_cur := length w\<rparr>)"
proof -
  note f = string_fits_simps(1-4,6,7) [OF assms(1)]
  let ?v1 = "vt\<lparr>parser_state := ESC\<rparr>" and ?v2 = "vt\<lparr>parser_state := st\<rparr>"
  consider "k = 0" | "k = 1" | j where "k = Suc (Suc j)" "j \<le> length body" using assms(2) by (cases k; cases "k - 1") auto
  then show ?thesis
  proof cases
    case 1
    then have v: "v = vt" "mem = 27 # introducer st # body @ rest" using assms(3,4) by (simp_all add: reading_def)
    have "push_loop cbs backup len 0 (None, mem, v) = push_loop cbs backup len 1 (Some 1, mem, ?v1)"
      using push_escape [of vt "[]" len cbs backup None] f(2) assms(5) 1 v by simp
    also have "\<dots> = push_loop cbs backup len 2 (Some 2, mem, ?v2)"
      using push_introducer [of ?v1 "[27]" len st cbs backup "Some 1"] f(1) assms(5) 1 v by (simp add: numeral_2_eq_2)
    also have "\<dots> = push_loop cbs backup len (2 + length body) (Some 2, mem, ?v2)"
      using push_plain_run [of body ?v2 "[27, introducer st]" len cbs backup "Some 2" rest] f(5) [of body] assms(5) 1 v
      by (simp add: numeral_2_eq_2)
    finally show ?thesis
      using that [of "[]" body "[27, introducer st]" "strbuffer vt"] f(2,3) 1 v by (simp add: numeral_2_eq_2)
  next
    case 2
    then have v: "v = ?v1" "mem = introducer st # body @ rest" using assms(3,4) by (simp_all add: reading_def)
    have "push_loop cbs backup len 0 (Some 0, mem, v) = push_loop cbs backup len 1 (Some 1, mem, ?v2)"
      using push_introducer [of ?v1 "[]" len st cbs backup "Some 0"] f(1) assms(5) 2 v by simp
    also have "\<dots> = push_loop cbs backup len (1 + length body) (Some 1, mem, ?v2)"
      using push_plain_run [of body ?v2 "[introducer st]" len cbs backup "Some 1" rest] f(5) [of body] assms(5) 2 v by simp
    finally show ?thesis
      using that [of "[]" body "[introducer st]" "strbuffer vt"] f(2,3) 2 v by simp
  next
    case 3
    with assms(3) obtain sb where v: "v = vt\<lparr>parser_state := st, strbuffer := sb, strbuffer_cur := j\<rparr>"
      "length sb = length (strbuffer vt)" "take j sb = take j body" by (auto simp: reading_def)
    have m: "mem = drop j body @ rest" using assms(4) 3 by simp
    have n: "parser_state v \<noteq> NORMAL" using v(1) f(1) by auto
    have "push_loop cbs backup len 0 (Some 0, mem, v) = push_loop cbs backup len (length (drop j body)) (Some 0, mem, v)"
      using push_plain_run [of "drop j body" v "[]" len cbs backup "Some 0" rest] f(5) [of "drop j body"] assms(5) 3 v(1) m
      by (simp add: set_drop_subset)
    then show ?thesis
      using that [of "take j body" "drop j body" "[]" sb] 3 v m n by (simp add: min_def)
  qed
qed

lemma frag_len_run: "length frag \<le> strbuffer_size \<Longrightarrow> 0 \<le> int (length frag) + e \<Longrightarrow> e \<le> 1 \<Longrightarrow>
    frag_len (length pre + length frag) (length pre) e = nat (int (length frag) + e)"
  by (simp add: frag_len_def strbuffer_size_def)

lemma push_step_opt:
  "push_byte cbs backup len pos p = map_option (\<lambda>x. (Some 0, g x)) r \<Longrightarrow> pos < len \<Longrightarrow>
    push_loop cbs backup len pos p = (case r of None \<Rightarrow> None | Some x \<Rightarrow> push_loop cbs backup len (pos + 1) (g x))"
  by (subst push_loop.simps) (simp split: option.split)

lemma do_string_csi_cb:
  "do_string_csi cbs backup args c v = map_option (\<lambda>u. v\<lparr>cbdata := cbdata u\<rparr>) (do_string_csi cbs backup args c u0)" if "cbdata v = cbdata u0"
  using that by (auto simp: do_string_csi_def map_option_case split: option.splits bind_splits)

lemma do_dcs_cb:
  "do_dcs cbs backup str len v = map_option (\<lambda>(x, u). (x, v\<lparr>cbdata := cbdata u\<rparr>)) (do_dcs cbs backup str len u0)" if "cbdata v = cbdata u0"
  using that by (auto simp: do_dcs_def map_option_case split: option.splits bind_splits)

text \<open>The final byte of a control sequence.\<close>

lemma push_final:
  assumes "string_fits CSI body vt" "w @ frag = body" "take (length w) sb = w" "length sb = length (strbuffer vt)"
    and "0x40 \<le> final" "final < 0x7f" "length (pre @ frag) < len"
  obtains sb' where "push_loop cbs backup len (length (pre @ frag)) (Some (length pre), pre @ frag @ final # junk,
        vt\<lparr>parser_state := CSI, strbuffer := sb, strbuffer_cur := length w\<rparr>)
      = (case do_string_csi cbs backup body final vt of None \<Rightarrow> None
         | Some u \<Rightarrow> push_loop cbs backup len (length (pre @ frag) + 1) (None, pre @ frag @ final # junk, u\<lparr>strbuffer := sb'\<rparr>))"
proof -
  note f = string_fits_simps(1-4,6,7) [OF assms(1)]
  let ?v = "vt\<lparr>parser_state := CSI, strbuffer := sb, strbuffer_cur := length w\<rparr>"
  let ?mem = "pre @ frag @ final # junk" and ?xs = "frag @ [final]"
  have z: "0 \<notin> set ?xs" using f(4) assms(2,5) by (auto simp: word_le_nat_alt)
  obtain str sb1 where s: "take (length (w @ ?xs)) str = w @ ?xs" "w = [] \<Longrightarrow> str = ?xs @ junk"
    and d: "do_string cbs backup (pre @ ?xs @ junk) (length pre) (length ?xs) ?v =
      map_option (\<lambda>(n, str', v). if w = [] then (n, pre @ str', v) else (n, pre @ ?xs @ junk, v\<lparr>strbuffer := str'\<rparr>))
        (do_string_at cbs backup str (length (w @ ?xs)) (?v\<lparr>strbuffer := sb1, strbuffer_cur := 0\<rparr>))"
    by (rule do_string_run [of w ?v ?xs junk cbs backup pre]) (use assms(2-4) f z in auto)
  let ?u = "?v\<lparr>strbuffer := sb1, strbuffer_cur := 0\<rparr>"
  have str: "str = body @ final # drop (length (w @ ?xs)) str"
    using s(1) assms(2) append_take_drop_id [of "length (w @ ?xs)" str] by (metis append.assoc append_Cons append_Nil)
  have lw: "length (w @ ?xs) = Suc (length body)" using assms(2) by auto
  have "arr_get str (int (Suc (length body)) - 1) = Some final" "take (Suc (length body) - 1) str = body"
    by (subst str, simp)+
  then have at: "do_string_at cbs backup str (length (w @ ?xs)) ?u = map_option (\<lambda>x. (0, str, x)) (do_string_csi cbs backup body final ?u)"
    unfolding lw by (simp add: do_string_at_def map_option_case split: option.split)
  define sb' where "sb' = (if w = [] then sb1 else str)"
  have csi: "do_string_csi cbs backup body final ?u = map_option (\<lambda>x. ?u\<lparr>cbdata := cbdata x\<rparr>) (do_string_csi cbs backup body final vt)"
    by (rule do_string_csi_cb) simp
  have ds: "do_string cbs backup ?mem (length pre) (Suc (length frag)) ?v
      = map_option (\<lambda>x. (0, ?mem, ?u\<lparr>cbdata := cbdata x, strbuffer := sb'\<rparr>)) (do_string_csi cbs backup body final vt)"
    using d unfolding at csi by (auto simp: sb'_def s(2) option.map_comp comp_def intro!: option.map_cong)
  have lf: "length frag \<le> strbuffer_size" using string_fits_simps(5) [OF assms(1)] assms(2) by auto
  have fs: "finish_string cbs backup (length (pre @ frag)) 1 (Some (length pre), ?mem, ?v)
      = map_option (\<lambda>x. (None, ?mem, x\<lparr>strbuffer := sb'\<rparr>)) (do_string_csi cbs backup body final vt)"
  proof (cases "do_string_csi cbs backup body final vt")
    case (Some x)
    then obtain s where "x = vt\<lparr>cbdata := s\<rparr>" by (auto simp: do_string_csi_def split: bind_splits)
    with Some ds frag_len_run [OF lf, of 1 pre] f(2,3) show ?thesis
      by (simp add: finish_string_def ENTER_NORMAL_STATE_def nat_add_distrib)
  qed (use ds frag_len_run [OF lf, of 1 pre] in \<open>simp add: finish_string_def nat_add_distrib\<close>)
  have c: "arr_get ?mem (int (length (pre @ frag))) = Some final" using arr_get_append [of "pre @ frag" final junk] by simp
  have n: "final \<noteq> 0" "final \<noteq> 0x7f" "final \<noteq> 0x18" "final \<noteq> 0x1a" "final \<noteq> 0x1b" "\<not> final < 0x20" "final \<le> 0x7f"
    using assms(5,6) by (auto simp: word_le_nat_alt word_less_nat_alt)
  have "push_byte cbs backup len (length (pre @ frag)) (Some (length pre), ?mem, ?v)
      = map_option (\<lambda>x. (Some 0, None, ?mem, x\<lparr>strbuffer := sb'\<rparr>)) (do_string_csi cbs backup body final vt)"
    unfolding push_byte_def prod.case c using n assms(5) fs
    by (simp add: Let_def string_byte_def map_option_case split: option.split)
  from push_step_opt [OF this assms(7)] show ?thesis by (rule that)
qed

text \<open>Chunks one after the other, each with the number of its new bytes.\<close>

definition feed :: "'s callbacks \<Rightarrow> 's callbacks \<Rightarrow> (byte list \<times> nat) list \<Rightarrow> 's vterm \<Rightarrow> 's vterm option" where
  "feed cbs backup chunks = ofold (\<lambda>(mem, len) vt. map_option snd (vterm_push_bytes cbs backup mem len vt)) chunks"

lemma feed_simps [simp]:
  "feed cbs backup [] = Some"
  "feed cbs backup ((mem, len) # cs) vt = map_option snd (vterm_push_bytes cbs backup mem len vt) \<bind> feed cbs backup cs"
  by (simp_all add: feed_def fun_eq_iff)

lemma push_nothing: "parser_state vt = NORMAL \<Longrightarrow> vterm_push_bytes cbs backup mem 0 vt = Some (mem, vt)"
  by (simp add: vterm_push_bytes_def push_loop.simps)

text \<open>
  Two chunks against one: what holds of reading the rest of a string from every state that its first
  \<open>k\<close> bytes can leave, and of reading it as a whole, holds of the two chunks.
\<close>

lemma split_string:
  assumes "string_fits st body vt" "s = 27 # introducer st # body @ endb" "k \<le> length s" "2 + length body < length s"
    and "k \<le> 2 + length body \<or> k = length s"
    and "\<And>j v junk. j \<le> 2 + length body \<Longrightarrow> reading st body j vt v \<Longrightarrow>
      Q (map_option snd (vterm_push_bytes cbs backup (drop j s @ junk) (length s - j) v))"
    and "\<And>x. Q (Some x) \<Longrightarrow> parser_state x = NORMAL"
  shows "Q (feed cbs backup [(take k s @ j1, k), (drop k s @ j2, length s - k)] vt)"
proof (cases "k \<le> 2 + length body")
  case True
  have t: "take k s = take k (27 # introducer st # body)" using True assms(2) by (simp add: take_Cons' split: if_splits)
  from push_prefix [OF assms(1) True, of cbs backup j1] obtain v where
    v: "vterm_push_bytes cbs backup (take k s @ j1) k vt = Some (take k s @ j1, v)" "reading st body k vt v" unfolding t by blast
  from assms(6) [OF True v(2)] v(1) show ?thesis by simp
next
  case False
  with assms(5) have k: "k = length s" by blast
  have "reading st body 0 vt vt" by (simp add: reading_def)
  from assms(6) [of 0, OF _ this] have q: "Q (map_option snd (vterm_push_bytes cbs backup (s @ j1) (length s) vt))" by simp
  show ?thesis
  proof (cases "vterm_push_bytes cbs backup (s @ j1) (length s) vt")
    case None
    then show ?thesis using q k by simp
  next
    case (Some x)
    then show ?thesis using q k push_nothing [OF assms(7), of "snd x"] by (cases x) simp
  qed
qed

text \<open>
  C20: A control sequence reaches the terminal with the same arguments wherever the chunks read from the
  host cut it: it is interpreted once, as if it had been read whole, and nothing is left of it in the
  parser.
\<close>

theorem control_sequence_any_split:
  assumes "parser_state vt = NORMAL" "strbuffer_cur vt = 0" "length (strbuffer vt) = strbuffer_size"
    and "\<forall>c\<in>set params. 0x20 \<le> c \<and> c < 0x40" "length params < strbuffer_size" "0x40 \<le> final" "final < 0x7f"
  defines "s \<equiv> [27, 0x5b] @ params @ [final]"
  assumes "k \<le> length s"
  shows "\<exists>sb. feed cbs backup [(take k s @ j1, k), (drop k s @ j2, length s - k)] vt
    = map_option (\<lambda>u. u\<lparr>strbuffer := sb\<rparr>) (do_string_csi cbs backup params final vt)"
proof -
  have fits: "string_fits CSI params vt" using assms(1-5) by (simp add: string_fits_def)
  have st: "parser_state x = NORMAL" if "Some x = map_option (\<lambda>u. u\<lparr>strbuffer := sb\<rparr>) (do_string_csi cbs backup params final vt)" for x sb
    using that [symmetric] assms(1) by (auto simp: do_string_csi_def split: bind_splits)
  have rest: "\<exists>sb. map_option snd (vterm_push_bytes cbs backup (drop j s @ junk) (length s - j) v)
      = map_option (\<lambda>u. u\<lparr>strbuffer := sb\<rparr>) (do_string_csi cbs backup params final vt)"
    if j: "j \<le> 2 + length params" "reading CSI params j vt v" for j v junk
  proof -
    have m: "drop j s @ junk = drop j (27 # introducer CSI # params) @ final # junk" using j(1) by (simp add: s_def drop_Cons')
    have ls: "2 + length params - j < length s - j" using j(1) by (simp add: s_def)
    obtain w frag pre sb where e: "w @ frag = params" "drop j s @ junk = pre @ frag @ final # junk" "length (pre @ frag) = 2 + length params - j"
      "take (length w) sb = w" "length sb = length (strbuffer vt)"
      "push_loop cbs backup (length s - j) 0 (if parser_state v = NORMAL then None else Some 0, drop j s @ junk, v)
        = push_loop cbs backup (length s - j) (length (pre @ frag)) (Some (length pre), drop j s @ junk,
            vt\<lparr>parser_state := CSI, strbuffer := sb, strbuffer_cur := length w\<rparr>)"
      by (rule reach_end [OF fits j m ls, of cbs backup]) (rule that)
    have l: "length (pre @ frag) < length s - j" "length (pre @ frag) + 1 = length s - j" using e(3) j(1) by (simp_all add: s_def)
    obtain sb' where p: "push_loop cbs backup (length s - j) (length (pre @ frag)) (Some (length pre), pre @ frag @ final # junk,
          vt\<lparr>parser_state := CSI, strbuffer := sb, strbuffer_cur := length w\<rparr>)
        = (case do_string_csi cbs backup params final vt of None \<Rightarrow> None
           | Some u \<Rightarrow> push_loop cbs backup (length s - j) (length (pre @ frag) + 1) (None, pre @ frag @ final # junk, u\<lparr>strbuffer := sb'\<rparr>))"
      by (rule push_final [OF fits e(1,4,5) assms(6,7) l(1), of cbs backup junk])
    have "map_option snd (vterm_push_bytes cbs backup (drop j s @ junk) (length s - j) v)
        = map_option (\<lambda>u. u\<lparr>strbuffer := sb'\<rparr>) (do_string_csi cbs backup params final vt)"
      unfolding vterm_push_bytes_def e(6) unfolding e(2) p l(2)
      by (simp add: push_loop.simps split: option.split)
    then show ?thesis by blast
  qed
  show ?thesis
  proof (rule split_string [OF fits, where s = s and endb = "[final]" and
        Q = "\<lambda>r. \<exists>sb. r = map_option (\<lambda>u. u\<lparr>strbuffer := sb\<rparr>) (do_string_csi cbs backup params final vt)"])
    show "k \<le> 2 + length params \<or> k = length s" using assms(9) by (auto simp: s_def)
  qed (use assms(1,9) rest st in \<open>auto simp: s_def\<close>)
qed

theorem control_sequence_any_split_witness:
  "map_option cbdata (feed recorder no_callbacks [(take 2 [27, 0x5b, 0x33, 0x3b, 0x32, 0x48] @ [0], 2),
       (drop 2 [27, 0x5b, 0x33, 0x3b, 0x32, 0x48] @ [], 4)] (vterm_new [])) = Some [PCsi None [3, 2] None 0x48]"
proof -
  have s: "0x20 < strbuffer_size" by (simp add: strbuffer_size_def)
  obtain sb where "feed recorder no_callbacks [(take 2 [27, 0x5b, 0x33, 0x3b, 0x32, 0x48] @ [0], 2),
       (drop 2 [27, 0x5b, 0x33, 0x3b, 0x32, 0x48] @ [], 4)] (vterm_new []) =
      map_option (\<lambda>u. u\<lparr>strbuffer := sb\<rparr>) (do_string_csi recorder no_callbacks [0x33, 0x3b, 0x32] 0x48 (vterm_new []))"
    using control_sequence_any_split [of "vterm_new []" "[0x33, 0x3b, 0x32]" "0x48" 2 recorder no_callbacks "[0]" "[]"] s
    by (auto simp: numeral_2_eq_2 [symmetric])
  then show ?thesis
    by (simp add: do_string_csi_def csi_parse_def csi_leader_def csi_argcount_def is_leader_def csi_intermed_def Let_def
        CSI_ARGS_MAX_def CSI_ARG_MISSING_def long_range_def arr_get_def)
qed

lemma do_both_cb:
  "do_both f g str len v = map_option (\<lambda>u. v\<lparr>cbdata := cbdata u\<rparr>) (do_both f g str len u0)" if "cbdata v = cbdata u0"
  using that by (auto simp: do_both_def map_option_case split: option.splits bind_splits)

lemma do_string_at_cb:
  assumes "cbdata v = cbdata u0" "parser_state v = st" "parser_state u0 = st" "st = OSC \<or> st = DCS"
  shows "do_string_at cbs backup str len v = map_option (\<lambda>(n, str', u). (n, str', v\<lparr>cbdata := cbdata u\<rparr>)) (do_string_at cbs backup str len u0)"
  using assms(4)
proof
  assume "st = OSC"
  then show ?thesis using assms(2,3) do_both_cb [OF assms(1), of "cb_osc cbs" "cb_osc backup" str len]
    by (simp add: do_string_at_def map_option_case split: option.split)
next
  assume "st = DCS"
  then show ?thesis using assms(2,3) do_dcs_cb [OF assms(1), of cbs backup str len]
    by (simp add: do_string_at_def map_option_case case_prod_beta split: option.split)
qed

lemma do_string_at_cbdata:
  assumes "do_string_at cbs backup str len v = Some (n, str', u)" "parser_state v = OSC \<or> parser_state v = DCS"
  shows "\<exists>x. u = v\<lparr>cbdata := x\<rparr>"
proof -
  have 1: "\<exists>x. u = v\<lparr>cbdata := x\<rparr>" if "do_both f g str len v = Some u" for f g
    using that by (auto simp: do_both_def split: bind_splits)
  have 2: "\<exists>x. u = v\<lparr>cbdata := x\<rparr>" if "do_dcs cbs backup str len v = Some (str', u)"
    using that by (auto simp: do_dcs_def split: bind_splits)
  show ?thesis using assms 1 2 by (auto simp: do_string_at_def split: bind_splits)
qed

text \<open>The end of an operating system command or of a device control string.\<close>

lemma finish_run:
  assumes "string_fits st body vt" "st = OSC \<or> st = DCS" "w @ frag = body" "take (length w) sb = w" "length sb = length (strbuffer vt)"
    and "int pos + e = int (length (pre @ frag))" "-1 \<le> e" "e \<le> 0"
  obtains str g h where "take (length body) str = body"
    "finish_string cbs backup pos e (Some (length pre), pre @ frag @ junk, vt\<lparr>parser_state := st, strbuffer := sb, strbuffer_cur := length w\<rparr>)
      = map_option (\<lambda>(n, str', v). (None, h str', v\<lparr>parser_state := NORMAL, strbuffer := g str'\<rparr>))
          (do_string_at cbs backup str (length body) (vt\<lparr>parser_state := st\<rparr>))"
proof -
  note f = string_fits_simps(1-4,6,7) [OF assms(1)]
  let ?v = "vt\<lparr>parser_state := st, strbuffer := sb, strbuffer_cur := length w\<rparr>"
  obtain str sb1 where s: "take (length (w @ frag)) str = w @ frag"
    and d: "do_string cbs backup (pre @ frag @ junk) (length pre) (length frag) ?v =
      map_option (\<lambda>(n, str', v). if w = [] then (n, pre @ str', v) else (n, pre @ frag @ junk, v\<lparr>strbuffer := str'\<rparr>))
        (do_string_at cbs backup str (length (w @ frag)) (?v\<lparr>strbuffer := sb1, strbuffer_cur := 0\<rparr>))"
    by (rule do_string_run [of w ?v frag junk cbs backup pre]) (use assms(3-5) f in auto)
  have lf: "length frag \<le> strbuffer_size" using string_fits_simps(5) [OF assms(1)] assms(3) by auto
  have fl: "frag_len pos (length pre) e = length frag"
    using assms(6) lf by (simp add: frag_len_def strbuffer_size_def)
  have at: "do_string_at cbs backup str (length (w @ frag)) (?v\<lparr>strbuffer := sb1, strbuffer_cur := 0\<rparr>)
    = map_option (\<lambda>(n, str', u). (n, str', ?v\<lparr>strbuffer := sb1, strbuffer_cur := 0, cbdata := cbdata u\<rparr>))
        (do_string_at cbs backup str (length body) (vt\<lparr>parser_state := st\<rparr>))"
    unfolding assms(3) [symmetric] by (rule do_string_at_cb [OF _ _ _ assms(2)]) simp_all
  define g h where "g = (\<lambda>str'. if w = [] then sb1 else str')" and "h = (\<lambda>str'. if w = [] then pre @ str' else pre @ frag @ junk)"
  show thesis
  proof (rule that)
    show "finish_string cbs backup pos e (Some (length pre), pre @ frag @ junk, ?v)
      = map_option (\<lambda>(n, str', v). (None, h str', v\<lparr>parser_state := NORMAL, strbuffer := g str'\<rparr>))
          (do_string_at cbs backup str (length body) (vt\<lparr>parser_state := st\<rparr>))"
    proof (cases "do_string_at cbs backup str (length body) (vt\<lparr>parser_state := st\<rparr>)")
      case (Some r)
      moreover obtain n str' u where r: "r = (n, str', u)" by (cases r)
      moreover have "\<exists>x. u = vt\<lparr>parser_state := st, cbdata := x\<rparr>"
        using do_string_at_cbdata [of cbs backup str "length body" "vt\<lparr>parser_state := st\<rparr>"] assms(2) Some r by simp
      ultimately show ?thesis using d at fl f(3)
        by (auto simp: finish_string_def ENTER_NORMAL_STATE_def g_def h_def)
    qed (use d at fl in \<open>simp add: finish_string_def\<close>)
  qed (use s assms(3) in simp)
qed

text \<open>What may end such a string: BEL, ST as two bytes, or, when the input is not UTF-8, as one.\<close>

definition string_end :: "bool \<Rightarrow> byte list \<Rightarrow> bool" where
  "string_end utf8 e \<longleftrightarrow> e = [7] \<or> e = [27, 0x5c] \<or> \<not> utf8 \<and> e = [0x9c]"

lemma push_end:
  assumes "string_fits st body vt" "st = OSC \<or> st = DCS" "w @ frag = body" "take (length w) sb = w" "length sb = length (strbuffer vt)"
    and "string_end (is_utf8 vt) e" "len = length (pre @ frag) + length e"
  obtains str g h where "take (length body) str = body"
    "push_loop cbs backup len (length (pre @ frag)) (Some (length pre), pre @ frag @ e @ junk,
        vt\<lparr>parser_state := st, strbuffer := sb, strbuffer_cur := length w\<rparr>)
      = map_option (\<lambda>(n, str', v). (None, h str', v\<lparr>parser_state := NORMAL, strbuffer := g str'\<rparr>))
          (do_string_at cbs backup str (length body) (vt\<lparr>parser_state := st\<rparr>))"
proof -
  let ?v = "\<lambda>st. vt\<lparr>parser_state := st, strbuffer := sb, strbuffer_cur := length w\<rparr>"
  let ?p = "\<lambda>st. (Some (length pre), pre @ frag @ e @ junk, ?v st)" and ?n = "length (pre @ frag)"
  obtain c e' where e: "e = c # e'" using assms(6) by (auto simp: string_end_def)
  have c: "arr_get (pre @ frag @ e @ junk) (int ?n) = Some c" using arr_get_append [of "pre @ frag" c "e' @ junk"] e by simp
  show thesis
  proof (cases "e = [27, 0x5c]")
    case False
    with assms(6) e have c1: "e' = []" "c = 7 \<or> \<not> is_utf8 vt \<and> c = 0x9c" by (auto simp: string_end_def)
    obtain str g h where r: "take (length body) str = body" "finish_string cbs backup ?n 0 (?p st)
      = map_option (\<lambda>(n, str', v). (None, h str', v\<lparr>parser_state := NORMAL, strbuffer := g str'\<rparr>))
          (do_string_at cbs backup str (length body) (vt\<lparr>parser_state := st\<rparr>))"
      by (rule finish_run [OF assms(1-5), of ?n 0 pre cbs backup "e @ junk"]) auto
    have "push_byte cbs backup len ?n (?p st) = map_option (\<lambda>p. (Some 0, p)) (finish_string cbs backup ?n 0 (?p st))"
      unfolding push_byte_def prod.case c using assms(2) c1(2)
      by (elim disjE conjE) (simp_all add: Let_def string_byte_def map_option_case split: option.split)
    from push_step_opt [OF this] assms(7) e c1 have "push_loop cbs backup len ?n (?p st) = finish_string cbs backup ?n 0 (?p st)"
      by (simp add: push_loop.simps split: option.split)
    with r show ?thesis using that by simp
  next
    case True
    let ?st = "if st = OSC then ESC_IN_OSC else ESC_IN_DCS"
    obtain str g h where r: "take (length body) str = body" "finish_string cbs backup (?n + 1) (- 1) (?p st)
      = map_option (\<lambda>(n, str', v). (None, h str', v\<lparr>parser_state := NORMAL, strbuffer := g str'\<rparr>))
          (do_string_at cbs backup str (length body) (vt\<lparr>parser_state := st\<rparr>))"
      by (rule finish_run [OF assms(1-5), of "?n + 1" "- 1" pre cbs backup "e @ junk"]) auto
    have "push_byte cbs backup len ?n (?p st) = Some (Some 0, ?p ?st)"
      unfolding push_byte_def prod.case c using assms(2) True e by (auto simp: Let_def)
    from push_step [OF this] have 1: "push_loop cbs backup len ?n (?p st) = push_loop cbs backup len (?n + 1) (?p ?st)"
      using assms(7) True by simp
    have c2: "arr_get (pre @ frag @ e @ junk) (int (?n + 1)) = Some 0x5c"
      using arr_get_append [of "pre @ frag @ [27]" "0x5c" junk] True by simp
    have "push_byte cbs backup len (?n + 1) (?p ?st) = map_option (\<lambda>p. (Some 0, p)) (finish_string cbs backup (?n + 1) (- 1) (?p st))"
      unfolding push_byte_def prod.case c2 using assms(2)
      by (cases vt) (auto simp: Let_def string_byte_def map_option_case split: option.split)
    from push_step_opt [OF this] assms(7) True
    have "push_loop cbs backup len (?n + 1) (?p ?st) = finish_string cbs backup (?n + 1) (- 1) (?p st)"
      by (simp add: push_loop.simps split: option.split)
    with 1 r show ?thesis using that by simp
  qed
qed

text \<open>
  C21: An operating system command or a device control string is handed over once and whole wherever the
  chunks cut it, between the two bytes of a terminator \<open>ESC \\<close> alone excepted: the handlers get memory that
  starts with its bytes, and their number. After it the parser reads text again and keeps nothing of it.
\<close>

theorem control_string_any_split:
  assumes "parser_state vt = NORMAL" "strbuffer_cur vt = 0" "length (strbuffer vt) = strbuffer_size" "st = OSC \<or> st = DCS"
    and "\<forall>c\<in>set body. 0x20 \<le> c \<and> c \<noteq> 0x7f \<and> (is_utf8 vt \<or> c \<noteq> 0x9c)" "length body < strbuffer_size" "string_end (is_utf8 vt) e"
  defines "s \<equiv> [27, introducer st] @ body @ e"
  assumes "k \<le> length (27 # introducer st # body) \<or> k = length s"
  shows "\<exists>str g. take (length body) str = body \<and> feed cbs backup [(take k s @ j1, k), (drop k s @ j2, length s - k)] vt
    = map_option (\<lambda>(n, str', u). u\<lparr>parser_state := NORMAL, strbuffer := g str'\<rparr>)
        (do_string_at cbs backup str (length body) (vt\<lparr>parser_state := st\<rparr>))"
proof -
  have fits: "string_fits st body vt" using assms(1-6) by (auto simp: string_fits_def)
  have rest: "\<exists>str g. take (length body) str = body \<and> map_option snd (vterm_push_bytes cbs backup (drop j s @ junk) (length s - j) v)
      = map_option (\<lambda>(n, str', u). u\<lparr>parser_state := NORMAL, strbuffer := g str'\<rparr>)
          (do_string_at cbs backup str (length body) (vt\<lparr>parser_state := st\<rparr>))"
    if j: "j \<le> 2 + length body" "reading st body j vt v" for j v junk
  proof -
    have m: "drop j s @ junk = drop j (27 # introducer st # body) @ e @ junk" using j(1) by (simp add: s_def drop_Cons')
    have "0 < length e" using assms(7) by (auto simp: string_end_def)
    then have ls: "2 + length body - j < length s - j" using j(1) by (simp add: s_def diff_less_mono)
    obtain w frag pre sb where e: "w @ frag = body" "drop j s @ junk = pre @ frag @ e @ junk" "length (pre @ frag) = 2 + length body - j"
      "take (length w) sb = w" "length sb = length (strbuffer vt)"
      "push_loop cbs backup (length s - j) 0 (if parser_state v = NORMAL then None else Some 0, drop j s @ junk, v)
        = push_loop cbs backup (length s - j) (length (pre @ frag)) (Some (length pre), drop j s @ junk,
            vt\<lparr>parser_state := st, strbuffer := sb, strbuffer_cur := length w\<rparr>)"
      by (rule reach_end [OF fits j m ls, of cbs backup]) (rule that)
    have l: "length s - j = length (pre @ frag) + length e" using e(3) j(1) by (simp add: s_def)
    obtain str g h where p: "take (length body) str = body"
      "push_loop cbs backup (length s - j) (length (pre @ frag)) (Some (length pre), pre @ frag @ e @ junk,
          vt\<lparr>parser_state := st, strbuffer := sb, strbuffer_cur := length w\<rparr>)
        = map_option (\<lambda>(n, str', v). (None, h str', v\<lparr>parser_state := NORMAL, strbuffer := g str'\<rparr>))
          (do_string_at cbs backup str (length body) (vt\<lparr>parser_state := st\<rparr>))"
      by (rule push_end [OF fits assms(4) e(1,4,5) assms(7) l, of cbs backup junk])
    have "map_option snd (vterm_push_bytes cbs backup (drop j s @ junk) (length s - j) v)
        = map_option (\<lambda>(n, str', u). u\<lparr>parser_state := NORMAL, strbuffer := g str'\<rparr>)
          (do_string_at cbs backup str (length body) (vt\<lparr>parser_state := st\<rparr>))"
      unfolding vterm_push_bytes_def e(6) unfolding e(2) p(2)
      by (cases "do_string_at cbs backup str (length body) (vt\<lparr>parser_state := st\<rparr>)") auto
    with p(1) show ?thesis by blast
  qed
  let ?Q = "\<lambda>r. \<exists>str g. take (length body) str = body \<and> r = map_option (\<lambda>(n, str', u). u\<lparr>parser_state := NORMAL, strbuffer := g str'\<rparr>)
        (do_string_at cbs backup str (length body) (vt\<lparr>parser_state := st\<rparr>))"
  have "?Q (feed cbs backup [(take k s @ j1, k), (drop k s @ j2, length s - k)] vt)"
  proof (rule split_string [OF fits, where s = s and endb = e and Q = ?Q])
    show "k \<le> 2 + length body \<or> k = length s" using assms(9) by auto
    show "\<And>x. ?Q (Some x) \<Longrightarrow> parser_state x = NORMAL" by (auto simp: case_prod_beta dest!: sym [of "Some _"])
    show "k \<le> length s" using assms(9) by (auto simp: s_def)
    show "2 + length body < length s" using assms(7) by (auto simp: s_def string_end_def)
  qed (use rest in \<open>auto simp: s_def\<close>)
  then show ?thesis .
qed

theorem control_string_any_split_witness:
  "map_option cbdata (feed recorder no_callbacks [(take 3 [27, 0x50, 0x30, 0x70, 27, 0x5c] @ [0], 3),
       (drop 3 [27, 0x50, 0x30, 0x70, 27, 0x5c] @ [1], 3)] (vterm_new [])) = Some [PDcs [0x30, 0x70]]"
proof -
  have s: "0x20 < strbuffer_size" by (simp add: strbuffer_size_def)
  obtain str g where "take 2 str = [0x30, 0x70]" "feed recorder no_callbacks [(take 3 [27, 0x50, 0x30, 0x70, 27, 0x5c] @ [0], 3),
       (drop 3 [27, 0x50, 0x30, 0x70, 27, 0x5c] @ [1], 3)] (vterm_new []) =
      map_option (\<lambda>(n, str', u). u\<lparr>parser_state := NORMAL, strbuffer := g str'\<rparr>)
        (do_string_at recorder no_callbacks str 2 ((vterm_new [])\<lparr>parser_state := DCS\<rparr>))"
    using control_string_any_split [of "vterm_new []" DCS "[0x30, 0x70]" "[27, 0x5c]" 3 recorder no_callbacks "[0]" "[1]"] s
    by (auto simp: string_end_def numeral_2_eq_2 [symmetric])
  then show ?thesis by (simp add: do_string_at_def do_dcs_def)
qed

subsection \<open>A terminator cut in two\<close>

lemma strncpy_nul: "0 \<notin> set xs \<Longrightarrow> length xs < n \<Longrightarrow> strncpy n (xs @ 0 # ys) = Some (xs @ replicate (n - length xs) 0)"
proof (induction xs arbitrary: n)
  case Nil
  then show ?case by (cases n) simp_all
next
  case (Cons x xs)
  then show ?case by (cases n) auto
qed

lemma strncpy_behind: "0 \<notin> set xs \<Longrightarrow> length xs < n \<Longrightarrow> strncpy n xs = None"
proof (induction xs arbitrary: n)
  case Nil
  then show ?case by (cases n) simp_all
next
  case (Cons x xs)
  then show ?case by (cases n) auto
qed

text \<open>The state after a chunk that ends with the escape character of the terminator.\<close>

fun in_escape :: "parser_state \<Rightarrow> parser_state" where
  "in_escape OSC = ESC_IN_OSC"
| "in_escape DCS = ESC_IN_DCS"
| "in_escape st = st"

lemma push_half_terminator:
  assumes "string_fits st body vt" "st = OSC \<or> st = DCS"
  obtains sb mem where "take (length (body @ [27])) sb = body @ [27]" "length sb = length (strbuffer vt)"
    "vterm_push_bytes cbs backup (27 # introducer st # body @ 27 # j1) (3 + length body) vt
      = Some (mem, vt\<lparr>parser_state := in_escape st, strbuffer := sb, strbuffer_cur := length (body @ [27])\<rparr>)"
proof -
  note f = string_fits_simps(1-4,6,7) [OF assms(1)]
  let ?mem = "27 # introducer st # body @ 27 # j1" and ?len = "3 + length body"
  have r: "reading st body 0 vt vt" by (simp add: reading_def)
  have m: "?mem = drop 0 (27 # introducer st # body) @ 27 # j1" by simp
  have l: "2 + length body - 0 < ?len" by simp
  obtain w frag pre sb where e: "w @ frag = body" "?mem = pre @ frag @ 27 # j1" "length (pre @ frag) = 2 + length body - 0"
      "take (length w) sb = w" "length sb = length (strbuffer vt)"
      "push_loop cbs backup ?len 0 (if parser_state vt = NORMAL then None else Some 0, ?mem, vt)
        = push_loop cbs backup ?len (length (pre @ frag)) (Some (length pre), ?mem,
            vt\<lparr>parser_state := st, strbuffer := sb, strbuffer_cur := length w\<rparr>)"
    by (rule reach_end [OF assms(1) _ r m l, of cbs backup]) (simp, rule that)
  let ?v = "\<lambda>st. vt\<lparr>parser_state := st, strbuffer := sb, strbuffer_cur := length w\<rparr>"
  have c: "arr_get (pre @ frag @ 27 # j1) (int (length (pre @ frag))) = Some 27" using arr_get_append [of "pre @ frag" 27 j1] by simp
  have "push_byte cbs backup ?len (length (pre @ frag)) (Some (length pre), pre @ frag @ 27 # j1, ?v st)
    = Some (Some 0, Some (length pre), pre @ frag @ 27 # j1, ?v (in_escape st))"
    unfolding push_byte_def prod.case c using assms(2) by (cases vt) (auto simp: Let_def)
  from push_step [OF this] e(3) have s1: "push_loop cbs backup ?len (length (pre @ frag)) (Some (length pre), pre @ frag @ 27 # j1, ?v st)
    = push_loop cbs backup ?len (length (pre @ frag) + 1) (Some (length pre), pre @ frag @ 27 # j1, ?v (in_escape st))" by simp
  have s2: "length (pre @ frag) + 1 = ?len" using e(3) by simp
  have l: "push_loop cbs backup ?len 0 (if parser_state vt = NORMAL then None else Some 0, ?mem, vt)
      = Some (Some (length pre), pre @ frag @ 27 # j1, ?v (in_escape st))"
    unfolding e(6) unfolding e(2) s1 s2 by (simp add: push_loop.simps [of cbs backup ?len ?len])
  obtain sb1 where a: "append_strbuffer ((frag @ [27]) @ j1) (length (frag @ [27])) (?v (in_escape st))
      = Some ((?v (in_escape st))\<lparr>strbuffer := sb1, strbuffer_cur := length (w @ frag @ [27])\<rparr>)"
    "length sb1 = length (strbuffer (?v (in_escape st)))" "take (length (w @ frag @ [27])) sb1 = w @ frag @ [27]"
    by (rule append_run [of w "?v (in_escape st)" "frag @ [27]" j1]) (use e(1,4,5) f(4,6) in auto)
  have lw: "length (w @ frag) = length body" using e(1) by simp
  have n: "?len - length pre = length (frag @ [27])" "length pre < ?len" using e(3) by simp_all
  have "vterm_push_bytes cbs backup ?mem ?len vt
      = Some (pre @ frag @ 27 # j1, vt\<lparr>parser_state := in_escape st, strbuffer := sb1, strbuffer_cur := length (body @ [27])\<rparr>)"
    using a(1) n lw unfolding vterm_push_bytes_def l by simp
  moreover have "take (length (body @ [27])) sb1 = body @ [27]" "length sb1 = length (strbuffer vt)" using a e(1,5) by auto
  ultimately show ?thesis using that by blast
qed

text \<open>
  C22: When a chunk ends between the two bytes of a terminator \<open>ESC \\<close>, the length of the string's last
  part is computed as 0 - 1: the string handed over has 1024000 bytes. It is the string, the terminator
  and what lies in the memory behind the new chunk up to the next NUL; without a NUL there, memory outside
  the chunk is read.
\<close>

theorem cut_terminator_overruns:
  assumes "parser_state vt = NORMAL" "strbuffer_cur vt = 0" "length (strbuffer vt) = strbuffer_size" "st = OSC \<or> st = DCS"
    and "\<forall>c\<in>set body. 0x20 \<le> c \<and> c \<noteq> 0x7f \<and> (is_utf8 vt \<or> c \<noteq> 0x9c)"
    and "length body + length xs + 2 < strbuffer_size" "0 \<notin> set xs"
  shows "feed cbs backup [([27, introducer st] @ body @ [27] @ j1, 3 + length body), (0x5c # xs @ 0 # ys, 1)] vt
      = map_option (\<lambda>(n, str', u). u\<lparr>parser_state := NORMAL, strbuffer := str'\<rparr>)
          (do_string_at cbs backup (body @ [27, 0x5c] @ xs @ replicate (strbuffer_size - (length body + length xs + 2)) 0)
            strbuffer_size (vt\<lparr>parser_state := st\<rparr>))
    \<and> feed cbs backup [([27, introducer st] @ body @ [27] @ j1, 3 + length body), (0x5c # xs, 1)] vt = None"
proof -
  have fits: "string_fits st body vt" using assms(1-6) by (auto simp: string_fits_def)
  obtain sb mem where sb: "take (length (body @ [27])) sb = body @ [27]" "length sb = length (strbuffer vt)"
    and 1: "vterm_push_bytes cbs backup (27 # introducer st # body @ 27 # j1) (3 + length body) vt
      = Some (mem, vt\<lparr>parser_state := in_escape st, strbuffer := sb, strbuffer_cur := length (body @ [27])\<rparr>)"
    by (rule push_half_terminator [OF fits assms(4)])
  let ?v = "vt\<lparr>parser_state := in_escape st, strbuffer := sb, strbuffer_cur := length (body @ [27])\<rparr>"
  let ?u = "vt\<lparr>parser_state := st, strbuffer := sb, strbuffer_cur := length (body @ [27])\<rparr>"
  let ?rest = "strbuffer_size - (length body + 1)"
  have n: "frag_len 0 0 (- 1) = 2 ^ 64 - 1" by (simp add: frag_len_def)
  have m: "min (2 ^ 64 - 1) (length sb - length (body @ [27])) = ?rest" using sb(2) assms(3) by (simp add: strbuffer_size_def)
  have in_st: "in_escape st = ESC_IN_OSC \<or> in_escape st = ESC_IN_DCS" using assms(4) by auto
  have second: "map_option snd (vterm_push_bytes cbs backup (0x5c # zs) 1 ?v)
      = map_option (\<lambda>(_, _, v). v) (finish_string cbs backup 0 (- 1) (Some 0, 0x5c # zs, ?u))" for zs
  proof -
    have "push_byte cbs backup 1 0 (Some 0, 0x5c # zs, ?v) = map_option (\<lambda>p. (Some 0, p)) (finish_string cbs backup 0 (- 1) (Some 0, 0x5c # zs, ?u))"
      unfolding push_byte_def using assms(4) by (cases vt) (auto simp: Let_def string_byte_def map_option_case split: option.split)
    from push_step_opt [OF this] have "push_loop cbs backup 1 0 (Some 0, 0x5c # zs, ?v) = finish_string cbs backup 0 (- 1) (Some 0, 0x5c # zs, ?u)"
      by (simp add: push_loop.simps split: option.split)
    moreover have "parser_state ?v \<noteq> NORMAL" using in_st by auto
    ultimately show ?thesis
      by (auto simp: vterm_push_bytes_def finish_string_def ENTER_NORMAL_STATE_def map_option_case split: option.split bind_split)
  qed
  have app: "append_strbuffer zs (2 ^ 64 - 1) ?u
      = map_option (\<lambda>b. ?u\<lparr>strbuffer := body @ [27] @ b, strbuffer_cur := strbuffer_size\<rparr>) (strncpy ?rest zs)" if "strncpy ?rest zs = None \<or> True" for zs
    using sb m assms(3,6) unfolding append_strbuffer_def Let_def
    by (auto simp: map_option_case split: option.split)
  have t2: "strncpy ?rest (0x5c # xs @ 0 # ys) = Some (0x5c # xs @ replicate (strbuffer_size - (length body + length xs + 2)) 0)"
    using strncpy_nul [of "0x5c # xs" ?rest ys] assms(6,7) by simp
  have t3: "strncpy ?rest (0x5c # xs) = None" by (rule strncpy_behind) (use assms(6,7) in auto)
  have f0: "finish_string cbs backup 0 (- 1) (Some 0, 0x5c # xs, ?u) = None"
    using app [of "0x5c # xs"] t3 n by (simp add: finish_string_def do_string_def)
  have f1: "map_option (\<lambda>(_, _, v). v) (finish_string cbs backup 0 (- 1) (Some 0, 0x5c # xs @ 0 # ys, ?u))
    = map_option (\<lambda>(n, str', u). u\<lparr>parser_state := NORMAL, strbuffer := str'\<rparr>)
          (do_string_at cbs backup (body @ [27, 0x5c] @ xs @ replicate (strbuffer_size - (length body + length xs + 2)) 0)
            strbuffer_size (vt\<lparr>parser_state := st\<rparr>))" (is "_ = map_option _ ?r")
  proof -
    let ?str = "body @ [27, 0x5c] @ xs @ replicate (strbuffer_size - (length body + length xs + 2)) 0"
    have at: "do_string_at cbs backup ?str strbuffer_size (?u\<lparr>strbuffer := ?str, strbuffer_cur := 0\<rparr>)
        = map_option (\<lambda>(n, str', u). (n, str', (?u\<lparr>strbuffer := ?str, strbuffer_cur := 0\<rparr>)\<lparr>cbdata := cbdata u\<rparr>)) ?r"
      by (rule do_string_at_cb [OF _ _ _ assms(4)]) simp_all
    show ?thesis
    proof (cases ?r)
      case None
      then show ?thesis using app [of "0x5c # xs @ 0 # ys"] t2 n at by (simp add: finish_string_def do_string_def)
    next
      case (Some r)
      obtain k str' u where r: "r = (k, str', u)" by (cases r)
      have "\<exists>x. u = vt\<lparr>parser_state := st, cbdata := x\<rparr>"
        using do_string_at_cbdata [of cbs backup ?str strbuffer_size "vt\<lparr>parser_state := st\<rparr>"] assms(4) Some r by simp
      then show ?thesis using app [of "0x5c # xs @ 0 # ys"] t2 n at Some r assms(2)
        by (auto simp: finish_string_def do_string_def ENTER_NORMAL_STATE_def)
    qed
  qed
  show ?thesis using 1 second [of "xs @ 0 # ys"] second [of xs] f0 f1 by simp
qed

theorem cut_terminator_overruns_witness:
  "\<exists>s. map_option cbdata (feed recorder no_callbacks [([27, introducer DCS] @ [0x30, 0x70] @ [27] @ [], 5), (0x5c # [0x41] @ 0 # [], 1)]
      (vterm_new [])) = Some [PDcs s] \<and> length s = strbuffer_size \<and> take 6 s = [0x30, 0x70, 27, 0x5c, 0x41, 0]"
proof -
  let ?s = "[0x30, 0x70] @ [27, 0x5c] @ [0x41] @ replicate (strbuffer_size - 5) 0 :: byte list"
  have n: "5 < strbuffer_size" "length ?s = strbuffer_size" by (simp_all add: strbuffer_size_def)
  have "feed recorder no_callbacks [([27, introducer DCS] @ [0x30, 0x70] @ [27] @ [], 3 + length [0x30, 0x70 :: byte]), (0x5c # [0x41] @ 0 # [], 1)]
      (vterm_new []) = map_option (\<lambda>(n, str', u). u\<lparr>parser_state := NORMAL, strbuffer := str'\<rparr>)
        (do_string_at recorder no_callbacks ([0x30, 0x70] @ [27, 0x5c] @ [0x41] @ replicate (strbuffer_size - (length [0x30, 0x70 :: byte] + length [0x41 :: byte] + 2)) 0)
          strbuffer_size ((vterm_new [])\<lparr>parser_state := DCS\<rparr>))"
    by (rule cut_terminator_overruns [THEN conjunct1]) (use n in simp_all)
  then have f: "feed recorder no_callbacks [([27, introducer DCS] @ [0x30, 0x70] @ [27] @ [], 5), (0x5c # [0x41] @ 0 # [], 1)] (vterm_new [])
      = map_option (\<lambda>(n, str', u). u\<lparr>parser_state := NORMAL, strbuffer := str'\<rparr>)
        (do_string_at recorder no_callbacks ?s strbuffer_size ((vterm_new [])\<lparr>parser_state := DCS\<rparr>))"
    by (simp add: numeral_2_eq_2 [symmetric] del: feed_simps)
  have t: "take strbuffer_size ?s = ?s" by (rule take_all) (use n(2) in simp)
  have "map_option cbdata (feed recorder no_callbacks [([27, introducer DCS] @ [0x30, 0x70] @ [27] @ [], 5), (0x5c # [0x41] @ 0 # [], 1)] (vterm_new []))
      = Some [PDcs ?s]" unfolding f using t by (simp add: do_string_at_def do_dcs_def del: append.simps)
  moreover have "take 6 ?s = [0x30, 0x70, 27, 0x5c, 0x41, 0]" using n(1) by (simp add: take_Cons')
  ultimately show ?thesis using n(2) by blast
qed

subsection \<open>A string that is given up\<close>

text \<open>
  CAN ends a string, but what earlier chunks have brought of it stays in the buffer: it is put in
  front of the next text, which the terminal then prints together with it.
\<close>

theorem cancelled_string_printed:
  assumes "parser_state vt = NORMAL" "strbuffer_cur vt = 0" "length (strbuffer vt) = strbuffer_size" "st = OSC \<or> st = DCS"
    and "\<forall>c\<in>set body. 0x20 \<le> c \<and> c \<noteq> 0x7f \<and> (is_utf8 vt \<or> c \<noteq> 0x9c)" "j \<noteq> 0" "j \<le> length body"
    and "0x20 \<le> c" "c < 0x7f" "0 \<notin> set cs" "length body + length (c # cs) < strbuffer_size"
  shows "map_option cbdata (feed recorder no_callbacks
      [([27, introducer st] @ take j body @ j1, 2 + j), (0x18 # (c # cs) @ j2, 1 + length (c # cs))] vt)
    = Some (cbdata vt @ [PText (take j body @ c # cs)])"
proof -
  have fits: "string_fits st body vt" using assms(1-5,11) by (auto simp: string_fits_def)
  note f = string_fits_simps(1-4,6,7) [OF fits]
  obtain sb where sb: "vterm_push_bytes recorder no_callbacks ([27, introducer st] @ take j body @ j1) (2 + j) vt
      = Some ([27, introducer st] @ take j body @ j1, vt\<lparr>parser_state := st, strbuffer := sb, strbuffer_cur := j\<rparr>)"
      "length sb = strbuffer_size" "take j sb = take j body"
    using push_prefix [OF fits, of "2 + j" recorder no_callbacks j1] assms(3,7) by (auto simp: reading_def)
  let ?w = "take j body" and ?n = "\<lambda>st. vt\<lparr>parser_state := st, strbuffer := sb, strbuffer_cur := j\<rparr>"
  let ?xs = "c # cs" and ?mem = "[0x18] @ (c # cs) @ j2" and ?len = "1 + length (c # cs)"
  have lw: "length ?w = j" using assms(7) by simp
  have n: "st \<noteq> NORMAL" using f(1) by auto
  have "push_byte recorder no_callbacks ?len 0 (Some 0, ?mem, ?n st) = Some (Some 0, None, ?mem, ?n NORMAL)"
    unfolding push_byte_def by (cases vt) (simp add: Let_def ENTER_NORMAL_STATE_def)
  from push_step [OF this] have 1: "push_loop recorder no_callbacks ?len 0 (Some 0, ?mem, ?n st) = push_loop recorder no_callbacks ?len 1 (None, ?mem, ?n NORMAL)"
    by simp
  have c0: "c \<noteq> 0" "c \<noteq> 0x7f" "c \<noteq> 0x18" "c \<noteq> 0x1a" "c \<noteq> 0x1b" "\<not> c < 0x20" "\<not> 0x80 \<le> c"
    using assms(8,9) by (auto simp: word_le_nat_alt word_less_nat_alt)
  obtain str sb1 where s: "take (length (?w @ ?xs)) str = ?w @ ?xs"
    and d: "do_string recorder no_callbacks ([0x18] @ ?xs @ j2) (length [0x18 :: byte]) (length ?xs) (?n NORMAL) =
      map_option (\<lambda>(n, str', v). if ?w = [] then (n, [0x18] @ str', v) else (n, [0x18] @ ?xs @ j2, v\<lparr>strbuffer := str'\<rparr>))
        (do_string_at recorder no_callbacks str (length (?w @ ?xs)) ((?n NORMAL)\<lparr>strbuffer := sb1, strbuffer_cur := 0\<rparr>))"
    by (rule do_string_run [of ?w "?n NORMAL" ?xs j2 recorder no_callbacks "[0x18]"]) (use sb lw assms(7,10,11) c0(1) in auto)
  have w: "?w \<noteq> []" using assms(6) lw by auto
  have at: "do_string recorder no_callbacks ?mem 1 (length ?xs) (?n NORMAL)
      = Some (length (?w @ ?xs), ?mem, vt\<lparr>parser_state := NORMAL, strbuffer := str, strbuffer_cur := 0, cbdata := cbdata vt @ [PText (?w @ ?xs)]\<rparr>)"
    using d w s by (cases vt) (simp add: do_string_at_def do_text_def)
  have "push_byte recorder no_callbacks ?len 1 (None, ?mem, ?n NORMAL) = Some (Some (length ?w + length cs), None, ?mem,
      vt\<lparr>parser_state := NORMAL, strbuffer := str, strbuffer_cur := 0, cbdata := cbdata vt @ [PText (?w @ ?xs)]\<rparr>)"
    unfolding push_byte_def using at c0 by (simp add: Let_def arr_get_def)
  from push_step [OF this] have 2: "push_loop recorder no_callbacks ?len 1 (None, ?mem, ?n NORMAL) = Some (None, ?mem,
      vt\<lparr>parser_state := NORMAL, strbuffer := str, strbuffer_cur := 0, cbdata := cbdata vt @ [PText (?w @ ?xs)]\<rparr>)"
    by (simp add: push_loop.simps [of recorder no_callbacks _ "2 + length ?w + length cs"] push_loop.simps)
  have "vterm_push_bytes recorder no_callbacks ?mem ?len (?n st) = Some (?mem,
      vt\<lparr>parser_state := NORMAL, strbuffer := str, strbuffer_cur := 0, cbdata := cbdata vt @ [PText (?w @ ?xs)]\<rparr>)"
    using 1 2 n by (simp add: vterm_push_bytes_def)
  then show ?thesis using sb(1) by simp
qed

theorem cancelled_string_printed_witness:
  "map_option cbdata (feed recorder no_callbacks
      [([27, introducer OSC] @ take 2 [0x30, 0x3b, 0x41] @ [], 2 + 2), (0x18 # (0x68 # [0x69]) @ [], 1 + length [0x68, 0x69 :: byte])] (vterm_new []))
    = Some (cbdata (vterm_new []) @ [PText (take 2 [0x30, 0x3b, 0x41] @ 0x68 # [0x69])])"
  by (rule cancelled_string_printed) (simp_all add: strbuffer_size_def)

subsection \<open>The arguments of a control sequence\<close>

text \<open>The text of a list of arguments, of which some may be left out.\<close>

definition csi_arg :: "nat option \<Rightarrow> int" where
  "csi_arg a = (case a of None \<Rightarrow> CSI_ARG_MISSING | Some n \<Rightarrow> int n)"

definition csi_field :: "nat option \<Rightarrow> byte list" where
  "csi_field a = (case a of None \<Rightarrow> [] | Some n \<Rightarrow> nat_dec n)"

fun csi_text :: "nat option list \<Rightarrow> byte list" where
  "csi_text [] = []"
| "csi_text [a] = csi_field a"
| "csi_text (a # as) = csi_field a @ 0x3b # csi_text as"

lemma decimal_mono: "\<forall>c\<in>set ds. is_digit c \<Longrightarrow> 0 \<le> v \<Longrightarrow> v \<le> foldl (\<lambda>a c. 10 * a + (int (unat c) - 48)) v ds"
proof (induction ds arbitrary: v)
  case (Cons d ds)
  then have "48 \<le> unat d" by (simp add: is_digit_def word_le_nat_alt)
  then have "v \<le> 10 * v + (int (unat d) - 48)" using Cons.prems(2) by linarith
  with Cons.IH [of "10 * v + (int (unat d) - 48)"] Cons.prems show ?case by simp
qed simp

lemma csi_args_decimal:
  assumes "\<forall>c\<in>set ds. is_digit c" "0 \<le> v" "foldl (\<lambda>a c. 10 * a + (int (unat c) - 48)) v ds < CSI_ARG_MISSING"
    and "i < argcount" "i < length vs"
  shows "csi_args_loop argcount (ds @ rest) i (vs[i := v])
    = map_option (\<lambda>(n, vs'). (length ds + n, vs')) (csi_args_loop argcount rest i (vs[i := foldl (\<lambda>a c. 10 * a + (int (unat c) - 48)) v ds]))"
  using assms(1-3)
proof (induction ds arbitrary: v)
  case Nil
  then show ?case by (simp add: case_prod_eta option.map_ident)
next
  case (Cons d ds)
  let ?v = "10 * v + (int (unat d) - 48)"
  have d: "0x30 \<le> d" "d \<le> 0x39" "48 \<le> unat d" "unat d \<le> 57" using Cons.prems(1) by (simp_all add: is_digit_def word_le_nat_alt)
  have r: "0 \<le> ?v" using Cons.prems(2) d(3) by linarith
  have lt: "?v < CSI_ARG_MISSING" using decimal_mono [OF _ r, of ds] Cons.prems(1,3) by simp
  from lt have b: "v \<noteq> CSI_ARG_MISSING" "long_range (v * 10)" "long_range (v * 10 + (int (unat d) - 48))"
  proof -
    assume "?v < CSI_ARG_MISSING"
    moreover have "48 \<le> int (unat d)" "int (unat d) \<le> 57" using d(3,4) by linarith+
    ultimately show "v \<noteq> CSI_ARG_MISSING" "long_range (v * 10)" "long_range (v * 10 + (int (unat d) - 48))"
      using Cons.prems(2) by (simp_all add: CSI_ARG_MISSING_def long_range_def del: uint_nat of_nat_unat)
  qed
  have IH: "csi_args_loop argcount (ds @ rest) i (vs[i := ?v])
    = map_option (\<lambda>(n, vs'). (length ds + n, vs')) (csi_args_loop argcount rest i (vs[i := foldl (\<lambda>a c. 10 * a + (int (unat c) - 48)) ?v ds]))"
    using Cons.IH [OF _ r] Cons.prems(1,3) by simp
  have e: "v * 10 + (int (unat d) - 48) = ?v" by simp
  show ?case using IH assms(4,5) b d(1,2) unfolding e
    by (simp add: mult.commute [of v 10] Let_def map_option_case split: option.split)
qed

lemma csi_args_field:
  assumes "\<And>n. a = Some n \<Longrightarrow> int n < CSI_ARG_MISSING" "i < argcount" "i < length vs" "vs ! i = CSI_ARG_MISSING"
  shows "csi_args_loop argcount (csi_field a @ rest) i vs
    = map_option (\<lambda>(n, vs'). (length (csi_field a) + n, vs')) (csi_args_loop argcount rest i (vs[i := csi_arg a]))"
proof (cases a)
  case None
  moreover have "vs[i := CSI_ARG_MISSING] = vs" by (metis assms(4) list_update_id)
  ultimately show ?thesis by (simp add: csi_field_def csi_arg_def case_prod_eta id_def [symmetric] option.map_id)
next
  case (Some n)
  obtain d ds where d: "nat_dec n = d # ds" using nat_dec_digits [of n] by (cases "nat_dec n") auto
  then have "0x30 \<le> d" "d \<le> 0x39" using nat_dec_digits [of n] by (auto simp: is_digit_def)
  then have "csi_args_loop argcount (nat_dec n @ rest) i vs = csi_args_loop argcount (nat_dec n @ rest) i (vs[i := 0])"
    using assms(2-4) by (simp add: d CSI_ARG_MISSING_def)
  also have "\<dots> = map_option (\<lambda>(k, vs'). (length (nat_dec n) + k, vs')) (csi_args_loop argcount rest i (vs[i := digits_value (nat_dec n)]))"
    unfolding digits_value_def
    by (rule csi_args_decimal)
      (use nat_dec_digits [of n] nat_dec_value [of n] assms(1) [OF Some] assms(2,3) in \<open>auto simp: digits_value_def\<close>)
  finally show ?thesis using Some by (simp add: csi_field_def csi_arg_def nat_dec_value)
qed

lemma csi_args_run:
  assumes "as \<noteq> []" "\<forall>a\<in>set as. \<forall>n. a = Some n \<longrightarrow> int n < CSI_ARG_MISSING" "length vs + length as \<le> argcount"
  shows "csi_args_loop argcount (csi_text as) (length vs) (vs @ replicate (length as) CSI_ARG_MISSING) = Some (length (csi_text as), vs @ map csi_arg as)"
  using assms
proof (induction as arbitrary: vs rule: csi_text.induct)
  case (2 a)
  have "csi_args_loop argcount (csi_field a @ []) (length vs) (vs @ [CSI_ARG_MISSING])
    = map_option (\<lambda>(n, vs'). (length (csi_field a) + n, vs')) (csi_args_loop argcount [] (length vs) ((vs @ [CSI_ARG_MISSING])[length vs := csi_arg a]))"
    by (rule csi_args_field) (use 2 in auto)
  then show ?case by simp
next
  case (3 a b bs)
  let ?vs = "vs @ replicate (length (a # b # bs)) CSI_ARG_MISSING"
  have "csi_args_loop argcount (csi_field a @ 0x3b # csi_text (b # bs)) (length vs) ?vs
    = map_option (\<lambda>(n, vs'). (length (csi_field a) + n, vs')) (csi_args_loop argcount (0x3b # csi_text (b # bs)) (length vs) (?vs[length vs := csi_arg a]))"
    by (rule csi_args_field) (use "3.prems" in auto)
  moreover have "csi_args_loop argcount (csi_text (b # bs)) (length (vs @ [csi_arg a])) ((vs @ [csi_arg a]) @ replicate (length (b # bs)) CSI_ARG_MISSING)
    = Some (length (csi_text (b # bs)), (vs @ [csi_arg a]) @ map csi_arg (b # bs))"
    by (rule "3.IH") (use "3.prems" in auto)
  ultimately show ?case using "3.prems"(3) by simp
qed simp

lemma csi_field_digits: "c \<in> set (csi_field a) \<Longrightarrow> is_digit c"
  using nat_dec_digits by (auto simp: csi_field_def split: option.splits)

lemma csi_text_chars: "c \<in> set (csi_text as) \<Longrightarrow> is_digit c \<or> c = 0x3b"
  by (induction as rule: csi_text.induct) (auto dest: csi_field_digits)

lemma csi_text_count: "as \<noteq> [] \<Longrightarrow> 1 + length (filter (\<lambda>c. c = 0x3b \<or> c = 0x3a) (csi_text as)) = length as"
proof (induction as rule: csi_text.induct)
  case (2 a)
  have "filter (\<lambda>c. c = 0x3b \<or> c = 0x3a) (csi_field a) = []"
    by (auto simp: filter_empty_conv dest!: csi_field_digits) (simp_all add: is_digit_def word_le_nat_alt)
  then show ?case by simp
next
  case (3 a b bs)
  have "filter (\<lambda>c. c = 0x3b \<or> c = 0x3a) (csi_field a) = []"
    by (auto simp: filter_empty_conv dest!: csi_field_digits) (simp_all add: is_digit_def word_le_nat_alt)
  with 3 show ?case by simp
qed simp

text \<open>
  C23: The arguments of a control sequence are what was printed: up to 16 decimal numbers, or nothing for
  an argument left out, separated by semicolons come out as they went in, a missing one as the mark
  for it. 2147483647 is that mark, so numbers must be below it.
\<close>

theorem csi_arguments_read:
  assumes "as \<noteq> []" "length as \<le> CSI_ARGS_MAX" "\<forall>a\<in>set as. \<forall>n. a = Some n \<longrightarrow> int n < CSI_ARG_MISSING"
  shows "csi_parse (csi_text as) = Some (None, map csi_arg as, None)"
proof -
  have "\<not> is_leader c" if "c \<in> set (csi_text as)" for c
    using csi_text_chars [OF that] by (auto simp: is_leader_def is_digit_def word_le_nat_alt)
  then have "takeWhile is_leader (csi_text as) = []" by (cases "csi_text as") auto
  then have l: "csi_leader (csi_text as) = ([], 0)" by (simp add: csi_leader_def)
  have c: "csi_argcount (csi_text as) = length as" using csi_text_count [OF assms(1)] assms(2) by (simp add: csi_argcount_def)
  have "csi_args_loop (length as) (csi_text as) (length ([] :: int list)) ([] @ replicate (length as) CSI_ARG_MISSING)
      = Some (length (csi_text as), [] @ map csi_arg as)"
    by (rule csi_args_run) (use assms in auto)
  then show ?thesis using l c by (simp add: csi_parse_def csi_intermed_def)
qed

theorem csi_arguments_read_witness: "csi_parse (csi_text [Some 1, None, Some 24]) = Some (None, map csi_arg [Some 1, None, Some 24], None)"
  by (rule csi_arguments_read) (simp_all add: CSI_ARGS_MAX_def CSI_ARG_MISSING_def)

end
