(* ===== verification/Encoding.thy ===== *)
theory Encoding
  imports Prelude
begin

section \<open>Character encodings (libvterm/src/encoding.c, libvterm/src/utf8.h)\<close>

text \<open>
  The decoders turn the bytes of a text into code points. They store them into an array of the caller
  and stop at the first byte they do not handle. The UTF-8 decoder keeps an unfinished character in the
  data of its instance, so that it can go on with the next text.

  A decoder gets the bytes from the current position on. Its result is the data, the code points stored
  so far and the number of bytes used; a store behind the array is undefined behaviour.
\<close>

subsection \<open>Decoders\<close>

record utf8_data =
  bytes_remaining :: nat
  bytes_total :: nat
  this_cp :: int

definition UNICODE_INVALID :: int where "UNICODE_INVALID = 0xFFFD"

definition init_utf8 :: "utf8_data \<Rightarrow> utf8_data" where
  "init_utf8 d = d\<lparr>bytes_remaining := 0, bytes_total := 0\<rparr>"

definition put_cp :: "nat \<Rightarrow> int \<Rightarrow> int list \<Rightarrow> int list option" where
  "put_cp cplen c cp = (if length cp < cplen then Some (cp @ [c]) else None)"

text \<open>A code point when its last byte has come: overlong ones and values that are no characters.\<close>

definition utf8_overlong :: "nat \<Rightarrow> int \<Rightarrow> bool" where
  "utf8_overlong nbytes c \<longleftrightarrow> nbytes = 2 \<and> c < 0x80 \<or> nbytes = 3 \<and> c < 0x800 \<or> nbytes = 4 \<and> c < 0x10000
     \<or> nbytes = 5 \<and> c < 0x200000 \<or> nbytes = 6 \<and> c < 0x4000000"

definition utf8_finish :: "nat \<Rightarrow> int \<Rightarrow> int" where
  "utf8_finish nbytes c0 =
     (let c = (if utf8_overlong nbytes c0 then UNICODE_INVALID else c0)
      in if (c \<ge> 0xD800 \<and> c \<le> 0xDFFF) \<or> c = 0xFFFE \<or> c = 0xFFFF then UNICODE_INVALID else c)"

text \<open>The first byte of a character: the mask for its payload and the number of bytes.\<close>

definition utf8_lead :: "byte \<Rightarrow> (byte \<times> nat) option" where
  "utf8_lead c =
     (if c < 0xe0 then Some (0x1f, 2)
      else if c < 0xf0 then Some (0x0f, 3)
      else if c < 0xf8 then Some (0x07, 4)
      else if c < 0xfc then Some (0x03, 5)
      else if c < 0xfe then Some (0x01, 6)
      else None)"

definition utf8_byte :: "nat \<Rightarrow> byte \<Rightarrow> utf8_data \<times> int list \<Rightarrow> (utf8_data \<times> int list) option" where
  "utf8_byte cplen c = (\<lambda>(d, cp).
     let cut = (if bytes_remaining d \<noteq> 0 then put_cp cplen UNICODE_INVALID cp else Some cp) in
     if c < 0x80 then do {
       cp1 \<leftarrow> cut;
       cp2 \<leftarrow> put_cp cplen (uint c) cp1;
       Some (d\<lparr>bytes_remaining := 0\<rparr>, cp2) }
     else if c < 0xc0 then
       (if bytes_remaining d = 0 then do {
          cp1 \<leftarrow> put_cp cplen UNICODE_INVALID cp;
          Some (d, cp1) }
        else
          let v = push_bit 6 (this_cp d) OR uint (c AND 0x3f);
              n = bytes_remaining d - 1
          in if n = 0 then do {
               cp1 \<leftarrow> put_cp cplen (utf8_finish (bytes_total d) v) cp;
               Some (d\<lparr>this_cp := utf8_finish (bytes_total d) v, bytes_remaining := 0\<rparr>, cp1) }
             else Some (d\<lparr>this_cp := v, bytes_remaining := n\<rparr>, cp))
     else (case utf8_lead c of
         Some (payload, n) \<Rightarrow> do {
           cp1 \<leftarrow> cut;
           Some (d\<lparr>this_cp := uint (c AND payload), bytes_total := n, bytes_remaining := n - 1\<rparr>, cp1) }
       | None \<Rightarrow> do {
           cp1 \<leftarrow> put_cp cplen UNICODE_INVALID cp;
           Some (d, cp1) }))"

fun decode_utf8 :: "nat \<Rightarrow> byte list \<Rightarrow> utf8_data \<times> int list \<Rightarrow> ((utf8_data \<times> int list) \<times> nat) option" where
  "decode_utf8 cplen [] st = Some (st, 0)"
| "decode_utf8 cplen (c # cs) st =
     (if c < 0x20 then Some (st, 0)
      else do {
        st1 \<leftarrow> utf8_byte cplen c st;
        (st2, n) \<leftarrow> decode_utf8 cplen cs st1;
        Some (st2, Suc n) })"

fun decode_usascii :: "nat \<Rightarrow> byte list \<Rightarrow> int list \<Rightarrow> (int list \<times> nat) option" where
  "decode_usascii cplen [] cp = Some (cp, 0)"
| "decode_usascii cplen (c # cs) cp =
     (if c < 0x20 \<or> c \<ge> 0x80 then Some (cp, 0)
      else do {
        cp1 \<leftarrow> put_cp cplen (uint c) cp;
        (cp2, n) \<leftarrow> decode_usascii cplen cs cp1;
        Some (cp2, Suc n) })"

fun decode_table :: "int list \<Rightarrow> nat \<Rightarrow> byte list \<Rightarrow> int list \<Rightarrow> (int list \<times> nat) option" where
  "decode_table table cplen [] cp = Some (cp, 0)"
| "decode_table table cplen (b # cs) cp =
     (let c = b AND 0x7f in
      if c < 0x20 then Some (cp, 0)
      else do {
        t \<leftarrow> arr_get table (uint c);
        cp1 \<leftarrow> put_cp cplen (if t \<noteq> 0 then t else uint c) cp;
        (cp2, n) \<leftarrow> decode_table table cplen cs cp1;
        Some (cp2, Suc n) })"

subsection \<open>The encodings\<close>

definition encoding_DECdrawing :: "int list" where
  "encoding_DECdrawing = replicate 0x60 0 @
     [0x25C6, 0x2592, 0x2409, 0x240C, 0x240D, 0x240A, 0x00B0, 0x00B1, 0x2424, 0x240B, 0x2518, 0x2510,
      0x250C, 0x2514, 0x253C, 0x23BA, 0x23BB, 0x2500, 0x23BC, 0x23BD, 0x251C, 0x2524, 0x2534, 0x252C,
      0x2502, 0x2A7D, 0x2A7E, 0x03C0, 0x2260, 0x00A3, 0x00B7, 0]"

definition encoding_uk :: "int list" where
  "encoding_uk = replicate 0x23 0 @ [0x00a3] @ replicate 92 0"

datatype encoding = Enc_utf8 | Enc_usascii | Enc_table "int list"

datatype encoding_type = ENC_UTF8 | ENC_SINGLE_94

definition encodings :: "((encoding_type \<times> byte) \<times> encoding) list" where
  "encodings =
     [((ENC_UTF8, 0x75), Enc_utf8),
      ((ENC_SINGLE_94, 0x30), Enc_table encoding_DECdrawing),
      ((ENC_SINGLE_94, 0x41), Enc_table encoding_uk),
      ((ENC_SINGLE_94, 0x42), Enc_usascii)]"

definition vterm_lookup_encoding :: "encoding_type \<Rightarrow> byte \<Rightarrow> encoding option" where
  "vterm_lookup_encoding typ designation = map_of encodings (typ, designation)"

text \<open>An encoding (a pointer that is null until it is set) with the data of its instance, and a call of its functions.\<close>

record encoding_instance =
  enc :: "encoding option"
  enc_data :: utf8_data

definition enc_init :: "encoding \<Rightarrow> utf8_data \<Rightarrow> utf8_data" where
  "enc_init e d = (if e = Enc_utf8 then init_utf8 d else d)"

definition enc_decode :: "nat \<Rightarrow> byte list \<Rightarrow> encoding_instance \<Rightarrow> (encoding_instance \<times> int list \<times> nat) option" where
  "enc_decode cplen bytes e = (case enc e of
       None \<Rightarrow> None
     | Some Enc_utf8 \<Rightarrow> do { ((d, cp), n) \<leftarrow> decode_utf8 cplen bytes (enc_data e, []); Some (e\<lparr>enc_data := d\<rparr>, cp, n) }
     | Some Enc_usascii \<Rightarrow> do { (cp, n) \<leftarrow> decode_usascii cplen bytes []; Some (e, cp, n) }
     | Some (Enc_table t) \<Rightarrow> do { (cp, n) \<leftarrow> decode_table t cplen bytes []; Some (e, cp, n) })"

subsection \<open>Encoding\<close>

definition utf8_seqlen :: "int \<Rightarrow> nat" where
  "utf8_seqlen codepoint =
     (if codepoint < 0x0000080 then 1
      else if codepoint < 0x0000800 then 2
      else if codepoint < 0x0010000 then 3
      else if codepoint < 0x0200000 then 4
      else if codepoint < 0x4000000 then 5
      else 6)"

text \<open>The loop fills in the bytes behind the first one from the last to the first.\<close>

fun fill_tail :: "nat \<Rightarrow> int \<Rightarrow> byte list \<times> int" where
  "fill_tail 0 codepoint = ([], codepoint)"
| "fill_tail (Suc b) codepoint =
     (let (bytes, rest) = fill_tail b (drop_bit 6 codepoint) in (bytes @ [0x80 OR word_of_int (codepoint AND 0x3f)], rest))"

definition fill_first :: "nat \<Rightarrow> int \<Rightarrow> byte" where
  "fill_first nbytes codepoint =
     (if nbytes = 1 then word_of_int (codepoint AND 0x7f)
      else if nbytes = 2 then 0xc0 OR word_of_int (codepoint AND 0x1f)
      else if nbytes = 3 then 0xe0 OR word_of_int (codepoint AND 0x0f)
      else if nbytes = 4 then 0xf0 OR word_of_int (codepoint AND 0x07)
      else if nbytes = 5 then 0xf8 OR word_of_int (codepoint AND 0x03)
      else 0xfc OR word_of_int (codepoint AND 0x01))"

text \<open>The bytes of a character; \<open>fill_utf8\<close> also stores a NUL behind them and returns their number.\<close>

definition fill_utf8 :: "int \<Rightarrow> byte list" where
  "fill_utf8 codepoint =
     (let nbytes = utf8_seqlen codepoint;
          (tail, rest) = fill_tail (nbytes - 1) codepoint
      in fill_first nbytes rest # tail)"

subsection \<open>The array of code points\<close>

text \<open>
  Decoding a text whose length is that of the array: without an unfinished character there is always
  room, and an unfinished one costs one more code point than there are bytes.
\<close>

definition pending :: "utf8_data \<Rightarrow> nat" where
  "pending d = (if bytes_remaining d \<noteq> 0 then 1 else 0)"

lemma put_cp_room: "length cp < cplen \<Longrightarrow> put_cp cplen c cp = Some (cp @ [c])"
  by (simp add: put_cp_def)

lemma utf8_byte_room:
  assumes "length cp + pending d < cplen"
  obtains d' cp' where "utf8_byte cplen c (d, cp) = Some (d', cp')" "length cp' + pending d' \<le> length cp + pending d + 1"
proof -
  have "case utf8_byte cplen c (d, cp) of None \<Rightarrow> False | Some (d', cp') \<Rightarrow> length cp' + pending d' \<le> length cp + pending d + 1"
    using assms by (auto simp: utf8_byte_def pending_def put_cp_room Let_def split: option.split prod.split)
  then show ?thesis using that by (auto split: option.splits)
qed

lemma decode_utf8_room:
  "length cp + pending d + length bs \<le> cplen \<Longrightarrow>
    \<exists>d' cp' n. decode_utf8 cplen bs (d, cp) = Some ((d', cp'), n) \<and> n \<le> length bs \<and> length cp' + pending d' \<le> length cp + pending d + n"
proof (induction bs arbitrary: d cp)
  case (Cons c cs)
  show ?case
  proof (cases "c < 0x20")
    case False
    have "length cp + pending d < cplen" using Cons.prems by simp
    then obtain d1 cp1 where 1: "utf8_byte cplen c (d, cp) = Some (d1, cp1)" "length cp1 + pending d1 \<le> length cp + pending d + 1"
      by (rule utf8_byte_room)
    then have "length cp1 + pending d1 + length cs \<le> cplen" using Cons.prems by simp
    from Cons.IH [OF this] 1 False show ?thesis by fastforce
  qed simp
qed simp

lemma decode_usascii_room:
  "length cp + length bs \<le> cplen \<Longrightarrow> \<exists>cp' n. decode_usascii cplen bs cp = Some (cp', n) \<and> n \<le> length bs \<and> length cp' = length cp + n"
proof (induction bs arbitrary: cp)
  case (Cons c cs)
  then show ?case using Cons.IH [of "cp @ [uint c]"] by (cases "c < 0x20 \<or> c \<ge> 0x80") (auto simp: put_cp_room)
qed simp

lemma low_seven_bits: "uint (b AND 0x7f :: byte) < 128"
proof -
  have "b AND 0x7f \<le> 0x7f" by (rule word_and_le1)
  then show ?thesis by (simp add: word_le_def)
qed

lemma decode_table_room:
  "length t = 128 \<Longrightarrow> length cp + length bs \<le> cplen \<Longrightarrow>
    \<exists>cp' n. decode_table t cplen bs cp = Some (cp', n) \<and> n \<le> length bs \<and> length cp' = length cp + n"
proof (induction bs arbitrary: cp)
  case (Cons b cs)
  let ?c = "b AND 0x7f"
  obtain x where x: "arr_get t (uint ?c) = Some x" using low_seven_bits [of b] Cons.prems(1) by (simp add: arr_get_def)
  show ?case
  proof (cases "?c < 0x20")
    case False
    then show ?thesis using x Cons.prems Cons.IH [of "cp @ [if x \<noteq> 0 then x else uint ?c]"] by (auto simp: put_cp_room Let_def)
  qed (simp add: Let_def)
qed simp

text \<open>
  C25: A text never gives more code points than it has bytes, so that decoding it into an array of its own
  length is safe, provided the decoder has no unfinished character from before.
\<close>

theorem utf8_fits:
  assumes "bytes_remaining (enc_data e) = 0" "enc e = Some en" "\<forall>t. en = Enc_table t \<longrightarrow> length t = 128"
  shows "\<exists>e' cp n. enc_decode (length bytes) bytes e = Some (e', cp, n) \<and> length cp \<le> n \<and> n \<le> length bytes"
proof (cases en)
  case Enc_utf8
  from decode_utf8_room [of "[]" "enc_data e" bytes "length bytes"] assms
  obtain d' cp' n where "decode_utf8 (length bytes) bytes (enc_data e, []) = Some ((d', cp'), n)" "n \<le> length bytes" "length cp' + pending d' \<le> n"
    by (auto simp: pending_def)
  then show ?thesis using Enc_utf8 assms(2) by (auto simp: enc_decode_def)
next
  case Enc_usascii
  with decode_usascii_room [of "[]" bytes "length bytes"] assms(2) show ?thesis by (auto simp: enc_decode_def)
next
  case (Enc_table t)
  with decode_table_room [of t "[]" bytes "length bytes"] assms(2,3) show ?thesis by (auto simp: enc_decode_def)
qed

text \<open>The tables of the program have 128 entries.\<close>

lemma table_length: "length encoding_DECdrawing = 128" "length encoding_uk = 128"
  by (simp_all add: encoding_DECdrawing_def encoding_uk_def)

theorem utf8_fits_witness:
  "\<exists>e' cp n. enc_decode (length [0xc3, 0x41 :: byte]) [0xc3, 0x41] \<lparr>enc = Some Enc_utf8, enc_data = \<lparr>bytes_remaining = 0, bytes_total = 0, this_cp = 0\<rparr>\<rparr>
    = Some (e', cp, n) \<and> length cp \<le> n \<and> n \<le> length [0xc3, 0x41 :: byte]"
  by (rule utf8_fits [where en = Enc_utf8]) simp_all

text \<open>
  With an unfinished character from the text before, the two bytes C3 41 give three code points: the
  decoder writes behind an array of their length.
\<close>

theorem utf8_overflows:
  assumes "bytes_remaining (enc_data e) \<noteq> 0" "enc e = Some Enc_utf8"
  shows "enc_decode (length [0xc3, 0x41 :: byte]) [0xc3, 0x41] e = None"
  using assms by (simp add: enc_decode_def utf8_byte_def utf8_lead_def put_cp_def Let_def)

theorem utf8_overflows_witness:
  "enc_decode (length [0xc3, 0x41 :: byte]) [0xc3, 0x41] \<lparr>enc = Some Enc_utf8, enc_data = \<lparr>bytes_remaining = 1, bytes_total = 2, this_cp = 3\<rparr>\<rparr> = None"
  by (rule utf8_overflows) simp_all

subsection \<open>A text cut in two\<close>

lemma decode_utf8_append:
  "\<forall>c\<in>set xs. \<not> c < 0x20 \<Longrightarrow> decode_utf8 cplen (xs @ ys) st = do {
     (st1, n) \<leftarrow> decode_utf8 cplen xs st;
     (st2, m) \<leftarrow> decode_utf8 cplen ys st1;
     Some (st2, n + m) }"
proof (induction xs arbitrary: st)
  case Nil
  show ?case by (cases "decode_utf8 cplen ys st") auto
next
  case (Cons x xs)
  then show ?case by (cases "utf8_byte cplen x st") (auto split: bind_splits)
qed

subsection \<open>Round trip\<close>

lemma int_small_cases: "0 \<le> x \<Longrightarrow> x < int n \<Longrightarrow> x \<in> set (map int [0..<n])"
  by (auto simp: image_iff intro!: bexI [of _ "nat x"])

lemma cont_byte:
  assumes "0 \<le> x" "x < 64"
  shows "\<not> (0x80 OR word_of_int x :: byte) < 0x20" "\<not> (0x80 OR word_of_int x :: byte) < 0x80" "(0x80 OR word_of_int x :: byte) < 0xc0"
    "uint ((0x80 OR word_of_int x :: byte) AND 0x3f) = x"
proof -
  have "\<forall>x\<in>set (map int [0..<64]). let c = 0x80 OR word_of_int x :: byte in
      \<not> c < 0x20 \<and> \<not> c < 0x80 \<and> c < 0xc0 \<and> uint (c AND 0x3f) = x" by code_simp
  moreover have "x \<in> set (map int [0..<64])" by (rule int_small_cases) (use assms in simp_all)
  ultimately
  have "let c = 0x80 OR word_of_int x :: byte in \<not> c < 0x20 \<and> \<not> c < 0x80 \<and> c < 0xc0 \<and> uint (c AND 0x3f) = x" by blast
  then show "\<not> (0x80 OR word_of_int x :: byte) < 0x20" "\<not> (0x80 OR word_of_int x :: byte) < 0x80" "(0x80 OR word_of_int x :: byte) < 0xc0"
    "uint ((0x80 OR word_of_int x :: byte) AND 0x3f) = x" unfolding Let_def by blast+
qed

lemma lead_byte_2: "\<forall>x\<in>set (map int [0..<32]). \<not> fill_first 2 x < 0xc0 \<and> utf8_lead (fill_first 2 x) = Some (0x1f, 2) \<and> uint (fill_first 2 x AND 0x1f) = x"
  unfolding fill_first_def utf8_lead_def by code_simp

lemma lead_byte_3: "\<forall>x\<in>set (map int [0..<16]). \<not> fill_first 3 x < 0xc0 \<and> utf8_lead (fill_first 3 x) = Some (0x0f, 3) \<and> uint (fill_first 3 x AND 0x0f) = x"
  unfolding fill_first_def utf8_lead_def by code_simp

lemma lead_byte_4: "\<forall>x\<in>set (map int [0..<8]). \<not> fill_first 4 x < 0xc0 \<and> utf8_lead (fill_first 4 x) = Some (0x07, 4) \<and> uint (fill_first 4 x AND 0x07) = x"
  unfolding fill_first_def utf8_lead_def by code_simp

lemma lead_byte_5: "\<forall>x\<in>set (map int [0..<4]). \<not> fill_first 5 x < 0xc0 \<and> utf8_lead (fill_first 5 x) = Some (0x03, 5) \<and> uint (fill_first 5 x AND 0x03) = x"
  unfolding fill_first_def utf8_lead_def by code_simp

lemma lead_byte_6: "\<forall>x\<in>set (map int [0..<2]). \<not> fill_first 6 x < 0xc0 \<and> utf8_lead (fill_first 6 x) = Some (0x01, 6) \<and> uint (fill_first 6 x AND 0x01) = x"
  unfolding fill_first_def utf8_lead_def by code_simp

lemma lead_byte:
  assumes "n \<in> {2, 3, 4, 5, 6}" "0 \<le> x" "x < 2 ^ (7 - n)"
  shows "\<not> fill_first n x < 0xc0 \<and> (\<exists>payload. utf8_lead (fill_first n x) = Some (payload, n) \<and> uint (fill_first n x AND payload) = x)"
proof -
  have m: "x \<in> set (map int [0..<2 ^ (7 - n)])" by (rule int_small_cases) (use assms(2,3) in simp_all)
  from assms(1) consider "n = 2" | "n = 3" | "n = 4" | "n = 5" | "n = 6" by blast
  then show ?thesis
  proof cases
    case 1
    with m have "x \<in> set (map int [0..<32])" by simp
    with lead_byte_2 1 show ?thesis by blast
  next
    case 2
    with m have "x \<in> set (map int [0..<16])" by simp
    with lead_byte_3 2 show ?thesis by blast
  next
    case 3
    with m have "x \<in> set (map int [0..<8])" by simp
    with lead_byte_4 3 show ?thesis by blast
  next
    case 4
    with m have "x \<in> set (map int [0..<4])" by simp
    with lead_byte_5 4 show ?thesis by blast
  next
    case 5
    with m have "x \<in> set (map int [0..<2])" by simp
    with lead_byte_6 5 show ?thesis by blast
  qed
qed

lemma push_or: "0 \<le> x \<Longrightarrow> x < 64 \<Longrightarrow> push_bit 6 v OR x = 64 * v + (x :: int)"
proof -
  assume x: "0 \<le> x" "x < 64"
  have "push_bit 6 v AND x = 0"
  proof (rule bit_eqI)
    fix n
    have "take_bit 6 x = x" using x by (simp add: take_bit_int_eq_self)
    then have "bit x n \<Longrightarrow> n < 6" by (metis bit_take_bit_iff)
    then show "bit (push_bit 6 v AND x) n \<longleftrightarrow> bit 0 n" by (auto simp: bit_and_iff bit_push_bit_iff)
  qed
  from disjunctive_add_eq_or [OF this] show ?thesis by (simp add: push_bit_eq_mult)
qed

text \<open>The bytes of a character one after the other.\<close>

lemma fill_tail_rest: "snd (fill_tail k c) = drop_bit (6 * k) c"
  by (induction k arbitrary: c) (simp_all add: case_prod_beta Let_def add.commute)

lemma fill_tail_length: "length (fst (fill_tail k c)) = k"
  by (induction k arbitrary: c) (simp_all add: case_prod_beta Let_def)

lemma and_63: "(c :: int) AND 0x3f = c mod 64"
proof -
  have "c AND mask 6 = c mod 2 ^ 6" by (simp only: take_bit_eq_mask [symmetric] take_bit_eq_mod)
  then show ?thesis by (simp add: mask_eq_exp_minus_1)
qed

lemma utf8_cont_step:
  assumes "bytes_remaining d = Suc n" "0 \<le> x" "x < 64"
  shows "utf8_byte cplen (0x80 OR word_of_int x) (d, cp) =
    (if n = 0 then do {
       cp1 \<leftarrow> put_cp cplen (utf8_finish (bytes_total d) (64 * this_cp d + x)) cp;
       Some (d\<lparr>this_cp := utf8_finish (bytes_total d) (64 * this_cp d + x), bytes_remaining := 0\<rparr>, cp1) }
     else Some (d\<lparr>this_cp := 64 * this_cp d + x, bytes_remaining := n\<rparr>, cp))"
  using assms(1) cont_byte [OF assms(2,3)] push_or [OF assms(2,3)] by (simp add: utf8_byte_def Let_def)

lemma decode_tail:
  assumes "bytes_remaining d = Suc m + k" "this_cp d = drop_bit (6 * k) c"
  shows "decode_utf8 cplen (fst (fill_tail k c) @ rest) (d, cp) = map_option (\<lambda>(st, n). (st, k + n))
     (decode_utf8 cplen rest (d\<lparr>this_cp := c, bytes_remaining := Suc m\<rparr>, cp))"
  using assms
proof (induction k arbitrary: c rest m)
  case 0
  then have "d\<lparr>this_cp := c, bytes_remaining := Suc m\<rparr> = d" by simp
  then show ?case by (simp add: case_prod_eta id_def [symmetric] option.map_id)
next
  case (Suc k)
  let ?x = "c mod 64" and ?c = "drop_bit 6 c"
  have x: "0 \<le> ?x" "?x < 64" by simp_all
  have c: "64 * ?c + ?x = c" by (simp add: drop_bit_eq_div)
  have t: "fst (fill_tail (Suc k) c) @ rest = fst (fill_tail k ?c) @ (0x80 OR word_of_int ?x) # rest"
    by (simp add: case_prod_beta Let_def and_63)
  let ?d = "d\<lparr>this_cp := ?c, bytes_remaining := Suc (Suc m)\<rparr>"
  have "utf8_byte cplen (0x80 OR word_of_int ?x) (?d, cp) = Some (?d\<lparr>this_cp := c, bytes_remaining := Suc m\<rparr>, cp)"
    using utf8_cont_step [of ?d "Suc m" ?x cplen cp] x c by simp
  then have "decode_utf8 cplen ((0x80 OR word_of_int ?x) # rest) (?d, cp)
    = map_option (\<lambda>(st, n). (st, Suc n)) (decode_utf8 cplen rest (d\<lparr>this_cp := c, bytes_remaining := Suc m\<rparr>, cp))"
    using cont_byte(1) [OF x] by (simp add: map_option_case case_prod_beta split: option.split)
  moreover have "decode_utf8 cplen (fst (fill_tail k ?c) @ (0x80 OR word_of_int ?x) # rest) (d, cp)
    = map_option (\<lambda>(st, n). (st, k + n)) (decode_utf8 cplen ((0x80 OR word_of_int ?x) # rest) (?d, cp))"
    by (rule Suc.IH) (use Suc.prems in \<open>simp_all add: add.commute\<close>)
  ultimately show ?case unfolding t by (simp add: option.map_comp comp_def case_prod_beta)
qed

text \<open>Code points a terminal is sent: no control characters, surrogates or the two that are no characters.\<close>

definition good_cp :: "int \<Rightarrow> bool" where
  "good_cp c \<longleftrightarrow> 0x20 \<le> c \<and> c < 2 ^ 31 \<and> \<not> (0xD800 \<le> c \<and> c \<le> 0xDFFF) \<and> c \<noteq> 0xFFFE \<and> c \<noteq> 0xFFFF"

lemma seqlen_range:
  assumes "good_cp c"
  shows "utf8_seqlen c = 1 \<and> c < 0x80 \<or> (\<exists>k. utf8_seqlen c = Suc (Suc k) \<and> Suc (Suc k) \<in> {2, 3, 4, 5, 6}
    \<and> drop_bit (6 * Suc k) c < 2 ^ (5 - k) \<and> \<not> utf8_overlong (Suc (Suc k)) c)"
proof -
  have u: "c < 2 ^ 31" using assms by (simp add: good_cp_def)
  consider "c < 0x80" | "0x80 \<le> c" "c < 0x800" | "0x800 \<le> c" "c < 0x10000" | "0x10000 \<le> c" "c < 0x200000"
    | "0x200000 \<le> c" "c < 0x4000000" | "0x4000000 \<le> c" "c < 2 ^ 31" using u by (meson not_le)
  then show ?thesis
  proof cases
    case 1
    then show ?thesis by (simp add: utf8_seqlen_def)
  next
    case 2
    then have "c div 64 \<le> 2047 div 64" by (intro zdiv_mono1) simp_all
    then have "c div 64 < 32" by simp
    with 2 show ?thesis by (intro disjI2 exI [of _ 0]) (simp add: utf8_seqlen_def utf8_overlong_def drop_bit_eq_div)
  next
    case 3
    then have "c div 4096 \<le> 65535 div 4096" by (intro zdiv_mono1) simp_all
    then have "c div 4096 < 16" by simp
    with 3 show ?thesis by (intro disjI2 exI [of _ 1]) (simp add: utf8_seqlen_def utf8_overlong_def drop_bit_eq_div)
  next
    case 4
    then have "c div 262144 \<le> 2097151 div 262144" by (intro zdiv_mono1) simp_all
    then have "c div 262144 < 8" by simp
    with 4 show ?thesis by (intro disjI2 exI [of _ 2]) (simp add: utf8_seqlen_def utf8_overlong_def drop_bit_eq_div)
  next
    case 5
    then have "c div 16777216 \<le> 67108863 div 16777216" by (intro zdiv_mono1) simp_all
    then have "c div 16777216 < 4" by simp
    with 5 show ?thesis by (intro disjI2 exI [of _ 3]) (simp add: utf8_seqlen_def utf8_overlong_def drop_bit_eq_div)
  next
    case 6
    then have "c < 2147483648" by simp
    then have "c div 1073741824 \<le> 2147483647 div 1073741824" by (intro zdiv_mono1) simp_all
    then have "c div 1073741824 < 2" by simp
    with 6 show ?thesis by (intro disjI2 exI [of _ 4]) (simp add: utf8_seqlen_def utf8_overlong_def drop_bit_eq_div)
  qed
qed

lemma decode_one:
  assumes "good_cp c" "bytes_remaining d = 0" "length cp < cplen"
  obtains d' where "bytes_remaining d' = 0" "decode_utf8 cplen (fill_utf8 c @ rest) (d, cp)
     = map_option (\<lambda>(st, n). (st, utf8_seqlen c + n)) (decode_utf8 cplen rest (d', cp @ [c]))"
proof -
  have c0: "0 \<le> c" "\<not> (0xD800 \<le> c \<and> c \<le> 0xDFFF)" "c \<noteq> 0xFFFE" "c \<noteq> 0xFFFF" "0x20 \<le> c" using assms(1) by (auto simp: good_cp_def)
  from seqlen_range [OF assms(1)] consider "utf8_seqlen c = 1" "c < 0x80"
    | k where "utf8_seqlen c = Suc (Suc k)" "Suc (Suc k) \<in> {2, 3, 4, 5, 6}" "drop_bit (6 * Suc k) c < 2 ^ (5 - k)" "\<not> utf8_overlong (Suc (Suc k)) c" by blast
  then show thesis
  proof cases
    case 1
    have u: "uint (word_of_int (c AND 0x7f) :: byte) = c"
    proof -
      have "c AND mask 7 = c" using c0(1) 1(2) by (simp only: take_bit_eq_mask [symmetric]) (simp add: take_bit_int_eq_self)
      then have "c AND 0x7f = c" by (simp add: mask_eq_exp_minus_1)
      then show ?thesis using c0(1) 1(2) by (simp add: uint_word_of_int)
    qed
    let ?b = "word_of_int (c AND 0x7f) :: byte"
    have "\<not> ?b < 0x20" "?b < 0x80" using u c0(5) 1(2) by (simp_all add: word_less_def)
    then have "decode_utf8 cplen (fill_utf8 c @ rest) (d, cp) = map_option (\<lambda>(st, n). (st, utf8_seqlen c + n)) (decode_utf8 cplen rest (d\<lparr>bytes_remaining := 0\<rparr>, cp @ [c]))"
      using 1(1) u assms(2,3) by (simp add: fill_utf8_def fill_first_def utf8_byte_def put_cp_room map_option_case case_prod_beta split: option.split)
    then show ?thesis using that [of "d\<lparr>bytes_remaining := 0\<rparr>"] by simp
  next
    case (2 k)
    let ?n = "Suc (Suc k)" and ?t = "drop_bit (6 * Suc k) c"
    have f: "fill_utf8 c = fill_first ?n ?t # fst (fill_tail (Suc k) c)"
      using 2(1) fill_tail_rest [of "Suc k" c] by (simp add: fill_utf8_def case_prod_beta Let_def del: fill_tail.simps)
    have r: "0 \<le> ?t" "?t < 2 ^ (7 - ?n)" using c0(1) 2(3) by simp_all
    from lead_byte [OF 2(2) r] obtain payload where l: "\<not> fill_first ?n ?t < 0xc0"
      "utf8_lead (fill_first ?n ?t) = Some (payload, ?n)" "uint (fill_first ?n ?t AND payload) = ?t" by blast
    have l2: "\<not> fill_first ?n ?t < 0x80" "\<not> fill_first ?n ?t < 0x20" using l(1) by (auto simp: word_less_nat_alt)
    let ?d = "d\<lparr>this_cp := ?t, bytes_total := ?n, bytes_remaining := Suc k\<rparr>"
    have 1: "utf8_byte cplen (fill_first ?n ?t) (d, cp) = Some (?d, cp)"
      using l l2 assms(2) by (simp add: utf8_byte_def Let_def)
    let ?x = "c mod 64" and ?c = "drop_bit 6 c"
    have x: "0 \<le> ?x" "?x < 64" "64 * ?c + ?x = c" by (simp_all add: drop_bit_eq_div)
    have t: "fst (fill_tail (Suc k) c) = fst (fill_tail k ?c) @ [0x80 OR word_of_int ?x]"
      by (simp add: case_prod_beta Let_def and_63)
    have fin: "utf8_finish ?n c = c" using 2(4) c0 by (auto simp: utf8_finish_def Let_def)
    let ?e = "?d\<lparr>this_cp := ?c, bytes_remaining := Suc 0\<rparr>" and ?f = "?d\<lparr>this_cp := c, bytes_remaining := 0\<rparr>"
    have "utf8_byte cplen (0x80 OR word_of_int ?x) (?e, cp) = Some (?f, cp @ [c])"
      using utf8_cont_step [of ?e 0 ?x cplen cp] x fin assms(3) by (simp add: put_cp_room)
    then have 3: "decode_utf8 cplen ((0x80 OR word_of_int ?x) # rest) (?e, cp) = map_option (\<lambda>(st, n). (st, Suc n)) (decode_utf8 cplen rest (?f, cp @ [c]))"
      using cont_byte(1) [OF x(1,2)] by (simp add: map_option_case case_prod_beta split: option.split)
    have "decode_utf8 cplen (fst (fill_tail k ?c) @ (0x80 OR word_of_int ?x) # rest) (?d, cp)
      = map_option (\<lambda>(st, n). (st, k + n)) (decode_utf8 cplen ((0x80 OR word_of_int ?x) # rest) (?e, cp))"
      using decode_tail [of ?d 0 k ?c cplen "(0x80 OR word_of_int ?x) # rest" cp] by (simp add: add.commute)
    then have "decode_utf8 cplen (fill_utf8 c @ rest) (d, cp) = map_option (\<lambda>(st, n). (st, utf8_seqlen c + n)) (decode_utf8 cplen rest (?f, cp @ [c]))"
      using 1 l2(2) 3 2(1) unfolding f t
      by (simp add: option.map_comp comp_def case_prod_beta map_option_case split: option.split)
    then show ?thesis using that [of ?f] by simp
  qed
qed

text \<open>
  C24: UTF-8 text comes back: decoding what \<open>fill_utf8\<close> writes for any code points that a terminal is
  sent gives those code points, uses every byte and leaves no unfinished character.
\<close>

theorem utf8_roundtrip:
  assumes "\<forall>c\<in>set cs. good_cp c" "bytes_remaining (enc_data e) = 0" "enc e = Some Enc_utf8"
  defines "bytes \<equiv> concat (map fill_utf8 cs)"
  shows "\<exists>d. enc_decode (length bytes) bytes e = Some (e\<lparr>enc_data := d\<rparr>, cs, length bytes) \<and> bytes_remaining d = 0"
proof -
  have len: "length (fill_utf8 c) = utf8_seqlen c" for c
    using fill_tail_length [of "utf8_seqlen c - 1" c] by (simp add: fill_utf8_def case_prod_beta Let_def utf8_seqlen_def)
  have run: "length cp + length cs \<le> cplen \<Longrightarrow> bytes_remaining d = 0 \<Longrightarrow> \<forall>c\<in>set cs. good_cp c \<Longrightarrow>
      \<exists>d'. decode_utf8 cplen (concat (map fill_utf8 cs)) (d, cp) = Some ((d', cp @ cs), length (concat (map fill_utf8 cs))) \<and> bytes_remaining d' = 0"
    for cp d cplen
  proof (induction cs arbitrary: cp d)
    case (Cons c cs)
    have gc: "good_cp c" and room: "length cp < cplen" using Cons.prems by simp_all
    obtain d1 where d1: "bytes_remaining d1 = 0" "decode_utf8 cplen (fill_utf8 c @ concat (map fill_utf8 cs)) (d, cp)
        = map_option (\<lambda>(st, n). (st, utf8_seqlen c + n)) (decode_utf8 cplen (concat (map fill_utf8 cs)) (d1, cp @ [c]))"
      by (rule decode_one [OF gc Cons.prems(2) room])
    from Cons.IH [of "cp @ [c]" d1] Cons.prems d1 len show ?case by auto
  qed simp
  have "length [] + length cs \<le> length bytes"
  proof -
    have "1 \<le> length (fill_utf8 c)" for c by (simp add: len utf8_seqlen_def)
    then show ?thesis unfolding bytes_def by (induction cs) (simp_all add: add_le_mono [of 1, simplified])
  qed
  from run [OF this assms(2,1)] obtain d' where
    "decode_utf8 (length bytes) bytes (enc_data e, []) = Some ((d', [] @ cs), length bytes)" "bytes_remaining d' = 0"
    unfolding bytes_def by blast
  then show ?thesis using assms(3) by (auto simp: enc_decode_def intro!: exI [of _ d'])
qed

theorem utf8_roundtrip_witness:
  "\<exists>d. enc_decode (length (concat (map fill_utf8 [0x41, 0xe9, 0x20ac, 0x1f600]))) (concat (map fill_utf8 [0x41, 0xe9, 0x20ac, 0x1f600]))
      \<lparr>enc = Some Enc_utf8, enc_data = \<lparr>bytes_remaining = 0, bytes_total = 0, this_cp = 0\<rparr>\<rparr>
    = Some (\<lparr>enc = Some Enc_utf8, enc_data = \<lparr>bytes_remaining = 0, bytes_total = 0, this_cp = 0\<rparr>\<rparr>\<lparr>enc_data := d\<rparr>,
        [0x41, 0xe9, 0x20ac, 0x1f600], length (concat (map fill_utf8 [0x41, 0xe9, 0x20ac, 0x1f600]))) \<and> bytes_remaining d = 0"
  by (rule utf8_roundtrip) (simp_all add: good_cp_def)

end
