(* ===== verification/Unicode.thy ===== *)
theory Unicode
  imports Prelude
begin

section \<open>Widths of characters (libvterm/src/unicode.c)\<close>

text \<open>
  Which code points are combining characters and how many columns the others take. The table is sorted
  and searched by bisection.
\<close>

type_synonym intervals = "(int \<times> int) list"

definition combining :: intervals where
  "combining = [
    (0x0300, 0x036F), (0x0483, 0x0486), (0x0488, 0x0489), (0x0591, 0x05BD), (0x05BF, 0x05BF),
    (0x05C1, 0x05C2), (0x05C4, 0x05C5), (0x05C7, 0x05C7), (0x0600, 0x0603), (0x0610, 0x0615),
    (0x064B, 0x065E), (0x0670, 0x0670), (0x06D6, 0x06E4), (0x06E7, 0x06E8), (0x06EA, 0x06ED),
    (0x070F, 0x070F), (0x0711, 0x0711), (0x0730, 0x074A), (0x07A6, 0x07B0), (0x07EB, 0x07F3),
    (0x0901, 0x0902), (0x093C, 0x093C), (0x0941, 0x0948), (0x094D, 0x094D), (0x0951, 0x0954),
    (0x0962, 0x0963), (0x0981, 0x0981), (0x09BC, 0x09BC), (0x09C1, 0x09C4), (0x09CD, 0x09CD),
    (0x09E2, 0x09E3), (0x0A01, 0x0A02), (0x0A3C, 0x0A3C), (0x0A41, 0x0A42), (0x0A47, 0x0A48),
    (0x0A4B, 0x0A4D), (0x0A70, 0x0A71), (0x0A81, 0x0A82), (0x0ABC, 0x0ABC), (0x0AC1, 0x0AC5),
    (0x0AC7, 0x0AC8), (0x0ACD, 0x0ACD), (0x0AE2, 0x0AE3), (0x0B01, 0x0B01), (0x0B3C, 0x0B3C),
    (0x0B3F, 0x0B3F), (0x0B41, 0x0B43), (0x0B4D, 0x0B4D), (0x0B56, 0x0B56), (0x0B82, 0x0B82),
    (0x0BC0, 0x0BC0), (0x0BCD, 0x0BCD), (0x0C3E, 0x0C40), (0x0C46, 0x0C48), (0x0C4A, 0x0C4D),
    (0x0C55, 0x0C56), (0x0CBC, 0x0CBC), (0x0CBF, 0x0CBF), (0x0CC6, 0x0CC6), (0x0CCC, 0x0CCD),
    (0x0CE2, 0x0CE3), (0x0D41, 0x0D43), (0x0D4D, 0x0D4D), (0x0DCA, 0x0DCA), (0x0DD2, 0x0DD4),
    (0x0DD6, 0x0DD6), (0x0E31, 0x0E31), (0x0E34, 0x0E3A), (0x0E47, 0x0E4E), (0x0EB1, 0x0EB1),
    (0x0EB4, 0x0EB9), (0x0EBB, 0x0EBC), (0x0EC8, 0x0ECD), (0x0F18, 0x0F19), (0x0F35, 0x0F35),
    (0x0F37, 0x0F37), (0x0F39, 0x0F39), (0x0F71, 0x0F7E), (0x0F80, 0x0F84), (0x0F86, 0x0F87),
    (0x0F90, 0x0F97), (0x0F99, 0x0FBC), (0x0FC6, 0x0FC6), (0x102D, 0x1030), (0x1032, 0x1032),
    (0x1036, 0x1037), (0x1039, 0x1039), (0x1058, 0x1059), (0x1160, 0x11FF), (0x135F, 0x135F),
    (0x1712, 0x1714), (0x1732, 0x1734), (0x1752, 0x1753), (0x1772, 0x1773), (0x17B4, 0x17B5),
    (0x17B7, 0x17BD), (0x17C6, 0x17C6), (0x17C9, 0x17D3), (0x17DD, 0x17DD), (0x180B, 0x180D),
    (0x18A9, 0x18A9), (0x1920, 0x1922), (0x1927, 0x1928), (0x1932, 0x1932), (0x1939, 0x193B),
    (0x1A17, 0x1A18), (0x1B00, 0x1B03), (0x1B34, 0x1B34), (0x1B36, 0x1B3A), (0x1B3C, 0x1B3C),
    (0x1B42, 0x1B42), (0x1B6B, 0x1B73), (0x1DC0, 0x1DCA), (0x1DFE, 0x1DFF), (0x200B, 0x200F),
    (0x202A, 0x202E), (0x2060, 0x2063), (0x206A, 0x206F), (0x20D0, 0x20EF), (0x302A, 0x302F),
    (0x3099, 0x309A), (0xA806, 0xA806), (0xA80B, 0xA80B), (0xA825, 0xA826), (0xFB1E, 0xFB1E),
    (0xFE00, 0xFE0F), (0xFE20, 0xFE23), (0xFEFF, 0xFEFF), (0xFFF9, 0xFFFB), (0x10A01, 0x10A03),
    (0x10A05, 0x10A06), (0x10A0C, 0x10A0F), (0x10A38, 0x10A3A), (0x10A3F, 0x10A3F), (0x1D167, 0x1D169),
    (0x1D173, 0x1D182), (0x1D185, 0x1D18B), (0x1D1AA, 0x1D1AD), (0x1D242, 0x1D244), (0xE0001, 0xE0001),
    (0xE0020, 0xE007F), (0xE0100, 0xE01EF)]"

function bisearch_loop :: "int \<Rightarrow> intervals \<Rightarrow> int \<Rightarrow> int \<Rightarrow> bool option" where
  "bisearch_loop ucs table min0 max0 =
     (if max0 \<ge> min0 then do {
        let mid = (min0 + max0) div 2;
        (first, last) \<leftarrow> arr_get table mid;
        if ucs > last then bisearch_loop ucs table (mid + 1) max0
        else if ucs < first then bisearch_loop ucs table min0 (mid - 1)
        else Some True }
      else Some False)"
  by pat_completeness auto
termination
  by (relation "measure (\<lambda>(ucs, table, min0, max0). nat (max0 - min0 + 1))") auto

declare bisearch_loop.simps [simp del]

definition bisearch :: "int \<Rightarrow> intervals \<Rightarrow> int \<Rightarrow> bool option" where
  "bisearch ucs table max0 = do {
     (first, _) \<leftarrow> arr_get table 0;
     (_, last) \<leftarrow> arr_get table max0;
     if ucs < first \<or> ucs > last then Some False else bisearch_loop ucs table 0 max0 }"

text \<open>The search never leaves the table (\<open>bisearch_in_table\<close> below), so these are the C results.\<close>

definition vterm_unicode_is_combining :: "int \<Rightarrow> bool" where
  "vterm_unicode_is_combining codepoint \<longleftrightarrow> bisearch codepoint combining (int (length combining) - 1) = Some True"

definition wide :: "int \<Rightarrow> bool" where
  "wide ucs \<longleftrightarrow> ucs \<ge> 0x1100 \<and>
     (ucs \<le> 0x115f \<or> ucs = 0x2329 \<or> ucs = 0x232a \<or>
      (ucs \<ge> 0x2e80 \<and> ucs \<le> 0xa4cf \<and> ucs \<noteq> 0x303f) \<or>
      (ucs \<ge> 0xac00 \<and> ucs \<le> 0xd7a3) \<or>
      (ucs \<ge> 0xf900 \<and> ucs \<le> 0xfaff) \<or>
      (ucs \<ge> 0xfe10 \<and> ucs \<le> 0xfe19) \<or>
      (ucs \<ge> 0xfe30 \<and> ucs \<le> 0xfe6f) \<or>
      (ucs \<ge> 0xff00 \<and> ucs \<le> 0xff60) \<or>
      (ucs \<ge> 0xffe0 \<and> ucs \<le> 0xffe6) \<or>
      (ucs \<ge> 0x20000 \<and> ucs \<le> 0x2fffd) \<or>
      (ucs \<ge> 0x30000 \<and> ucs \<le> 0x3fffd))"

definition mk_wcwidth :: "int \<Rightarrow> int" where
  "mk_wcwidth ucs =
     (if ucs = 0 then 0
      else if ucs < 32 \<or> (ucs \<ge> 0x7f \<and> ucs < 0xa0) then - 1
      else if vterm_unicode_is_combining ucs then 0
      else 1 + (if wide ucs then 1 else 0))"

definition vterm_unicode_width :: "int \<Rightarrow> int" where
  "vterm_unicode_width codepoint = mk_wcwidth codepoint"

subsection \<open>Bisection finds what is in the table\<close>

fun intervals_ok :: "intervals \<Rightarrow> bool" where
  "intervals_ok [] \<longleftrightarrow> True"
| "intervals_ok [(a, b)] \<longleftrightarrow> a \<le> b"
| "intervals_ok ((a, b) # (c, d) # r) \<longleftrightarrow> a \<le> b \<and> b < c \<and> intervals_ok ((c, d) # r)"

lemma intervals_ok_head: "intervals_ok ((a, b) # r) \<Longrightarrow> (c, d) \<in> set r \<Longrightarrow> b < c"
proof (induction r arbitrary: a b)
  case (Cons x r)
  obtain e f where x: "x = (e, f)" by (cases x)
  with Cons.prems have "e \<le> f" by (cases r) auto
  with Cons x show ?case by fastforce
qed simp

lemma intervals_ok_tl: "intervals_ok (x # r) \<Longrightarrow> intervals_ok r"
  by (cases r; cases x) auto

lemma intervals_sorted:
  "intervals_ok t \<Longrightarrow> i < j \<Longrightarrow> j < length t \<Longrightarrow> snd (t ! i) < fst (t ! j)"
proof (induction t arbitrary: i j)
  case (Cons x r)
  show ?case
  proof (cases i)
    case 0
    then obtain k where k: "j = Suc k" "k < length r" using Cons.prems by (cases j) auto
    obtain a b c d where "x = (a, b)" "r ! k = (c, d)" by (cases x; cases "r ! k") auto
    then show ?thesis using intervals_ok_head [of a b r c d] nth_mem [OF k(2)] Cons.prems(1) 0 k by simp
  next
    case (Suc k)
    then show ?thesis using Cons.IH [OF intervals_ok_tl [OF Cons.prems(1)], of k "j - 1"] Cons.prems(2,3) by (cases j) auto
  qed
qed simp

lemma intervals_nonempty: "intervals_ok t \<Longrightarrow> i < length t \<Longrightarrow> fst (t ! i) \<le> snd (t ! i)"
proof (induction t arbitrary: i)
  case (Cons x r)
  have "fst x \<le> snd x" using Cons.prems(1) by (cases r; cases x) auto
  with Cons show ?case using intervals_ok_tl by (cases i) auto
qed simp

definition in_interval :: "int \<Rightarrow> int \<times> int \<Rightarrow> bool" where
  "in_interval c iv \<longleftrightarrow> fst iv \<le> c \<and> c \<le> snd iv"

lemma bisearch_loop_spec:
  assumes "intervals_ok t" "0 \<le> lo" "hi < int (length t)"
  shows "bisearch_loop c t lo hi = Some (\<exists>k. lo \<le> k \<and> k \<le> hi \<and> in_interval c (t ! nat k))"
  using assms(2,3)
proof (induction "nat (hi - lo + 1)" arbitrary: lo hi rule: less_induct)
  case less
  show ?case
  proof (cases "lo \<le> hi")
    case False
    then show ?thesis by (subst bisearch_loop.simps) auto
  next
    case True
    let ?m = "(lo + hi) div 2"
    have m: "lo \<le> ?m" "?m \<le> hi" using True by auto
    obtain a b where ab: "t ! nat ?m = (a, b)" by (cases "t ! nat ?m")
    have g: "arr_get t ?m = Some (a, b)" using m less.prems ab by (simp add: arr_get_def)
    consider "c > b" | "c \<le> b" "c < a" | "a \<le> c" "c \<le> b" by linarith
    then show ?thesis
    proof cases
      case 1
      have "\<not> in_interval c (t ! nat k)" if "lo \<le> k" "k \<le> ?m" for k
      proof (cases "k = ?m")
        case False
        have "snd (t ! nat k) < fst (t ! nat ?m)" by (rule intervals_sorted [OF assms(1)]) (use that False m less.prems in linarith)+
        moreover have "fst (t ! nat ?m) \<le> snd (t ! nat ?m)" by (rule intervals_nonempty [OF assms(1)]) (use m less.prems in linarith)
        ultimately show ?thesis using 1 ab by (simp add: in_interval_def)
      qed (use 1 ab in \<open>simp add: in_interval_def\<close>)
      then have "?m < k" if "lo \<le> k" "in_interval c (t ! nat k)" for k using that by (meson linorder_not_le)
      then have "(\<exists>k. lo \<le> k \<and> k \<le> hi \<and> in_interval c (t ! nat k)) \<longleftrightarrow> (\<exists>k. ?m + 1 \<le> k \<and> k \<le> hi \<and> in_interval c (t ! nat k))"
        using m by (intro iff_exI) fastforce
      moreover have "bisearch_loop c t lo hi = bisearch_loop c t (?m + 1) hi"
        using True g 1 by (subst bisearch_loop.simps) simp
      ultimately show ?thesis using less.hyps [of hi "?m + 1"] m less.prems by simp
    next
      case 2
      have "\<not> in_interval c (t ! nat k)" if "?m \<le> k" "k \<le> hi" for k
      proof (cases "k = ?m")
        case False
        have "snd (t ! nat ?m) < fst (t ! nat k)" by (rule intervals_sorted [OF assms(1)]) (use that False m less.prems in linarith)+
        then show ?thesis using 2 ab by (simp add: in_interval_def)
      qed (use 2 ab in \<open>simp add: in_interval_def\<close>)
      then have "k < ?m" if "k \<le> hi" "in_interval c (t ! nat k)" for k using that by (meson linorder_not_le)
      then have "(\<exists>k. lo \<le> k \<and> k \<le> hi \<and> in_interval c (t ! nat k)) \<longleftrightarrow> (\<exists>k. lo \<le> k \<and> k \<le> ?m - 1 \<and> in_interval c (t ! nat k))"
        using m by (intro iff_exI) fastforce
      moreover have "bisearch_loop c t lo hi = bisearch_loop c t lo (?m - 1)"
        using True g 2 by (subst bisearch_loop.simps) simp
      ultimately show ?thesis using less.hyps [of "?m - 1" lo] m less.prems by simp
    next
      case 3
      then show ?thesis using True g m ab by (subst bisearch_loop.simps) (auto simp: in_interval_def)
    qed
  qed
qed

lemma bisearch_in_table:
  assumes "intervals_ok t" "t \<noteq> []"
  shows "bisearch c t (int (length t) - 1) = Some (\<exists>iv\<in>set t. in_interval c iv)"
proof -
  let ?n = "int (length t) - 1"
  have n: "0 < length t" using assms(2) by simp
  obtain a b where z: "t ! 0 = (a, b)" by (cases "t ! 0")
  obtain x y where l: "t ! nat ?n = (x, y)" by (cases "t ! nat ?n")
  have g: "arr_get t 0 = Some (a, b)" "arr_get t ?n = Some (x, y)" using n z l by (simp_all add: arr_get_def)
  have ex: "(\<exists>k. 0 \<le> k \<and> k \<le> ?n \<and> in_interval c (t ! nat k)) \<longleftrightarrow> (\<exists>iv\<in>set t. in_interval c iv)"
  proof
    assume "\<exists>k. 0 \<le> k \<and> k \<le> ?n \<and> in_interval c (t ! nat k)"
    then obtain k where "0 \<le> k" "k \<le> ?n" "in_interval c (t ! nat k)" by blast
    then show "\<exists>iv\<in>set t. in_interval c iv" using nth_mem [of "nat k" t] by (metis zle_diff1_eq nat_less_iff)
  next
    assume "\<exists>iv\<in>set t. in_interval c iv"
    then obtain i where "i < length t" "in_interval c (t ! i)" by (metis in_set_conv_nth)
    then show "\<exists>k. 0 \<le> k \<and> k \<le> ?n \<and> in_interval c (t ! nat k)" by (intro exI [of _ "int i"]) simp
  qed
  have out: "\<not> in_interval c (t ! i)" if "i < length t" "c < a \<or> c > y" for i
  proof -
    have "a \<le> fst (t ! i)"
      using intervals_sorted [OF assms(1), of 0 i] intervals_nonempty [OF assms(1), of 0] that(1) z n by (cases "i = 0") auto
    moreover have "snd (t ! i) \<le> y"
    proof (cases "i = nat ?n")
      case False
      have m: "i < nat ?n" "nat ?n < length t" using that(1) n False by linarith+
      from intervals_sorted [OF assms(1) m] intervals_nonempty [OF assms(1) m(2)] l show ?thesis by simp
    qed (use l in simp)
    ultimately show ?thesis using that(2) by (auto simp: in_interval_def)
  qed
  then have "\<not> (\<exists>iv\<in>set t. in_interval c iv)" if "c < a \<or> c > y" using that by (metis in_set_conv_nth)
  then show ?thesis using g ex bisearch_loop_spec [OF assms(1), of 0 ?n c] by (auto simp: bisearch_def)
qed

lemma combining_ok: "intervals_ok combining" "combining \<noteq> []"
  by (simp_all add: combining_def)

text \<open>
  C26: The binary search finds a code point exactly when one of the intervals of the table of combining
  characters holds it.
\<close>

theorem combining_exact: "vterm_unicode_is_combining c \<longleftrightarrow> (\<exists>(first, last)\<in>set combining. first \<le> c \<and> c \<le> last)"
  unfolding vterm_unicode_is_combining_def bisearch_in_table [OF combining_ok] in_interval_def by (simp add: case_prod_beta)

end
