(* ===== verification/Cells.thy ===== *)
theory Cells
  imports Prelude
begin

section \<open>Colours, cells and areas of the screen (libvterm/include/vterm.h)\<close>

text \<open>
  The types in which the terminal emulator and the program around it talk about the screen. Attributes are
  C bit fields and hold small integers.
\<close>

record vcolor =
  vc_red :: byte
  vc_green :: byte
  vc_blue :: byte

record vattrs =
  va_bold :: int
  va_underline :: int
  va_italic :: int
  va_blink :: int
  va_reverse :: int
  va_strike :: int
  va_font :: int

record vcell =
  cell_chars :: "u32 list"
  cell_width :: int
  cell_attrs :: vattrs
  cell_fg :: vcolor
  cell_bg :: vcolor

text \<open>How the next character will look; the emulator's state and its cells hold such a record.\<close>

record vpen =
  pen_fg :: vcolor
  pen_bg :: vcolor
  pen_attrs :: vattrs

record vpos =
  pos_row :: int
  pos_col :: int

text \<open>An area: its end is the first row and column behind it.\<close>

record vrect =
  start_row :: int
  end_row :: int
  start_col :: int
  end_col :: int

definition vterm_rect_move :: "vrect \<Rightarrow> int \<Rightarrow> int \<Rightarrow> vrect" where
  "vterm_rect_move rect row_delta col_delta =
     \<lparr>start_row = start_row rect + row_delta, end_row = end_row rect + row_delta,
      start_col = start_col rect + col_delta, end_col = end_col rect + col_delta\<rparr>"

text \<open>The functions of \<open>rect.h\<close>.\<close>

definition rect_expand :: "vrect \<Rightarrow> vrect \<Rightarrow> vrect" where
  "rect_expand dst src =
     \<lparr>start_row = (if start_row dst > start_row src then start_row src else start_row dst),
      end_row = (if end_row dst < end_row src then end_row src else end_row dst),
      start_col = (if start_col dst > start_col src then start_col src else start_col dst),
      end_col = (if end_col dst < end_col src then end_col src else end_col dst)\<rparr>"

definition rect_clip :: "vrect \<Rightarrow> vrect \<Rightarrow> vrect" where
  "rect_clip dst bounds =
     (let sr = (if start_row dst < start_row bounds then start_row bounds else start_row dst);
          sc = (if start_col dst < start_col bounds then start_col bounds else start_col dst);
          er = (if end_row dst > end_row bounds then end_row bounds else end_row dst);
          ec = (if end_col dst > end_col bounds then end_col bounds else end_col dst)
      in \<lparr>start_row = sr, end_row = (if er < sr then sr else er), start_col = sc, end_col = (if ec < sc then sc else ec)\<rparr>)"

definition rect_equal :: "vrect \<Rightarrow> vrect \<Rightarrow> bool" where
  "rect_equal a b \<longleftrightarrow> start_row a = start_row b \<and> start_col a = start_col b \<and> end_row a = end_row b \<and> end_col a = end_col b"

definition rect_contains :: "vrect \<Rightarrow> vrect \<Rightarrow> bool" where
  "rect_contains big small \<longleftrightarrow> \<not> (start_row small < start_row big) \<and> \<not> (start_col small < start_col big)
     \<and> \<not> (end_row small > end_row big) \<and> \<not> (end_col small > end_col big)"

definition rect_intersects :: "vrect \<Rightarrow> vrect \<Rightarrow> bool" where
  "rect_intersects a b \<longleftrightarrow> \<not> (start_row a > end_row b \<or> start_row b > end_row a)
     \<and> \<not> (start_col a > end_col b \<or> start_col b > end_col a)"

subsection \<open>Calls into the program\<close>

text \<open>
  A call back: before rows scroll off (the area and the cells as they are then), a new size, the bell, an
  erased area, printed text, a control sequence (its final byte), a device control string (the memory from
  its start on and its length), and the two that \<open>main.c\<close> ignores.
\<close>

datatype vterm_call =
    CbPrescroll vrect "int \<Rightarrow> int \<Rightarrow> vcell"
  | CbResize int int
  | CbBell
  | CbErase
  | CbText "byte list"
  | CbCsi byte
  | CbDcs "byte list" int
  | CbOsc "byte list"
  | CbEscape "byte list"

end
