(* ===== verification/Screen.thy ===== *)
theory Screen
  imports Cells
begin

section \<open>The screen of the emulator (libvterm/src/screen.c, vterm_scroll_rect of vterm.c)\<close>

text \<open>
  The cells of the primary and the alternate screen, the pen for new cells and the damage not yet
  reported. The emulator's state calls these functions; they call the program's functions \<open>cb_screen\<close> of
  \<open>main.c\<close>: those for a coming scroll, a new size and the bell. They only look at the cells, so the calls
  are kept in \<open>scr_calls\<close>, in order. The functions that \<open>main.c\<close> does not set (damage, moved areas, the
  cursor, properties, the mouse) are null there.
\<close>

subsection \<open>State\<close>

definition VTERM_MAX_CHARS_PER_CELL :: nat where "VTERM_MAX_CHARS_PER_CELL = 6"

record scell =
  sc_chars :: "u32 list"
  sc_pen :: vpen

datatype damage_size = VTERM_DAMAGE_CELL | VTERM_DAMAGE_ROW | VTERM_DAMAGE_SCREEN | VTERM_DAMAGE_SCROLL

record vterm_screen =
  damage_merge :: damage_size
  damaged :: vrect
  pending_scrollrect :: vrect
  pending_scroll_downward :: int
  pending_scroll_rightward :: int
  scr_rows :: int
  scr_cols :: int
  global_reverse :: int
  scr_primary :: "scell list"
  scr_altscreen :: "scell list option"
  scr_on_alt :: bool
  scr_pen :: vpen
  scr_calls :: "vterm_call list"

text \<open>\<open>buffers[1]\<close> is \<^const>\<open>None\<close> until it is allocated; \<open>buffer\<close> is one of the two.\<close>

definition scr_buffer :: "vterm_screen \<Rightarrow> scell list" where
  "scr_buffer scr = (if scr_on_alt scr then (case scr_altscreen scr of None \<Rightarrow> [] | Some b \<Rightarrow> b) else scr_primary scr)"

definition set_buffer :: "scell list \<Rightarrow> vterm_screen \<Rightarrow> vterm_screen" where
  "set_buffer b scr = (if scr_on_alt scr then scr\<lparr>scr_altscreen := Some b\<rparr> else scr\<lparr>scr_primary := b\<rparr>)"

definition getcell :: "vterm_screen \<Rightarrow> int \<Rightarrow> int \<Rightarrow> nat option" where
  "getcell scr row col =
     (if row < 0 \<or> row \<ge> scr_rows scr then None
      else if col < 0 \<or> col \<ge> scr_cols scr then None
      else Some (nat (scr_cols scr * row + col)))"

text \<open>Memory comes cleared from the allocator.\<close>

definition new_cell :: "vpen \<Rightarrow> scell" where
  "new_cell p = \<lparr>sc_chars = replicate VTERM_MAX_CHARS_PER_CELL 0, sc_pen = p\<rparr>"

definition realloc_buffer :: "vterm_screen \<Rightarrow> scell list option \<Rightarrow> int \<Rightarrow> int \<Rightarrow> scell list" where
  "realloc_buffer scr buffer new_rows new_cols =
     [case buffer of
        Some b \<Rightarrow> if row < scr_rows scr \<and> col < scr_cols scr then b ! nat (row * scr_cols scr + col) else new_cell (scr_pen scr)
      | None \<Rightarrow> new_cell (scr_pen scr).
      row \<leftarrow> [0..new_rows - 1], col \<leftarrow> [0..new_cols - 1]]"

subsection \<open>Damage\<close>

text \<open>Reported damage goes nowhere. The program never chooses \<open>VTERM_DAMAGE_ROW\<close>, for which a scroll is never pending.\<close>

definition no_rect :: "vrect \<Rightarrow> vrect" where
  "no_rect r = r\<lparr>start_row := - 1\<rparr>"

definition damagerect :: "vrect \<Rightarrow> vterm_screen \<Rightarrow> vterm_screen" where
  "damagerect rect scr = (case damage_merge scr of
       VTERM_DAMAGE_CELL \<Rightarrow> scr
     | VTERM_DAMAGE_ROW \<Rightarrow>
         if end_row rect > start_row rect + 1 then scr\<lparr>damaged := no_rect (damaged scr)\<rparr>
         else if start_row (damaged scr) = - 1 then scr\<lparr>damaged := rect\<rparr>
         else if start_row rect = start_row (damaged scr) then
           scr\<lparr>damaged := (damaged scr)\<lparr>start_col := min (start_col (damaged scr)) (start_col rect),
                                        end_col := max (end_col (damaged scr)) (end_col rect)\<rparr>\<rparr>
         else scr\<lparr>damaged := rect\<rparr>
     | _ \<Rightarrow> scr\<lparr>damaged := (if start_row (damaged scr) = - 1 then rect else rect_expand (damaged scr) rect)\<rparr>)"

definition damagescreen :: "vterm_screen \<Rightarrow> vterm_screen" where
  "damagescreen scr = damagerect \<lparr>start_row = 0, end_row = scr_rows scr, start_col = 0, end_col = scr_cols scr\<rparr> scr"

subsection \<open>Scrolling an area\<close>

text \<open>
  \<open>vterm_scroll_rect\<close> moves what stays and erases what becomes free; the two functions it gets move cells
  or only note the damage.
\<close>

definition scroll_dest :: "vrect \<Rightarrow> int \<Rightarrow> int \<Rightarrow> vrect" where
  "scroll_dest rect downward rightward =
     \<lparr>start_row = (if downward \<ge> 0 then start_row rect else start_row rect + - downward),
      end_row = (if downward \<ge> 0 then end_row rect - downward else end_row rect),
      start_col = (if rightward \<ge> 0 then start_col rect else start_col rect + - rightward),
      end_col = (if rightward \<ge> 0 then end_col rect - rightward else end_col rect)\<rparr>"

definition scroll_src :: "vrect \<Rightarrow> int \<Rightarrow> int \<Rightarrow> vrect" where
  "scroll_src rect downward rightward =
     \<lparr>start_row = (if downward \<ge> 0 then start_row rect + downward else start_row rect),
      end_row = (if downward \<ge> 0 then end_row rect else end_row rect - - downward),
      start_col = (if rightward \<ge> 0 then start_col rect + rightward else start_col rect),
      end_col = (if rightward \<ge> 0 then end_col rect else end_col rect - - rightward)\<rparr>"

definition scroll_freed :: "vrect \<Rightarrow> int \<Rightarrow> int \<Rightarrow> vrect" where
  "scroll_freed rect downward rightward =
     (let r1 = (if downward > 0 then rect\<lparr>start_row := end_row rect - downward\<rparr>
                else if downward < 0 then rect\<lparr>end_row := start_row rect - downward\<rparr> else rect)
      in if rightward > 0 then r1\<lparr>start_col := end_col r1 - rightward\<rparr>
         else if rightward < 0 then r1\<lparr>end_col := start_col r1 - rightward\<rparr> else r1)"

definition vterm_scroll_rect :: "vrect \<Rightarrow> int \<Rightarrow> int \<Rightarrow> (vrect \<Rightarrow> vrect \<Rightarrow> 's \<Rightarrow> 's option) \<Rightarrow> (vrect \<Rightarrow> 's \<Rightarrow> 's)
    \<Rightarrow> 's \<Rightarrow> 's option" where
  "vterm_scroll_rect rect downward rightward moverect eraserect s =
     (if \<bar>downward\<bar> \<ge> end_row rect - start_row rect \<or> \<bar>rightward\<bar> \<ge> end_col rect - start_col rect
      then Some (eraserect rect s)
      else do {
        s1 \<leftarrow> moverect (scroll_dest rect downward rightward) (scroll_src rect downward rightward) s;
        Some (eraserect (scroll_freed rect downward rightward) s1) })"

definition moverect_user :: "vrect \<Rightarrow> vrect \<Rightarrow> vterm_screen \<Rightarrow> vterm_screen option" where
  "moverect_user dest src scr = Some (damagerect dest scr)"

definition erase_user :: "vrect \<Rightarrow> vterm_screen \<Rightarrow> vterm_screen" where
  "erase_user rect scr = damagerect rect scr"

definition vterm_screen_flush_damage :: "vterm_screen \<Rightarrow> vterm_screen option" where
  "vterm_screen_flush_damage scr = do {
     scr1 \<leftarrow> (if start_row (pending_scrollrect scr) \<noteq> - 1 then do {
                s \<leftarrow> vterm_scroll_rect (pending_scrollrect scr) (pending_scroll_downward scr) (pending_scroll_rightward scr)
                       moverect_user erase_user scr;
                Some (s\<lparr>pending_scrollrect := no_rect (pending_scrollrect s)\<rparr>) }
              else Some scr);
     Some (if start_row (damaged scr1) \<noteq> - 1 then scr1\<lparr>damaged := no_rect (damaged scr1)\<rparr> else scr1) }"

definition vterm_screen_set_damage_merge :: "damage_size \<Rightarrow> vterm_screen \<Rightarrow> vterm_screen option" where
  "vterm_screen_set_damage_merge dsize scr = do {
     scr1 \<leftarrow> vterm_screen_flush_damage scr;
     Some (scr1\<lparr>damage_merge := dsize\<rparr>) }"

subsection \<open>Cells for the program\<close>

text \<open>
  \<open>vterm_screen_get_cell\<close> copies the characters up to and including the first NUL, without a bound: a
  cell whose six places are all taken is read and written behind its end. What was in the places behind the
  NUL stays there; for a fresh local cell that is any value. The result is 0 (\<^const>\<open>None\<close>) outside.
\<close>

definition external_chars :: "u32 list \<Rightarrow> u32 list" where
  "external_chars chars =
     (let text = takeWhile (\<lambda>c. c \<noteq> 0) chars
      in text @ 0 # drop (length text + 1) (replicate VTERM_MAX_CHARS_PER_CELL undefined))"

definition vterm_screen_get_cell :: "vterm_screen \<Rightarrow> int \<Rightarrow> int \<Rightarrow> vcell option option" where
  "vterm_screen_get_cell scr row col = (case getcell scr row col of
       None \<Rightarrow> Some None
     | Some i \<Rightarrow> do {
         intcell \<leftarrow> arr_get (scr_buffer scr) (int i);
         guard (0 \<in> set (sc_chars intcell));
         let p = sc_pen intcell;
         right \<leftarrow> (if col < scr_cols scr - 1 then do {
                      j \<leftarrow> getcell scr row (col + 1);
                      c \<leftarrow> arr_get (scr_buffer scr) (int j);
                      ch \<leftarrow> arr_get (sc_chars c) 0;
                      Some (ch = - 1) }
                    else Some False);
         Some (Some \<lparr>cell_chars = external_chars (sc_chars intcell), cell_width = (if right then 2 else 1),
            cell_attrs = (pen_attrs p)\<lparr>va_reverse := (va_reverse (pen_attrs p) XOR global_reverse scr) AND 1\<rparr>,
            cell_fg = pen_fg p, cell_bg = pen_bg p\<rparr>) })"

definition cell_for_program :: "vterm_screen \<Rightarrow> int \<Rightarrow> int \<Rightarrow> vcell" where
  "cell_for_program scr row col = (case vterm_screen_get_cell scr row col of Some (Some c) \<Rightarrow> c | _ \<Rightarrow> undefined)"

fun is_eol_loop :: "vterm_screen \<Rightarrow> int \<Rightarrow> int list \<Rightarrow> bool option" where
  "is_eol_loop scr row [] = Some True"
| "is_eol_loop scr row (col # cs) = do {
     i \<leftarrow> getcell scr row col;
     c \<leftarrow> arr_get (scr_buffer scr) (int i);
     ch \<leftarrow> arr_get (sc_chars c) 0;
     if ch \<noteq> 0 then Some False else is_eol_loop scr row cs }"

definition vterm_screen_is_eol :: "vterm_screen \<Rightarrow> int \<Rightarrow> int \<Rightarrow> bool option" where
  "vterm_screen_is_eol scr row col = is_eol_loop scr row [col..scr_cols scr - 1]"

subsection \<open>Functions for the emulator's state\<close>

text \<open>The characters of a glyph come as a NUL-terminated array.\<close>

fun copy_chars :: "nat \<Rightarrow> u32 list \<Rightarrow> u32 list option" where
  "copy_chars 0 chars = Some []"
| "copy_chars (Suc n) [] = None"
| "copy_chars (Suc n) (c # cs) = (if c = 0 then Some [] else map_option (Cons c) (copy_chars n cs))"

definition put_chars :: "vpen \<Rightarrow> u32 list \<Rightarrow> scell \<Rightarrow> scell" where
  "put_chars p new cell =
     (let i = length new;
          ended = new @ (if i < VTERM_MAX_CHARS_PER_CELL then [0] else [])
      in \<lparr>sc_chars = ended @ drop (length ended) (sc_chars cell), sc_pen = (if i > 0 then p else sc_pen cell)\<rparr>)"

definition set_gap :: "int \<Rightarrow> int \<Rightarrow> vterm_screen \<Rightarrow> vterm_screen option" where
  "set_gap row col scr = (case getcell scr row col of
       None \<Rightarrow> Some scr
     | Some i \<Rightarrow> do {
         c \<leftarrow> arr_get (scr_buffer scr) (int i);
         chars \<leftarrow> arr_set (sc_chars c) 0 (- 1);
         b \<leftarrow> arr_set (scr_buffer scr) (int i) (c\<lparr>sc_chars := chars\<rparr>);
         Some (set_buffer b scr) })"

definition putglyph :: "u32 list \<Rightarrow> int \<Rightarrow> vpos \<Rightarrow> vterm_screen \<Rightarrow> vterm_screen option" where
  "putglyph chars width pos scr = (case getcell scr (pos_row pos) (pos_col pos) of
       None \<Rightarrow> Some scr
     | Some i \<Rightarrow> do {
         cell \<leftarrow> arr_get (scr_buffer scr) (int i);
         new \<leftarrow> copy_chars VTERM_MAX_CHARS_PER_CELL chars;
         b \<leftarrow> arr_set (scr_buffer scr) (int i) (put_chars (scr_pen scr) new cell);
         scr1 \<leftarrow> ofold (\<lambda>col. set_gap (pos_row pos) (pos_col pos + col)) [1..width - 1] (set_buffer b scr);
         Some (damagerect \<lparr>start_row = pos_row pos, end_row = pos_row pos + 1,
                           start_col = pos_col pos, end_col = pos_col pos + width\<rparr> scr1) })"

text \<open>
  Cells move row by row with \<open>memmove\<close>; a null pointer from \<open>getcell\<close> or an area that leaves the buffer is
  undefined. Before that the program is told of the rows and columns that go. Its function reads the cells
  of an area of whole rows at the top.
\<close>

definition prescroll :: "vrect \<Rightarrow> vterm_screen \<Rightarrow> vterm_screen option" where
  "prescroll rect scr = do {
     guard (start_row rect = 0 \<and> start_col rect = 0 \<longrightarrow>
       (\<forall>row\<in>set [0..end_row rect - 1]. \<forall>col\<in>set [0..end_col rect - 1]. vterm_screen_get_cell scr row col \<noteq> None));
     Some (scr\<lparr>scr_calls := scr_calls scr @ [CbPrescroll rect (cell_for_program scr)]\<rparr>) }"

definition memmove_cells :: "nat \<Rightarrow> nat \<Rightarrow> int \<Rightarrow> scell list \<Rightarrow> scell list option" where
  "memmove_cells dst src n b =
     (if n < 0 \<or> int (length b) < int dst + n \<or> int (length b) < int src + n then None
      else Some (take dst b @ take (nat n) (drop src b) @ drop (dst + nat n) b))"

definition move_row :: "vrect \<Rightarrow> vrect \<Rightarrow> int \<Rightarrow> vterm_screen \<Rightarrow> vterm_screen option" where
  "move_row dest src row scr =
     (if row < 0 then Some scr
      else do {
        d \<leftarrow> getcell scr row (start_col dest);
        s \<leftarrow> getcell scr (row + (start_row src - start_row dest)) (start_col src);
        b \<leftarrow> memmove_cells d s (end_col src - start_col src) (scr_buffer scr);
        Some (set_buffer b scr) })"

definition moverect_internal :: "vrect \<Rightarrow> vrect \<Rightarrow> vterm_screen \<Rightarrow> vterm_screen option" where
  "moverect_internal dest src scr = do {
     scr1 \<leftarrow> (if start_row dest < start_row src then prescroll (dest\<lparr>end_row := start_row src\<rparr>) scr
              else if start_row dest > start_row src then prescroll (dest\<lparr>start_row := end_row src\<rparr>) scr
              else Some scr);
     scr2 \<leftarrow> (if start_col dest < start_col src then prescroll (dest\<lparr>end_col := start_col src\<rparr>) scr1
              else if start_col dest > start_col src then prescroll (dest\<lparr>start_col := end_col src\<rparr>) scr1
              else Some scr1);
     guard (start_row dest \<le> end_row dest);
     let rows = [start_row dest..end_row dest - 1];
     ofold (move_row dest src) (if start_row src - start_row dest < 0 then rev rows else rows) scr2 }"

definition erase_cell :: "int \<times> int \<Rightarrow> vterm_screen \<Rightarrow> vterm_screen" where
  "erase_cell = (\<lambda>(row, col) scr. (case getcell scr row col of
       None \<Rightarrow> scr
     | Some i \<Rightarrow> set_buffer ((scr_buffer scr)[i := \<lparr>sc_chars = (sc_chars (scr_buffer scr ! i))[0 := 0], sc_pen = scr_pen scr\<rparr>]) scr))"

definition erase_internal :: "vrect \<Rightarrow> vterm_screen \<Rightarrow> vterm_screen" where
  "erase_internal rect scr =
     fold erase_cell [(row, col). row \<leftarrow> [start_row rect..end_row rect - 1], col \<leftarrow> [start_col rect..end_col rect - 1]] scr"

definition erase :: "vrect \<Rightarrow> vterm_screen \<Rightarrow> vterm_screen" where
  "erase rect scr = erase_user rect (erase_internal rect scr)"

definition scrollrect :: "vrect \<Rightarrow> int \<Rightarrow> int \<Rightarrow> vterm_screen \<Rightarrow> vterm_screen option" where
  "scrollrect rect downward rightward scr = do {
     scr1 \<leftarrow> vterm_scroll_rect rect downward rightward moverect_internal erase_internal scr;
     if damage_merge scr1 = VTERM_DAMAGE_SCROLL then do {
       scr2 \<leftarrow> (if start_row (damaged scr1) \<noteq> - 1 \<and> \<not> rect_intersects rect (damaged scr1)
                then vterm_screen_flush_damage scr1 else Some scr1);
       let start = (\<lambda>s. s\<lparr>pending_scrollrect := rect, pending_scroll_downward := downward, pending_scroll_rightward := rightward\<rparr>);
       scr3 \<leftarrow> (if start_row (pending_scrollrect scr2) = - 1 then Some (start scr2)
                else if rect_equal (pending_scrollrect scr2) rect \<and>
                  (pending_scroll_downward scr2 = 0 \<and> downward = 0 \<or> pending_scroll_rightward scr2 = 0 \<and> rightward = 0)
                then Some (scr2\<lparr>pending_scroll_downward := pending_scroll_downward scr2 + downward,
                                pending_scroll_rightward := pending_scroll_rightward scr2 + rightward\<rparr>)
                else do { s \<leftarrow> vterm_screen_flush_damage scr2; Some (start s) });
       Some (if start_row (damaged scr3) \<noteq> - 1 \<and> rect_contains rect (damaged scr3)
             then scr3\<lparr>damaged := rect_clip (vterm_rect_move (damaged scr3) (- downward) (- rightward)) rect\<rparr>
             else scr3) }
     else do {
       scr2 \<leftarrow> vterm_screen_flush_damage scr1;
       vterm_scroll_rect rect downward rightward moverect_user erase_user scr2 } }"

datatype pen_attr =
    ATTR_BOLD int
  | ATTR_UNDERLINE int
  | ATTR_ITALIC int
  | ATTR_BLINK int
  | ATTR_REVERSE int
  | ATTR_STRIKE int
  | ATTR_FONT int
  | ATTR_FOREGROUND vcolor
  | ATTR_BACKGROUND vcolor

fun set_attr :: "pen_attr \<Rightarrow> vpen \<Rightarrow> vpen" where
  "set_attr (ATTR_BOLD v) p = p\<lparr>pen_attrs := (pen_attrs p)\<lparr>va_bold := v\<rparr>\<rparr>"
| "set_attr (ATTR_UNDERLINE v) p = p\<lparr>pen_attrs := (pen_attrs p)\<lparr>va_underline := v\<rparr>\<rparr>"
| "set_attr (ATTR_ITALIC v) p = p\<lparr>pen_attrs := (pen_attrs p)\<lparr>va_italic := v\<rparr>\<rparr>"
| "set_attr (ATTR_BLINK v) p = p\<lparr>pen_attrs := (pen_attrs p)\<lparr>va_blink := v\<rparr>\<rparr>"
| "set_attr (ATTR_REVERSE v) p = p\<lparr>pen_attrs := (pen_attrs p)\<lparr>va_reverse := v\<rparr>\<rparr>"
| "set_attr (ATTR_STRIKE v) p = p\<lparr>pen_attrs := (pen_attrs p)\<lparr>va_strike := v\<rparr>\<rparr>"
| "set_attr (ATTR_FONT v) p = p\<lparr>pen_attrs := (pen_attrs p)\<lparr>va_font := v\<rparr>\<rparr>"
| "set_attr (ATTR_FOREGROUND c) p = p\<lparr>pen_fg := c\<rparr>"
| "set_attr (ATTR_BACKGROUND c) p = p\<lparr>pen_bg := c\<rparr>"

definition setpenattr :: "pen_attr \<Rightarrow> vterm_screen \<Rightarrow> vterm_screen" where
  "setpenattr a scr = scr\<lparr>scr_pen := set_attr a (scr_pen scr)\<rparr>"

datatype term_prop =
    PROP_CURSORVISIBLE int
  | PROP_CURSORBLINK int
  | PROP_ALTSCREEN int
  | PROP_TITLE "byte list"
  | PROP_ICONNAME "byte list"
  | PROP_REVERSE int
  | PROP_CURSORSHAPE int

text \<open>The result says whether the property was set.\<close>

fun settermprop :: "term_prop \<Rightarrow> vterm_screen \<Rightarrow> bool \<times> vterm_screen" where
  "settermprop (PROP_ALTSCREEN v) scr =
     (if v \<noteq> 0 \<and> scr_altscreen scr = None then (False, scr)
      else (let scr1 = scr\<lparr>scr_on_alt := (v \<noteq> 0)\<rparr> in (True, if v = 0 then damagescreen scr1 else scr1)))"
| "settermprop (PROP_REVERSE v) scr = (True, damagescreen (scr\<lparr>global_reverse := v\<rparr>))"
| "settermprop p scr = (True, scr)"

definition bell :: "vterm_screen \<Rightarrow> vterm_screen" where
  "bell scr = scr\<lparr>scr_calls := scr_calls scr @ [CbBell]\<rparr>"

definition screen_resize_buffers :: "int \<Rightarrow> int \<Rightarrow> vterm_screen \<Rightarrow> vterm_screen" where
  "screen_resize_buffers new_rows new_cols scr =
     scr\<lparr>scr_primary := realloc_buffer scr (Some (scr_primary scr)) new_rows new_cols,
         scr_altscreen := map_option (\<lambda>b. realloc_buffer scr (Some b) new_rows new_cols) (scr_altscreen scr),
         scr_rows := new_rows, scr_cols := new_cols\<rparr>"

definition resize :: "int \<Rightarrow> int \<Rightarrow> vterm_screen \<Rightarrow> vterm_screen" where
  "resize new_rows new_cols scr =
     (let old_rows = scr_rows scr;
          old_cols = scr_cols scr;
          scr1 = screen_resize_buffers new_rows new_cols scr;
          scr2 = (if new_cols > old_cols
                  then damagerect \<lparr>start_row = 0, end_row = old_rows, start_col = old_cols, end_col = new_cols\<rparr> scr1 else scr1);
          scr3 = (if new_rows > old_rows
                  then damagerect \<lparr>start_row = old_rows, end_row = new_rows, start_col = 0, end_col = new_cols\<rparr> scr2 else scr2)
      in scr3\<lparr>scr_calls := scr_calls scr3 @ [CbResize new_rows new_cols]\<rparr>)"

subsection \<open>A new screen\<close>

definition zero_color :: vcolor where "zero_color = \<lparr>vc_red = 0, vc_green = 0, vc_blue = 0\<rparr>"

definition zero_pen :: vpen where
  "zero_pen = \<lparr>pen_fg = zero_color, pen_bg = zero_color,
     pen_attrs = \<lparr>va_bold = 0, va_underline = 0, va_italic = 0, va_blink = 0, va_reverse = 0, va_strike = 0, va_font = 0\<rparr>\<rparr>"

definition screen_new :: "int \<Rightarrow> int \<Rightarrow> vterm_screen" where
  "screen_new rows cols =
     (let z = \<lparr>start_row = - 1, end_row = 0, start_col = 0, end_col = 0\<rparr>;
          scr = \<lparr>damage_merge = VTERM_DAMAGE_CELL, damaged = z, pending_scrollrect = z, pending_scroll_downward = 0,
             pending_scroll_rightward = 0, scr_rows = rows, scr_cols = cols, global_reverse = 0, scr_primary = [],
             scr_altscreen = None, scr_on_alt = False, scr_pen = zero_pen, scr_calls = []\<rparr>
      in scr\<lparr>scr_primary := realloc_buffer scr None rows cols\<rparr>)"

definition vterm_screen_enable_altscreen :: "int \<Rightarrow> int \<Rightarrow> bool \<Rightarrow> vterm_screen \<Rightarrow> vterm_screen" where
  "vterm_screen_enable_altscreen rows cols altscreen scr =
     (if scr_altscreen scr = None \<and> altscreen then scr\<lparr>scr_altscreen := Some (realloc_buffer scr None rows cols)\<rparr> else scr)"

end
