(* ===== verification/VtState.thy ===== *)
theory VtState
  imports Parser Encoding Unicode Screen
begin

section \<open>The state of the emulator: text, control characters, pen (libvterm/src/state.c, pen.c)\<close>

text \<open>
  What the parser has recognised changes the state of the terminal: the cursor, the scrolling region, tab
  stops, modes, character sets and the pen. Everything visible is passed on to the screen through a record
  of functions (\<open>state->callbacks\<close>); the program's own function for erased areas comes second
  (\<open>backup_callbacks\<close>).
\<close>

subsection \<open>State\<close>

text \<open>
  The functions of the screen that the state calls. \<open>screen.c\<close> sets all but \<open>moverect\<close> and \<open>initpen\<close>,
  which stay null; only \<open>settermprop\<close> has a result that matters.
\<close>

record 'c state_callbacks =
  sc_putglyph :: "u32 list \<Rightarrow> int \<Rightarrow> vpos \<Rightarrow> 'c \<Rightarrow> 'c option"
  sc_movecursor :: "vpos \<Rightarrow> vpos \<Rightarrow> bool \<Rightarrow> 'c \<Rightarrow> 'c"
  sc_scrollrect :: "vrect \<Rightarrow> int \<Rightarrow> int \<Rightarrow> 'c \<Rightarrow> 'c option"
  sc_erase :: "vrect \<Rightarrow> 'c \<Rightarrow> 'c"
  sc_setpenattr :: "pen_attr \<Rightarrow> 'c \<Rightarrow> 'c"
  sc_settermprop :: "term_prop \<Rightarrow> 'c \<Rightarrow> bool \<times> 'c"
  sc_setmousefunc :: "bool \<Rightarrow> 'c \<Rightarrow> 'c"
  sc_bell :: "'c \<Rightarrow> 'c"
  sc_resize :: "int \<Rightarrow> int \<Rightarrow> 'c \<Rightarrow> 'c"
  sc_backup_erase :: "vrect \<Rightarrow> 'c \<Rightarrow> 'c"

datatype mouse_protocol = MOUSE_X10 | MOUSE_UTF8 | MOUSE_SGR | MOUSE_RXVT

record term_mode =
  m_keypad :: bool
  m_cursor :: bool
  m_autowrap :: bool
  m_insert :: bool
  m_newline :: bool
  m_cursor_visible :: bool
  m_cursor_blink :: bool
  m_cursor_shape :: int
  m_alt_screen :: bool
  m_origin :: bool

record saved_state =
  sv_pos :: vpos
  sv_pen :: vpen
  sv_cursor_visible :: bool
  sv_cursor_blink :: bool
  sv_cursor_shape :: int

record 'c vtstate =
  st_rows :: int
  st_cols :: int
  st_pos :: vpos
  at_phantom :: bool
  scrollregion_start :: int
  scrollregion_end :: int
  tabstops :: "byte list"
  mouse_col :: int
  mouse_row :: int
  mouse_buttons :: int
  mouse_want_drag :: bool
  mouse_want_move :: bool
  mouse_proto :: mouse_protocol
  combine_chars :: "u32 list"
  combine_chars_size :: nat
  combine_width :: int
  combine_pos :: vpos
  st_mode :: term_mode
  st_encoding :: "encoding_instance list"
  encoding_utf8 :: encoding_instance
  gl_set :: nat
  gr_set :: nat
  st_pen :: vpen
  default_fg :: vcolor
  default_bg :: vcolor
  fg_ansi :: int
  bold_is_highbright :: bool
  st_saved :: saved_state
  st_screen :: 'c
  outbuffer :: "byte list"
  outbuffer_cur :: nat

text \<open>
  The modes are one-bit fields that are only tested; a set one reads as -1. The last two fields are those of
  \<open>VTerm\<close> for replies to the host.
\<close>

definition bit1 :: "bool \<Rightarrow> int" where
  "bit1 b = (if b then - 1 else 0)"

definition VTERM_PROP_CURSORSHAPE_BLOCK :: int where "VTERM_PROP_CURSORSHAPE_BLOCK = 1"
definition VTERM_PROP_CURSORSHAPE_UNDERLINE :: int where "VTERM_PROP_CURSORSHAPE_UNDERLINE = 2"

definition on_screen :: "('c \<Rightarrow> 'c) \<Rightarrow> 'c vtstate \<Rightarrow> 'c vtstate" where
  "on_screen f st = st\<lparr>st_screen := f (st_screen st)\<rparr>"

definition try_screen :: "('c \<Rightarrow> 'c option) \<Rightarrow> 'c vtstate \<Rightarrow> 'c vtstate option" where
  "try_screen f st = do { c \<leftarrow> f (st_screen st); Some (st\<lparr>st_screen := c\<rparr>) }"

subsection \<open>Replies to the host (vterm.c)\<close>

text \<open>\<open>vsnprintf\<close> ends what it stores with a NUL; a reply that is too long is cut, and the NUL then counts.\<close>

definition vterm_push_output :: "byte list \<Rightarrow> 'c vtstate \<Rightarrow> 'c vtstate" where
  "vterm_push_output bytes st =
     (let write_size = length (outbuffer st) - outbuffer_cur st;
          stored = take (write_size - 1) bytes @ [0]
      in if outbuffer_cur st \<ge> length (outbuffer st) then st
         else st\<lparr>outbuffer := take (outbuffer_cur st) (outbuffer st) @ stored @ drop (outbuffer_cur st + length stored) (outbuffer st),
                 outbuffer_cur := outbuffer_cur st + min (length bytes) write_size\<rparr>)"

subsection \<open>Calls to the screen\<close>

definition st_putglyph :: "'c state_callbacks \<Rightarrow> u32 list \<Rightarrow> int \<Rightarrow> vpos \<Rightarrow> 'c vtstate \<Rightarrow> 'c vtstate option" where
  "st_putglyph cbs chars width pos = try_screen (sc_putglyph cbs chars width pos)"

definition updatecursor :: "'c state_callbacks \<Rightarrow> vpos \<Rightarrow> bool \<Rightarrow> 'c vtstate \<Rightarrow> 'c vtstate" where
  "updatecursor cbs oldpos cancel_phantom st =
     (if pos_col (st_pos st) = pos_col oldpos \<and> pos_row (st_pos st) = pos_row oldpos then st
      else on_screen (sc_movecursor cbs (st_pos st) oldpos (m_cursor_visible (st_mode st)))
             (if cancel_phantom then st\<lparr>at_phantom := False\<rparr> else st))"

definition st_erase :: "'c state_callbacks \<Rightarrow> vrect \<Rightarrow> 'c vtstate \<Rightarrow> 'c vtstate" where
  "st_erase cbs rect = on_screen (sc_backup_erase cbs rect \<circ> sc_erase cbs rect)"

text \<open>The screen's \<open>scrollrect\<close> always does the scroll itself.\<close>

definition st_scroll :: "'c state_callbacks \<Rightarrow> vrect \<Rightarrow> int \<Rightarrow> int \<Rightarrow> 'c vtstate \<Rightarrow> 'c vtstate option" where
  "st_scroll cbs rect downward rightward st =
     (if downward = 0 \<and> rightward = 0 then Some st else try_screen (sc_scrollrect cbs rect downward rightward) st)"

definition SCROLLREGION_END :: "'c vtstate \<Rightarrow> int" where
  "SCROLLREGION_END st = (if scrollregion_end st > - 1 then scrollregion_end st else st_rows st)"

definition scrollregion :: "'c vtstate \<Rightarrow> vrect" where
  "scrollregion st = \<lparr>start_row = scrollregion_start st, end_row = SCROLLREGION_END st, start_col = 0, end_col = st_cols st\<rparr>"

definition set_row :: "int \<Rightarrow> 'c vtstate \<Rightarrow> 'c vtstate" where
  "set_row r st = st\<lparr>st_pos := (st_pos st)\<lparr>pos_row := r\<rparr>\<rparr>"

definition set_col :: "int \<Rightarrow> 'c vtstate \<Rightarrow> 'c vtstate" where
  "set_col c st = st\<lparr>st_pos := (st_pos st)\<lparr>pos_col := c\<rparr>\<rparr>"

definition linefeed :: "'c state_callbacks \<Rightarrow> 'c vtstate \<Rightarrow> 'c vtstate option" where
  "linefeed cbs st =
     (if pos_row (st_pos st) = SCROLLREGION_END st - 1 then st_scroll cbs (scrollregion st) 1 0 st
      else if pos_row (st_pos st) < st_rows st - 1 then Some (set_row (pos_row (st_pos st) + 1) st)
      else Some st)"

text \<open>The new buffer is twice as long; the size that is kept is not changed.\<close>

definition grow_combine_buffer :: "'c vtstate \<Rightarrow> 'c vtstate option" where
  "grow_combine_buffer st = do {
     guard (combine_chars_size st \<le> length (combine_chars st));
     Some (st\<lparr>combine_chars := take (combine_chars_size st) (combine_chars st) @ replicate (combine_chars_size st) 0\<rparr>) }"

subsection \<open>Tab stops\<close>

definition tab_mask :: "int \<Rightarrow> byte" where
  "tab_mask col = push_bit (nat (col AND 7)) 1"

definition set_col_tabstop :: "int \<Rightarrow> byte list \<Rightarrow> byte list option" where
  "set_col_tabstop col tabs = do {
     b \<leftarrow> arr_get tabs (drop_bit 3 col);
     arr_set tabs (drop_bit 3 col) (b OR tab_mask col) }"

definition clear_col_tabstop :: "int \<Rightarrow> byte list \<Rightarrow> byte list option" where
  "clear_col_tabstop col tabs = do {
     b \<leftarrow> arr_get tabs (drop_bit 3 col);
     arr_set tabs (drop_bit 3 col) (b AND NOT (tab_mask col)) }"

definition is_col_tabstop :: "int \<Rightarrow> byte list \<Rightarrow> bool option" where
  "is_col_tabstop col tabs = do {
     b \<leftarrow> arr_get tabs (drop_bit 3 col);
     Some (b AND tab_mask col \<noteq> 0) }"

text \<open>The inner loop of \<open>tab\<close>; the direction is 1 or -1 (with 0 it would not end).\<close>

function tab_to_stop :: "byte list \<Rightarrow> int \<Rightarrow> int \<Rightarrow> int \<Rightarrow> int option" where
  "tab_to_stop tabs cols direction col =
     (if direction = 0 then None
      else if col \<ge> 0 \<and> col < cols - 1 then do {
        stop \<leftarrow> is_col_tabstop (col + direction) tabs;
        if stop then Some (col + direction) else tab_to_stop tabs cols direction (col + direction) }
      else Some col)"
  by pat_completeness auto
termination
  by (relation "measure (\<lambda>(tabs, cols, direction, col). if direction > 0 then nat (cols - 1 - col) else nat (col + 1))") auto

declare tab_to_stop.simps [simp del]

fun tab :: "nat \<Rightarrow> int \<Rightarrow> 'c vtstate \<Rightarrow> 'c vtstate option" where
  "tab 0 direction st = Some st"
| "tab (Suc n) direction st = do {
     col \<leftarrow> tab_to_stop (tabstops st) (st_cols st) direction (pos_col (st_pos st));
     tab n direction (set_col col st) }"

subsection \<open>Text\<close>

text \<open>A glyph: a code point and the combining characters behind it.\<close>

function glyphs :: "int list \<Rightarrow> int list list" where
  "glyphs [] = []"
| "glyphs (c # cs) = (c # takeWhile vterm_unicode_is_combining cs) # glyphs (dropWhile vterm_unicode_is_combining cs)"
  by pat_completeness auto
termination
  by (relation "measure length") (auto simp: less_Suc_eq_le length_dropWhile_le)

definition glyph_width :: "int list \<Rightarrow> int" where
  "glyph_width g = sum_list (map vterm_unicode_width g)"

definition glyph_chars :: "int list \<Rightarrow> u32 list" where
  "glyph_chars g = map word_of_int g @ [0]"

definition put_combine :: "nat \<Rightarrow> u32 \<Rightarrow> 'c vtstate \<Rightarrow> 'c vtstate option" where
  "put_combine i c st = do {
     st1 \<leftarrow> (if i \<ge> combine_chars_size st then grow_combine_buffer st else Some st);
     chars \<leftarrow> arr_set (combine_chars st1) (int i) c;
     Some (st1\<lparr>combine_chars := chars\<rparr>) }"

fun put_combines :: "nat \<Rightarrow> u32 list \<Rightarrow> 'c vtstate \<Rightarrow> 'c vtstate option" where
  "put_combines i [] st = put_combine i 0 st"
| "put_combines i (c # cs) st = do { st1 \<leftarrow> put_combine i c st; put_combines (Suc i) cs st1 }"

fun find_nul :: "u32 list \<Rightarrow> nat option" where
  "find_nul [] = None"
| "find_nul (c # cs) = (if c = 0 then Some 0 else map_option Suc (find_nul cs))"

definition merge_combining :: "'c state_callbacks \<Rightarrow> int list \<Rightarrow> 'c vtstate \<Rightarrow> 'c vtstate option" where
  "merge_combining cbs comb st = do {
     saved_i \<leftarrow> find_nul (combine_chars st);
     st1 \<leftarrow> put_combines saved_i (map word_of_int comb) st;
     st_putglyph cbs (combine_chars st1) (combine_width st1) (combine_pos st1) st1 }"

text \<open>\<open>final\<close>: the glyph is the last one of the text, to which the next text may add.\<close>

definition print_glyph :: "'c state_callbacks \<Rightarrow> bool \<Rightarrow> int list \<Rightarrow> 'c vtstate \<Rightarrow> 'c vtstate option" where
  "print_glyph cbs final g st = do {
     let width = glyph_width g;
     st1 \<leftarrow> (if at_phantom st then do { s \<leftarrow> linefeed cbs st; Some ((set_col 0 s)\<lparr>at_phantom := False\<rparr>) } else Some st);
     let p = st_pos st1;
     st2 \<leftarrow> (if m_insert (st_mode st1)
             then st_scroll cbs \<lparr>start_row = pos_row p, end_row = pos_row p + 1, start_col = pos_col p, end_col = st_cols st1\<rparr> 0 (- 1) st1
             else Some st1);
     st3 \<leftarrow> st_putglyph cbs (glyph_chars g) width p st2;
     st4 \<leftarrow> (if final then do {
               s \<leftarrow> put_combines 0 (takeWhile (\<lambda>c. c \<noteq> 0) (glyph_chars g)) st3;
               Some (s\<lparr>combine_width := width, combine_pos := p\<rparr>) }
             else Some st3);
     Some (if pos_col p + width \<ge> st_cols st4
           then (if m_autowrap (st_mode st4) then st4\<lparr>at_phantom := True\<rparr> else st4)
           else set_col (pos_col p + width) st4) }"

fun print_glyphs :: "'c state_callbacks \<Rightarrow> int list list \<Rightarrow> 'c vtstate \<Rightarrow> 'c vtstate option" where
  "print_glyphs cbs [] st = Some st"
| "print_glyphs cbs (g # gs) st = do { st1 \<leftarrow> print_glyph cbs (gs = []) g st; print_glyphs cbs gs st1 }"

text \<open>The decoder is that of the character set in use, or UTF-8 for a text that starts above 7 bits.\<close>

definition decode_text :: "bool \<Rightarrow> byte list \<Rightarrow> nat \<Rightarrow> 'c vtstate \<Rightarrow> ('c vtstate \<times> int list \<times> nat) option" where
  "decode_text utf8 bytes len st = do {
     b \<leftarrow> arr_get bytes 0;
     if b < 0x80 \<or> \<not> utf8 then do {
       let set = (if b < 0x80 then gl_set st else gr_set st);
       e \<leftarrow> arr_get (st_encoding st) (int set);
       (e1, cp, n) \<leftarrow> enc_decode len (take len bytes) e;
       Some (st\<lparr>st_encoding := (st_encoding st)[set := e1]\<rparr>, cp, n) }
     else do {
       (e1, cp, n) \<leftarrow> enc_decode len (take len bytes) (encoding_utf8 st);
       Some (st\<lparr>encoding_utf8 := e1\<rparr>, cp, n) } }"

definition on_text :: "'c state_callbacks \<Rightarrow> bool \<Rightarrow> byte list \<Rightarrow> nat \<Rightarrow> 'c vtstate \<Rightarrow> (nat \<times> 'c vtstate) option" where
  "on_text cbs utf8 bytes len st = do {
     let oldpos = st_pos st;
     (st1, cp, eaten) \<leftarrow> decode_text utf8 bytes len st;
     let merge = (cp \<noteq> [] \<and> vterm_unicode_is_combining (hd cp) \<and> pos_row (st_pos st1) = pos_row (combine_pos st1)
       \<and> pos_col (st_pos st1) = pos_col (combine_pos st1) + combine_width st1);
     st2 \<leftarrow> (if merge then merge_combining cbs (takeWhile vterm_unicode_is_combining cp) st1 else Some st1);
     st3 \<leftarrow> print_glyphs cbs (glyphs (if merge then dropWhile vterm_unicode_is_combining cp else cp)) st2;
     Some (eaten, updatecursor cbs oldpos False st3) }"

end
