(* ===== verification/VtPen.thy ===== *)
theory VtPen
  imports VtState
begin

section \<open>The pen (libvterm/src/pen.c)\<close>

text \<open>
  Attributes and colours of the characters to come: the emulator's own copy, which is saved and restored
  with the cursor, and that of the screen, which hears of every change.
\<close>

subsection \<open>Colours\<close>

definition rgb :: "int \<Rightarrow> int \<Rightarrow> int \<Rightarrow> vcolor" where
  "rgb r g b = \<lparr>vc_red = word_of_int r, vc_green = word_of_int g, vc_blue = word_of_int b\<rparr>"

definition ansi_colors :: "vcolor list" where
  "ansi_colors =
     [rgb 0 0 0, rgb 224 0 0, rgb 0 224 0, rgb 224 224 0, rgb 0 0 224, rgb 224 0 224, rgb 0 224 224, rgb 224 224 224,
      rgb 128 128 128, rgb 255 64 64, rgb 64 255 64, rgb 255 255 64, rgb 64 64 255, rgb 255 64 255, rgb 64 255 255, rgb 255 255 255]"

definition ramp6 :: "int list" where
  "ramp6 = [0x00, 0x33, 0x66, 0x99, 0xCC, 0xFF]"

definition ramp24 :: "int list" where
  "ramp24 = [0x00, 0x0B, 0x16, 0x21, 0x2C, 0x37, 0x42, 0x4D, 0x58, 0x63, 0x6E, 0x79,
             0x85, 0x90, 0x9B, 0xA6, 0xB1, 0xBC, 0xC7, 0xD2, 0xDD, 0xE8, 0xF3, 0xFF]"

definition lookup_colour_ansi :: "int \<Rightarrow> vcolor \<Rightarrow> vcolor" where
  "lookup_colour_ansi index col = (if 0 \<le> index \<and> index < 16 then ansi_colors ! nat index else col)"

text \<open>The macros of \<open>vterm.h\<close> for the arguments of a control sequence.\<close>

definition CSI_ARG :: "int \<Rightarrow> int" where
  "CSI_ARG a = a AND (2 ^ 31 - 1)"

definition CSI_ARG_HAS_MORE :: "int \<Rightarrow> bool" where
  "CSI_ARG_HAS_MORE a \<longleftrightarrow> a AND CSI_ARG_FLAG_MORE \<noteq> 0"

definition CSI_ARG_IS_MISSING :: "int \<Rightarrow> bool" where
  "CSI_ARG_IS_MISSING a \<longleftrightarrow> CSI_ARG a = CSI_ARG_MISSING"

definition CSI_ARG_OR :: "int \<Rightarrow> int \<Rightarrow> int" where
  "CSI_ARG_OR a def = (if CSI_ARG a = CSI_ARG_MISSING then def else CSI_ARG a)"

definition CSI_ARG_COUNT :: "int \<Rightarrow> int" where
  "CSI_ARG_COUNT a = (if CSI_ARG a = CSI_ARG_MISSING \<or> CSI_ARG a = 0 then 1 else CSI_ARG a)"

text \<open>The arguments behind the palette are \<open>args\<close>; the result says how many of them were used.\<close>

definition lookup_colour :: "int \<Rightarrow> int list \<Rightarrow> vcolor \<Rightarrow> nat \<times> vcolor" where
  "lookup_colour palette args col =
     (if palette = 2 then
        (case args of
           r # g # b # _ \<Rightarrow> (3, rgb (CSI_ARG r) (CSI_ARG g) (CSI_ARG b))
         | _ \<Rightarrow> (length args, col))
      else if palette = 5 then
        (case args of
           [] \<Rightarrow> (0, col)
         | a # _ \<Rightarrow>
             (let index = CSI_ARG_OR a (- 1)
              in (1, if 0 \<le> index \<and> index < 16 then lookup_colour_ansi index col
                     else if 16 \<le> index \<and> index < 232 then
                       (let i = index - 16
                        in rgb (ramp6 ! nat (i div 6 div 6 mod 6)) (ramp6 ! nat (i div 6 mod 6)) (ramp6 ! nat (i mod 6)))
                     else if 232 \<le> index \<and> index < 256 then
                       (let i = nat (index - 232) in rgb (ramp24 ! i) (ramp24 ! i) (ramp24 ! i))
                     else col)))
      else (0, col))"

subsection \<open>Changing the pen\<close>

definition set_pen :: "'c state_callbacks \<Rightarrow> pen_attr \<Rightarrow> 'c vtstate \<Rightarrow> 'c vtstate" where
  "set_pen cbs a st = on_screen (sc_setpenattr cbs a) (st\<lparr>st_pen := set_attr a (st_pen st)\<rparr>)"

definition set_pen_col_ansi :: "'c state_callbacks \<Rightarrow> bool \<Rightarrow> int \<Rightarrow> 'c vtstate \<Rightarrow> 'c vtstate" where
  "set_pen_col_ansi cbs is_bg col st =
     (if is_bg then set_pen cbs (ATTR_BACKGROUND (lookup_colour_ansi col (pen_bg (st_pen st)))) st
      else set_pen cbs (ATTR_FOREGROUND (lookup_colour_ansi col (pen_fg (st_pen st)))) st)"

definition vterm_state_resetpen :: "'c state_callbacks \<Rightarrow> 'c vtstate \<Rightarrow> 'c vtstate" where
  "vterm_state_resetpen cbs st =
     (let s = fold (set_pen cbs) [ATTR_BOLD 0, ATTR_UNDERLINE 0, ATTR_ITALIC 0, ATTR_BLINK 0, ATTR_REVERSE 0, ATTR_STRIKE 0, ATTR_FONT 0] st
      in fold (set_pen cbs) [ATTR_FOREGROUND (default_fg s), ATTR_BACKGROUND (default_bg s)] (s\<lparr>fg_ansi := - 1\<rparr>))"

definition pen_list :: "vpen \<Rightarrow> pen_attr list" where
  "pen_list p = (let a = pen_attrs p in
     [ATTR_BOLD (va_bold a), ATTR_UNDERLINE (va_underline a), ATTR_ITALIC (va_italic a), ATTR_BLINK (va_blink a),
      ATTR_REVERSE (va_reverse a), ATTR_STRIKE (va_strike a), ATTR_FONT (va_font a), ATTR_FOREGROUND (pen_fg p), ATTR_BACKGROUND (pen_bg p)])"

definition vterm_state_savepen :: "'c state_callbacks \<Rightarrow> bool \<Rightarrow> 'c vtstate \<Rightarrow> 'c vtstate" where
  "vterm_state_savepen cbs save st =
     (if save then st\<lparr>st_saved := (st_saved st)\<lparr>sv_pen := st_pen st\<rparr>\<rparr>
      else (let p = sv_pen (st_saved st)
            in on_screen (fold (sc_setpenattr cbs) (pen_list p)) (st\<lparr>st_pen := p\<rparr>)))"

definition vterm_state_set_bold_highbright :: "bool \<Rightarrow> 'c vtstate \<Rightarrow> 'c vtstate" where
  "vterm_state_set_bold_highbright b st = st\<lparr>bold_is_highbright := b\<rparr>"

subsection \<open>Select graphic rendition\<close>

text \<open>One argument that stands for itself; 38 and 48 take more of them.\<close>

definition sgr_simple :: "'c state_callbacks \<Rightarrow> int \<Rightarrow> 'c vtstate \<Rightarrow> 'c vtstate" where
  "sgr_simple cbs arg st =
     (if arg = CSI_ARG_MISSING \<or> arg = 0 then vterm_state_resetpen cbs st
      else if arg = 1 then
        (let s = set_pen cbs (ATTR_BOLD 1) st
         in if fg_ansi s > - 1 \<and> bold_is_highbright s then set_pen_col_ansi cbs False (fg_ansi s + 8) s else s)
      else if arg = 3 then set_pen cbs (ATTR_ITALIC 1) st
      else if arg = 4 then set_pen cbs (ATTR_UNDERLINE 1) st
      else if arg = 5 then set_pen cbs (ATTR_BLINK 1) st
      else if arg = 7 then set_pen cbs (ATTR_REVERSE 1) st
      else if arg = 9 then set_pen cbs (ATTR_STRIKE 1) st
      else if 10 \<le> arg \<and> arg \<le> 19 then set_pen cbs (ATTR_FONT (arg - 10)) st
      else if arg = 21 then set_pen cbs (ATTR_UNDERLINE 2) st
      else if arg = 22 then set_pen cbs (ATTR_BOLD 0) st
      else if arg = 23 then set_pen cbs (ATTR_ITALIC 0) st
      else if arg = 24 then set_pen cbs (ATTR_UNDERLINE 0) st
      else if arg = 25 then set_pen cbs (ATTR_BLINK 0) st
      else if arg = 27 then set_pen cbs (ATTR_REVERSE 0) st
      else if arg = 29 then set_pen cbs (ATTR_STRIKE 0) st
      else if 30 \<le> arg \<and> arg \<le> 37 then
        (let value = arg - 30 + (if va_bold (pen_attrs (st_pen st)) \<noteq> 0 \<and> bold_is_highbright st then 8 else 0)
         in set_pen_col_ansi cbs False value (st\<lparr>fg_ansi := arg - 30\<rparr>))
      else if arg = 39 then set_pen cbs (ATTR_FOREGROUND (default_fg st)) (st\<lparr>fg_ansi := - 1\<rparr>)
      else if 40 \<le> arg \<and> arg \<le> 47 then set_pen_col_ansi cbs True (arg - 40) st
      else if arg = 49 then set_pen cbs (ATTR_BACKGROUND (default_bg st)) st
      else if 90 \<le> arg \<and> arg \<le> 97 then set_pen_col_ansi cbs False (arg - 90 + 8) (st\<lparr>fg_ansi := - 1\<rparr>)
      else if 100 \<le> arg \<and> arg \<le> 107 then set_pen_col_ansi cbs True (arg - 100 + 8) st
      else st)"

text \<open>
  The palette of 38 and 48 is read without looking whether there is one: the test for it never holds. The
  arguments behind \<open>argcount\<close> are not initialised or outside the array. The result is what is left of the
  arguments, which begins with the last one used.
\<close>

definition sgr_palette :: "bool \<Rightarrow> int list \<Rightarrow> vcolor \<Rightarrow> (int list \<times> vcolor) option" where
  "sgr_palette is_bg args col = do {
     palette \<leftarrow> arr_get args 1;
     let (n, c) = lookup_colour (CSI_ARG palette) (drop 2 args) col;
     Some (drop (1 + n) args, c) }"

definition sgr_arg :: "'c state_callbacks \<Rightarrow> int list \<Rightarrow> 'c vtstate \<Rightarrow> (int list \<times> 'c vtstate) option" where
  "sgr_arg cbs args st = do {
     a \<leftarrow> arr_get args 0;
     if CSI_ARG a = 38 then do {
       (rest, c) \<leftarrow> sgr_palette False args (pen_fg (st_pen st));
       Some (rest, set_pen cbs (ATTR_FOREGROUND c) (st\<lparr>fg_ansi := - 1\<rparr>)) }
     else if CSI_ARG a = 48 then do {
       (rest, c) \<leftarrow> sgr_palette True args (pen_bg (st_pen st));
       Some (rest, set_pen cbs (ATTR_BACKGROUND c) st) }
     else Some (args, sgr_simple cbs (CSI_ARG a) st) }"

text \<open>\<open>while(CSI_ARG_HAS_MORE(args[argi++]));\<close>\<close>

fun skip_more :: "int list \<Rightarrow> int list option" where
  "skip_more [] = None"
| "skip_more (a # args) = (if CSI_ARG_HAS_MORE a then skip_more args else Some args)"

lemma skip_more_shorter: "skip_more args = Some rest \<Longrightarrow> length rest < length args"
  by (induction args arbitrary: rest) (auto split: if_splits)

lemma sgr_arg_rest: "sgr_arg cbs args st = Some (rest, st') \<Longrightarrow> length rest \<le> length args"
  by (auto simp: sgr_arg_def sgr_palette_def split: bind_splits prod.splits if_splits)

function vterm_state_setpen :: "'c state_callbacks \<Rightarrow> int list \<Rightarrow> 'c vtstate \<Rightarrow> 'c vtstate option" where
  "vterm_state_setpen cbs args st =
     (if args = [] then Some st
      else (case sgr_arg cbs args st of
              None \<Rightarrow> None
            | Some (rest, st1) \<Rightarrow> (case skip_more rest of None \<Rightarrow> None | Some rest1 \<Rightarrow> vterm_state_setpen cbs rest1 st1)))"
  by pat_completeness auto
termination
  by (relation "measure (\<lambda>(cbs, args, st). length args)") (auto intro: less_le_trans [OF skip_more_shorter sgr_arg_rest])

declare vterm_state_setpen.simps [simp del]

end
