(* ===== verification/VtControl.thy ===== *)
theory VtControl
  imports VtPen
begin

section \<open>Control characters, escape sequences and modes (libvterm/src/state.c)\<close>

text \<open>
  The parts of \<open>state.c\<close> between text and control sequences: single control characters, properties of the
  terminal, saving the cursor, the other screen, escape sequences, modes, the reset and a new state. Calls
  that say whether they were handled have that as the first result.
\<close>

subsection \<open>Control characters\<close>

definition finish :: "'c state_callbacks \<Rightarrow> vpos \<Rightarrow> 'c vtstate \<Rightarrow> (bool \<times> 'c vtstate) option" where
  "finish cbs oldpos st = Some (True, updatecursor cbs oldpos True st)"

definition on_control :: "'c state_callbacks \<Rightarrow> byte \<Rightarrow> 'c vtstate \<Rightarrow> (bool \<times> 'c vtstate) option" where
  "on_control cbs control st =
     (let oldpos = st_pos st; row = pos_row oldpos; col = pos_col oldpos
      in if control = 0x07 then finish cbs oldpos (on_screen (sc_bell cbs) st)
         else if control = 0x08 then finish cbs oldpos (if col > 0 then set_col (col - 1) st else st)
         else if control = 0x09 then do { s \<leftarrow> tab 1 1 st; finish cbs oldpos s }
         else if control = 0x0a \<or> control = 0x0b \<or> control = 0x0c then do {
           s \<leftarrow> linefeed cbs st;
           finish cbs oldpos (if m_newline (st_mode s) then set_col 0 s else s) }
         else if control = 0x0d then finish cbs oldpos (set_col 0 st)
         else if control = 0x0e then finish cbs oldpos (st\<lparr>gl_set := 1\<rparr>)
         else if control = 0x0f then finish cbs oldpos (st\<lparr>gl_set := 0\<rparr>)
         else if control = 0x84 then do { s \<leftarrow> linefeed cbs st; finish cbs oldpos s }
         else if control = 0x85 then do { s \<leftarrow> linefeed cbs st; finish cbs oldpos (set_col 0 s) }
         else if control = 0x88 then do {
           tabs \<leftarrow> set_col_tabstop col (tabstops st);
           finish cbs oldpos (st\<lparr>tabstops := tabs\<rparr>) }
         else if control = 0x8d then
           (if row = scrollregion_start st then do { s \<leftarrow> st_scroll cbs (scrollregion st) (- 1) 0 st; finish cbs oldpos s }
            else finish cbs oldpos (if row > 0 then set_row (row - 1) st else st))
         else Some (False, st))"

subsection \<open>Properties, the saved cursor, the other screen\<close>

definition st_settermprop :: "'c state_callbacks \<Rightarrow> term_prop \<Rightarrow> 'c vtstate \<Rightarrow> bool \<times> 'c vtstate" where
  "st_settermprop cbs p st = (let (handled, c) = sc_settermprop cbs p (st_screen st) in (handled, st\<lparr>st_screen := c\<rparr>))"

definition cursor_props :: "'c state_callbacks \<Rightarrow> 'c vtstate \<Rightarrow> 'c vtstate" where
  "cursor_props cbs st =
     (let m = st_mode st
      in snd (st_settermprop cbs (PROP_CURSORSHAPE (m_cursor_shape m))
          (snd (st_settermprop cbs (PROP_CURSORBLINK (bit1 (m_cursor_blink m)))
            (snd (st_settermprop cbs (PROP_CURSORVISIBLE (bit1 (m_cursor_visible m))) st))))))"

definition savecursor :: "'c state_callbacks \<Rightarrow> bool \<Rightarrow> 'c vtstate \<Rightarrow> 'c vtstate" where
  "savecursor cbs save st =
     (let m = st_mode st; v = st_saved st
      in if save then
           vterm_state_savepen cbs True (st\<lparr>st_saved := v\<lparr>sv_pos := st_pos st, sv_cursor_visible := m_cursor_visible m,
             sv_cursor_blink := m_cursor_blink m, sv_cursor_shape := m_cursor_shape m\<rparr>\<rparr>)
         else
           updatecursor cbs (st_pos st) True (vterm_state_savepen cbs False (cursor_props cbs
             (st\<lparr>st_pos := sv_pos v, st_mode := m\<lparr>m_cursor_visible := sv_cursor_visible v,
               m_cursor_blink := sv_cursor_blink v, m_cursor_shape := sv_cursor_shape v\<rparr>\<rparr>))))"

definition whole_screen :: "'c vtstate \<Rightarrow> vrect" where
  "whole_screen st = \<lparr>start_row = 0, end_row = st_rows st, start_col = 0, end_col = st_cols st\<rparr>"

definition altscreen :: "'c state_callbacks \<Rightarrow> bool \<Rightarrow> 'c vtstate \<Rightarrow> 'c vtstate" where
  "altscreen cbs alt st =
     (let (handled, s) = st_settermprop cbs (PROP_ALTSCREEN (if alt then 1 else 0)) st;
          s1 = s\<lparr>st_mode := (st_mode s)\<lparr>m_alt_screen := alt\<rparr>\<rparr>
      in if \<not> handled then s else if alt then st_erase cbs (whole_screen s1) s1 else s1)"

subsection \<open>Reset and a new state\<close>

definition reset_tabstop :: "int \<Rightarrow> byte list \<Rightarrow> byte list option" where
  "reset_tabstop col tabs = (if col mod 8 = 0 then set_col_tabstop col tabs else clear_col_tabstop col tabs)"

definition reset_encoding :: "encoding option \<Rightarrow> encoding_instance \<Rightarrow> encoding_instance" where
  "reset_encoding e inst = \<lparr>enc = e, enc_data = (case e of None \<Rightarrow> enc_data inst | Some x \<Rightarrow> enc_init x (enc_data inst))\<rparr>"

definition reset_mode :: term_mode where
  "reset_mode = \<lparr>m_keypad = False, m_cursor = False, m_autowrap = True, m_insert = False, m_newline = False,
     m_cursor_visible = True, m_cursor_blink = True, m_cursor_shape = VTERM_PROP_CURSORSHAPE_BLOCK,
     m_alt_screen = False, m_origin = False\<rparr>"

definition vterm_state_reset :: "'c state_callbacks \<Rightarrow> bool \<Rightarrow> bool \<Rightarrow> 'c vtstate \<Rightarrow> 'c vtstate option" where
  "vterm_state_reset cbs utf8 hard st = do {
     tabs \<leftarrow> ofold reset_tabstop [0..st_cols st - 1] (tabstops st);
     let s1 = vterm_state_resetpen cbs (st\<lparr>scrollregion_start := 0, scrollregion_end := - 1, tabstops := tabs, st_mode := reset_mode\<rparr>);
     let e = (if utf8 then vterm_lookup_encoding ENC_UTF8 0x75 else vterm_lookup_encoding ENC_SINGLE_94 0x42);
     let s2 = cursor_props cbs (s1\<lparr>st_encoding := map (reset_encoding e) (st_encoding s1), gl_set := 0, gr_set := 0\<rparr>);
     Some (if hard then st_erase cbs (whole_screen s2) (s2\<lparr>st_pos := \<lparr>pos_row = 0, pos_col = 0\<rparr>, at_phantom := False\<rparr>) else s2) }"

text \<open>
  \<open>vterm_obtain_state\<close> for a new terminal: memory comes cleared, so that the encodings are null pointers
  before the first reset. The functions of the screen are set later; it has no \<open>initpen\<close>.
\<close>

definition no_utf8 :: utf8_data where
  "no_utf8 = \<lparr>bytes_remaining = 0, bytes_total = 0, this_cp = 0\<rparr>"

definition zero_mode :: term_mode where
  "zero_mode = \<lparr>m_keypad = False, m_cursor = False, m_autowrap = False, m_insert = False, m_newline = False,
     m_cursor_visible = False, m_cursor_blink = False, m_cursor_shape = 0, m_alt_screen = False, m_origin = False\<rparr>"

definition outbuffer_size :: nat where "outbuffer_size = 64"

definition tab_bytes :: "int \<Rightarrow> nat" where
  "tab_bytes cols = nat ((cols + 7) div 8)"

definition vterm_obtain_state :: "int \<Rightarrow> int \<Rightarrow> 'c \<Rightarrow> 'c vtstate" where
  "vterm_obtain_state rows cols c =
     \<lparr>st_rows = rows, st_cols = cols, st_pos = \<lparr>pos_row = 0, pos_col = 0\<rparr>, at_phantom = False,
      scrollregion_start = 0, scrollregion_end = 0, tabstops = replicate (tab_bytes cols) 0,
      mouse_col = 0, mouse_row = 0, mouse_buttons = 0, mouse_want_drag = False, mouse_want_move = False, mouse_proto = MOUSE_X10,
      combine_chars = replicate 16 0, combine_chars_size = 16, combine_width = 0, combine_pos = \<lparr>pos_row = 0, pos_col = 0\<rparr>,
      st_mode = zero_mode, st_encoding = replicate 4 \<lparr>enc = None, enc_data = no_utf8\<rparr>,
      encoding_utf8 = reset_encoding (vterm_lookup_encoding ENC_UTF8 0x75) \<lparr>enc = None, enc_data = no_utf8\<rparr>,
      gl_set = 0, gr_set = 0, st_pen = zero_pen, default_fg = rgb 240 240 240, default_bg = rgb 0 0 0, fg_ansi = 0,
      bold_is_highbright = False,
      st_saved = \<lparr>sv_pos = \<lparr>pos_row = 0, pos_col = 0\<rparr>, sv_pen = zero_pen, sv_cursor_visible = False, sv_cursor_blink = False,
        sv_cursor_shape = 0\<rparr>,
      st_screen = c, outbuffer = replicate outbuffer_size 0, outbuffer_cur = 0\<rparr>"

subsection \<open>Escape sequences\<close>

definition DECALN :: "'c state_callbacks \<Rightarrow> 'c vtstate \<Rightarrow> 'c vtstate option" where
  "DECALN cbs st =
     ofold (\<lambda>(row, col). st_putglyph cbs [0x45, 0] 1 \<lparr>pos_row = row, pos_col = col\<rparr>)
       [(row, col). row \<leftarrow> [0..st_rows st - 1], col \<leftarrow> [0..st_cols st - 1]] st"

definition select_encoding :: "nat \<Rightarrow> byte \<Rightarrow> 'c vtstate \<Rightarrow> 'c vtstate option" where
  "select_encoding setnum designation st = (case vterm_lookup_encoding ENC_SINGLE_94 designation of
       None \<Rightarrow> Some st
     | Some e \<Rightarrow> do {
         inst \<leftarrow> arr_get (st_encoding st) (int setnum);
         Some (st\<lparr>st_encoding := (st_encoding st)[setnum := reset_encoding (Some e) inst]\<rparr>) })"

definition on_escape :: "'c state_callbacks \<Rightarrow> bool \<Rightarrow> byte list \<Rightarrow> nat \<Rightarrow> 'c vtstate \<Rightarrow> (bool \<times> 'c vtstate) option" where
  "on_escape cbs utf8 bytes len st = do {
     b \<leftarrow> arr_get bytes 0;
     if b = 0x23 then
       (if len \<noteq> 2 then Some (False, st)
        else do {
          c \<leftarrow> arr_get bytes 1;
          if c = 0x38 then do { s \<leftarrow> DECALN cbs st; Some (True, s) } else Some (False, st) })
     else if b = 0x28 \<or> b = 0x29 \<or> b = 0x2a \<or> b = 0x2b then
       (if len \<noteq> 2 then Some (False, st)
        else do {
          c \<leftarrow> arr_get bytes 1;
          s \<leftarrow> select_encoding (unat b - 0x28) c st;
          Some (True, s) })
     else if b = 0x37 then Some (True, savecursor cbs True st)
     else if b = 0x38 then Some (True, savecursor cbs False st)
     else if b = 0x3d then Some (True, st\<lparr>st_mode := (st_mode st)\<lparr>m_keypad := True\<rparr>\<rparr>)
     else if b = 0x3e then Some (True, st\<lparr>st_mode := (st_mode st)\<lparr>m_keypad := False\<rparr>\<rparr>)
     else if b = 0x63 then do {
       s \<leftarrow> vterm_state_reset cbs utf8 True st;
       Some (True, on_screen (sc_movecursor cbs (st_pos s) (st_pos st) (m_cursor_visible (st_mode s))) s) }
     else if b = 0x6e then Some (True, st\<lparr>gl_set := 2\<rparr>)
     else if b = 0x6f then Some (True, st\<lparr>gl_set := 3\<rparr>)
     else Some (False, st) }"

subsection \<open>Modes\<close>

definition set_mode :: "int \<Rightarrow> bool \<Rightarrow> 'c vtstate \<Rightarrow> 'c vtstate" where
  "set_mode num val st =
     (if num = 4 then st\<lparr>st_mode := (st_mode st)\<lparr>m_insert := val\<rparr>\<rparr>
      else if num = 20 then st\<lparr>st_mode := (st_mode st)\<lparr>m_newline := val\<rparr>\<rparr>
      else st)"

definition mouse_mode :: "'c state_callbacks \<Rightarrow> int \<Rightarrow> bool \<Rightarrow> 'c vtstate \<Rightarrow> 'c vtstate" where
  "mouse_mode cbs num val st =
     on_screen (sc_setmousefunc cbs val)
       (if val then st\<lparr>mouse_col := 0, mouse_row := 0, mouse_buttons := 0, mouse_want_drag := (num = 1002),
                       mouse_want_move := (num = 1003), mouse_proto := MOUSE_X10\<rparr> else st)"

definition set_dec_mode :: "'c state_callbacks \<Rightarrow> int \<Rightarrow> bool \<Rightarrow> 'c vtstate \<Rightarrow> 'c vtstate" where
  "set_dec_mode cbs num val st =
     (let m = st_mode st; v = (if val then 1 else 0)
      in if num = 1 then st\<lparr>st_mode := m\<lparr>m_cursor := val\<rparr>\<rparr>
         else if num = 5 then snd (st_settermprop cbs (PROP_REVERSE v) st)
         else if num = 6 then
           updatecursor cbs (st_pos st) True
             (st\<lparr>st_pos := \<lparr>pos_row = (if val then scrollregion_start st else 0), pos_col = 0\<rparr>, st_mode := m\<lparr>m_origin := val\<rparr>\<rparr>)
         else if num = 7 then st\<lparr>st_mode := m\<lparr>m_autowrap := val\<rparr>\<rparr>
         else if num = 12 then snd (st_settermprop cbs (PROP_CURSORBLINK v) (st\<lparr>st_mode := m\<lparr>m_cursor_blink := val\<rparr>\<rparr>))
         else if num = 25 then snd (st_settermprop cbs (PROP_CURSORVISIBLE v) (st\<lparr>st_mode := m\<lparr>m_cursor_visible := val\<rparr>\<rparr>))
         else if num = 1000 \<or> num = 1002 \<or> num = 1003 then mouse_mode cbs num val st
         else if num = 1005 then st\<lparr>mouse_proto := (if val then MOUSE_UTF8 else MOUSE_X10)\<rparr>
         else if num = 1006 then st\<lparr>mouse_proto := (if val then MOUSE_SGR else MOUSE_X10)\<rparr>
         else if num = 1015 then st\<lparr>mouse_proto := (if val then MOUSE_RXVT else MOUSE_X10)\<rparr>
         else if num = 1047 then altscreen cbs val st
         else if num = 1048 then savecursor cbs val st
         else if num = 1049 then savecursor cbs val (altscreen cbs val st)
         else st)"

end
