(* ===== verification/VtCsi.thy ===== *)
theory VtCsi
  imports VtControl
begin

section \<open>Control sequences, strings and changes of size (libvterm/src/state.c)\<close>

text \<open>
  \<open>on_csi\<close> is one switch over intermediate byte, leader and final byte. It is split here by what the
  sequences do: moves of the cursor, changes of the cells, everything else. A group says whether the switch
  was left normally; then the cursor is brought back into its bounds. Sums and differences that leave the
  C \<open>int\<close> are undefined.
\<close>

subsection \<open>Moving the cursor\<close>

definition csi_key :: "byte list option \<Rightarrow> byte list option \<Rightarrow> byte \<Rightarrow> int option" where
  "csi_key leader intermed command = do {
     l \<leftarrow> (case leader of
             Some (b # bs) \<Rightarrow> if bs \<noteq> [] \<or> b \<noteq> 0x3f \<and> b \<noteq> 0x3e then None else Some (uint b)
           | _ \<Rightarrow> Some 0);
     i \<leftarrow> (case intermed of
             Some (b # bs) \<Rightarrow> if bs \<noteq> [] \<or> b \<noteq> 0x20 then None else Some (uint b)
           | _ \<Rightarrow> Some 0);
     Some (push_bit 16 i OR push_bit 8 l OR sint command) }"

definition move_to :: "int \<Rightarrow> int \<Rightarrow> 'c vtstate \<Rightarrow> 'c vtstate option" where
  "move_to row col st = do {
     guard (int_range row \<and> int_range col);
     Some (st\<lparr>st_pos := \<lparr>pos_row = row, pos_col = col\<rparr>, at_phantom := False\<rparr>) }"

definition origin_row :: "int \<Rightarrow> 'c vtstate \<Rightarrow> int" where
  "origin_row row st = (if m_origin (st_mode st) then row - 1 + scrollregion_start st else row - 1)"

definition second_arg :: "int list \<Rightarrow> int \<Rightarrow> int" where
  "second_arg args def = (if length args < 2 then def else CSI_ARG_OR (args ! 1) def)"

definition csi_moves :: "int set" where
  "csi_moves = {0x41, 0x42, 0x43, 0x44, 0x45, 0x46, 0x47, 0x48, 0x60, 0x61, 0x64, 0x65, 0x66, 0x6a, 0x6b}"

definition csi_move :: "int \<Rightarrow> int list \<Rightarrow> 'c vtstate \<Rightarrow> 'c vtstate option" where
  "csi_move key args st = do {
     a \<leftarrow> arr_get args 0;
     let row = pos_row (st_pos st);
     let col = pos_col (st_pos st);
     let count = CSI_ARG_COUNT a;
     let val = CSI_ARG_OR a 1;
     if key = 0x41 \<or> key = 0x6b then move_to (row - count) col st
     else if key = 0x42 \<or> key = 0x65 then move_to (row + count) col st
     else if key = 0x43 \<or> key = 0x61 then move_to row (col + count) st
     else if key = 0x44 \<or> key = 0x6a then move_to row (col - count) st
     else if key = 0x45 then move_to (row + count) 0 st
     else if key = 0x46 then move_to (row - count) 0 st
     else if key = 0x47 \<or> key = 0x60 then move_to row (val - 1) st
     else if key = 0x64 then move_to (origin_row val st) col st
     else move_to (origin_row val st) (second_arg args 1 - 1) st }"

subsection \<open>Changing cells\<close>

text \<open>From the cursor to the end of its line, and from its line to the end of the scrolling region.\<close>

definition line_rest :: "'c vtstate \<Rightarrow> vrect" where
  "line_rest st = \<lparr>start_row = pos_row (st_pos st), end_row = pos_row (st_pos st) + 1, start_col = pos_col (st_pos st), end_col = st_cols st\<rparr>"

definition region_rest :: "'c vtstate \<Rightarrow> vrect" where
  "region_rest st = \<lparr>start_row = pos_row (st_pos st), end_row = SCROLLREGION_END st, start_col = 0, end_col = st_cols st\<rparr>"

definition erase_cols :: "'c state_callbacks \<Rightarrow> vrect \<Rightarrow> 'c vtstate \<Rightarrow> 'c vtstate" where
  "erase_cols cbs rect st = (if end_col rect > start_col rect then st_erase cbs rect st else st)"

definition erase_rows :: "'c state_callbacks \<Rightarrow> vrect \<Rightarrow> 'c vtstate \<Rightarrow> 'c vtstate" where
  "erase_rows cbs rect st = (if end_row rect > start_row rect then st_erase cbs rect st else st)"

definition csi_ED :: "'c state_callbacks \<Rightarrow> int \<Rightarrow> 'c vtstate \<Rightarrow> 'c vtstate" where
  "csi_ED cbs val st =
     (let row = pos_row (st_pos st); col = pos_col (st_pos st)
      in if val = CSI_ARG_MISSING \<or> val = 0 then
           erase_rows cbs \<lparr>start_row = row + 1, end_row = st_rows st, start_col = 0, end_col = st_cols st\<rparr>
             (erase_cols cbs (line_rest st) st)
         else if val = 1 then
           erase_rows cbs \<lparr>start_row = row, end_row = row + 1, start_col = 0, end_col = col + 1\<rparr>
             (erase_cols cbs \<lparr>start_row = 0, end_row = row, start_col = 0, end_col = st_cols st\<rparr> st)
         else if val = 2 then st_erase cbs (whole_screen st) st
         else st)"

definition csi_EL :: "'c state_callbacks \<Rightarrow> int \<Rightarrow> 'c vtstate \<Rightarrow> bool \<times> 'c vtstate" where
  "csi_EL cbs val st =
     (let rect = line_rest st; col = pos_col (st_pos st)
      in if val = CSI_ARG_MISSING \<or> val = 0 then (True, erase_cols cbs rect st)
         else if val = 1 then (True, erase_cols cbs (rect\<lparr>start_col := 0, end_col := col + 1\<rparr>) st)
         else if val = 2 then (True, erase_cols cbs (rect\<lparr>start_col := 0\<rparr>) st)
         else (False, st))"

definition csi_edits :: "int set" where
  "csi_edits = {0x40, 0x4a, 0x4b, 0x4c, 0x4d, 0x50, 0x53, 0x54, 0x58}"

definition handled_if :: "'c vtstate option \<Rightarrow> (bool \<times> 'c vtstate) option" where
  "handled_if s = map_option (Pair True) s"

definition csi_edit :: "'c state_callbacks \<Rightarrow> int \<Rightarrow> int list \<Rightarrow> 'c vtstate \<Rightarrow> (bool \<times> 'c vtstate) option" where
  "csi_edit cbs key args st = do {
     a \<leftarrow> arr_get args 0;
     let count = CSI_ARG_COUNT a;
     if key = 0x40 then handled_if (st_scroll cbs (line_rest st) 0 (- count) st)
     else if key = 0x4a then Some (True, csi_ED cbs (CSI_ARG a) st)
     else if key = 0x4b then Some (csi_EL cbs (CSI_ARG a) st)
     else if key = 0x4c then handled_if (st_scroll cbs (region_rest st) (- count) 0 st)
     else if key = 0x4d then handled_if (st_scroll cbs (region_rest st) count 0 st)
     else if key = 0x50 then handled_if (st_scroll cbs (line_rest st) 0 count st)
     else if key = 0x53 then handled_if (st_scroll cbs (scrollregion st) count 0 st)
     else if key = 0x54 then handled_if (st_scroll cbs (scrollregion st) (- count) 0 st)
     else do {
       guard (int_range (pos_col (st_pos st) + count));
       Some (True, st_erase cbs ((line_rest st)\<lparr>end_col := pos_col (st_pos st) + count\<rparr>) st) } }"

subsection \<open>Tab stops, modes, reports\<close>

definition csi_TBC :: "int \<Rightarrow> 'c vtstate \<Rightarrow> (bool \<times> 'c vtstate) option" where
  "csi_TBC val st =
     (if val = 0 then do { tabs \<leftarrow> clear_col_tabstop (pos_col (st_pos st)) (tabstops st); Some (True, st\<lparr>tabstops := tabs\<rparr>) }
      else if val = 3 \<or> val = 5 then do { tabs \<leftarrow> ofold clear_col_tabstop [0..st_cols st - 1] (tabstops st); Some (True, st\<lparr>tabstops := tabs\<rparr>) }
      else if val = 1 \<or> val = 2 \<or> val = 4 then Some (True, st)
      else Some (False, st))"

text \<open>Reports go to the output buffer.\<close>

definition csi_DSR :: "int \<Rightarrow> 'c vtstate \<Rightarrow> 'c vtstate" where
  "csi_DSR val st =
     (if val = 5 then vterm_push_output ([0x1b] @ ascii ''[0n'') st
      else if val = 6 then
        vterm_push_output ([0x1b] @ ascii ''['' @ dec (pos_row (st_pos st) + 1) @ ascii '';'' @ dec (pos_col (st_pos st) + 1) @ ascii ''R'') st
      else st)"

definition csi_DECSCUSR :: "'c state_callbacks \<Rightarrow> int \<Rightarrow> 'c vtstate \<Rightarrow> 'c vtstate" where
  "csi_DECSCUSR cbs val st =
     (let shape = (\<lambda>blink shape s. s\<lparr>st_mode := (st_mode s)\<lparr>m_cursor_blink := blink, m_cursor_shape := shape\<rparr>\<rparr>);
          s = (if val = 0 \<or> val = 1 then shape True VTERM_PROP_CURSORSHAPE_BLOCK st
               else if val = 2 then shape False VTERM_PROP_CURSORSHAPE_BLOCK st
               else if val = 3 then shape True VTERM_PROP_CURSORSHAPE_UNDERLINE st
               else if val = 4 then shape False VTERM_PROP_CURSORSHAPE_UNDERLINE st
               else st)
      in snd (st_settermprop cbs (PROP_CURSORSHAPE (m_cursor_shape (st_mode s)))
           (snd (st_settermprop cbs (PROP_CURSORBLINK (bit1 (m_cursor_blink (st_mode s)))) s))))"

definition csi_DECSTBM :: "int list \<Rightarrow> int \<Rightarrow> 'c vtstate \<Rightarrow> 'c vtstate" where
  "csi_DECSTBM args a st =
     (let top = CSI_ARG_OR a 1 - 1; bottom = second_arg args (- 1)
      in st\<lparr>scrollregion_start := top, scrollregion_end := (if top = 0 \<and> bottom = st_rows st then - 1 else bottom)\<rparr>)"

definition csi_other :: "'c state_callbacks \<Rightarrow> bool \<Rightarrow> int \<Rightarrow> int list \<Rightarrow> 'c vtstate \<Rightarrow> (bool \<times> 'c vtstate) option" where
  "csi_other cbs utf8 key args st = do {
     a \<leftarrow> arr_get args 0;
     let count = nat (CSI_ARG_COUNT a);
     if key = 0x49 then handled_if (tab count 1 st)
     else if key = 0x5a then handled_if (tab count (- 1) st)
     else if key = 0x63 then
       Some (True, if CSI_ARG_OR a 0 = 0 then vterm_push_output ([0x1b] @ ascii ''[?1;2c'') st else st)
     else if key = 0x3e63 then Some (True, vterm_push_output ([0x1b] @ ascii ''[>0;100;0c'') st)
     else if key = 0x67 then csi_TBC (CSI_ARG_OR a 0) st
     else if key = 0x68 then Some (True, if CSI_ARG_IS_MISSING a then st else set_mode (CSI_ARG a) True st)
     else if key = 0x3f68 then Some (True, if CSI_ARG_IS_MISSING a then st else set_dec_mode cbs (CSI_ARG a) True st)
     else if key = 0x6c then Some (True, if CSI_ARG_IS_MISSING a then st else set_mode (CSI_ARG a) False st)
     else if key = 0x3f6c then Some (True, if CSI_ARG_IS_MISSING a then st else set_dec_mode cbs (CSI_ARG a) False st)
     else if key = 0x6d then handled_if (vterm_state_setpen cbs args st)
     else if key = 0x6e then Some (True, csi_DSR (CSI_ARG_OR a 0) st)
     else if key = 0x2170 then handled_if (vterm_state_reset cbs utf8 False st)
     else if key = 0x200071 then Some (True, csi_DECSCUSR cbs (CSI_ARG_OR a 1) st)
     else if key = 0x72 then Some (True, csi_DECSTBM args a st)
     else if key = 0x73 then Some (True, savecursor cbs True st)
     else if key = 0x75 then Some (True, savecursor cbs False st)
     else Some (False, st) }"

subsection \<open>The whole switch\<close>

definition clamp :: "int \<Rightarrow> int \<Rightarrow> int \<Rightarrow> int" where
  "clamp lo hi v = (let w = (if v < lo then lo else v) in if w > hi then hi else w)"

definition bound_cursor :: "'c vtstate \<Rightarrow> 'c vtstate" where
  "bound_cursor st =
     (let col = clamp 0 (st_cols st - 1) (pos_col (st_pos st));
          row = (if m_origin (st_mode st) then clamp (scrollregion_start st) (scrollregion_end st - 1) (pos_row (st_pos st))
                 else clamp 0 (st_rows st - 1) (pos_row (st_pos st)))
      in st\<lparr>st_pos := \<lparr>pos_row = row, pos_col = col\<rparr>\<rparr>)"

definition csi_switch :: "'c state_callbacks \<Rightarrow> bool \<Rightarrow> int \<Rightarrow> int list \<Rightarrow> 'c vtstate \<Rightarrow> (bool \<times> 'c vtstate) option" where
  "csi_switch cbs utf8 key args st =
     (if key \<in> csi_moves then handled_if (csi_move key args st)
      else if key \<in> csi_edits then csi_edit cbs key args st
      else csi_other cbs utf8 key args st)"

definition on_csi :: "'c state_callbacks \<Rightarrow> bool \<Rightarrow> byte list option \<Rightarrow> int list \<Rightarrow> byte list option \<Rightarrow> byte
    \<Rightarrow> 'c vtstate \<Rightarrow> (bool \<times> 'c vtstate) option" where
  "on_csi cbs utf8 leader args intermed command st = (case csi_key leader intermed command of
       None \<Rightarrow> Some (False, st)
     | Some key \<Rightarrow> do {
         (handled, s) \<leftarrow> csi_switch cbs utf8 key args st;
         if handled then finish cbs (st_pos st) (bound_cursor s) else Some (False, s) })"

subsection \<open>Strings\<close>

text \<open>A title is copied up to the first NUL.\<close>

definition settermprop_string :: "'c state_callbacks \<Rightarrow> (byte list \<Rightarrow> term_prop) \<Rightarrow> byte list \<Rightarrow> nat \<Rightarrow> 'c vtstate \<Rightarrow> 'c vtstate option" where
  "settermprop_string cbs prop str len st = do {
     value \<leftarrow> strncpy len str;
     Some (snd (st_settermprop cbs (prop (takeWhile (\<lambda>c. c \<noteq> 0) value)) st)) }"

definition on_osc :: "'c state_callbacks \<Rightarrow> byte list \<Rightarrow> nat \<Rightarrow> 'c vtstate \<Rightarrow> (bool \<times> 'c vtstate) option" where
  "on_osc cbs command cmdlen st =
     (if cmdlen < 2 then Some (False, st)
      else do {
        guard (2 \<le> length command);
        let text = drop 2 command;
        if take 2 command = ascii ''0;'' then do {
          s \<leftarrow> settermprop_string cbs PROP_ICONNAME text (cmdlen - 2) st;
          handled_if (settermprop_string cbs PROP_TITLE text (cmdlen - 2) s) }
        else if take 2 command = ascii ''1;'' then handled_if (settermprop_string cbs PROP_ICONNAME text (cmdlen - 2) st)
        else if take 2 command = ascii ''2;'' then handled_if (settermprop_string cbs PROP_TITLE text (cmdlen - 2) st)
        else Some (False, st) })"

text \<open>
  The reply to an unknown request uses \<open>%.s\<close>, which prints nothing of the request. For the cursor's shape
  \<open>reply\<close> is only set for the two shapes there are.
\<close>

definition request_status_string :: "byte list \<Rightarrow> nat \<Rightarrow> 'c vtstate \<Rightarrow> 'c vtstate option" where
  "request_status_string command cmdlen st = do {
     guard (cmdlen \<le> length command);
     let dcs = (\<lambda>body. [0x1b] @ ascii ''P'' @ body @ [0x1b, 0x5c]);
     if take cmdlen command = ascii ''r'' then
       Some (vterm_push_output (dcs (ascii ''1$r'' @ dec (scrollregion_start st + 1) @ ascii '';'' @ dec (SCROLLREGION_END st) @ ascii ''r'')) st)
     else if take cmdlen command = ascii '' q'' then do {
       reply \<leftarrow> (if m_cursor_shape (st_mode st) = VTERM_PROP_CURSORSHAPE_BLOCK then Some 2
                else if m_cursor_shape (st_mode st) = VTERM_PROP_CURSORSHAPE_UNDERLINE then Some 4 else None);
       Some (vterm_push_output (dcs (ascii ''1$r'' @ dec (if m_cursor_blink (st_mode st) then reply - 1 else reply) @ ascii '' q'')) st) }
     else Some (vterm_push_output (dcs (ascii ''0$r'')) st) }"

definition on_dcs :: "byte list \<Rightarrow> nat \<Rightarrow> 'c vtstate \<Rightarrow> (bool \<times> 'c vtstate) option" where
  "on_dcs command cmdlen st =
     (if cmdlen \<ge> 2 then do {
        guard (2 \<le> length command);
        if take 2 command = ascii ''$q'' then handled_if (request_status_string (drop 2 command) (cmdlen - 2) st) else Some (False, st) }
      else Some (False, st))"

subsection \<open>A new size\<close>

definition copy_tabstop :: "int \<Rightarrow> byte list \<Rightarrow> int \<Rightarrow> byte list \<Rightarrow> byte list option" where
  "copy_tabstop old_cols old col new =
     (if col < old_cols then do {
        stop \<leftarrow> is_col_tabstop col old;
        if stop then set_col_tabstop col new else clear_col_tabstop col new }
      else reset_tabstop col new)"

definition resize_tabstops :: "int \<Rightarrow> 'c vtstate \<Rightarrow> 'c vtstate option" where
  "resize_tabstops cols st =
     (if cols = st_cols st then Some st
      else do {
        tabs \<leftarrow> ofold (copy_tabstop (st_cols st) (tabstops st)) [0..cols - 1] (replicate (tab_bytes cols) 0);
        Some (st\<lparr>tabstops := tabs\<rparr>) })"

definition on_resize :: "'c state_callbacks \<Rightarrow> int \<Rightarrow> int \<Rightarrow> 'c vtstate \<Rightarrow> 'c vtstate option" where
  "on_resize cbs rows cols st = do {
     s0 \<leftarrow> resize_tabstops cols st;
     let row = (if pos_row (st_pos st) \<ge> rows then rows - 1 else pos_row (st_pos st));
     let col = (if pos_col (st_pos st) \<ge> cols then cols - 1 else pos_col (st_pos st));
     let free = (at_phantom st \<and> col < cols - 1);
     let s1 = s0\<lparr>st_rows := rows, st_cols := cols, st_pos := \<lparr>pos_row = row, pos_col = (if free then col + 1 else col)\<rparr>,
                 at_phantom := at_phantom st \<and> \<not> free\<rparr>;
     Some (updatecursor cbs (st_pos st) True (on_screen (sc_resize cbs rows cols) s1)) }"

end
