(* ===== verification/VtLaws.thy ===== *)
theory VtLaws
  imports VtCsi
begin

section \<open>What the screen promises the emulator's state\<close>

text \<open>
  The state of the emulator keeps a copy of what the screen knows: the size and the pen. The locale states
  what the functions of the screen do with them; every function of \<open>state.c\<close> and \<open>pen.c\<close> then keeps the
  two in step, and its own arrays at their sizes.
\<close>

definition state_ok :: "'c vtstate \<Rightarrow> bool" where
  "state_ok st \<longleftrightarrow> 0 \<le> st_rows st \<and> 0 \<le> st_cols st \<and> length (tabstops st) = tab_bytes (st_cols st)
     \<and> length (st_encoding st) = 4 \<and> gl_set st < 4 \<and> gr_set st < 4
     \<and> combine_chars_size st = 16 \<and> 16 \<le> length (combine_chars st)
     \<and> length (outbuffer st) = outbuffer_size \<and> outbuffer_cur st \<le> outbuffer_size"

lemma push_output_fields:
  "length (outbuffer st) = outbuffer_size \<Longrightarrow> outbuffer_cur st \<le> outbuffer_size \<Longrightarrow>
    length (outbuffer (vterm_push_output bytes st)) = outbuffer_size \<and> outbuffer_cur (vterm_push_output bytes st) \<le> outbuffer_size"
  by (auto simp: vterm_push_output_def Let_def)

locale screen_contract =
  fixes cbs :: "'c state_callbacks" and ok :: "'c \<Rightarrow> bool" and pen :: "'c \<Rightarrow> vpen" and dims :: "'c \<Rightarrow> int \<times> int"
  assumes putglyph_law: "ok c \<Longrightarrow> sc_putglyph cbs chars w p c = Some c' \<Longrightarrow> ok c' \<and> pen c' = pen c \<and> dims c' = dims c"
    and scroll_law: "ok c \<Longrightarrow> sc_scrollrect cbs rect d r c = Some c' \<Longrightarrow> ok c' \<and> pen c' = pen c \<and> dims c' = dims c"
    and erase_law: "ok c \<Longrightarrow> ok (sc_erase cbs rect c) \<and> pen (sc_erase cbs rect c) = pen c \<and> dims (sc_erase cbs rect c) = dims c"
    and backup_law: "ok c \<Longrightarrow> ok (sc_backup_erase cbs rect c) \<and> pen (sc_backup_erase cbs rect c) = pen c \<and> dims (sc_backup_erase cbs rect c) = dims c"
    and movecursor_law: "ok c \<Longrightarrow> ok (sc_movecursor cbs p q v c) \<and> pen (sc_movecursor cbs p q v c) = pen c \<and> dims (sc_movecursor cbs p q v c) = dims c"
    and mouse_law: "ok c \<Longrightarrow> ok (sc_setmousefunc cbs v c) \<and> pen (sc_setmousefunc cbs v c) = pen c \<and> dims (sc_setmousefunc cbs v c) = dims c"
    and bell_law: "ok c \<Longrightarrow> ok (sc_bell cbs c) \<and> pen (sc_bell cbs c) = pen c \<and> dims (sc_bell cbs c) = dims c"
    and setpen_law: "ok c \<Longrightarrow> ok (sc_setpenattr cbs a c) \<and> pen (sc_setpenattr cbs a c) = set_attr a (pen c) \<and> dims (sc_setpenattr cbs a c) = dims c"
    and prop_law: "ok c \<Longrightarrow> ok (snd (sc_settermprop cbs t c)) \<and> pen (snd (sc_settermprop cbs t c)) = pen c \<and> dims (snd (sc_settermprop cbs t c)) = dims c"
    and resize_law: "ok c \<Longrightarrow> 0 \<le> rows \<Longrightarrow> 0 \<le> cols \<Longrightarrow>
      ok (sc_resize cbs rows cols c) \<and> pen (sc_resize cbs rows cols c) = pen c \<and> dims (sc_resize cbs rows cols c) = (rows, cols)"
begin

definition inv :: "int \<Rightarrow> int \<Rightarrow> 'c vtstate \<Rightarrow> bool" where
  "inv r c st \<longleftrightarrow> state_ok st \<and> st_rows st = r \<and> st_cols st = c
     \<and> ok (st_screen st) \<and> pen (st_screen st) = st_pen st \<and> dims (st_screen st) = (r, c)"

lemma inv_update [simp]:
  "inv r c (st\<lparr>st_pos := p\<rparr>) = inv r c st" "inv r c (st\<lparr>at_phantom := b\<rparr>) = inv r c st"
  "inv r c (st\<lparr>scrollregion_start := i\<rparr>) = inv r c st" "inv r c (st\<lparr>scrollregion_end := i\<rparr>) = inv r c st"
  "inv r c (st\<lparr>mouse_col := i\<rparr>) = inv r c st" "inv r c (st\<lparr>mouse_row := i\<rparr>) = inv r c st"
  "inv r c (st\<lparr>mouse_buttons := i\<rparr>) = inv r c st" "inv r c (st\<lparr>mouse_want_drag := b\<rparr>) = inv r c st"
  "inv r c (st\<lparr>mouse_want_move := b\<rparr>) = inv r c st" "inv r c (st\<lparr>mouse_proto := mp\<rparr>) = inv r c st"
  "inv r c (st\<lparr>combine_width := i\<rparr>) = inv r c st" "inv r c (st\<lparr>combine_pos := p\<rparr>) = inv r c st"
  "inv r c (st\<lparr>st_mode := m\<rparr>) = inv r c st" "inv r c (st\<lparr>fg_ansi := i\<rparr>) = inv r c st"
  "inv r c (st\<lparr>bold_is_highbright := b\<rparr>) = inv r c st" "inv r c (st\<lparr>st_saved := sv\<rparr>) = inv r c st"
  "inv r c (st\<lparr>encoding_utf8 := e\<rparr>) = inv r c st"
  by (simp_all add: inv_def state_ok_def)

lemma inv_sets [simp]: "inv r c st \<Longrightarrow> n < 4 \<Longrightarrow> inv r c (st\<lparr>gl_set := n\<rparr>)" "inv r c st \<Longrightarrow> n < 4 \<Longrightarrow> inv r c (st\<lparr>gr_set := n\<rparr>)"
  "inv r c st \<Longrightarrow> length es = 4 \<Longrightarrow> inv r c (st\<lparr>st_encoding := es\<rparr>)"
  "inv r c st \<Longrightarrow> length tabs = length (tabstops st) \<Longrightarrow> inv r c (st\<lparr>tabstops := tabs\<rparr>)"
  "inv r c st \<Longrightarrow> 16 \<le> length chars \<Longrightarrow> inv r c (st\<lparr>combine_chars := chars\<rparr>)"
  by (simp_all add: inv_def state_ok_def)

lemma inv_moved [simp]: "inv r c (set_row i st) = inv r c st" "inv r c (set_col i st) = inv r c st"
  by (simp_all add: set_row_def set_col_def)

lemma inv_output [simp]: "inv r c st \<Longrightarrow> inv r c (vterm_push_output bytes st)"
  using push_output_fields [of st bytes]
  by (simp add: inv_def state_ok_def) (simp add: vterm_push_output_def Let_def)

lemma inv_erase [simp]: "inv r c st \<Longrightarrow> inv r c (st_erase cbs rect st)"
  using erase_law [of "st_screen st" rect] backup_law [of "sc_erase cbs rect (st_screen st)" rect]
  by (simp add: inv_def state_ok_def st_erase_def on_screen_def)

lemma inv_calls [simp]:
  "inv r c st \<Longrightarrow> inv r c (on_screen (sc_movecursor cbs p q v) st)"
  "inv r c st \<Longrightarrow> inv r c (on_screen (sc_setmousefunc cbs v) st)"
  "inv r c st \<Longrightarrow> inv r c (on_screen (sc_bell cbs) st)"
  using movecursor_law [of "st_screen st" p q v] mouse_law [of "st_screen st" v] bell_law [of "st_screen st"]
  by (simp_all add: inv_def state_ok_def on_screen_def)

lemma inv_cursor [simp]: "inv r c st \<Longrightarrow> inv r c (updatecursor cbs q b st)"
  by (simp add: updatecursor_def)

lemma inv_prop [simp]: "inv r c st \<Longrightarrow> inv r c (snd (st_settermprop cbs t st))"
  using prop_law [of "st_screen st" t] by (simp add: inv_def state_ok_def st_settermprop_def split_beta)

lemma inv_prop_pair: "st_settermprop cbs t st = (h, st') \<Longrightarrow> inv r c st \<Longrightarrow> inv r c st'"
  using inv_prop [of r c st t] by simp

lemma scroll_inv: "st_scroll cbs rect d w st = Some st' \<Longrightarrow> inv r c st \<Longrightarrow> inv r c st'"
  using scroll_law [of "st_screen st" rect d w]
  by (auto simp: inv_def state_ok_def st_scroll_def try_screen_def split: if_splits bind_splits)

lemma glyph_inv: "st_putglyph cbs chars w p st = Some st' \<Longrightarrow> inv r c st \<Longrightarrow> inv r c st'"
  using putglyph_law [of "st_screen st" chars w p]
  by (auto simp: inv_def state_ok_def st_putglyph_def try_screen_def split: bind_splits)

lemma linefeed_inv: "linefeed cbs st = Some st' \<Longrightarrow> inv r c st \<Longrightarrow> inv r c st'"
  by (auto simp: linefeed_def split: if_splits dest: scroll_inv)

subsection \<open>The pen\<close>

lemma inv_pen [simp]: "inv r c st \<Longrightarrow> inv r c (set_pen cbs a st)"
  using setpen_law [of "st_screen st" a] by (simp add: inv_def state_ok_def set_pen_def on_screen_def)

lemma inv_pens: "inv r c st \<Longrightarrow> inv r c (fold (set_pen cbs) as st)"
  by (induction as arbitrary: st) simp_all

lemma inv_pen_col [simp]: "inv r c st \<Longrightarrow> inv r c (set_pen_col_ansi cbs b col st)"
  by (simp add: set_pen_col_ansi_def)

lemma inv_resetpen [simp]: "inv r c st \<Longrightarrow> inv r c (vterm_state_resetpen cbs st)"
  by (simp add: vterm_state_resetpen_def Let_def)

text \<open>The list of all attributes gives the pen they were taken from.\<close>

lemma pen_list_all: "fold set_attr (pen_list p) q = p"
  by (cases p; cases q) (simp add: pen_list_def Let_def)

lemma screen_pens: "ok s \<Longrightarrow> ok (fold (sc_setpenattr cbs) as s) \<and> pen (fold (sc_setpenattr cbs) as s) = fold set_attr as (pen s)
    \<and> dims (fold (sc_setpenattr cbs) as s) = dims s"
proof (induction as arbitrary: s)
  case (Cons a as)
  with setpen_law [of s a] Cons.IH [of "sc_setpenattr cbs a s"] show ?case by simp
qed simp

lemma inv_savepen [simp]: "inv r c st \<Longrightarrow> inv r c (vterm_state_savepen cbs b st)"
  using screen_pens [of "st_screen st" "pen_list (sv_pen (st_saved st))"]
  by (simp add: vterm_state_savepen_def inv_def state_ok_def on_screen_def pen_list_all Let_def)

lemma inv_sgr_simple [simp]: "inv r c st \<Longrightarrow> inv r c (sgr_simple cbs a st)"
  by (simp add: sgr_simple_def Let_def)

lemma sgr_arg_inv: "sgr_arg cbs args st = Some (rest, st') \<Longrightarrow> inv r c st \<Longrightarrow> inv r c st'"
  by (auto simp: sgr_arg_def split: bind_splits if_splits)

lemma setpen_inv: "vterm_state_setpen cbs args st = Some st' \<Longrightarrow> inv r c st \<Longrightarrow> inv r c st'"
proof (induction "length args" arbitrary: args st rule: less_induct)
  case less
  show ?case
  proof (cases "args = []")
    case False
    with less.prems(1) obtain rest st1 rest1 where 1: "sgr_arg cbs args st = Some (rest, st1)" "skip_more rest = Some rest1"
      "vterm_state_setpen cbs rest1 st1 = Some st'"
      by (subst (asm) vterm_state_setpen.simps) (auto split: option.splits)
    have "length rest1 < length args" using skip_more_shorter [OF 1(2)] sgr_arg_rest [OF 1(1)] by simp
    from less.hyps [OF this 1(3) sgr_arg_inv [OF 1(1) less.prems(2)]] show ?thesis .
  qed (use less.prems in \<open>simp add: vterm_state_setpen.simps\<close>)
qed

subsection \<open>Text\<close>

lemma put_combine_inv: "put_combine i x st = Some st' \<Longrightarrow> inv r c st \<Longrightarrow> inv r c st'"
  by (auto simp: put_combine_def grow_combine_buffer_def inv_def state_ok_def dest!: arr_set_length split: if_splits bind_splits)

lemma put_combines_inv: "put_combines i xs st = Some st' \<Longrightarrow> inv r c st \<Longrightarrow> inv r c st'"
  by (induction xs arbitrary: i st) (auto split: bind_splits dest: put_combine_inv)

lemma merge_combining_inv: "merge_combining cbs xs st = Some st' \<Longrightarrow> inv r c st \<Longrightarrow> inv r c st'"
  by (auto simp: merge_combining_def split: bind_splits dest!: put_combines_inv glyph_inv)

lemma wrap_inv: "(if at_phantom st then do { s \<leftarrow> linefeed cbs st; Some ((set_col 0 s)\<lparr>at_phantom := False\<rparr>) } else Some st) = Some st1
    \<Longrightarrow> inv r c st \<Longrightarrow> inv r c st1"
  by (auto split: if_splits bind_splits dest: linefeed_inv)

lemma print_glyph_inv:
  assumes "print_glyph cbs final g st = Some st'" "inv r c st"
  shows "inv r c st'"
proof -
  let ?last = "\<lambda>p s. if pos_col p + glyph_width g \<ge> st_cols s then (if m_autowrap (st_mode s) then s\<lparr>at_phantom := True\<rparr> else s)
    else set_col (pos_col p + glyph_width g) s"
  from assms(1) obtain st1 st2 st3 st4 where
    1: "(if at_phantom st then do { s \<leftarrow> linefeed cbs st; Some ((set_col 0 s)\<lparr>at_phantom := False\<rparr>) } else Some st) = Some st1"
    and 2: "(if m_insert (st_mode st1) then st_scroll cbs \<lparr>start_row = pos_row (st_pos st1), end_row = pos_row (st_pos st1) + 1,
        start_col = pos_col (st_pos st1), end_col = st_cols st1\<rparr> 0 (- 1) st1 else Some st1) = Some st2"
    and 3: "st_putglyph cbs (glyph_chars g) (glyph_width g) (st_pos st1) st2 = Some st3"
    and 4: "(if final then do { s \<leftarrow> put_combines 0 (takeWhile (\<lambda>c. c \<noteq> 0) (glyph_chars g)) st3;
        Some (s\<lparr>combine_width := glyph_width g, combine_pos := st_pos st1\<rparr>) } else Some st3) = Some st4"
    and 5: "st' = ?last (st_pos st1) st4"
    unfolding print_glyph_def Let_def bind_eq_Some_conv option.inject by blast
  from wrap_inv [OF 1 assms(2)] have "inv r c st1" .
  with 2 have "inv r c st2" by (auto split: if_splits dest: scroll_inv)
  with 3 have "inv r c st3" by (rule glyph_inv)
  with 4 have "inv r c st4" by (auto split: if_splits bind_splits dest: put_combines_inv)
  then show ?thesis by (simp add: 5)
qed

lemma print_glyphs_inv: "print_glyphs cbs gs st = Some st' \<Longrightarrow> inv r c st \<Longrightarrow> inv r c st'"
  by (induction gs arbitrary: st) (auto split: bind_splits dest: print_glyph_inv)

lemma decode_text_inv: "decode_text u bytes len st = Some (st', cp, n) \<Longrightarrow> inv r c st \<Longrightarrow> inv r c st'"
  by (auto simp: decode_text_def Let_def inv_def state_ok_def split: bind_splits if_splits)

lemma on_text_inv [keeps]: "on_text cbs u bytes len st = Some (n, st') \<Longrightarrow> inv r c st \<Longrightarrow> inv r c st'"
  by (auto simp: on_text_def Let_def split: bind_splits if_splits prod.splits
      dest!: decode_text_inv merge_combining_inv print_glyphs_inv)

subsection \<open>Control characters and escape sequences\<close>

lemma tabstop_length:
  "set_col_tabstop i tabs = Some tabs' \<Longrightarrow> length tabs' = length tabs" "clear_col_tabstop i tabs = Some tabs' \<Longrightarrow> length tabs' = length tabs"
  "reset_tabstop i tabs = Some tabs' \<Longrightarrow> length tabs' = length tabs"
  by (auto simp: set_col_tabstop_def clear_col_tabstop_def reset_tabstop_def split: bind_splits if_splits dest: arr_set_length)

lemma tabstops_length:
  assumes "ofold f is tabs = Some tabs'" "\<And>i t t'. f i t = Some t' \<Longrightarrow> length t' = length t"
  shows "length tabs' = length tabs"
  by (rule ofold_inv [where P = "\<lambda>t. length t = length tabs", OF _ refl assms(1)]) (simp add: assms(2))

lemma clear_tabs_length: "ofold clear_col_tabstop is tabs = Some tabs' \<Longrightarrow> length tabs' = length tabs"
  by (rule tabstops_length) (auto dest: tabstop_length)

lemma reset_tabs_length: "ofold reset_tabstop is tabs = Some tabs' \<Longrightarrow> length tabs' = length tabs"
  by (rule tabstops_length) (auto dest: tabstop_length)

lemma tab_inv: "tab n d st = Some st' \<Longrightarrow> inv r c st \<Longrightarrow> inv r c st'"
  by (induction n d st rule: tab.induct) (auto split: bind_splits)

lemma finish_inv: "finish cbs p st = Some (h, st') \<Longrightarrow> inv r c st \<Longrightarrow> inv r c st'"
  by (auto simp: finish_def)

lemma on_control_inv [keeps]: "on_control cbs x st = Some (h, st') \<Longrightarrow> inv r c st \<Longrightarrow> inv r c st'"
  by (auto simp: on_control_def Let_def bind_eq_Some_conv finish_def split: if_splits dest: tab_inv linefeed_inv scroll_inv tabstop_length)

lemma inv_props [simp]: "inv r c st \<Longrightarrow> inv r c (cursor_props cbs st)"
  by (simp add: cursor_props_def Let_def)

lemma inv_savecursor [simp]: "inv r c st \<Longrightarrow> inv r c (savecursor cbs b st)"
  by (simp add: savecursor_def Let_def)

lemma inv_altscreen [simp]: "inv r c st \<Longrightarrow> inv r c (altscreen cbs b st)"
  by (auto simp: altscreen_def Let_def split: prod.split dest: inv_prop_pair)

lemma reset_inv: "vterm_state_reset cbs u hard st = Some st' \<Longrightarrow> inv r c st \<Longrightarrow> inv r c st'"
proof -
  assume a: "vterm_state_reset cbs u hard st = Some st'" "inv r c st"
  have l: "length (st_encoding s) = 4" if "inv r c s" for s using that by (simp add: inv_def state_ok_def)
  from a show ?thesis by (auto simp: vterm_state_reset_def Let_def l dest!: reset_tabs_length split: bind_splits)
qed

lemma DECALN_inv: "DECALN cbs st = Some st' \<Longrightarrow> inv r c st \<Longrightarrow> inv r c st'"
  unfolding DECALN_def by (rule ofold_inv [where P = "inv r c", rotated]) (auto dest: glyph_inv)

lemma select_encoding_inv: "select_encoding n b st = Some st' \<Longrightarrow> inv r c st \<Longrightarrow> inv r c st'"
  by (auto simp: select_encoding_def inv_def state_ok_def split: option.splits bind_splits)

lemma on_escape_inv [keeps]: "on_escape cbs u bytes len st = Some (h, st') \<Longrightarrow> inv r c st \<Longrightarrow> inv r c st'"
  by (auto simp: on_escape_def split: bind_splits if_splits dest!: DECALN_inv select_encoding_inv reset_inv)

subsection \<open>Control sequences\<close>

lemma move_inv: "csi_move key args st = Some st' \<Longrightarrow> inv r c st \<Longrightarrow> inv r c st'"
  by (auto simp: csi_move_def move_to_def Let_def bind_eq_Some_conv split: if_splits)

lemma inv_erases [simp]: "inv r c st \<Longrightarrow> inv r c (erase_cols cbs rect st)" "inv r c st \<Longrightarrow> inv r c (erase_rows cbs rect st)"
  by (simp_all add: erase_cols_def erase_rows_def)

lemma inv_ED [simp]: "inv r c st \<Longrightarrow> inv r c (csi_ED cbs v st)"
  by (simp add: csi_ED_def Let_def)

lemma inv_EL: "csi_EL cbs v st = (h, st') \<Longrightarrow> inv r c st \<Longrightarrow> inv r c st'"
  by (auto simp: csi_EL_def Let_def split: if_splits)

lemma edit_inv: "csi_edit cbs key args st = Some (h, st') \<Longrightarrow> inv r c st \<Longrightarrow> inv r c st'"
  by (auto simp: csi_edit_def handled_if_def Let_def bind_eq_Some_conv split: if_splits dest: scroll_inv inv_EL)

lemma TBC_inv: "csi_TBC v st = Some (h, st') \<Longrightarrow> inv r c st \<Longrightarrow> inv r c st'"
  by (auto simp: csi_TBC_def bind_eq_Some_conv split: if_splits dest: tabstop_length(2) clear_tabs_length)

lemma inv_modes [simp]: "inv r c st \<Longrightarrow> inv r c (set_mode n v st)" "inv r c st \<Longrightarrow> inv r c (set_dec_mode cbs n v st)"
  by (simp_all add: set_mode_def set_dec_mode_def mouse_mode_def Let_def)

lemma inv_DECSCUSR [simp]: "inv r c st \<Longrightarrow> inv r c (csi_DECSCUSR cbs v st)"
  by (simp add: csi_DECSCUSR_def Let_def)

lemma other_inv:
  assumes "csi_other cbs u key args st = Some (h, st')" "inv r c st"
  shows "inv r c st'"
proof -
  have "inv r c (csi_DSR v st)" "inv r c (csi_DECSTBM args v st)" for v
    using assms(2) by (simp_all add: csi_DSR_def csi_DECSTBM_def Let_def)
  then show ?thesis using assms
    by (auto simp: csi_other_def handled_if_def Let_def bind_eq_Some_conv split: if_splits dest: tab_inv TBC_inv setpen_inv reset_inv)
qed

lemma inv_bounds [simp]: "inv r c (bound_cursor st) = inv r c st"
  by (simp add: bound_cursor_def Let_def)

lemma on_csi_inv [keeps]:
  assumes "on_csi cbs u leader args intermed x st = Some (h, st')" "inv r c st"
  shows "inv r c st'"
proof (cases "csi_key leader intermed x")
  case (Some key)
  with assms(1) obtain h1 s where "csi_switch cbs u key args st = Some (h1, s)" "st' = s \<or> st' = updatecursor cbs (st_pos st) True (bound_cursor s)"
    by (auto simp: on_csi_def finish_def bind_eq_Some_conv split: if_splits)
  moreover from this(1) have "inv r c s" using assms(2)
    by (auto simp: csi_switch_def handled_if_def split: if_splits dest: move_inv edit_inv other_inv)
  ultimately show ?thesis by auto
qed (use assms in \<open>simp add: on_csi_def\<close>)

subsection \<open>Strings and sizes\<close>

lemma prop_string_inv: "settermprop_string cbs k str n st = Some st' \<Longrightarrow> inv r c st \<Longrightarrow> inv r c st'"
  by (auto simp: settermprop_string_def bind_eq_Some_conv)

lemma on_osc_inv [keeps]: "on_osc cbs str n st = Some (h, st') \<Longrightarrow> inv r c st \<Longrightarrow> inv r c st'"
  by (auto simp: on_osc_def handled_if_def Let_def bind_eq_Some_conv split: if_splits dest!: prop_string_inv)

lemma on_dcs_inv [keeps]: "on_dcs str n st = Some (h, st') \<Longrightarrow> inv r c st \<Longrightarrow> inv r c st'"
  by (auto simp: on_dcs_def handled_if_def request_status_string_def Let_def bind_eq_Some_conv split: if_splits)

lemma copy_tabstop_length: "copy_tabstop n old col new = Some new' \<Longrightarrow> length new' = length new"
  by (auto simp: copy_tabstop_def bind_eq_Some_conv split: if_splits dest: tabstop_length)

lemma copy_tabs_length: "ofold (copy_tabstop n old) is new = Some new' \<Longrightarrow> length new' = length new"
  by (rule tabstops_length) (auto dest: copy_tabstop_length)

lemma on_resize_inv [keeps]:
  assumes "on_resize cbs rows cols st = Some st'" "inv r c st" "0 \<le> rows" "0 \<le> cols"
  shows "inv rows cols st'"
proof -
  obtain s0 where s0: "resize_tabstops cols st = Some s0" using assms(1) by (auto simp: on_resize_def bind_eq_Some_conv)
  then have "length (tabstops s0) = tab_bytes cols" "s0 = st \<or> (\<exists>t. s0 = st\<lparr>tabstops := t\<rparr>)"
    using assms(2) by (auto simp: resize_tabstops_def inv_def state_ok_def bind_eq_Some_conv split: if_splits dest: copy_tabs_length)
  then have "inv rows cols (on_screen (sc_resize cbs rows cols) (s0\<lparr>st_rows := rows, st_cols := cols, st_pos := p, at_phantom := b\<rparr>))" for p b
    using assms(2-4) resize_law [of "st_screen st" rows cols] by (auto simp: inv_def state_ok_def on_screen_def)
  then show ?thesis using assms(1) s0 by (auto simp: on_resize_def Let_def bind_eq_Some_conv)
qed

lemma obtain_state_inv:
  assumes "0 \<le> rows" "0 \<le> cols" "ok c" "pen c = zero_pen" "dims c = (rows, cols)"
  shows "inv rows cols (vterm_obtain_state rows cols c)"
  using assms by (simp add: inv_def state_ok_def vterm_obtain_state_def)

end

end
