(* ===== verification/ParserInv.thy ===== *)
theory ParserInv
  imports Parser
begin

section \<open>What the parser's functions keep, the parser keeps\<close>

text \<open>
  The parser only changes the state behind it through the functions it is given. A property that each of
  them keeps therefore holds after any input.
\<close>

locale kept_by_callbacks =
  fixes cbs :: "'s callbacks" and P :: "'s \<Rightarrow> bool"
  assumes text_law: "cb_text cbs = Some f \<Longrightarrow> f str len s = Some (n, s') \<Longrightarrow> P s \<Longrightarrow> P s'"
    and control_law: "cb_control cbs = Some g \<Longrightarrow> g c s = Some (h, s') \<Longrightarrow> P s \<Longrightarrow> P s'"
    and escape_law: "cb_escape cbs = Some k \<Longrightarrow> k str len s = Some (h, s') \<Longrightarrow> P s \<Longrightarrow> P s'"
    and csi_law: "cb_csi cbs = Some i \<Longrightarrow> i leader args intermed c s = Some (h, s') \<Longrightarrow> P s \<Longrightarrow> P s'"
    and osc_law: "cb_osc cbs = Some k \<Longrightarrow> k str len s = Some (h, s') \<Longrightarrow> P s \<Longrightarrow> P s'"
    and dcs_law: "cb_dcs cbs = Some d \<Longrightarrow> d str len s = Some (h, str', s') \<Longrightarrow> P s \<Longrightarrow> P s'"

locale kept_by_both = first: kept_by_callbacks cbs P + second: kept_by_callbacks backup P
  for cbs backup :: "'s callbacks" and P :: "'s \<Rightarrow> bool"
begin

definition kept :: "bool \<Rightarrow> 's vterm \<Rightarrow> bool" where
  "kept u vt \<longleftrightarrow> P (cbdata vt) \<and> is_utf8 vt = u"

lemma kept_update [simp]:
  "kept u (vt\<lparr>parser_state := st\<rparr>) = kept u vt" "kept u (vt\<lparr>strbuffer := b\<rparr>) = kept u vt"
  "kept u (vt\<lparr>strbuffer_cur := n\<rparr>) = kept u vt" "kept u (vt\<lparr>cbdata := s\<rparr>) = (P s \<and> is_utf8 vt = u)"
  by (simp_all add: kept_def)

lemma append_strbuffer_kept: "append_strbuffer str len vt = Some vt' \<Longrightarrow> kept u vt \<Longrightarrow> kept u vt'"
  by (auto simp: append_strbuffer_def Let_def split: if_splits bind_splits)

lemma do_control_kept: "do_control cbs c vt = Some vt' \<Longrightarrow> kept u vt \<Longrightarrow> kept u vt'"
  by (auto simp: do_control_def kept_def split: option.splits bind_splits dest: first.control_law)

lemma do_text_kept: "do_text cbs backup str len vt = Some (n, vt') \<Longrightarrow> kept u vt \<Longrightarrow> kept u vt'"
  by (auto simp: do_text_def kept_def simp del: not_gr0 split: option.splits bind_splits if_splits)
    (metis first.text_law second.text_law)+

lemma do_escape_kept: "do_both (cb_escape cbs) (cb_escape backup) str len vt = Some vt' \<Longrightarrow> kept u vt \<Longrightarrow> kept u vt'"
  by (auto simp: do_both_def kept_def split: option.splits bind_splits dest: first.escape_law second.escape_law)

lemma do_osc_kept: "do_both (cb_osc cbs) (cb_osc backup) str len vt = Some vt' \<Longrightarrow> kept u vt \<Longrightarrow> kept u vt'"
  by (auto simp: do_both_def kept_def split: option.splits bind_splits dest: first.osc_law second.osc_law)

lemma do_csi_kept: "do_string_csi cbs backup args c vt = Some vt' \<Longrightarrow> kept u vt \<Longrightarrow> kept u vt'"
  by (auto simp: do_string_csi_def kept_def split: option.splits bind_splits prod.splits dest: first.csi_law second.csi_law)

lemma do_dcs_kept: "do_dcs cbs backup str len vt = Some (str', vt') \<Longrightarrow> kept u vt \<Longrightarrow> kept u vt'"
  by (auto simp: do_dcs_def kept_def split: option.splits bind_splits prod.splits if_splits dest: first.dcs_law second.dcs_law)

lemmas do_kept = do_control_kept do_text_kept do_escape_kept do_osc_kept do_csi_kept do_dcs_kept

lemma do_string_at_kept: "do_string_at cbs backup str len vt = Some (n, str', vt') \<Longrightarrow> kept u vt \<Longrightarrow> kept u vt'"
  by (auto simp: do_string_at_def split: parser_state.splits bind_splits prod.splits if_splits dest: do_kept)

lemma do_string_kept: "do_string cbs backup mem off len vt = Some (n, mem', vt') \<Longrightarrow> kept u vt \<Longrightarrow> kept u vt'"
  by (auto simp: do_string_def split: bind_splits prod.splits if_splits dest!: append_strbuffer_kept do_string_at_kept)

definition push_kept :: "bool \<Rightarrow> 's push \<Rightarrow> bool" where
  "push_kept u = (\<lambda>(start, mem, vt). kept u vt)"

lemma push_kept_state [simp]:
  "push_kept u (start, mem, vt) = kept u vt" "push_kept u (ENTER_STRING_STATE st pos p) = push_kept u p"
  "push_kept u (ENTER_NORMAL_STATE p) = push_kept u p" "push_kept u (after_fragment pos p) = push_kept u p"
  by (auto simp: push_kept_def ENTER_STRING_STATE_def ENTER_NORMAL_STATE_def after_fragment_def split: prod.splits)

lemma save_fragment_kept: "save_fragment pos p = Some p' \<Longrightarrow> push_kept u p \<Longrightarrow> push_kept u p'"
  by (auto simp: save_fragment_def split: prod.splits bind_splits if_splits dest: append_strbuffer_kept)

lemma finish_string_kept: "finish_string cbs backup pos e p = Some p' \<Longrightarrow> push_kept u p \<Longrightarrow> push_kept u p'"
  by (auto simp: finish_string_def split: prod.splits bind_splits dest: do_string_kept)

lemma escape_byte_kept: "escape_byte cbs backup pos c p = Some p' \<Longrightarrow> push_kept u p \<Longrightarrow> push_kept u p'"
  by (auto simp: escape_byte_def split: if_splits dest: finish_string_kept)

lemma string_byte_kept: "string_byte cbs backup pos c p = Some p' \<Longrightarrow> push_kept u p \<Longrightarrow> push_kept u p'"
  by (auto simp: string_byte_def split: prod.splits parser_state.splits if_splits dest: escape_byte_kept finish_string_kept)

lemma c1_byte_kept: "c1_byte cbs pos c p = Some p' \<Longrightarrow> push_kept u p \<Longrightarrow> push_kept u p'"
  by (auto simp: c1_byte_def split: prod.splits bind_splits if_splits dest: do_control_kept)

lemma push_byte_kept:
  assumes "push_byte cbs backup len pos (start, mem, vt) = Some (r, p')" "kept u vt"
  shows "push_kept u p'"
proof -
  have k: "push_kept u (start, mem, vt)" using assms(2) by simp
  from assms(1) show ?thesis
  proof (cases rule: push_byte_cases)
    case (frag p0)
    from save_fragment_kept [OF frag(1) k] frag(2) show ?thesis by simp
  next
    case (control c s1 m1 vt1 vt2)
    from save_fragment_kept [OF control(1) k] do_control_kept [OF control(2)] control(3) show ?thesis by simp
  next
    case (string c)
    from string_byte_kept [OF string(2) k] show ?thesis .
  next
    case (c1 c)
    from c1_byte_kept [OF c1(2) k] show ?thesis .
  next
    case (printed n m1 vt1)
    with do_string_kept [OF printed(2) assms(2)] show ?thesis by simp
  qed (use k in simp_all)
qed

lemma push_loop_kept: "push_loop cbs backup len pos p = Some p' \<Longrightarrow> push_kept u p \<Longrightarrow> push_kept u p'"
proof (induction "len - pos" arbitrary: pos p rule: less_induct)
  case less
  show ?case
  proof (cases "pos < len")
    case False
    with less.prems show ?thesis by (simp add: push_loop.simps [of cbs backup len pos p])
  next
    case True
    with less.prems(1) obtain r p1 where b: "push_byte cbs backup len pos p = Some (r, p1)"
      by (subst (asm) push_loop.simps) (auto split: option.splits)
    have k: "push_kept u p1" using push_byte_kept b less.prems(2) by (cases p) auto
    show ?thesis
    proof (cases r)
      case None
      with less.prems(1) True b k show ?thesis by (simp add: push_loop.simps [of cbs backup len pos p])
    next
      case (Some skip)
      with less.prems(1) True b have "push_loop cbs backup len (pos + 1 + skip) p1 = Some p'"
        by (simp add: push_loop.simps [of cbs backup len pos p])
      from less.hyps [OF _ this k] True show ?thesis by simp
    qed
  qed
qed

lemma push_bytes_kept:
  assumes "vterm_push_bytes cbs backup mem len vt = Some (mem', vt')" "kept u vt"
  shows "kept u vt'"
proof -
  from assms(1) obtain start vt1 where 1: "push_loop cbs backup len 0 (if parser_state vt = NORMAL then None else Some 0, mem, vt) = Some (start, mem', vt1)"
    and e: "(case start of None \<Rightarrow> Some vt1
        | Some s \<Rightarrow> if s < len then append_strbuffer (drop s mem') (len - s) vt1 else Some vt1) = Some vt'"
    by (auto simp: vterm_push_bytes_def split: bind_splits)
  from push_loop_kept [OF 1] assms(2) have "kept u vt1" by simp
  with e show ?thesis by (cases start) (auto split: if_splits dest: append_strbuffer_kept)
qed

end

end
