(* ===== verification/ScreenCells.thy ===== *)
theory ScreenCells
  imports Screen
begin

section \<open>The screen as a table of cells\<close>

text \<open>
  What every operation of \<open>screen.c\<close> keeps, and what it does to the cell of each row and column.
\<close>

subsection \<open>The screen's shape\<close>

definition cell_ok :: "scell \<Rightarrow> bool" where
  "cell_ok c \<longleftrightarrow> length (sc_chars c) = VTERM_MAX_CHARS_PER_CELL"

definition buffer_ok :: "int \<Rightarrow> int \<Rightarrow> scell list \<Rightarrow> bool" where
  "buffer_ok rows cols b \<longleftrightarrow> length b = nat rows * nat cols \<and> (\<forall>c\<in>set b. cell_ok c)"

definition screen_ok :: "vterm_screen \<Rightarrow> bool" where
  "screen_ok scr \<longleftrightarrow> 0 \<le> scr_rows scr \<and> 0 \<le> scr_cols scr
     \<and> buffer_ok (scr_rows scr) (scr_cols scr) (scr_primary scr)
     \<and> (\<forall>b. scr_altscreen scr = Some b \<longrightarrow> buffer_ok (scr_rows scr) (scr_cols scr) b)
     \<and> (scr_on_alt scr \<longrightarrow> scr_altscreen scr \<noteq> None)"

definition on_screen_at :: "vterm_screen \<Rightarrow> int \<Rightarrow> int \<Rightarrow> bool" where
  "on_screen_at scr row col \<longleftrightarrow> 0 \<le> row \<and> row < scr_rows scr \<and> 0 \<le> col \<and> col < scr_cols scr"

definition cell_at :: "vterm_screen \<Rightarrow> int \<Rightarrow> int \<Rightarrow> scell" where
  "cell_at scr row col = scr_buffer scr ! nat (scr_cols scr * row + col)"

lemma screen_okD:
  "screen_ok scr \<Longrightarrow> 0 \<le> scr_rows scr" "screen_ok scr \<Longrightarrow> 0 \<le> scr_cols scr"
  by (simp_all add: screen_ok_def)

lemma buffer_shape: "screen_ok scr \<Longrightarrow> buffer_ok (scr_rows scr) (scr_cols scr) (scr_buffer scr)"
  by (auto simp: screen_ok_def scr_buffer_def split: option.splits)

lemma buffer_length: "screen_ok scr \<Longrightarrow> int (length (scr_buffer scr)) = scr_rows scr * scr_cols scr"
  using buffer_shape [of scr] by (simp add: buffer_ok_def screen_ok_def)

lemma index_less: "0 \<le> row \<Longrightarrow> row < rows \<Longrightarrow> 0 \<le> col \<Longrightarrow> col < cols \<Longrightarrow> cols * row + col < rows * (cols :: int)"
proof -
  assume a: "0 \<le> row" "row < rows" "0 \<le> col" "col < cols"
  then have "cols * (row + 1) \<le> cols * rows" by (intro mult_left_mono) simp_all
  with a show ?thesis by (simp add: algebra_simps)
qed

lemma cell_index:
  "screen_ok scr \<Longrightarrow> on_screen_at scr row col \<Longrightarrow> nat (scr_cols scr * row + col) < length (scr_buffer scr)"
  using index_less [of row "scr_rows scr" col "scr_cols scr"] buffer_length [of scr]
  by (simp add: on_screen_at_def nat_less_iff)

lemma cell_at_ok: "screen_ok scr \<Longrightarrow> on_screen_at scr row col \<Longrightarrow> cell_ok (cell_at scr row col)"
  using cell_index [of scr row col] buffer_shape [of scr] by (simp add: cell_at_def buffer_ok_def)

lemma getcell_eq: "getcell scr row col = (if on_screen_at scr row col then Some (nat (scr_cols scr * row + col)) else None)"
  by (auto simp: getcell_def on_screen_at_def)

lemma arr_get_cell: "screen_ok scr \<Longrightarrow> on_screen_at scr row col \<Longrightarrow>
    arr_get (scr_buffer scr) (int (nat (scr_cols scr * row + col))) = Some (cell_at scr row col)"
  unfolding cell_at_def by (rule arr_get_nat) (rule cell_index)

lemma arr_get_cell_int: "screen_ok scr \<Longrightarrow> on_screen_at scr row col \<Longrightarrow>
    arr_get (scr_buffer scr) (scr_cols scr * row + col) = Some (cell_at scr row col)"
  using arr_get_cell [of scr row col] by (simp add: on_screen_at_def)

lemma set_buffer_fields [simp]:
  "scr_rows (set_buffer b scr) = scr_rows scr" "scr_cols (set_buffer b scr) = scr_cols scr"
  "scr_on_alt (set_buffer b scr) = scr_on_alt scr" "scr_pen (set_buffer b scr) = scr_pen scr"
  "scr_calls (set_buffer b scr) = scr_calls scr" "global_reverse (set_buffer b scr) = global_reverse scr"
  "damage_merge (set_buffer b scr) = damage_merge scr" "damaged (set_buffer b scr) = damaged scr"
  "pending_scrollrect (set_buffer b scr) = pending_scrollrect scr"
  "on_screen_at (set_buffer b scr) = on_screen_at scr"
  by (simp_all add: set_buffer_def on_screen_at_def fun_eq_iff)

lemma scr_buffer_set [simp]: "scr_buffer (set_buffer b scr) = b"
  by (simp add: set_buffer_def scr_buffer_def)

lemma set_buffer_ok: "screen_ok scr \<Longrightarrow> buffer_ok (scr_rows scr) (scr_cols scr) b \<Longrightarrow> screen_ok (set_buffer b scr)"
  by (auto simp: screen_ok_def set_buffer_def)

text \<open>Two indices are equal only for the same row and column.\<close>

lemma index_range:
  fixes cols :: int
  assumes "0 \<le> c0" "0 \<le> n" "c0 + n \<le> cols" "0 \<le> c" "c < cols"
  shows "cols * r0 + c0 \<le> cols * r + c \<and> cols * r + c < cols * r0 + c0 + n \<longleftrightarrow> r = r0 \<and> c0 \<le> c \<and> c < c0 + n"
proof -
  consider "r + 1 \<le> r0" | "r = r0" | "r0 + 1 \<le> r" by linarith
  then show ?thesis
  proof cases
    case 1
    with assms have "cols * (r + 1) \<le> cols * r0" by (intro mult_left_mono) simp_all
    with assms 1 show ?thesis by (simp add: algebra_simps)
  next
    case 3
    with assms have "cols * (r0 + 1) \<le> cols * r" by (intro mult_left_mono) simp_all
    with assms 3 show ?thesis by (simp add: algebra_simps)
  qed auto
qed

lemma index_eq:
  "0 \<le> c \<Longrightarrow> c < cols \<Longrightarrow> 0 \<le> c' \<Longrightarrow> c' < cols \<Longrightarrow> cols * r + c = cols * r' + c' \<longleftrightarrow> r = r' \<and> c = (c' :: int)"
  using index_range [of c' 1 cols c r' r] by auto

lemma nat_index_eq:
  assumes "on_screen_at scr r c" "on_screen_at scr r' c'"
  shows "nat (scr_cols scr * r + c) = nat (scr_cols scr * r' + c') \<longleftrightarrow> r = r' \<and> c = c'"
proof -
  have "0 \<le> scr_cols scr * r + c" "0 \<le> scr_cols scr * r' + c'" using assms by (simp_all add: on_screen_at_def)
  then show ?thesis using index_eq [of c "scr_cols scr" c' r r'] assms by (simp add: on_screen_at_def eq_nat_nat_iff)
qed

subsection \<open>Writing one cell\<close>

definition put_cell :: "int \<Rightarrow> int \<Rightarrow> scell \<Rightarrow> vterm_screen \<Rightarrow> vterm_screen" where
  "put_cell row col c scr = set_buffer ((scr_buffer scr)[nat (scr_cols scr * row + col) := c]) scr"

lemma put_cell_fields [simp]:
  "scr_rows (put_cell r c x scr) = scr_rows scr" "scr_cols (put_cell r c x scr) = scr_cols scr"
  "scr_on_alt (put_cell r c x scr) = scr_on_alt scr" "scr_pen (put_cell r c x scr) = scr_pen scr"
  "scr_calls (put_cell r c x scr) = scr_calls scr" "global_reverse (put_cell r c x scr) = global_reverse scr"
  "on_screen_at (put_cell r c x scr) = on_screen_at scr"
  by (simp_all add: put_cell_def)

lemma put_cell_ok: "screen_ok scr \<Longrightarrow> cell_ok x \<Longrightarrow> screen_ok (put_cell r c x scr)"
  unfolding put_cell_def using buffer_shape [of scr]
  by (intro set_buffer_ok) (auto simp: buffer_ok_def dest: set_update_subset_insert [THEN subsetD])

lemma cell_at_put:
  assumes "screen_ok scr" "on_screen_at scr r c" "on_screen_at scr r' c'"
  shows "cell_at (put_cell r c x scr) r' c' = (if r' = r \<and> c' = c then x else cell_at scr r' c')"
  using nat_index_eq [OF assms(2,3)] cell_index [OF assms(1,2)] by (auto simp: cell_at_def put_cell_def)

text \<open>What stays when only the damage changes.\<close>

definition undamaged :: "vterm_screen \<Rightarrow> vterm_screen" where
  "undamaged scr =
     (let r = \<lparr>start_row = - 1, end_row = 0, start_col = 0, end_col = 0\<rparr>
      in scr\<lparr>damage_merge := VTERM_DAMAGE_CELL, damaged := r, pending_scrollrect := r,
            pending_scroll_downward := 0, pending_scroll_rightward := 0\<rparr>)"

lemma undamaged_damage [simp]:
  "undamaged (damagerect r s) = undamaged s"
  "undamaged (damagescreen s) = undamaged s"
  "undamaged (erase_user r s) = undamaged s"
  "undamaged (s\<lparr>damage_merge := m\<rparr>) = undamaged s"
  "undamaged (s\<lparr>damaged := r\<rparr>) = undamaged s"
  "undamaged (s\<lparr>pending_scrollrect := r\<rparr>) = undamaged s"
  "undamaged (s\<lparr>pending_scroll_downward := d\<rparr>) = undamaged s"
  "undamaged (s\<lparr>pending_scroll_rightward := d\<rparr>) = undamaged s"
  by (simp_all add: undamaged_def damagescreen_def damagerect_def erase_user_def Let_def split: damage_size.split)

lemma undamaged_fields:
  "undamaged s = undamaged s' \<Longrightarrow> scr_rows s = scr_rows s' \<and> scr_cols s = scr_cols s' \<and> global_reverse s = global_reverse s'
     \<and> scr_primary s = scr_primary s' \<and> scr_altscreen s = scr_altscreen s' \<and> scr_on_alt s = scr_on_alt s'
     \<and> scr_pen s = scr_pen s' \<and> scr_calls s = scr_calls s'"
  by (cases s; cases s') (simp add: undamaged_def Let_def)

lemma undamaged_same:
  assumes "undamaged s = undamaged s'"
  shows "screen_ok s = screen_ok s'" "scr_buffer s = scr_buffer s'" "cell_at s = cell_at s'" "on_screen_at s = on_screen_at s'"
    "scr_rows s = scr_rows s'" "scr_cols s = scr_cols s'" "scr_pen s = scr_pen s'" "scr_calls s = scr_calls s'"
  using undamaged_fields [OF assms] by (simp_all add: screen_ok_def scr_buffer_def cell_at_def on_screen_at_def fun_eq_iff)

lemma scroll_rect_user:
  "\<exists>s'. vterm_scroll_rect rect d r moverect_user erase_user s = Some s' \<and> undamaged s' = undamaged s"
  by (simp add: vterm_scroll_rect_def moverect_user_def)

lemma flush_total: "\<exists>s'. vterm_screen_flush_damage s = Some s' \<and> undamaged s' = undamaged s"
  using scroll_rect_user [of "pending_scrollrect s" "pending_scroll_downward s" "pending_scroll_rightward s" s]
  by (auto simp: vterm_screen_flush_damage_def)

text \<open>A scroll on the screen is that of the cells; the rest is damage.\<close>

lemma scrollrect_cells:
  "(case vterm_scroll_rect rect d r moverect_internal erase_internal s of
      None \<Rightarrow> scrollrect rect d r s = None
    | Some s1 \<Rightarrow> (\<exists>s'. scrollrect rect d r s = Some s' \<and> undamaged s' = undamaged s1))"
proof (cases "vterm_scroll_rect rect d r moverect_internal erase_internal s")
  case None
  then show ?thesis by (simp add: scrollrect_def)
next
  case (Some s1)
  have "\<exists>s'. scrollrect rect d r s = Some s' \<and> undamaged s' = undamaged s1"
  proof (cases "damage_merge s1 = VTERM_DAMAGE_SCROLL")
    case False
    obtain s2 where 2: "vterm_screen_flush_damage s1 = Some s2" "undamaged s2 = undamaged s1" using flush_total by blast
    obtain s3 where "vterm_scroll_rect rect d r moverect_user erase_user s2 = Some s3" "undamaged s3 = undamaged s2"
      using scroll_rect_user by blast
    with Some False 2 show ?thesis by (simp add: scrollrect_def)
  next
    case True
    have "\<exists>s2. (if c then vterm_screen_flush_damage s1 else Some s1) = Some s2 \<and> undamaged s2 = undamaged s1" for c
      using flush_total [of s1] by simp
    then obtain s2 where 2: "(if start_row (damaged s1) \<noteq> - 1 \<and> \<not> rect_intersects rect (damaged s1)
        then vterm_screen_flush_damage s1 else Some s1) = Some s2" "undamaged s2 = undamaged s1" by blast
    obtain s3 where 3: "vterm_screen_flush_damage s2 = Some s3" "undamaged s3 = undamaged s2" using flush_total by blast
    show ?thesis using Some True 2 3 by (simp add: scrollrect_def Let_def)
  qed
  with Some show ?thesis by simp
qed

subsection \<open>Erasing\<close>

definition blank :: "vpen \<Rightarrow> scell \<Rightarrow> scell" where
  "blank p c = \<lparr>sc_chars = (sc_chars c)[0 := 0], sc_pen = p\<rparr>"

lemma blank_blank [simp]: "blank p (blank p c) = blank p c" "cell_ok (blank p c) = cell_ok c"
  by (simp_all add: blank_def cell_ok_def)

lemma erase_cell_eq:
  "erase_cell (row, col) scr = (if on_screen_at scr row col then put_cell row col (blank (scr_pen scr) (cell_at scr row col)) scr else scr)"
  by (simp add: erase_cell_def getcell_eq put_cell_def blank_def cell_at_def)

lemma erase_cells:
  "screen_ok scr \<Longrightarrow> screen_ok (fold erase_cell ps scr) \<and> scr_calls (fold erase_cell ps scr) = scr_calls scr
     \<and> scr_pen (fold erase_cell ps scr) = scr_pen scr \<and> on_screen_at (fold erase_cell ps scr) = on_screen_at scr
     \<and> scr_rows (fold erase_cell ps scr) = scr_rows scr \<and> scr_cols (fold erase_cell ps scr) = scr_cols scr
     \<and> (\<forall>r c. on_screen_at scr r c \<longrightarrow> cell_at (fold erase_cell ps scr) r c =
          (if (r, c) \<in> set ps then blank (scr_pen scr) (cell_at scr r c) else cell_at scr r c))"
proof (induction ps arbitrary: scr)
  case (Cons p ps)
  obtain row col where p: "p = (row, col)" by (cases p)
  show ?case
  proof (cases "on_screen_at scr row col")
    case True
    let ?s = "put_cell row col (blank (scr_pen scr) (cell_at scr row col)) scr"
    have "screen_ok ?s" using Cons.prems True by (simp add: put_cell_ok cell_at_ok)
    from Cons.IH [OF this] show ?thesis using Cons.prems True
      by (auto simp: p erase_cell_eq cell_at_put)
  next
    case False
    with Cons.IH [OF Cons.prems] show ?thesis by (auto simp: p erase_cell_eq)
  qed
qed simp

definition in_rect :: "vrect \<Rightarrow> int \<Rightarrow> int \<Rightarrow> bool" where
  "in_rect rect r c \<longleftrightarrow> start_row rect \<le> r \<and> r < end_row rect \<and> start_col rect \<le> c \<and> c < end_col rect"

lemma in_rect_positions:
  "(r, c) \<in> set [(row, col). row \<leftarrow> [start_row rect..end_row rect - 1], col \<leftarrow> [start_col rect..end_col rect - 1]] \<longleftrightarrow> in_rect rect r c"
  by (auto simp: in_rect_def image_iff)

lemma erase_internal_cells:
  assumes "screen_ok scr"
  shows "screen_ok (erase_internal rect scr)" "scr_calls (erase_internal rect scr) = scr_calls scr"
    "scr_pen (erase_internal rect scr) = scr_pen scr" "on_screen_at (erase_internal rect scr) = on_screen_at scr"
    "scr_rows (erase_internal rect scr) = scr_rows scr" "scr_cols (erase_internal rect scr) = scr_cols scr"
    "on_screen_at scr r c \<Longrightarrow> cell_at (erase_internal rect scr) r c =
       (if in_rect rect r c then blank (scr_pen scr) (cell_at scr r c) else cell_at scr r c)"
  using erase_cells [OF assms, of "[(row, col). row \<leftarrow> [start_row rect..end_row rect - 1], col \<leftarrow> [start_col rect..end_col rect - 1]]"]
  by (simp_all only: erase_internal_def in_rect_positions)

subsection \<open>Moving rows\<close>

lemma memmove_cells_Some:
  assumes "0 \<le> n" "int dst + n \<le> int (length b)" "int src + n \<le> int (length b)"
  shows "\<exists>b'. memmove_cells dst src n b = Some b' \<and> length b' = length b \<and> set b' \<subseteq> set b \<and>
    (\<forall>i<length b. b' ! i = (if dst \<le> i \<and> int i < int dst + n then b ! (src + (i - dst)) else b ! i))"
proof -
  obtain m where n: "n = int m" using assms(1) nonneg_int_cases by blast
  have l: "dst + m \<le> length b" "src + m \<le> length b" using assms n by simp_all
  let ?b = "take dst b @ take m (drop src b) @ drop (dst + m) b"
  have "length ?b = length b" using l by simp
  moreover have "set ?b \<subseteq> set b" by (auto dest: in_set_takeD in_set_dropD)
  moreover have "?b ! i = (if dst \<le> i \<and> i < dst + m then b ! (src + (i - dst)) else b ! i)" if "i < length b" for i
  proof -
    have "length (take dst b) = dst" "length (take m (drop src b)) = m" using l by simp_all
    then show ?thesis using that l by (auto simp: nth_append)
  qed
  ultimately show ?thesis using l n by (auto simp: memmove_cells_def)
qed

definition row_move :: "vrect \<Rightarrow> vrect \<Rightarrow> int \<Rightarrow> vterm_screen \<Rightarrow> int \<Rightarrow> int \<Rightarrow> scell" where
  "row_move dest src row scr r c =
     (if r = row \<and> start_col dest \<le> c \<and> c < start_col dest + (end_col src - start_col src)
      then cell_at scr (row + (start_row src - start_row dest)) (start_col src + (c - start_col dest)) else cell_at scr r c)"

lemma move_row_cells:
  assumes ok: "screen_ok scr" and rows: "0 \<le> row" "row < scr_rows scr"
    "0 \<le> row + (start_row src - start_row dest)" "row + (start_row src - start_row dest) < scr_rows scr"
    and cols: "0 \<le> start_col dest" "0 \<le> start_col src" "start_col src < end_col src" "end_col src \<le> scr_cols scr"
    "start_col dest + (end_col src - start_col src) \<le> scr_cols scr"
  shows "\<exists>scr'. move_row dest src row scr = Some scr' \<and> screen_ok scr' \<and> scr_calls scr' = scr_calls scr
    \<and> scr_pen scr' = scr_pen scr \<and> on_screen_at scr' = on_screen_at scr \<and> scr_rows scr' = scr_rows scr \<and> scr_cols scr' = scr_cols scr
    \<and> (\<forall>r c. on_screen_at scr r c \<longrightarrow> cell_at scr' r c = row_move dest src row scr r c)"
proof -
  let ?srow = "row + (start_row src - start_row dest)" and ?n = "end_col src - start_col src" and ?C = "scr_cols scr"
  let ?d = "nat (?C * row + start_col dest)" and ?s = "nat (?C * ?srow + start_col src)"
  have on: "on_screen_at scr row (start_col dest)" "on_screen_at scr ?srow (start_col src)"
    using rows cols by (simp_all add: on_screen_at_def)
  have pos: "0 \<le> ?C * row + start_col dest" "0 \<le> ?C * ?srow + start_col src"
    using rows cols by simp_all
  have "?C * row + (start_col dest + ?n - 1) < scr_rows scr * ?C" "?C * ?srow + (end_col src - 1) < scr_rows scr * ?C"
    using rows cols by (intro index_less; simp)+
  then have len: "int ?d + ?n \<le> int (length (scr_buffer scr))" "int ?s + ?n \<le> int (length (scr_buffer scr))"
    using pos by (simp_all add: buffer_length [OF ok])
  from memmove_cells_Some [OF _ len] cols obtain b where b: "memmove_cells ?d ?s ?n (scr_buffer scr) = Some b"
    "length b = length (scr_buffer scr)" "set b \<subseteq> set (scr_buffer scr)"
    "\<forall>i<length (scr_buffer scr). b ! i = (if ?d \<le> i \<and> int i < int ?d + ?n then scr_buffer scr ! (?s + (i - ?d)) else scr_buffer scr ! i)"
    by auto
  have "move_row dest src row scr = Some (set_buffer b scr)"
    using rows on b(1) by (simp add: move_row_def getcell_eq)
  moreover have "screen_ok (set_buffer b scr)"
    using ok buffer_shape [OF ok] b(2,3) by (intro set_buffer_ok) (auto simp: buffer_ok_def)
  moreover have "cell_at (set_buffer b scr) r c = row_move dest src row scr r c" if "on_screen_at scr r c" for r c
  proof -
    from that have c: "0 \<le> c" "c < ?C" "0 \<le> ?C * r + c" by (simp_all add: on_screen_at_def)
    let ?i = "nat (?C * r + c)"
    have i: "?i < length (scr_buffer scr)" by (rule cell_index [OF ok that])
    have hit: "?d \<le> ?i \<and> int ?i < int ?d + ?n \<longleftrightarrow> r = row \<and> start_col dest \<le> c \<and> c < start_col dest + ?n"
      using index_range [of "start_col dest" ?n ?C c row r] cols c pos by (simp add: nat_le_eq_zle)
    have "?s + (?i - ?d) = nat (?C * ?srow + (start_col src + (c - start_col dest)))" if "r = row" "start_col dest \<le> c"
      using that pos c by (simp add: nat_add_distrib [symmetric] nat_diff_distrib [symmetric] algebra_simps)
    with b(4) i hit show ?thesis by (auto simp: cell_at_def row_move_def)
  qed
  ultimately show ?thesis by auto
qed

text \<open>The rows are taken in an order in which no row is read after it was written.\<close>

fun sources_kept :: "int \<Rightarrow> int list \<Rightarrow> bool" where
  "sources_kept d [] = True"
| "sources_kept d (r # rs) = ((\<forall>r'\<in>set rs. r' \<noteq> r \<and> r' + d \<noteq> r) \<and> sources_kept d rs)"

lemma sources_kept_append:
  "sources_kept d (xs @ ys) \<longleftrightarrow> sources_kept d xs \<and> sources_kept d ys \<and> (\<forall>x\<in>set xs. \<forall>y\<in>set ys. y \<noteq> x \<and> y + d \<noteq> x)"
  by (induction xs) auto

lemma sources_kept_up: "0 \<le> d \<Longrightarrow> sources_kept d [a..b]"
proof (induction a b rule: upto.induct)
  case (1 i j)
  then show ?case by (subst upto.simps) (auto simp del: upto.simps)
qed

lemma sources_kept_rev: "d < 0 \<Longrightarrow> sources_kept d (rev [a..b])"
proof (induction a b rule: upto.induct)
  case (1 i j)
  then show ?case by (subst upto.simps) (auto simp del: upto.simps simp: sources_kept_append)
qed

lemma move_rows_cells:
  assumes "screen_ok scr" "sources_kept d rs" "d = start_row src - start_row dest"
    and "\<forall>r\<in>set rs. 0 \<le> r \<and> r < scr_rows scr \<and> 0 \<le> r + d \<and> r + d < scr_rows scr"
    and cols: "0 \<le> start_col dest" "0 \<le> start_col src" "start_col src < end_col src" "end_col src \<le> scr_cols scr"
    "start_col dest + (end_col src - start_col src) \<le> scr_cols scr"
  shows "\<exists>scr'. ofold (move_row dest src) rs scr = Some scr' \<and> screen_ok scr' \<and> scr_calls scr' = scr_calls scr
    \<and> scr_pen scr' = scr_pen scr \<and> on_screen_at scr' = on_screen_at scr \<and> scr_rows scr' = scr_rows scr \<and> scr_cols scr' = scr_cols scr
    \<and> (\<forall>r c. on_screen_at scr r c \<longrightarrow> cell_at scr' r c =
        (if r \<in> set rs \<and> start_col dest \<le> c \<and> c < start_col dest + (end_col src - start_col src)
         then cell_at scr (r + d) (start_col src + (c - start_col dest)) else cell_at scr r c))"
  using assms
proof (induction rs arbitrary: scr)
  case (Cons row rs)
  obtain s1 where 1: "move_row dest src row scr = Some s1" "screen_ok s1" "scr_calls s1 = scr_calls scr" "scr_pen s1 = scr_pen scr"
    "on_screen_at s1 = on_screen_at scr" "scr_rows s1 = scr_rows scr" "scr_cols s1 = scr_cols scr"
    "\<forall>r c. on_screen_at scr r c \<longrightarrow> cell_at s1 r c = row_move dest src row scr r c"
    using move_row_cells [OF Cons.prems(1), of row src dest] Cons.prems by auto
  obtain s2 where 2: "ofold (move_row dest src) rs s1 = Some s2" "screen_ok s2" "scr_calls s2 = scr_calls scr" "scr_pen s2 = scr_pen scr"
    "on_screen_at s2 = on_screen_at scr" "scr_rows s2 = scr_rows scr" "scr_cols s2 = scr_cols scr"
    and cells: "\<And>r c. on_screen_at scr r c \<Longrightarrow> cell_at s2 r c =
        (if r \<in> set rs \<and> start_col dest \<le> c \<and> c < start_col dest + (end_col src - start_col src)
         then cell_at s1 (r + d) (start_col src + (c - start_col dest)) else cell_at s1 r c)"
    using Cons.IH [of s1] Cons.prems 1 by auto
  have "cell_at s2 r c = (if r \<in> set (row # rs) \<and> start_col dest \<le> c \<and> c < start_col dest + (end_col src - start_col src)
         then cell_at scr (r + d) (start_col src + (c - start_col dest)) else cell_at scr r c)" if on: "on_screen_at scr r c" for r c
  proof (cases "r \<in> set rs \<and> start_col dest \<le> c \<and> c < start_col dest + (end_col src - start_col src)")
    case True
    then have "on_screen_at scr (r + d) (start_col src + (c - start_col dest))" "r + d \<noteq> row"
      using Cons.prems by (auto simp: on_screen_at_def)
    with True show ?thesis using 1(8) cells [OF on] by (simp add: row_move_def)
  next
    case False
    with Cons.prems(2,3) show ?thesis using 1(8) cells [OF on] on by (auto simp: row_move_def)
  qed
  with 1 2 show ?case by auto
qed simp

subsection \<open>Telling the program\<close>

definition ended :: "vterm_screen \<Rightarrow> bool" where
  "ended scr \<longleftrightarrow> (\<forall>row col. on_screen_at scr row col \<longrightarrow> 0 \<in> set (sc_chars (cell_at scr row col)))"

lemma arr_get_first: "cell_ok c \<Longrightarrow> arr_get (sc_chars c) 0 = Some (sc_chars c ! 0)"
  by (cases "sc_chars c") (auto simp: cell_ok_def VTERM_MAX_CHARS_PER_CELL_def)

lemma get_cell_eq:
  assumes "screen_ok scr" "on_screen_at scr row col"
  shows "vterm_screen_get_cell scr row col =
    (if 0 \<in> set (sc_chars (cell_at scr row col)) then
       Some (Some \<lparr>cell_chars = external_chars (sc_chars (cell_at scr row col)),
         cell_width = (if col < scr_cols scr - 1 \<and> sc_chars (cell_at scr row (col + 1)) ! 0 = - 1 then 2 else 1),
         cell_attrs = (pen_attrs (sc_pen (cell_at scr row col)))\<lparr>va_reverse :=
           (va_reverse (pen_attrs (sc_pen (cell_at scr row col))) XOR global_reverse scr) AND 1\<rparr>,
         cell_fg = pen_fg (sc_pen (cell_at scr row col)), cell_bg = pen_bg (sc_pen (cell_at scr row col))\<rparr>)
     else None)"
proof -
  have beside: "on_screen_at scr row (col + 1)" if "col < scr_cols scr - 1" using that assms(2) by (simp add: on_screen_at_def)
  have pos: "0 \<le> scr_cols scr * row + col" "0 \<le> scr_cols scr * row + (col + 1)"
    using assms(2) by (simp_all add: on_screen_at_def)
  show ?thesis
    using assms beside pos by (auto simp: vterm_screen_get_cell_def getcell_eq arr_get_cell_int arr_get_first cell_at_ok Let_def)
qed

lemma get_cell_outside: "\<not> on_screen_at scr row col \<Longrightarrow> vterm_screen_get_cell scr row col = Some None"
  by (simp add: vterm_screen_get_cell_def getcell_eq)

lemma prescroll_ended:
  assumes "screen_ok scr" "ended scr"
  shows "prescroll rect scr = Some (scr\<lparr>scr_calls := scr_calls scr @ [CbPrescroll rect (cell_for_program scr)]\<rparr>)"
proof -
  have "vterm_screen_get_cell scr row col \<noteq> None" for row col
    using get_cell_eq [OF assms(1), of row col] get_cell_outside [of scr row col] assms(2) by (auto simp: ended_def)
  then show ?thesis by (auto simp: prescroll_def)
qed

text \<open>The areas of the pre-scroll calls of a scroll.\<close>

definition scroll_out :: "vrect \<Rightarrow> int \<Rightarrow> int \<Rightarrow> vrect" where
  "scroll_out rect d r =
     (if d > 0 then rect\<lparr>end_row := start_row rect + d\<rparr>
      else if d < 0 then rect\<lparr>start_row := end_row rect + d\<rparr>
      else if r > 0 then rect\<lparr>end_col := start_col rect + r\<rparr>
      else rect\<lparr>start_col := end_col rect + r\<rparr>)"

definition rect_on_screen :: "vterm_screen \<Rightarrow> vrect \<Rightarrow> bool" where
  "rect_on_screen scr rect \<longleftrightarrow> 0 \<le> start_row rect \<and> start_row rect \<le> end_row rect \<and> end_row rect \<le> scr_rows scr
     \<and> 0 \<le> start_col rect \<and> start_col rect \<le> end_col rect \<and> end_col rect \<le> scr_cols scr"

lemma log_call_same [simp]:
  "screen_ok (scr\<lparr>scr_calls := k\<rparr>) = screen_ok scr" "cell_at (scr\<lparr>scr_calls := k\<rparr>) = cell_at scr"
  "on_screen_at (scr\<lparr>scr_calls := k\<rparr>) = on_screen_at scr" "scr_buffer (scr\<lparr>scr_calls := k\<rparr>) = scr_buffer scr"
  by (simp_all add: screen_ok_def scr_buffer_def cell_at_def on_screen_at_def fun_eq_iff)

definition scroll_log :: "vrect \<Rightarrow> int \<Rightarrow> int \<Rightarrow> vterm_screen \<Rightarrow> vterm_call list" where
  "scroll_log rect d r scr =
     (if \<bar>d\<bar> < end_row rect - start_row rect \<and> \<bar>r\<bar> < end_col rect - start_col rect \<and> (d \<noteq> 0 \<or> r \<noteq> 0)
      then [CbPrescroll (scroll_out rect d r) (cell_for_program scr)] else [])"

lemma scroll_prescroll:
  assumes "screen_ok scr" "ended scr" "d = 0 \<or> r = 0" "\<bar>d\<bar> < end_row rect - start_row rect" "\<bar>r\<bar> < end_col rect - start_col rect"
  shows "moverect_internal (scroll_dest rect d r) (scroll_src rect d r) scr =
    ofold (move_row (scroll_dest rect d r) (scroll_src rect d r))
      (if d < 0 then rev [start_row rect - d..end_row rect - 1] else [start_row rect..end_row rect - d - 1])
      (scr\<lparr>scr_calls := scr_calls scr @ scroll_log rect d r scr\<rparr>)"
proof -
  let ?D = "scroll_dest rect d r" and ?S = "scroll_src rect d r"
  have rows: "(if start_row ?S - start_row ?D < 0 then rev [start_row ?D..end_row ?D - 1] else [start_row ?D..end_row ?D - 1])
      = (if d < 0 then rev [start_row rect - d..end_row rect - 1] else [start_row rect..end_row rect - d - 1])"
    by (simp add: scroll_dest_def scroll_src_def)
  have ne: "start_row ?D \<le> end_row ?D" using assms(4) by (auto simp: scroll_dest_def)
  consider "d > 0" "r = 0" | "d < 0" "r = 0" | "d = 0" "r > 0" | "d = 0" "r < 0" | "d = 0" "r = 0" using assms(3) by linarith
  then show ?thesis
  proof cases
    case 1
    then have "?D\<lparr>end_row := start_row ?S\<rparr> = scroll_out rect d r" by (simp add: scroll_dest_def scroll_src_def scroll_out_def)
    moreover have "start_row ?D < start_row ?S" "start_col ?D = start_col ?S" using 1 by (simp_all add: scroll_dest_def scroll_src_def)
    ultimately show ?thesis using assms 1 ne unfolding moverect_internal_def rows [symmetric]
      by (simp add: prescroll_ended scroll_log_def Let_def)
  next
    case 2
    then have "?D\<lparr>start_row := end_row ?S\<rparr> = scroll_out rect d r" by (simp add: scroll_dest_def scroll_src_def scroll_out_def)
    moreover have "start_row ?D > start_row ?S" "start_col ?D = start_col ?S" using 2 by (simp_all add: scroll_dest_def scroll_src_def)
    ultimately show ?thesis using assms 2 ne unfolding moverect_internal_def rows [symmetric]
      by (simp add: prescroll_ended scroll_log_def Let_def)
  next
    case 3
    then have "?D\<lparr>end_col := start_col ?S\<rparr> = scroll_out rect d r" by (simp add: scroll_dest_def scroll_src_def scroll_out_def)
    moreover have "start_row ?D = start_row ?S" "start_col ?D < start_col ?S" using 3 by (simp_all add: scroll_dest_def scroll_src_def)
    ultimately show ?thesis using assms 3 ne unfolding moverect_internal_def rows [symmetric]
      by (simp add: prescroll_ended scroll_log_def Let_def)
  next
    case 4
    then have "?D\<lparr>start_col := end_col ?S\<rparr> = scroll_out rect d r" by (simp add: scroll_dest_def scroll_src_def scroll_out_def)
    moreover have "start_row ?D = start_row ?S" "start_col ?D > start_col ?S" using 4 by (simp_all add: scroll_dest_def scroll_src_def)
    ultimately show ?thesis using assms 4 ne unfolding moverect_internal_def rows [symmetric]
      by (simp add: prescroll_ended scroll_log_def Let_def)
  next
    case 5
    then have "start_row ?D = start_row ?S" "start_col ?D = start_col ?S" by (simp_all add: scroll_dest_def scroll_src_def)
    then show ?thesis using 5 ne unfolding moverect_internal_def rows [symmetric]
      by (simp add: scroll_log_def Let_def)
  qed
qed

text \<open>What a scroll inside the screen does, seen as a table.\<close>

lemma scrollrect_table:
  assumes ok: "screen_ok scr" "rect_on_screen scr rect" and e: "ended scr" and one: "d = 0 \<or> r = 0" "d \<noteq> 0 \<or> r \<noteq> 0"
  shows "\<exists>scr'. scrollrect rect d r scr = Some scr' \<and> screen_ok scr' \<and> scr_pen scr' = scr_pen scr
    \<and> on_screen_at scr' = on_screen_at scr \<and> scr_rows scr' = scr_rows scr \<and> scr_cols scr' = scr_cols scr
    \<and> scr_calls scr' = scr_calls scr @ scroll_log rect d r scr
    \<and> (\<forall>row col. on_screen_at scr row col \<longrightarrow> cell_at scr' row col =
        (if \<not> in_rect rect row col then cell_at scr row col
         else if in_rect rect (row + d) (col + r) then cell_at scr (row + d) (col + r)
         else blank (scr_pen scr) (cell_at scr row col)))"
    (is "\<exists>scr'. _ = _ \<and> ?Q scr'")
proof -
  have "\<exists>s1. vterm_scroll_rect rect d r moverect_internal erase_internal scr = Some s1 \<and> ?Q s1"
  proof (cases "\<bar>d\<bar> \<ge> end_row rect - start_row rect \<or> \<bar>r\<bar> \<ge> end_col rect - start_col rect")
    case True
    then have "\<not> in_rect rect (row + d) (col + r)" if "in_rect rect row col" for row col using that by (auto simp: in_rect_def)
    with True erase_internal_cells [OF ok(1), where rect = rect] show ?thesis by (auto simp: vterm_scroll_rect_def scroll_log_def)
  next
    case False
    then have lt: "\<bar>d\<bar> < end_row rect - start_row rect" "\<bar>r\<bar> < end_col rect - start_col rect" by simp_all
    let ?D = "scroll_dest rect d r" and ?S = "scroll_src rect d r"
    let ?rs = "if d < 0 then rev [start_row rect - d..end_row rect - 1] else [start_row rect..end_row rect - d - 1]"
    let ?s0 = "scr\<lparr>scr_calls := scr_calls scr @ scroll_log rect d r scr\<rparr>"
    have bounds: "0 \<le> start_row rect" "end_row rect \<le> scr_rows scr" "0 \<le> start_col rect" "end_col rect \<le> scr_cols scr"
      using ok(2) by (simp_all add: rect_on_screen_def)
    have D: "start_row ?S - start_row ?D = d" "start_col ?S - start_col ?D = r" "end_col ?S - start_col ?S = end_col rect - start_col rect - \<bar>r\<bar>"
      "start_col ?D = start_col rect + max 0 (- r)" "start_col ?S = start_col rect + max 0 r"
      by (auto simp: scroll_dest_def scroll_src_def)
    have "\<exists>s'. ofold (move_row ?D ?S) ?rs ?s0 = Some s' \<and> screen_ok s' \<and> scr_calls s' = scr_calls ?s0
      \<and> scr_pen s' = scr_pen ?s0 \<and> on_screen_at s' = on_screen_at ?s0 \<and> scr_rows s' = scr_rows ?s0 \<and> scr_cols s' = scr_cols ?s0
      \<and> (\<forall>r c. on_screen_at ?s0 r c \<longrightarrow> cell_at s' r c =
        (if r \<in> set ?rs \<and> start_col ?D \<le> c \<and> c < start_col ?D + (end_col ?S - start_col ?S)
         then cell_at ?s0 (r + d) (start_col ?S + (c - start_col ?D)) else cell_at ?s0 r c))"
    proof (rule move_rows_cells)
      show "sources_kept d ?rs" using sources_kept_up [of d] sources_kept_rev [of d] by simp
      show "\<forall>r\<in>set ?rs. 0 \<le> r \<and> r < scr_rows ?s0 \<and> 0 \<le> r + d \<and> r + d < scr_rows ?s0"
        using bounds lt by auto
    qed (use ok(1) bounds lt D in \<open>auto simp: scroll_dest_def scroll_src_def split: if_splits\<close>)
    then obtain s1 where 1: "ofold (move_row ?D ?S) ?rs ?s0 = Some s1" "screen_ok s1" "scr_calls s1 = scr_calls ?s0"
      "scr_pen s1 = scr_pen scr" "on_screen_at s1 = on_screen_at scr" "scr_rows s1 = scr_rows scr" "scr_cols s1 = scr_cols scr"
      and cells: "\<And>r c. on_screen_at scr r c \<Longrightarrow> cell_at s1 r c =
        (if r \<in> set ?rs \<and> start_col ?D \<le> c \<and> c < start_col ?D + (end_col ?S - start_col ?S)
         then cell_at scr (r + d) (start_col ?S + (c - start_col ?D)) else cell_at scr r c)"
      by auto
    let ?s2 = "erase_internal (scroll_freed rect d r) s1"
    have run: "vterm_scroll_rect rect d r moverect_internal erase_internal scr = Some ?s2"
      using scroll_prescroll [OF ok(1) e one(1) lt] 1(1) False by (simp add: vterm_scroll_rect_def)
    have "cell_at ?s2 row col = (if \<not> in_rect rect row col then cell_at scr row col
         else if in_rect rect (row + d) (col + r) then cell_at scr (row + d) (col + r)
         else blank (scr_pen scr) (cell_at scr row col))" if on: "on_screen_at scr row col" for row col
    proof -
      have freed: "in_rect (scroll_freed rect d r) row col \<longleftrightarrow> in_rect rect row col \<and> \<not> in_rect rect (row + d) (col + r)"
        using one lt by (auto simp: in_rect_def scroll_freed_def Let_def)
      have dest: "(row \<in> set ?rs \<and> start_col ?D \<le> col \<and> col < start_col ?D + (end_col ?S - start_col ?S))
          \<longleftrightarrow> in_rect rect row col \<and> in_rect rect (row + d) (col + r)"
        using one lt D(3,4) by (auto simp: in_rect_def)
      have src: "start_col ?S + (col - start_col ?D) = col + r" using D(2) by simp
      show ?thesis
        using cells [OF on, unfolded dest src] erase_internal_cells(7) [OF 1(2), where rect = "scroll_freed rect d r" and r = row and c = col] on freed 1(4,5)
        by (auto simp: in_rect_def)
    qed
    with run 1 erase_internal_cells(1-6) [OF 1(2), where rect = "scroll_freed rect d r"] show ?thesis by auto
  qed
  then obtain s1 where s1: "vterm_scroll_rect rect d r moverect_internal erase_internal scr = Some s1" "?Q s1" by blast
  from scrollrect_cells [of rect d r scr] s1(1)
  obtain s' where s': "scrollrect rect d r scr = Some s'" "undamaged s' = undamaged s1" by auto
  show ?thesis using s1(2) s'(1) undamaged_same [OF s'(2)] by auto
qed

subsection \<open>Putting a glyph\<close>

definition gap :: "scell \<Rightarrow> scell" where
  "gap c = c\<lparr>sc_chars := (sc_chars c)[0 := - 1]\<rparr>"

lemma gap_simps [simp]: "cell_ok (gap c) = cell_ok c" "gap (gap c) = gap c"
  by (simp_all add: gap_def cell_ok_def)

lemma arr_set_first: "cell_ok c \<Longrightarrow> arr_set (sc_chars c) 0 v = Some ((sc_chars c)[0 := v])"
  by (simp add: cell_ok_def arr_set_def VTERM_MAX_CHARS_PER_CELL_def)

lemma arr_set_cell: "screen_ok scr \<Longrightarrow> on_screen_at scr row col \<Longrightarrow>
    map_option (\<lambda>b. set_buffer b scr) (arr_set (scr_buffer scr) (int (nat (scr_cols scr * row + col))) c) = Some (put_cell row col c scr)"
  using cell_index [of scr row col] by (subst arr_set_nat) (simp_all add: put_cell_def)

lemma set_gap_eq:
  assumes "screen_ok scr"
  shows "set_gap row col scr = Some (if on_screen_at scr row col then put_cell row col (gap (cell_at scr row col)) scr else scr)"
proof (cases "on_screen_at scr row col")
  case True
  have "set_gap row col scr = arr_get (scr_buffer scr) (int (nat (scr_cols scr * row + col))) \<bind> (\<lambda>c.
      arr_set (sc_chars c) 0 (- 1) \<bind> (\<lambda>chars.
      map_option (\<lambda>b. set_buffer b scr) (arr_set (scr_buffer scr) (int (nat (scr_cols scr * row + col))) (c\<lparr>sc_chars := chars\<rparr>))))"
    using True by (simp add: set_gap_def getcell_eq map_conv_bind_option comp_def)
  with True assms show ?thesis
    by (simp only: arr_get_cell arr_set_cell arr_set_first cell_at_ok Option.bind.bind_lunit if_True gap_def)
qed (simp add: set_gap_def getcell_eq)

lemma set_gap_cells:
  assumes "screen_ok scr"
  shows "\<exists>s1. set_gap row col scr = Some s1 \<and> screen_ok s1 \<and> scr_calls s1 = scr_calls scr \<and> scr_pen s1 = scr_pen scr
    \<and> on_screen_at s1 = on_screen_at scr \<and> scr_rows s1 = scr_rows scr \<and> scr_cols s1 = scr_cols scr \<and> global_reverse s1 = global_reverse scr
    \<and> (\<forall>r c. on_screen_at scr r c \<longrightarrow> cell_at s1 r c = (if r = row \<and> c = col then gap (cell_at scr r c) else cell_at scr r c))"
  using assms by (cases "on_screen_at scr row col") (auto simp: set_gap_eq put_cell_ok cell_at_ok cell_at_put)

lemma set_gaps:
  "screen_ok scr \<Longrightarrow> \<exists>scr'. ofold (\<lambda>k. set_gap row (col + k)) ks scr = Some scr' \<and> screen_ok scr' \<and> scr_calls scr' = scr_calls scr
     \<and> scr_pen scr' = scr_pen scr \<and> on_screen_at scr' = on_screen_at scr \<and> scr_rows scr' = scr_rows scr \<and> scr_cols scr' = scr_cols scr
     \<and> global_reverse scr' = global_reverse scr
     \<and> (\<forall>r c. on_screen_at scr r c \<longrightarrow> cell_at scr' r c = (if r = row \<and> c - col \<in> set ks then gap (cell_at scr r c) else cell_at scr r c))"
proof (induction ks arbitrary: scr)
  case (Cons k ks)
  obtain s1 where 1: "set_gap row (col + k) scr = Some s1" "screen_ok s1" "scr_calls s1 = scr_calls scr" "scr_pen s1 = scr_pen scr"
    "on_screen_at s1 = on_screen_at scr" "scr_rows s1 = scr_rows scr" "scr_cols s1 = scr_cols scr" "global_reverse s1 = global_reverse scr"
    and cell: "\<And>r c. on_screen_at scr r c \<Longrightarrow> cell_at s1 r c = (if r = row \<and> c = col + k then gap (cell_at scr r c) else cell_at scr r c)"
    using set_gap_cells [OF Cons.prems] by blast
  from Cons.IH [OF 1(2)] obtain s2 where "ofold (\<lambda>k. set_gap row (col + k)) ks s1 = Some s2" "screen_ok s2" "scr_calls s2 = scr_calls scr"
    "scr_pen s2 = scr_pen scr" "on_screen_at s2 = on_screen_at scr" "scr_rows s2 = scr_rows scr" "scr_cols s2 = scr_cols scr"
    "global_reverse s2 = global_reverse scr"
    "\<forall>r c. on_screen_at scr r c \<longrightarrow> cell_at s2 r c = (if r = row \<and> c - col \<in> set ks then gap (cell_at s1 r c) else cell_at s1 r c)"
    by (auto simp: 1)
  then show ?case using cell 1(1) by (auto simp: algebra_simps)
qed simp

lemma copy_chars_length: "copy_chars n chars = Some new \<Longrightarrow> length new \<le> n \<and> 0 \<notin> set new"
  by (induction n chars arbitrary: new rule: copy_chars.induct) (auto split: if_splits)

lemma copy_chars_text: "0 \<notin> set cs \<Longrightarrow> copy_chars n (cs @ 0 # rest) = Some (take n cs)"
proof (induction cs arbitrary: n)
  case Nil
  then show ?case by (cases n) simp_all
next
  case (Cons c cs)
  then show ?case by (cases n) simp_all
qed

lemma copy_chars_defined: "0 \<in> set chars \<Longrightarrow> \<exists>new. copy_chars n chars = Some new"
  by (induction n chars rule: copy_chars.induct) auto

lemma put_chars_ok: "cell_ok c \<Longrightarrow> length new \<le> VTERM_MAX_CHARS_PER_CELL \<Longrightarrow> cell_ok (put_chars p new c)"
  by (auto simp: cell_ok_def put_chars_def Let_def)

lemma putglyph_table:
  assumes ok: "screen_ok scr" and new: "copy_chars VTERM_MAX_CHARS_PER_CELL chars = Some new"
    and on: "on_screen_at scr (pos_row pos) (pos_col pos)"
  shows "\<exists>scr'. putglyph chars width pos scr = Some scr' \<and> screen_ok scr' \<and> scr_calls scr' = scr_calls scr
     \<and> scr_pen scr' = scr_pen scr \<and> on_screen_at scr' = on_screen_at scr \<and> scr_rows scr' = scr_rows scr \<and> scr_cols scr' = scr_cols scr
     \<and> global_reverse scr' = global_reverse scr
     \<and> (\<forall>r c. on_screen_at scr r c \<longrightarrow> cell_at scr' r c =
          (if r = pos_row pos \<and> c = pos_col pos then put_chars (scr_pen scr) new (cell_at scr r c)
           else if r = pos_row pos \<and> pos_col pos < c \<and> c < pos_col pos + width then gap (cell_at scr r c) else cell_at scr r c))"
proof -
  let ?x = "put_chars (scr_pen scr) new (cell_at scr (pos_row pos) (pos_col pos))"
  let ?s = "put_cell (pos_row pos) (pos_col pos) ?x scr"
  have x: "cell_ok ?x" using ok on new copy_chars_length by (simp add: put_chars_ok cell_at_ok)
  from set_gaps [where row = "pos_row pos" and col = "pos_col pos" and ks = "[1..width - 1]", OF put_cell_ok [where r = "pos_row pos" and c = "pos_col pos", OF ok x]]
  obtain s1 where 1: "ofold (\<lambda>k. set_gap (pos_row pos) (pos_col pos + k)) [1..width - 1] ?s = Some s1" "screen_ok s1"
    "scr_calls s1 = scr_calls scr" "scr_pen s1 = scr_pen scr" "on_screen_at s1 = on_screen_at scr" "scr_rows s1 = scr_rows scr"
    "scr_cols s1 = scr_cols scr" "global_reverse s1 = global_reverse scr"
    and cells: "\<forall>r c. on_screen_at scr r c \<longrightarrow> cell_at s1 r c =
      (if r = pos_row pos \<and> c - pos_col pos \<in> set [1..width - 1] then gap (cell_at ?s r c) else cell_at ?s r c)"
    by auto
  let ?d = "damagerect \<lparr>start_row = pos_row pos, end_row = pos_row pos + 1, start_col = pos_col pos, end_col = pos_col pos + width\<rparr> s1"
  have "putglyph chars width pos scr = arr_get (scr_buffer scr) (int (nat (scr_cols scr * pos_row pos + pos_col pos))) \<bind> (\<lambda>cell.
      map_option (\<lambda>b. set_buffer b scr) (arr_set (scr_buffer scr) (int (nat (scr_cols scr * pos_row pos + pos_col pos))) (put_chars (scr_pen scr) new cell))
      \<bind> (\<lambda>s. ofold (\<lambda>k. set_gap (pos_row pos) (pos_col pos + k)) [1..width - 1] s
      \<bind> (\<lambda>s1. Some (damagerect \<lparr>start_row = pos_row pos, end_row = pos_row pos + 1, start_col = pos_col pos, end_col = pos_col pos + width\<rparr> s1))))"
    using on new by (simp add: putglyph_def getcell_eq map_conv_bind_option comp_def)
  then have "putglyph chars width pos scr = Some ?d"
    by (simp only: arr_get_cell [OF ok on] arr_set_cell [OF ok on] Option.bind.bind_lunit 1(1))
  moreover have "undamaged ?d = undamaged s1" by simp
  note undamaged_same [OF this] undamaged_fields [OF this]
  moreover have "cell_at s1 r c = (if r = pos_row pos \<and> c = pos_col pos then put_chars (scr_pen scr) new (cell_at scr r c)
           else if r = pos_row pos \<and> pos_col pos < c \<and> c < pos_col pos + width then gap (cell_at scr r c) else cell_at scr r c)"
    if "on_screen_at scr r c" for r c
    using that cells cell_at_put [OF ok on that, of ?x] by auto
  ultimately show ?thesis using 1 by auto
qed

subsection \<open>Every operation keeps the shape\<close>

lemma undamaged_keeps:
  assumes "undamaged s' = undamaged s" "screen_ok s"
  shows "screen_ok s'"
  using assms(2) undamaged_same(1) [OF assms(1)] by blast

lemma memmove_cells_keeps:
  assumes "memmove_cells d s n b = Some b'"
  shows "length b' = length b \<and> set b' \<subseteq> set b"
proof -
  from assms have "0 \<le> n" "int d + n \<le> int (length b)" "int s + n \<le> int (length b)"
    by (simp_all add: memmove_cells_def split: if_splits)
  from memmove_cells_Some [OF this] assms show ?thesis by auto
qed

lemma move_row_keeps:
  assumes "move_row dest src row scr = Some scr'" "screen_ok scr"
  shows "screen_ok scr'"
proof (cases "row < 0")
  case False
  with assms(1) obtain d s n b where b: "memmove_cells d s n (scr_buffer scr) = Some b" "scr' = set_buffer b scr"
    by (auto simp: move_row_def split: bind_splits)
  from memmove_cells_keeps [OF b(1)] buffer_shape [OF assms(2)] have "buffer_ok (scr_rows scr) (scr_cols scr) b"
    by (auto simp: buffer_ok_def)
  then show ?thesis unfolding b(2) by (rule set_buffer_ok [OF assms(2)])
qed (use assms in \<open>simp add: move_row_def\<close>)

lemma prescroll_keeps: "prescroll rect scr = Some scr' \<Longrightarrow> \<exists>k. scr' = scr\<lparr>scr_calls := k\<rparr>"
  by (auto simp: prescroll_def)

lemma moverect_internal_keeps:
  assumes "moverect_internal dest src scr = Some scr'" "screen_ok scr"
  shows "screen_ok scr'"
proof -
  let ?rs = "if start_row src - start_row dest < 0 then rev [start_row dest..end_row dest - 1] else [start_row dest..end_row dest - 1]"
  from assms(1) obtain s1 s2 where
    1: "(if start_row dest < start_row src then prescroll (dest\<lparr>end_row := start_row src\<rparr>) scr
         else if start_row dest > start_row src then prescroll (dest\<lparr>start_row := end_row src\<rparr>) scr else Some scr) = Some s1"
    and 2: "(if start_col dest < start_col src then prescroll (dest\<lparr>end_col := start_col src\<rparr>) s1
         else if start_col dest > start_col src then prescroll (dest\<lparr>start_col := end_col src\<rparr>) s1 else Some s1) = Some s2"
    and 3: "ofold (move_row dest src) ?rs s2 = Some scr'"
    unfolding moverect_internal_def Let_def by (auto simp del: if_split split: bind_splits)
  from 1 assms(2) have "screen_ok s1" by (auto dest!: prescroll_keeps split: if_splits)
  with 2 have "screen_ok s2" by (auto dest!: prescroll_keeps split: if_splits)
  note this 3
  then show ?thesis by (rule_tac ofold_inv [where P = screen_ok, rotated]) (auto dest: move_row_keeps)
qed

lemma scrollrect_keeps [keeps]:
  assumes "scrollrect rect d r scr = Some scr'" "screen_ok scr"
  shows "screen_ok scr'"
proof -
  from scrollrect_cells [of rect d r scr] assms(1) obtain s1 where
    1: "vterm_scroll_rect rect d r moverect_internal erase_internal scr = Some s1" "undamaged scr' = undamaged s1"
    by (auto split: option.splits)
  from 1(1) assms(2) have "screen_ok s1"
    by (auto simp: vterm_scroll_rect_def dest: moverect_internal_keeps intro: erase_internal_cells(1) split: if_splits bind_splits)
  with 1(2) show ?thesis by (rule undamaged_keeps)
qed

lemma erase_keeps [keeps]: "screen_ok scr \<Longrightarrow> screen_ok (erase rect scr)"
  unfolding erase_def by (rule undamaged_keeps [OF undamaged_damage(3) erase_internal_cells(1)])

lemma putglyph_keeps [keeps]:
  assumes "putglyph chars width pos scr = Some scr'" "screen_ok scr"
  shows "screen_ok scr'"
proof (cases "on_screen_at scr (pos_row pos) (pos_col pos)")
  case True
  with assms obtain new where "copy_chars VTERM_MAX_CHARS_PER_CELL chars = Some new"
    by (auto simp: putglyph_def getcell_eq split: bind_splits)
  from putglyph_table [OF assms(2) this True, of width] assms(1) show ?thesis by auto
qed (use assms in \<open>simp add: putglyph_def getcell_eq\<close>)

lemma setpenattr_keeps [keeps]: "screen_ok scr \<Longrightarrow> screen_ok (setpenattr a scr)"
  by (auto simp: setpenattr_def screen_ok_def)

lemma settermprop_keeps [keeps]: "screen_ok scr \<Longrightarrow> screen_ok (snd (settermprop p scr))"
proof -
  assume ok: "screen_ok scr"
  have "screen_ok (scr\<lparr>scr_on_alt := v\<rparr>)" if "v \<longrightarrow> scr_altscreen scr \<noteq> None" for v using ok that by (auto simp: screen_ok_def)
  moreover have "screen_ok (scr\<lparr>global_reverse := v\<rparr>)" for v using ok by (auto simp: screen_ok_def)
  ultimately show ?thesis using ok
    by (cases p) (auto simp: Let_def intro: undamaged_keeps [OF undamaged_damage(2)])
qed

lemma bell_keeps [keeps]: "screen_ok scr \<Longrightarrow> screen_ok (bell scr)"
  by (simp add: bell_def)

lemma length_table: "length [f r c. r \<leftarrow> rs, c \<leftarrow> cs] = length rs * length cs"
  by (induction rs) simp_all

lemma new_cell_ok: "cell_ok (new_cell p)"
  by (simp add: cell_ok_def new_cell_def)

lemma realloc_buffer_ok:
  assumes "\<forall>b. buffer = Some b \<longrightarrow> buffer_ok (scr_rows scr) (scr_cols scr) b"
  shows "buffer_ok rows cols (realloc_buffer scr buffer rows cols)"
proof -
  have "cell_ok (b ! nat (row * scr_cols scr + col))"
    if "buffer = Some b" "0 \<le> row" "row < scr_rows scr" "0 \<le> col" "col < scr_cols scr" for b row col
  proof -
    have "row * scr_cols scr + col < scr_rows scr * scr_cols scr" using index_less [of row "scr_rows scr" col "scr_cols scr"] that
      by (simp add: mult.commute)
    moreover have "buffer_ok (scr_rows scr) (scr_cols scr) b" using assms that(1) by simp
    ultimately show ?thesis using that by (simp add: buffer_ok_def nat_less_iff nat_mult_distrib [symmetric])
  qed
  then show ?thesis
    by (auto simp: buffer_ok_def realloc_buffer_def length_table new_cell_ok split: option.splits)
qed

lemma resize_keeps [keeps]:
  assumes "screen_ok scr" "0 \<le> rows" "0 \<le> cols"
  shows "screen_ok (resize rows cols scr)"
proof -
  have "screen_ok (screen_resize_buffers rows cols scr)"
    using assms by (auto simp: screen_ok_def screen_resize_buffers_def intro!: realloc_buffer_ok)
  then have "screen_ok (damagerect r2 (damagerect r1 (screen_resize_buffers rows cols scr)))"
    "screen_ok (damagerect r1 (screen_resize_buffers rows cols scr))" for r1 r2
    by (auto intro: undamaged_keeps)
  with \<open>screen_ok (screen_resize_buffers rows cols scr)\<close> show ?thesis by (simp add: resize_def Let_def)
qed

lemma screen_new_ok [keeps]: "0 \<le> rows \<Longrightarrow> 0 \<le> cols \<Longrightarrow> screen_ok (screen_new rows cols)"
  by (simp add: screen_new_def Let_def screen_ok_def realloc_buffer_ok)

lemma altscreen_keeps [keeps]: "screen_ok scr \<Longrightarrow> screen_ok (vterm_screen_enable_altscreen (scr_rows scr) (scr_cols scr) alt scr)"
  by (auto simp: vterm_screen_enable_altscreen_def screen_ok_def intro!: realloc_buffer_ok)

lemma flush_keeps [keeps]: "vterm_screen_flush_damage scr = Some scr' \<Longrightarrow> screen_ok scr \<Longrightarrow> screen_ok scr'"
  using flush_total [of scr] by (auto intro: undamaged_keeps)

lemma merge_keeps [keeps]: "vterm_screen_set_damage_merge m scr = Some scr' \<Longrightarrow> screen_ok scr \<Longrightarrow> screen_ok scr'"
  by (auto simp: vterm_screen_set_damage_merge_def dest: flush_keeps intro: undamaged_keeps [OF undamaged_damage(4)] split: bind_splits)

subsection \<open>All screens\<close>

text \<open>Whatever the emulator's state and the program call, in any order.\<close>

inductive screen_step :: "vterm_screen \<Rightarrow> vterm_screen \<Rightarrow> bool" where
  Glyph: "putglyph chars width pos scr = Some scr' \<Longrightarrow> screen_step scr scr'"
| Scroll: "scrollrect rect d r scr = Some scr' \<Longrightarrow> screen_step scr scr'"
| Erase: "screen_step scr (erase rect scr)"
| Pen: "screen_step scr (setpenattr a scr)"
| Prop: "screen_step scr (snd (settermprop p scr))"
| Bell: "screen_step scr (bell scr)"
| Resize: "0 \<le> rows \<Longrightarrow> 0 \<le> cols \<Longrightarrow> screen_step scr (resize rows cols scr)"
| Altscreen: "screen_step scr (vterm_screen_enable_altscreen (scr_rows scr) (scr_cols scr) alt scr)"
| Flush: "vterm_screen_flush_damage scr = Some scr' \<Longrightarrow> screen_step scr scr'"
| Merge: "vterm_screen_set_damage_merge m scr = Some scr' \<Longrightarrow> screen_step scr scr'"

inductive screen_reached :: "vterm_screen \<Rightarrow> bool" where
  New: "0 \<le> rows \<Longrightarrow> 0 \<le> cols \<Longrightarrow> screen_reached (screen_new rows cols)"
| Next: "screen_reached scr \<Longrightarrow> screen_step scr scr' \<Longrightarrow> screen_reached scr'"

lemma screen_step_ok: "screen_step scr scr' \<Longrightarrow> screen_ok scr \<Longrightarrow> screen_ok scr'"
  by (induction rule: screen_step.induct) (blast intro: keeps)+

lemma screen_reached_ok: "screen_reached scr \<Longrightarrow> screen_ok scr"
  by (induction rule: screen_reached.induct) (blast intro: keeps screen_step_ok)+

text \<open>
  C7: The memory of the screen always fits its size: however glyphs, scrolls, erasures, attributes, the other
  screen and changes of size follow each other, the cell that \<open>getcell\<close> finds lies inside the buffer in use
  and has room for six characters.
\<close>

theorem screen_cells_inside:
  assumes "screen_reached scr" "getcell scr row col = Some i"
  shows "i < length (scr_buffer scr) \<and> length (sc_chars (scr_buffer scr ! i)) = 6"
proof -
  note ok = screen_reached_ok [OF assms(1)]
  from assms(2) have on: "on_screen_at scr row col" and i: "i = nat (scr_cols scr * row + col)"
    by (simp_all add: getcell_eq split: if_splits)
  from cell_at_ok [OF ok on] have "length (sc_chars (scr_buffer scr ! i)) = 6"
    unfolding cell_ok_def cell_at_def i VTERM_MAX_CHARS_PER_CELL_def .
  with cell_index [OF ok on] i show ?thesis by simp
qed

theorem screen_cells_inside_witness:
  "5 < length (scr_buffer (resize 2 3 (bell (screen_new 1 1)))) \<and> length (sc_chars (scr_buffer (resize 2 3 (bell (screen_new 1 1))) ! 5)) = 6"
proof (rule screen_cells_inside)
  show "screen_reached (resize 2 3 (bell (screen_new 1 1)))" by (rule Next [OF Next [OF New Bell] Resize]) simp_all
  show "getcell (resize 2 3 (bell (screen_new 1 1))) 1 2 = Some 5"
    by (simp add: getcell_def resize_def screen_resize_buffers_def damagerect_def bell_def screen_new_def Let_def)
qed

text \<open>
  C10: Scrolling an area of the screen moves its cells by the given rows or columns, blanks what becomes free
  with the pen's colours, leaves every other cell as it was and keeps the size.
\<close>

theorem scroll_moves:
  assumes "screen_ok scr" "rect_on_screen scr rect" "ended scr" "d = 0 \<or> r = 0" "d \<noteq> 0 \<or> r \<noteq> 0"
  shows "case scrollrect rect d r scr of
      None \<Rightarrow> False
    | Some scr' \<Rightarrow> scr_rows scr' = scr_rows scr \<and> scr_cols scr' = scr_cols scr \<and>
       (\<forall>row col. on_screen_at scr row col \<longrightarrow> cell_at scr' row col =
         (if \<not> in_rect rect row col then cell_at scr row col
          else if in_rect rect (row + d) (col + r) then cell_at scr (row + d) (col + r)
          else blank (scr_pen scr) (cell_at scr row col)))"
proof -
  from scrollrect_table [OF assms] obtain scr' where "scrollrect rect d r scr = Some scr'" "scr_rows scr' = scr_rows scr"
    "scr_cols scr' = scr_cols scr" "\<forall>row col. on_screen_at scr row col \<longrightarrow> cell_at scr' row col =
         (if \<not> in_rect rect row col then cell_at scr row col
          else if in_rect rect (row + d) (col + r) then cell_at scr (row + d) (col + r)
          else blank (scr_pen scr) (cell_at scr row col))" by blast
  then show ?thesis by (simp only: option.case simp_thms)
qed

lemma screen_new_buffer: "x \<in> set (scr_buffer (screen_new rows cols)) \<Longrightarrow> x = new_cell zero_pen"
  by (auto simp: scr_buffer_def screen_new_def realloc_buffer_def Let_def split: if_splits)

lemma screen_new_cell:
  assumes on: "on_screen_at (screen_new rows cols) r c"
  shows "cell_at (screen_new rows cols) r c = new_cell zero_pen"
proof -
  from on have "0 \<le> rows" "0 \<le> cols" by (auto simp: on_screen_at_def screen_new_def Let_def)
  from cell_index [OF screen_new_ok [OF this] on] show ?thesis
    unfolding cell_at_def by (rule screen_new_buffer [OF nth_mem])
qed

lemma screen_new_ended: "ended (screen_new rows cols)"
  by (auto simp: ended_def screen_new_cell new_cell_def VTERM_MAX_CHARS_PER_CELL_def)

lemma screen_new_fields [simp]:
  "scr_rows (screen_new rows cols) = rows" "scr_cols (screen_new rows cols) = cols" "scr_pen (screen_new rows cols) = zero_pen"
  "scr_calls (screen_new rows cols) = []" "global_reverse (screen_new rows cols) = 0"
  by (simp_all add: screen_new_def Let_def)

theorem scroll_moves_witness:
  "case scrollrect \<lparr>start_row = 0, end_row = 2, start_col = 0, end_col = 3\<rparr> 1 0 (screen_new 2 3) of
      None \<Rightarrow> False
    | Some scr' \<Rightarrow> scr_rows scr' = scr_rows (screen_new 2 3) \<and> scr_cols scr' = scr_cols (screen_new 2 3) \<and>
       (\<forall>row col. on_screen_at (screen_new 2 3) row col \<longrightarrow> cell_at scr' row col =
         (if \<not> in_rect \<lparr>start_row = 0, end_row = 2, start_col = 0, end_col = 3\<rparr> row col then cell_at (screen_new 2 3) row col
          else if in_rect \<lparr>start_row = 0, end_row = 2, start_col = 0, end_col = 3\<rparr> (row + 1) (col + 0)
            then cell_at (screen_new 2 3) (row + 1) (col + 0)
          else blank (scr_pen (screen_new 2 3)) (cell_at (screen_new 2 3) row col)))"
  by (rule scroll_moves) (simp_all add: screen_new_ok screen_new_ended rect_on_screen_def)

subsection \<open>Areas below the screen\<close>

lemma move_row_rows: "move_row dest src row scr = Some scr' \<Longrightarrow> scr_rows scr' = scr_rows scr"
  by (auto simp: move_row_def split: bind_splits if_splits)

lemma move_rows_rows: "ofold (move_row dest src) rs scr = Some scr' \<Longrightarrow> scr_rows scr' = scr_rows scr"
  by (rule ofold_inv [where P = "\<lambda>s. scr_rows s = scr_rows scr"]) (auto dest: move_row_rows)

text \<open>
  C11: A scrolling region that reaches below the screen (the emulator takes its bounds from the host
  unchecked) cannot be scrolled: the last row of the region has no cells and a null pointer is copied from.
\<close>

theorem scroll_below_screen:
  assumes "0 \<le> start_row rect" "scr_rows scr < end_row rect" "start_col rect < end_col rect"
    "0 < d" "d < end_row rect - start_row rect"
  shows "scrollrect rect d 0 scr = None"
proof -
  let ?D = "scroll_dest rect d 0" and ?S = "scroll_src rect d 0"
  have rows: "start_row ?D = start_row rect" "end_row ?D = end_row rect - d" "start_row ?S = start_row rect + d"
    using assms(4) by (simp_all add: scroll_dest_def scroll_src_def)
  have "move_row ?D ?S (end_row rect - d - 1) s = None" if "scr_rows s = scr_rows scr" for s
    using that assms by (auto simp: move_row_def rows getcell_eq on_screen_at_def split: bind_split)
  then have "ofold (move_row ?D ?S) ([start_row rect..end_row rect - d - 1 - 1] @ [end_row rect - d - 1]) s = None"
    if "scr_rows s = scr_rows scr" for s
    using that by (auto simp: ofold_append dest: move_rows_rows split: bind_split)
  then have last: "ofold (move_row ?D ?S) [start_row rect..end_row rect - d - 1] s = None" if "scr_rows s = scr_rows scr" for s
    using that assms(5) by (subst upto_rec2) auto
  have "moverect_internal ?D ?S scr = None"
    using assms(4) rows last
    by (auto simp: moverect_internal_def Let_def guard_def dest!: prescroll_keeps split: bind_split if_split)
  then have "vterm_scroll_rect rect d 0 moverect_internal erase_internal scr = None"
    using assms by (simp add: vterm_scroll_rect_def)
  with scrollrect_cells [of rect d 0 scr] show ?thesis by simp
qed

theorem scroll_below_screen_witness:
  "scrollrect \<lparr>start_row = 0, end_row = 3, start_col = 0, end_col = 2\<rparr> 1 0 (screen_new 2 2) = None"
  by (rule scroll_below_screen) simp_all

subsection \<open>Reading a glyph back\<close>

text \<open>
  C12: A glyph of one to five characters put on the screen is read back by the program: its characters, in
  the pen's colours, as a wide one when the next cell is its own or an older gap.
\<close>

theorem glyph_read_back:
  assumes "screen_ok scr" "on_screen_at scr row col" "0 \<notin> set cs" "cs \<noteq> []" "length cs < 6"
  shows "case putglyph (cs @ 0 # rest) width \<lparr>pos_row = row, pos_col = col\<rparr> scr of
      None \<Rightarrow> False
    | Some scr' \<Rightarrow> (case vterm_screen_get_cell scr' row col of
        Some (Some c) \<Rightarrow> takeWhile (\<lambda>x. x \<noteq> 0) (cell_chars c) = cs
          \<and> cell_fg c = pen_fg (scr_pen scr) \<and> cell_bg c = pen_bg (scr_pen scr)
          \<and> cell_width c = (if col + 1 < scr_cols scr \<and> (1 < width \<or> sc_chars (cell_at scr row (col + 1)) ! 0 = - 1) then 2 else 1)
      | _ \<Rightarrow> False)"
proof -
  let ?new = "put_chars (scr_pen scr) cs (cell_at scr row col)"
  have "copy_chars VTERM_MAX_CHARS_PER_CELL (cs @ 0 # rest) = Some cs"
    using assms(3,5) by (simp add: copy_chars_text VTERM_MAX_CHARS_PER_CELL_def)
  from putglyph_table [OF assms(1) this, of "\<lparr>pos_row = row, pos_col = col\<rparr>" width] assms(2) obtain s' where
    put: "putglyph (cs @ 0 # rest) width \<lparr>pos_row = row, pos_col = col\<rparr> scr = Some s'" and s': "screen_ok s'"
    "on_screen_at s' = on_screen_at scr" "scr_cols s' = scr_cols scr"
    and cells: "\<And>r c. on_screen_at scr r c \<Longrightarrow> cell_at s' r c =
          (if r = row \<and> c = col then put_chars (scr_pen scr) cs (cell_at scr r c)
           else if r = row \<and> col < c \<and> c < col + width then gap (cell_at scr r c) else cell_at scr r c)"
    by auto
  have new: "sc_chars ?new = cs @ 0 # drop (length cs + 1) (sc_chars (cell_at scr row col))" "sc_pen ?new = scr_pen scr"
    using assms(4,5) by (simp_all add: put_chars_def VTERM_MAX_CHARS_PER_CELL_def Let_def)
  have take: "takeWhile (\<lambda>x. x \<noteq> 0) (cs @ 0 # ys) = cs" for ys :: "u32 list"
    using assms(3) by (induction cs) auto
  have beside: "sc_chars (cell_at s' row (col + 1)) ! 0 = - 1 \<longleftrightarrow> 1 < width \<or> sc_chars (cell_at scr row (col + 1)) ! 0 = - 1"
    if "col + 1 < scr_cols scr"
  proof -
    have on: "on_screen_at scr row (col + 1)" using assms(2) that by (simp add: on_screen_at_def)
    have "sc_chars (gap (cell_at scr row (col + 1))) ! 0 = - 1"
      using cell_at_ok [OF assms(1) on] by (cases "sc_chars (cell_at scr row (col + 1))")
        (simp_all add: gap_def cell_ok_def VTERM_MAX_CHARS_PER_CELL_def)
    with cells [OF on] show ?thesis by simp
  qed
  show ?thesis
    using get_cell_eq [OF s'(1), of row col] assms(2) s'(2,3) cells [OF assms(2)] beside
    by (cases "col + 1 < scr_cols scr") (simp_all add: put new external_chars_def take Let_def)
qed

theorem glyph_read_back_witness:
  "case putglyph ([0x65, 0x301] @ 0 # []) 1 \<lparr>pos_row = 0, pos_col = 1\<rparr> (screen_new 1 2) of
      None \<Rightarrow> False
    | Some scr' \<Rightarrow> (case vterm_screen_get_cell scr' 0 1 of
        Some (Some c) \<Rightarrow> takeWhile (\<lambda>x. x \<noteq> 0) (cell_chars c) = [0x65, 0x301]
          \<and> cell_fg c = pen_fg (scr_pen (screen_new 1 2)) \<and> cell_bg c = pen_bg (scr_pen (screen_new 1 2))
          \<and> cell_width c = (if 1 + 1 < scr_cols (screen_new 1 2) \<and> (1 < (1 :: int) \<or> sc_chars (cell_at (screen_new 1 2) 0 (1 + 1)) ! 0 = - 1) then 2 else 1)
      | _ \<Rightarrow> False)"
  by (rule glyph_read_back) (simp_all add: screen_new_ok on_screen_at_def)

text \<open>
  C13: A glyph of six or more characters (a letter with five combining marks) fills its cell without an end
  mark, and the program's next look at the cell reads behind the cell and writes behind its own copy.
\<close>

theorem full_cell_overread:
  assumes "screen_ok scr" "on_screen_at scr row col" "0 \<notin> set cs" "6 \<le> length cs"
  shows "case putglyph (cs @ 0 # rest) width \<lparr>pos_row = row, pos_col = col\<rparr> scr of
      None \<Rightarrow> False
    | Some scr' \<Rightarrow> vterm_screen_get_cell scr' row col = None"
proof -
  let ?new = "put_chars (scr_pen scr) (take 6 cs) (cell_at scr row col)"
  have "copy_chars VTERM_MAX_CHARS_PER_CELL (cs @ 0 # rest) = Some (take 6 cs)"
    using assms(3) by (simp add: copy_chars_text VTERM_MAX_CHARS_PER_CELL_def)
  from putglyph_table [OF assms(1) this, of "\<lparr>pos_row = row, pos_col = col\<rparr>" width] assms(2) obtain s' where
    put: "putglyph (cs @ 0 # rest) width \<lparr>pos_row = row, pos_col = col\<rparr> scr = Some s'" "screen_ok s'"
    "on_screen_at s' row col" "cell_at s' row col = ?new" by auto
  have "length (sc_chars (cell_at scr row col)) = 6"
    using cell_at_ok [OF assms(1,2)] by (simp add: cell_ok_def VTERM_MAX_CHARS_PER_CELL_def)
  then have "0 \<notin> set (sc_chars ?new)"
    using assms(3,4) by (auto simp: put_chars_def VTERM_MAX_CHARS_PER_CELL_def Let_def dest: in_set_takeD)
  with put get_cell_eq [OF put(2,3)] show ?thesis by simp
qed

theorem full_cell_overread_witness:
  "case putglyph ([0x65, 0x301, 0x302, 0x303, 0x304, 0x305] @ 0 # []) 1 \<lparr>pos_row = 0, pos_col = 0\<rparr> (screen_new 1 1) of
      None \<Rightarrow> False
    | Some scr' \<Rightarrow> vterm_screen_get_cell scr' 0 0 = None"
  by (rule full_cell_overread) (simp_all add: screen_new_ok on_screen_at_def)

end
