(* ===== verification/Emulator.thy ===== *)
theory Emulator
  imports VtLaws ParserInv ScreenCells
begin

section \<open>The emulator put together (libvterm, vterm_initialisation of main.c)\<close>

text \<open>
  The parser, the state and the screen with the functions each sets for the other, and those that \<open>main.c\<close>
  sets. The program's functions do not touch the emulator; the screen's list of calls records them in the
  order in which they are made. A device control string is handed to the program with the memory it lies
  in; what the program writes there is never read again.
\<close>

subsection \<open>Functions set\<close>

definition log_call :: "vterm_call \<Rightarrow> vterm_screen \<Rightarrow> vterm_screen" where
  "log_call k scr = scr\<lparr>scr_calls := scr_calls scr @ [k]\<rparr>"

text \<open>\<open>state_cbs\<close> of \<open>screen.c\<close>; the program sets no function for the cursor and the mouse.\<close>

definition state_cbs :: "vterm_screen state_callbacks" where
  "state_cbs = \<lparr>sc_putglyph = putglyph, sc_movecursor = (\<lambda>pos oldpos visible scr. scr), sc_scrollrect = scrollrect,
     sc_erase = erase, sc_setpenattr = setpenattr, sc_settermprop = settermprop, sc_setmousefunc = (\<lambda>on scr. scr),
     sc_bell = bell, sc_resize = resize, sc_backup_erase = (\<lambda>rect. log_call CbErase)\<rparr>"

type_synonym emu_state = "vterm_screen vtstate"

text \<open>\<open>parser_callbacks\<close> of \<open>state.c\<close> and \<open>cb_parser\<close> of \<open>main.c\<close>.\<close>

definition parser_callbacks :: "bool \<Rightarrow> emu_state callbacks" where
  "parser_callbacks utf8 =
     \<lparr>cb_text = Some (on_text state_cbs utf8), cb_control = Some (on_control state_cbs),
      cb_escape = Some (on_escape state_cbs utf8), cb_csi = Some (on_csi state_cbs utf8), cb_osc = Some (on_osc state_cbs),
      cb_dcs = Some (\<lambda>mem len st. map_option (\<lambda>(handled, s). (handled, mem, s)) (on_dcs mem len st))\<rparr>"

definition program_callbacks :: "emu_state callbacks" where
  "program_callbacks =
     \<lparr>cb_text = Some (\<lambda>str len st. Some (0, on_screen (log_call (CbText (take len str))) st)), cb_control = None,
      cb_escape = Some (\<lambda>str len st. Some (False, on_screen (log_call (CbEscape (take len str))) st)),
      cb_csi = Some (\<lambda>leader args intermed command st. Some (False, on_screen (log_call (CbCsi command)) st)),
      cb_osc = Some (\<lambda>str len st. Some (False, on_screen (log_call (CbOsc (take len str))) st)),
      cb_dcs = Some (\<lambda>mem len st. Some (False, mem, on_screen (log_call (CbDcs mem (int len))) st))\<rparr>"

subsection \<open>Start, output of the host, size\<close>

definition no_damage :: "vterm_screen \<Rightarrow> vterm_screen" where
  "no_damage scr = scr\<lparr>damaged := no_rect (damaged scr), pending_scrollrect := no_rect (pending_scrollrect scr)\<rparr>"

definition vterm_screen_reset :: "bool \<Rightarrow> bool \<Rightarrow> emu_state \<Rightarrow> emu_state option" where
  "vterm_screen_reset utf8 hard st = do {
     st1 \<leftarrow> vterm_state_reset state_cbs utf8 hard (on_screen no_damage st);
     try_screen vterm_screen_flush_damage st1 }"

definition forget_calls :: "emu_state vterm \<Rightarrow> emu_state vterm" where
  "forget_calls vt = vt\<lparr>cbdata := on_screen (\<lambda>scr. scr\<lparr>scr_calls := []\<rparr>) (cbdata vt)\<rparr>"

text \<open>The order of \<open>vterm_initialisation\<close>: the reset comes before UTF-8 is chosen, so that it chooses US-ASCII.\<close>

definition emulator_new :: "int \<Rightarrow> int \<Rightarrow> emu_state vterm option" where
  "emulator_new rows cols = do {
     let st = vterm_state_set_bold_highbright True (vterm_obtain_state rows cols (screen_new rows cols));
     st1 \<leftarrow> try_screen (vterm_screen_set_damage_merge VTERM_DAMAGE_SCROLL)
              (on_screen (vterm_screen_enable_altscreen rows cols True) st);
     st2 \<leftarrow> vterm_screen_reset False True st1;
     Some (forget_calls (vterm_parser_set_utf8 True (vterm_new st2))) }"

definition emulator_push :: "byte list \<Rightarrow> emu_state vterm \<Rightarrow> (vterm_call list \<times> emu_state vterm) option" where
  "emulator_push bytes vt = do {
     (mem, vt1) \<leftarrow> vterm_push_bytes (parser_callbacks (is_utf8 vt)) program_callbacks bytes (length bytes) vt;
     Some (scr_calls (st_screen (cbdata vt1)), forget_calls vt1) }"

definition vterm_set_size :: "int \<Rightarrow> int \<Rightarrow> emu_state vterm \<Rightarrow> (vterm_call list \<times> emu_state vterm) option" where
  "vterm_set_size rows cols vt = do {
     st \<leftarrow> on_resize state_cbs rows cols (cbdata vt);
     Some (scr_calls (st_screen st), forget_calls (vt\<lparr>cbdata := st\<rparr>)) }"

definition emulator_screen :: "emu_state vterm \<Rightarrow> vterm_screen" where
  "emulator_screen vt = st_screen (cbdata vt)"

definition emulator_cursor :: "emu_state vterm \<Rightarrow> int \<times> int" where
  "emulator_cursor vt = (pos_col (st_pos (cbdata vt)), pos_row (st_pos (cbdata vt)))"

subsection \<open>The contracts hold\<close>

definition screen_frame :: "vterm_screen \<Rightarrow> vpen \<times> int \<times> int" where
  "screen_frame scr = (scr_pen scr, scr_rows scr, scr_cols scr)"

lemma undamaged_frame:
  assumes "undamaged s' = undamaged s"
  shows "screen_frame s' = screen_frame s"
  using undamaged_same(5-7) [OF assms] by (simp add: screen_frame_def)

lemma set_buffer_frame [simp]: "screen_frame (set_buffer b s) = screen_frame s" "screen_frame (s\<lparr>scr_calls := k\<rparr>) = screen_frame s"
  by (simp_all add: screen_frame_def)

lemma move_row_frame: "move_row dest src row s = Some s' \<Longrightarrow> screen_frame s' = screen_frame s"
  by (auto simp: move_row_def bind_eq_Some_conv split: if_splits)

lemma moverect_frame:
  assumes "moverect_internal dest src s = Some s'"
  shows "screen_frame s' = screen_frame s"
proof -
  from assms obtain s1 s2 where
    1: "(if start_row dest < start_row src then prescroll (dest\<lparr>end_row := start_row src\<rparr>) s
         else if start_row dest > start_row src then prescroll (dest\<lparr>start_row := end_row src\<rparr>) s else Some s) = Some s1"
    and 2: "(if start_col dest < start_col src then prescroll (dest\<lparr>end_col := start_col src\<rparr>) s1
         else if start_col dest > start_col src then prescroll (dest\<lparr>start_col := end_col src\<rparr>) s1 else Some s1) = Some s2"
    and 3: "\<exists>rs. ofold (move_row dest src) rs s2 = Some s'"
    unfolding moverect_internal_def Let_def bind_eq_Some_conv by blast
  from 3 obtain rs where rs: "ofold (move_row dest src) rs s2 = Some s'" ..
  have "screen_frame s' = screen_frame s2"
    by (rule ofold_inv [where P = "\<lambda>x. screen_frame x = screen_frame s2", OF _ refl rs]) (simp add: move_row_frame)
  also have "\<dots> = screen_frame s1" using 2 by (auto dest!: prescroll_keeps split: if_splits)
  also have "\<dots> = screen_frame s" using 1 by (auto dest!: prescroll_keeps split: if_splits)
  finally show ?thesis .
qed

lemma erase_internal_frame: "screen_ok s \<Longrightarrow> screen_frame (erase_internal rect s) = screen_frame s"
  by (simp add: screen_frame_def erase_internal_cells)

lemma scrollrect_frame:
  assumes "scrollrect rect d r s = Some s'" "screen_ok s"
  shows "screen_frame s' = screen_frame s"
proof -
  from scrollrect_cells [of rect d r s] assms(1) obtain s1 where
    1: "vterm_scroll_rect rect d r moverect_internal erase_internal s = Some s1" "undamaged s' = undamaged s1"
    by (auto split: option.splits)
  from 1(1) have "s1 = erase_internal rect s \<or>
      (\<exists>x. moverect_internal (scroll_dest rect d r) (scroll_src rect d r) s = Some x \<and> s1 = erase_internal (scroll_freed rect d r) x)"
    by (auto simp: vterm_scroll_rect_def bind_eq_Some_conv split: if_splits)
  then have "screen_frame s1 = screen_frame s"
    using assms(2) moverect_frame moverect_internal_keeps by (auto simp: erase_internal_frame)
  with undamaged_frame [OF 1(2)] show ?thesis by simp
qed

lemma putglyph_frame: "putglyph chars w p s = Some s' \<Longrightarrow> screen_ok s \<Longrightarrow> screen_frame s' = screen_frame s"
proof (cases "on_screen_at s (pos_row p) (pos_col p)")
  case True
  assume a: "putglyph chars w p s = Some s'" "screen_ok s"
  from a(1) obtain new where "copy_chars VTERM_MAX_CHARS_PER_CELL chars = Some new"
    using True by (auto simp: putglyph_def getcell_eq bind_eq_Some_conv)
  from putglyph_table [OF a(2) this True, of w] a(1) show ?thesis by (auto simp: screen_frame_def)
qed (simp add: putglyph_def getcell_eq)

lemma erase_frame: "screen_ok s \<Longrightarrow> screen_frame (erase rect s) = screen_frame s"
  using undamaged_frame [OF undamaged_damage(3)] by (simp add: erase_def erase_internal_frame)

lemma settermprop_frame: "screen_frame (snd (settermprop p s)) = screen_frame s"
proof -
  have "screen_frame (damagescreen x) = screen_frame x" for x by (rule undamaged_frame) simp
  then show ?thesis by (cases p) (simp_all add: Let_def, simp_all add: screen_frame_def)
qed

lemma resize_frame: "screen_frame (resize rows cols s) = (scr_pen s, rows, cols)"
proof -
  have "screen_frame (damagerect r x) = screen_frame x" for r x by (rule undamaged_frame) simp
  then have d: "scr_pen (damagerect r x) = scr_pen x" "scr_rows (damagerect r x) = scr_rows x" "scr_cols (damagerect r x) = scr_cols x" for r x
    by (simp_all add: screen_frame_def)
  show ?thesis by (simp add: resize_def screen_resize_buffers_def screen_frame_def d Let_def)
qed

interpretation screen: screen_contract state_cbs screen_ok scr_pen "\<lambda>s. (scr_rows s, scr_cols s)"
proof
  fix c c' chars w p assume "screen_ok c" "sc_putglyph state_cbs chars w p c = Some c'"
  then show "screen_ok c' \<and> scr_pen c' = scr_pen c \<and> (scr_rows c', scr_cols c') = (scr_rows c, scr_cols c)"
    using putglyph_frame [of chars w p c c'] putglyph_keeps by (simp add: state_cbs_def screen_frame_def)
next
  fix c c' rect d r assume "screen_ok c" "sc_scrollrect state_cbs rect d r c = Some c'"
  then show "screen_ok c' \<and> scr_pen c' = scr_pen c \<and> (scr_rows c', scr_cols c') = (scr_rows c, scr_cols c)"
    using scrollrect_frame [of rect d r c c'] scrollrect_keeps by (simp add: state_cbs_def screen_frame_def)
next
  fix c rect assume "screen_ok c"
  then show "screen_ok (sc_erase state_cbs rect c) \<and> scr_pen (sc_erase state_cbs rect c) = scr_pen c
    \<and> (scr_rows (sc_erase state_cbs rect c), scr_cols (sc_erase state_cbs rect c)) = (scr_rows c, scr_cols c)"
    using erase_frame [of c rect] erase_keeps by (simp add: state_cbs_def screen_frame_def)
next
  fix c rows cols assume "screen_ok c" "0 \<le> (rows :: int)" "0 \<le> (cols :: int)"
  then show "screen_ok (sc_resize state_cbs rows cols c) \<and> scr_pen (sc_resize state_cbs rows cols c) = scr_pen c
    \<and> (scr_rows (sc_resize state_cbs rows cols c), scr_cols (sc_resize state_cbs rows cols c)) = (rows, cols)"
    using resize_frame [of rows cols c] resize_keeps by (simp add: state_cbs_def screen_frame_def)
next
  fix c t assume "screen_ok c"
  then show "screen_ok (snd (sc_settermprop state_cbs t c)) \<and> scr_pen (snd (sc_settermprop state_cbs t c)) = scr_pen c
    \<and> (scr_rows (snd (sc_settermprop state_cbs t c)), scr_cols (snd (sc_settermprop state_cbs t c))) = (scr_rows c, scr_cols c)"
    using settermprop_frame [of t c] settermprop_keeps by (simp add: state_cbs_def screen_frame_def)
qed (auto simp: state_cbs_def log_call_def bell_def setpenattr_def intro: setpenattr_keeps [unfolded setpenattr_def])

lemma logged_inv: "screen.inv rows cols st \<Longrightarrow> screen.inv rows cols (on_screen (log_call k) st)"
  by (simp add: screen.inv_def state_ok_def on_screen_def log_call_def)

interpretation host: kept_by_both "parser_callbacks u" program_callbacks "screen.inv rows cols" for u rows cols
proof
qed (auto simp: parser_callbacks_def program_callbacks_def intro: logged_inv keeps
    dest: screen.on_text_inv screen.on_control_inv screen.on_escape_inv screen.on_csi_inv screen.on_osc_inv screen.on_dcs_inv)

interpretation memory: string_handlers "parser_callbacks u" program_callbacks for u
  by unfold_locales (auto simp: parser_callbacks_def program_callbacks_def)

subsection \<open>Every emulator that can be reached\<close>

definition emulator_ok :: "int \<Rightarrow> int \<Rightarrow> emu_state vterm \<Rightarrow> bool" where
  "emulator_ok rows cols vt \<longleftrightarrow> screen.inv rows cols (cbdata vt) \<and> vterm_ok vt \<and> length (strbuffer vt) = strbuffer_size"

lemma forget_calls_ok: "emulator_ok rows cols vt \<Longrightarrow> emulator_ok rows cols (forget_calls vt)"
  by (simp add: emulator_ok_def forget_calls_def screen.inv_def state_ok_def on_screen_def vterm_ok_def)

lemma emulator_push_ok [keeps]:
  assumes "emulator_push bytes vt = Some (calls, vt')" "emulator_ok rows cols vt"
  shows "emulator_ok rows cols vt'"
proof -
  from assms(1) obtain mem vt1 where
    1: "vterm_push_bytes (parser_callbacks (is_utf8 vt)) program_callbacks bytes (length bytes) vt = Some (mem, vt1)" "vt' = forget_calls vt1"
    by (auto simp: emulator_push_def bind_eq_Some_conv)
  have v: "vterm_ok vt" "screen.inv rows cols (cbdata vt)" "length (strbuffer vt) = strbuffer_size" using assms(2) by (simp_all add: emulator_ok_def)
  have "host.kept rows cols (is_utf8 vt) vt" unfolding host.kept_def using v(2) by simp
  from host.push_bytes_kept [OF 1(1) this] have "screen.inv rows cols (cbdata vt1)" unfolding host.kept_def by simp
  with memory.push_bytes_keeps [OF 1(1) v(1)] v(3) have "emulator_ok rows cols vt1" by (simp add: emulator_ok_def)
  then show ?thesis unfolding 1(2) by (rule forget_calls_ok)
qed

lemma vterm_set_size_ok [keeps]:
  assumes "vterm_set_size rows cols vt = Some (calls, vt')" "emulator_ok r c vt" "0 \<le> rows" "0 \<le> cols"
  shows "emulator_ok rows cols vt'"
proof -
  from assms(1) obtain st where "on_resize state_cbs rows cols (cbdata vt) = Some st" "vt' = forget_calls (vt\<lparr>cbdata := st\<rparr>)"
    by (auto simp: vterm_set_size_def bind_eq_Some_conv)
  moreover from screen.on_resize_inv [OF this(1) _ assms(3,4)] assms(2) have "screen.inv rows cols st" by (auto simp: emulator_ok_def)
  with assms(2) have "emulator_ok rows cols (vt\<lparr>cbdata := st\<rparr>)" by (simp add: emulator_ok_def vterm_ok_def)
  ultimately show ?thesis by (simp add: forget_calls_ok)
qed

text \<open>The tab stops of all columns fit their bytes.\<close>

lemma tab_index: "0 \<le> col \<Longrightarrow> col < cols \<Longrightarrow> 0 \<le> drop_bit 3 col \<and> drop_bit 3 col < int (tab_bytes cols)"
proof -
  assume a: "0 \<le> col" "col < cols"
  have "col div 8 \<le> (cols - 1) div 8" using a by (intro zdiv_mono1) simp_all
  also have "(cols - 1) div 8 < (cols - 1 + 8) div 8" by simp
  finally have "col div 8 < (cols + 7) div 8" by (simp add: algebra_simps)
  moreover have "0 \<le> col div 8" using a by (simp add: pos_imp_zdiv_nonneg_iff)
  ultimately show ?thesis by (simp add: drop_bit_eq_div tab_bytes_def)
qed

lemma tabstop_defined:
  assumes "0 \<le> col" "col < cols" "length tabs = tab_bytes cols"
  shows "\<exists>t. set_col_tabstop col tabs = Some t \<and> length t = length tabs" "\<exists>t. clear_col_tabstop col tabs = Some t \<and> length t = length tabs"
    "\<exists>b. is_col_tabstop col tabs = Some b" "\<exists>t. reset_tabstop col tabs = Some t \<and> length t = length tabs"
  using tab_index [OF assms(1,2)] assms(3)
  by (simp_all add: set_col_tabstop_def clear_col_tabstop_def is_col_tabstop_def reset_tabstop_def arr_get_def arr_set_def)

lemma reset_tabs_defined: "length tabs = tab_bytes cols \<Longrightarrow> \<exists>t. ofold reset_tabstop [0..cols - 1] tabs = Some t \<and> length t = tab_bytes cols"
  by (rule ofold_total [where P = "\<lambda>t. length t = tab_bytes cols"]) (use tabstop_defined(4) in auto)

lemma resetpen_frame:
  "st_rows (vterm_state_resetpen cbs st) = st_rows st \<and> st_cols (vterm_state_resetpen cbs st) = st_cols st"
  by (simp add: vterm_state_resetpen_def set_pen_def on_screen_def Let_def)

lemma state_reset_defined:
  assumes "screen.inv rows cols st"
  shows "\<exists>st'. vterm_state_reset state_cbs u hard st = Some st' \<and> screen.inv rows cols st'"
proof -
  have "length (tabstops st) = tab_bytes (st_cols st)" using assms by (simp add: screen.inv_def state_ok_def)
  from reset_tabs_defined [OF this] obtain st' where "vterm_state_reset state_cbs u hard st = Some st'"
    by (auto simp: vterm_state_reset_def Let_def)
  with screen.reset_inv [OF this assms] show ?thesis by blast
qed

lemma merge_total: "\<exists>s'. vterm_screen_set_damage_merge m s = Some s' \<and> undamaged s' = undamaged s"
  using flush_total [of s] by (auto simp: vterm_screen_set_damage_merge_def)

lemma undamaged_inv:
  assumes "screen.inv rows cols st" "undamaged s' = undamaged (st_screen st)"
  shows "screen.inv rows cols (st\<lparr>st_screen := s'\<rparr>)"
  using assms(1) undamaged_same(1,5-7) [OF assms(2)] by (simp add: screen.inv_def state_ok_def)

text \<open>A new emulator: its cursor is at the top left, its sets are US-ASCII, its cells are blank.\<close>

definition fresh :: "int \<Rightarrow> int \<Rightarrow> emu_state vterm \<Rightarrow> bool" where
  "fresh rows cols vt \<longleftrightarrow> emulator_ok rows cols vt \<and> parser_state vt = NORMAL \<and> strbuffer_cur vt = 0 \<and> is_utf8 vt
     \<and> st_pos (cbdata vt) = \<lparr>pos_row = 0, pos_col = 0\<rparr> \<and> \<not> at_phantom (cbdata vt) \<and> st_mode (cbdata vt) = reset_mode
     \<and> scrollregion_start (cbdata vt) = 0 \<and> scrollregion_end (cbdata vt) = - 1 \<and> gl_set (cbdata vt) = 0
     \<and> (\<forall>e\<in>set (st_encoding (cbdata vt)). enc e = Some Enc_usascii)
     \<and> ended (emulator_screen vt) \<and> scr_calls (emulator_screen vt) = []"

lemma cursor_props_same [simp]: "cursor_props state_cbs st = st"
proof -
  have "snd (st_settermprop state_cbs t s) = s" if "\<forall>scr. settermprop t scr = (True, scr)" for t s
    using that by (simp add: st_settermprop_def state_cbs_def)
  then show ?thesis by (simp add: cursor_props_def Let_def)
qed

lemma erased_screen:
  assumes "screen.inv rows cols st" "ended (st_screen st)"
  shows "ended (st_screen (st_erase state_cbs (whole_screen st) st))"
proof -
  let ?s = "st_screen st"
  have ok: "screen_ok ?s" using assms(1) by (simp add: screen.inv_def)
  let ?e = "erase_internal (whole_screen st) ?s"
  have e: "ended ?e"
    unfolding ended_def
  proof (intro allI impI)
    fix row col assume on: "on_screen_at ?e row col"
    then have on': "on_screen_at ?s row col" by (simp add: erase_internal_cells(4) [OF ok])
    from cell_at_ok [OF ok on'] have "0 \<in> set (sc_chars (blank p (cell_at ?s row col)))" for p
      by (cases "sc_chars (cell_at ?s row col)") (simp_all add: blank_def cell_ok_def VTERM_MAX_CHARS_PER_CELL_def)
    with assms(2) on' show "0 \<in> set (sc_chars (cell_at ?e row col))"
      unfolding erase_internal_cells(7) [OF ok on'] by (simp add: ended_def)
  qed
  have same: "undamaged (erase (whole_screen st) ?s) = undamaged ?e" by (simp add: erase_def)
  from e have "ended (erase (whole_screen st) ?s)" using undamaged_same(3,4) [OF same] by (simp add: ended_def)
  then show ?thesis by (simp add: st_erase_def on_screen_def state_cbs_def log_call_def ended_def)
qed

lemma resetpen_keeps:
  "\<exists>p f c. vterm_state_resetpen state_cbs st = st\<lparr>st_pen := p, fg_ansi := f, st_screen := (st_screen st)\<lparr>scr_pen := c\<rparr>\<rparr>"
  by (cases st; cases "st_screen st") (simp add: vterm_state_resetpen_def set_pen_def on_screen_def state_cbs_def setpenattr_def Let_def)

lemma usascii: "vterm_lookup_encoding ENC_SINGLE_94 0x42 = Some Enc_usascii"
  by (simp add: vterm_lookup_encoding_def encodings_def)

lemma erase_fields:
  "st_pos (st_erase cbs rect st) = st_pos st \<and> at_phantom (st_erase cbs rect st) = at_phantom st \<and> st_mode (st_erase cbs rect st) = st_mode st
   \<and> scrollregion_start (st_erase cbs rect st) = scrollregion_start st \<and> scrollregion_end (st_erase cbs rect st) = scrollregion_end st
   \<and> gl_set (st_erase cbs rect st) = gl_set st \<and> st_encoding (st_erase cbs rect st) = st_encoding st"
  by (simp add: st_erase_def on_screen_def)

lemma pen_same [simp]: "cell_at (s\<lparr>scr_pen := p\<rparr>) = cell_at s" "on_screen_at (s\<lparr>scr_pen := p\<rparr>) = on_screen_at s"
  by (simp_all add: cell_at_def on_screen_at_def scr_buffer_def fun_eq_iff)

lemma hard_reset_fields:
  assumes "vterm_state_reset state_cbs False True st = Some st'" "screen.inv rows cols st" "ended (st_screen st)"
  shows "st_pos st' = \<lparr>pos_row = 0, pos_col = 0\<rparr> \<and> \<not> at_phantom st' \<and> st_mode st' = reset_mode
     \<and> scrollregion_start st' = 0 \<and> scrollregion_end st' = - 1 \<and> gl_set st' = 0
     \<and> (\<forall>e\<in>set (st_encoding st'). enc e = Some Enc_usascii) \<and> ended (st_screen st')"
proof -
  from assms(1) obtain tabs where "ofold reset_tabstop [0..st_cols st - 1] (tabstops st) = Some tabs"
    by (auto simp: vterm_state_reset_def bind_eq_Some_conv)
  note tabs = this screen.reset_tabs_length [OF this]
  let ?s0 = "st\<lparr>scrollregion_start := 0, scrollregion_end := - 1, tabstops := tabs, st_mode := reset_mode\<rparr>"
  have i0: "screen.inv rows cols ?s0" using assms(2) tabs(2) by simp
  from resetpen_keeps obtain p f c where s1: "vterm_state_resetpen state_cbs ?s0 = ?s0\<lparr>st_pen := p, fg_ansi := f, st_screen := (st_screen ?s0)\<lparr>scr_pen := c\<rparr>\<rparr>"
    by blast
  let ?s1 = "vterm_state_resetpen state_cbs ?s0"
  let ?s2 = "?s1\<lparr>st_encoding := map (reset_encoding (Some Enc_usascii)) (st_encoding ?s1), gl_set := 0, gr_set := 0\<rparr>"
  let ?s3 = "?s2\<lparr>st_pos := \<lparr>pos_row = 0, pos_col = 0\<rparr>, at_phantom := False\<rparr>"
  have st': "st' = st_erase state_cbs (whole_screen ?s3) ?s3"
    using assms(1) tabs(1) by (simp add: vterm_state_reset_def usascii Let_def whole_screen_def)
  have i1: "screen.inv rows cols ?s1" by (rule screen.inv_resetpen [OF i0])
  moreover have "length (st_encoding ?s1) = 4" using i1 by (simp add: screen.inv_def state_ok_def)
  ultimately have i3: "screen.inv rows cols ?s3" by simp
  have "ended (st_screen ?s3)" using assms(3) by (simp add: s1 ended_def)
  from erased_screen [OF i3 this] show ?thesis
    using erase_fields [of state_cbs "whole_screen ?s3" ?s3] unfolding st' by (auto simp: s1 reset_encoding_def)
qed

text \<open>Allocating the other screen and choosing how damage is merged leaves the cells in use.\<close>

lemma altscreen_view:
  "\<not> scr_on_alt s \<Longrightarrow> cell_at (vterm_screen_enable_altscreen r c b s) = cell_at s \<and> on_screen_at (vterm_screen_enable_altscreen r c b s) = on_screen_at s
    \<and> scr_pen (vterm_screen_enable_altscreen r c b s) = scr_pen s \<and> scr_rows (vterm_screen_enable_altscreen r c b s) = scr_rows s
    \<and> scr_cols (vterm_screen_enable_altscreen r c b s) = scr_cols s"
  by (simp add: vterm_screen_enable_altscreen_def cell_at_def on_screen_at_def scr_buffer_def fun_eq_iff)

lemma emulator_new_fresh:
  assumes "0 \<le> rows" "0 \<le> cols"
  shows "\<exists>vt. emulator_new rows cols = Some vt \<and> fresh rows cols vt"
proof -
  let ?n = "screen_new rows cols"
  let ?a = "vterm_screen_enable_altscreen rows cols True ?n"
  let ?st = "vterm_state_set_bold_highbright True (vterm_obtain_state rows cols ?n)"
  have off: "\<not> scr_on_alt ?n" by (simp add: screen_new_def Let_def)
  have ok: "screen_ok ?n" "screen_ok ?a" using screen_new_ok [OF assms] altscreen_keeps [of ?n True] by simp_all
  have i0: "screen.inv rows cols (?st\<lparr>st_screen := ?a\<rparr>)"
    using assms ok(2) altscreen_view [OF off, of rows cols True]
    by (simp add: vterm_state_set_bold_highbright_def vterm_obtain_state_def screen.inv_def state_ok_def)
  obtain m where m: "vterm_screen_set_damage_merge VTERM_DAMAGE_SCROLL ?a = Some m" "undamaged m = undamaged ?a" using merge_total by blast
  let ?s1 = "?st\<lparr>st_screen := m\<rparr>"
  have i1: "screen.inv rows cols ?s1" using undamaged_inv [OF i0, of m] m(2) by simp
  have d: "undamaged (no_damage m) = undamaged m" by (simp add: no_damage_def)
  let ?s2 = "?st\<lparr>st_screen := no_damage m\<rparr>"
  have i2: "screen.inv rows cols ?s2" using undamaged_inv [OF i1, of "no_damage m"] d by simp
  have "ended ?a" using screen_new_ended [of rows cols] altscreen_view [OF off, of rows cols True] by (simp add: ended_def)
  then have e2: "ended (no_damage m)" using undamaged_same(3,4) [OF trans [OF d m(2)]] by (simp add: ended_def)
  obtain s3 where s3: "vterm_state_reset state_cbs False True ?s2 = Some s3" "screen.inv rows cols s3" using state_reset_defined [OF i2] by blast
  have f3: "st_pos s3 = \<lparr>pos_row = 0, pos_col = 0\<rparr> \<and> \<not> at_phantom s3 \<and> st_mode s3 = reset_mode
     \<and> scrollregion_start s3 = 0 \<and> scrollregion_end s3 = - 1 \<and> gl_set s3 = 0
     \<and> (\<forall>e\<in>set (st_encoding s3). enc e = Some Enc_usascii) \<and> ended (st_screen s3)"
    by (rule hard_reset_fields [OF s3(1) i2]) (use e2 in simp)
  obtain w where w: "vterm_screen_flush_damage (st_screen s3) = Some w" "undamaged w = undamaged (st_screen s3)" using flush_total by blast
  let ?s4 = "s3\<lparr>st_screen := w\<rparr>"
  let ?vt = "forget_calls (vterm_parser_set_utf8 True (vterm_new ?s4))"
  have "emulator_new rows cols = Some ?vt"
    using m(1) s3(1) w(1) by (simp add: emulator_new_def try_screen_def on_screen_def vterm_screen_reset_def vterm_state_set_bold_highbright_def vterm_obtain_state_def)
  moreover have "screen.inv rows cols ?s4" using undamaged_inv [OF s3(2) w(2)] .
  then have "emulator_ok rows cols ?vt"
    by (intro forget_calls_ok) (simp add: emulator_ok_def vterm_parser_set_utf8_def vterm_ok_def)
  moreover have "ended w" using f3 undamaged_same(3,4) [OF w(2)] by (simp add: ended_def)
  ultimately show ?thesis using f3
    by (auto simp: fresh_def forget_calls_def vterm_parser_set_utf8_def on_screen_def emulator_screen_def ended_def)
qed

end
