(* ===== verification/CursorInside.thy ===== *)
theory CursorInside
  imports Emulator
begin

section \<open>Where the cursor is\<close>

text \<open>
  The emulator moves its cursor by sums, clamps it after a control sequence and nowhere else. The theory
  shows under which circumstances it is on the screen, and what happens without them.
\<close>

subsection \<open>Calm states\<close>

definition inside :: "int \<Rightarrow> int \<Rightarrow> vpos \<Rightarrow> bool" where
  "inside rows cols p \<longleftrightarrow> 0 \<le> pos_row p \<and> pos_row p < rows \<and> 0 \<le> pos_col p \<and> pos_col p < cols"

definition cursor_view :: "'c vtstate \<Rightarrow> int \<times> int \<times> vpos \<times> vpos \<times> bool" where
  "cursor_view st = (st_rows st, st_cols st, st_pos st, sv_pos (st_saved st), m_origin (st_mode st))"

definition calm_view :: "int \<times> int \<times> vpos \<times> vpos \<times> bool \<Rightarrow> bool" where
  "calm_view = (\<lambda>(rows, cols, p, q, origin). 1 \<le> rows \<and> 1 \<le> cols \<and> inside rows cols p \<and> inside rows cols q \<and> \<not> origin)"

text \<open>The cursor and the saved cursor are on a screen with at least one cell, and origin mode is off.\<close>

definition calm :: "'c vtstate \<Rightarrow> bool" where
  "calm st \<longleftrightarrow> calm_view (cursor_view st)"

lemmas calm_defs = calm_def calm_view_def cursor_view_def inside_def

subsection \<open>What leaves the cursor alone\<close>

lemma view_update [simp]:
  "cursor_view (on_screen f st) = cursor_view st" "cursor_view (st\<lparr>at_phantom := b\<rparr>) = cursor_view st"
  "cursor_view (st\<lparr>tabstops := t\<rparr>) = cursor_view st" "cursor_view (st\<lparr>st_screen := c\<rparr>) = cursor_view st"
  "cursor_view (st\<lparr>st_pen := p\<rparr>) = cursor_view st" "cursor_view (st\<lparr>fg_ansi := i\<rparr>) = cursor_view st"
  "cursor_view (st\<lparr>st_encoding := e\<rparr>) = cursor_view st" "cursor_view (st\<lparr>encoding_utf8 := e1\<rparr>) = cursor_view st"
  "cursor_view (st\<lparr>gl_set := n\<rparr>) = cursor_view st" "cursor_view (st\<lparr>gr_set := n\<rparr>) = cursor_view st"
  "cursor_view (st\<lparr>combine_chars := k\<rparr>) = cursor_view st" "cursor_view (st\<lparr>combine_width := i\<rparr>) = cursor_view st"
  "cursor_view (st\<lparr>combine_pos := q\<rparr>) = cursor_view st" "cursor_view (st\<lparr>mouse_proto := m\<rparr>) = cursor_view st"
  "cursor_view (st\<lparr>scrollregion_start := i\<rparr>) = cursor_view st" "cursor_view (st\<lparr>scrollregion_end := i\<rparr>) = cursor_view st"
  by (simp_all add: cursor_view_def on_screen_def)

lemma view_calls [simp]:
  "cursor_view (updatecursor cbs q b st) = cursor_view st" "cursor_view (st_erase cbs rect st) = cursor_view st"
  "cursor_view (set_pen cbs a st) = cursor_view st" "cursor_view (set_pen_col_ansi cbs bg col st) = cursor_view st"
  "cursor_view (vterm_push_output bytes st) = cursor_view st" "cursor_view (snd (st_settermprop cbs t st)) = cursor_view st"
  "cursor_view (cursor_props cbs st) = cursor_view st"
proof -
  show p: "cursor_view (snd (st_settermprop cbs t st)) = cursor_view st" for t and st :: "'a vtstate" by (simp add: st_settermprop_def split_beta)
  show "cursor_view (cursor_props cbs st) = cursor_view st" by (simp add: cursor_props_def p Let_def)
  show "cursor_view (vterm_push_output bytes st) = cursor_view st" by (simp add: vterm_push_output_def cursor_view_def Let_def)
qed (simp_all add: updatecursor_def st_erase_def set_pen_def set_pen_col_ansi_def)

lemma view_more [simp]:
  "cursor_view (vterm_state_resetpen cbs st) = cursor_view st" "cursor_view (sgr_simple cbs a st) = cursor_view st"
  "cursor_view (erase_cols cbs rect st) = cursor_view st" "cursor_view (erase_rows cbs rect st) = cursor_view st"
  "cursor_view (mouse_mode cbs n v st) = cursor_view st" "cursor_view (set_mode n v st) = cursor_view st"
  "cursor_view (altscreen cbs v st) = cursor_view st" "cursor_view (csi_DECSCUSR cbs i st) = cursor_view st"
  "cursor_view (csi_DSR i st) = cursor_view st" "cursor_view (csi_DECSTBM args i st) = cursor_view st" "cursor_view (csi_ED cbs i st) = cursor_view st"
proof -
  show r: "cursor_view (vterm_state_resetpen cbs st) = cursor_view st" for st :: "'a vtstate" by (simp add: vterm_state_resetpen_def Let_def)
  show "cursor_view (sgr_simple cbs a st) = cursor_view st" by (simp add: sgr_simple_def r Let_def)
  show e: "cursor_view (erase_cols cbs rect st) = cursor_view st" "cursor_view (erase_rows cbs rect st) = cursor_view st" for rect and st :: "'a vtstate"
    by (simp_all add: erase_cols_def erase_rows_def)
  show "cursor_view (csi_ED cbs i st) = cursor_view st" by (simp add: csi_ED_def e Let_def)
  show "cursor_view (csi_DSR i st) = cursor_view st" "cursor_view (csi_DECSTBM args i st) = cursor_view st" by (simp_all add: csi_DSR_def csi_DECSTBM_def Let_def)
  show "cursor_view (mouse_mode cbs n v st) = cursor_view st" by (simp add: mouse_mode_def cursor_view_def on_screen_def)
  show "cursor_view (set_mode n v st) = cursor_view st" by (simp add: set_mode_def cursor_view_def)
  have m: "cursor_view (st\<lparr>st_mode := (st_mode st)\<lparr>m_alt_screen := b\<rparr>\<rparr>) = cursor_view st" for b and st :: "'a vtstate" by (simp add: cursor_view_def)
  show "cursor_view (altscreen cbs v st) = cursor_view st"
    using view_calls(6) [of cbs "PROP_ALTSCREEN (if v then 1 else 0)" st] by (simp add: altscreen_def m split_beta Let_def)
  have m: "cursor_view (st\<lparr>st_mode := (st_mode st)\<lparr>m_cursor_blink := b, m_cursor_shape := k\<rparr>\<rparr>) = cursor_view st" for b k and st :: "'a vtstate"
    by (simp add: cursor_view_def)
  show "cursor_view (csi_DECSCUSR cbs i st) = cursor_view st" by (simp add: csi_DECSCUSR_def m Let_def)
qed

lemma view_scroll: "st_scroll cbs rect d r st = Some st' \<Longrightarrow> cursor_view st' = cursor_view st"
  by (auto simp: st_scroll_def try_screen_def bind_eq_Some_conv split: if_splits)

lemma view_glyph: "st_putglyph cbs chars w p st = Some st' \<Longrightarrow> cursor_view st' = cursor_view st"
  by (auto simp: st_putglyph_def try_screen_def bind_eq_Some_conv)

lemma view_combine: "put_combine i c st = Some st' \<Longrightarrow> cursor_view st' = cursor_view st"
  by (auto simp: put_combine_def grow_combine_buffer_def bind_eq_Some_conv split: if_splits)

lemma view_combines: "put_combines i cs st = Some st' \<Longrightarrow> cursor_view st' = cursor_view st"
  by (induction cs arbitrary: i st) (auto simp: bind_eq_Some_conv dest: view_combine)

lemma view_merge: "merge_combining cbs cs st = Some st' \<Longrightarrow> cursor_view st' = cursor_view st"
  by (auto simp: merge_combining_def bind_eq_Some_conv dest!: view_combines view_glyph)

lemma view_decode:
  assumes "decode_text u bytes len st = Some (st', cp, n)"
  shows "cursor_view st' = cursor_view st"
proof -
  from assms obtain b where b: "arr_get bytes 0 = Some b" by (auto simp: decode_text_def bind_eq_Some_conv)
  show ?thesis
  proof (cases "b < 0x80 \<or> \<not> u")
    case True
    with assms b show ?thesis by (auto simp: decode_text_def bind_eq_Some_conv Let_def)
  next
    case False
    with assms b show ?thesis by (auto simp: decode_text_def bind_eq_Some_conv Let_def)
  qed
qed

lemma view_sgr_arg: "sgr_arg cbs args st = Some (rest, st') \<Longrightarrow> cursor_view st' = cursor_view st"
  by (auto simp: sgr_arg_def bind_eq_Some_conv split: if_splits)

lemma view_setpen: "vterm_state_setpen cbs args st = Some st' \<Longrightarrow> cursor_view st' = cursor_view st"
proof (induction "length args" arbitrary: args st rule: less_induct)
  case less
  show ?case
  proof (cases "args = []")
    case False
    with less.prems obtain rest st1 rest1 where 1: "sgr_arg cbs args st = Some (rest, st1)" "skip_more rest = Some rest1"
      "vterm_state_setpen cbs rest1 st1 = Some st'"
      by (subst (asm) vterm_state_setpen.simps) (auto split: option.splits)
    have "length rest1 < length args" using skip_more_shorter [OF 1(2)] sgr_arg_rest [OF 1(1)] by simp
    from less.hyps [OF this 1(3)] view_sgr_arg [OF 1(1)] show ?thesis by simp
  qed (use less.prems in \<open>simp add: vterm_state_setpen.simps\<close>)
qed

lemma view_DECALN: "DECALN cbs st = Some st' \<Longrightarrow> cursor_view st' = cursor_view st"
  unfolding DECALN_def by (rule ofold_inv [where P = "\<lambda>s. cursor_view s = cursor_view st", rotated]) (auto dest: view_glyph)

lemma view_select: "select_encoding n b st = Some st' \<Longrightarrow> cursor_view st' = cursor_view st"
  by (auto simp: select_encoding_def bind_eq_Some_conv split: option.splits)

lemma view_TBC: "csi_TBC v st = Some (h, st') \<Longrightarrow> cursor_view st' = cursor_view st"
  by (auto simp: csi_TBC_def bind_eq_Some_conv split: if_splits)

lemma view_EL: "csi_EL cbs v st = (h, st') \<Longrightarrow> cursor_view st' = cursor_view st"
  by (auto simp: csi_EL_def Let_def split: if_splits)

lemma view_edit: "csi_edit cbs key args st = Some (h, st') \<Longrightarrow> cursor_view st' = cursor_view st"
  by (auto simp: csi_edit_def handled_if_def bind_eq_Some_conv Let_def split: if_splits dest: view_scroll view_EL)

lemma view_osc: "on_osc cbs str n st = Some (h, st') \<Longrightarrow> cursor_view st' = cursor_view st"
  by (auto simp: on_osc_def settermprop_string_def handled_if_def bind_eq_Some_conv Let_def split: if_splits)

lemma view_dcs: "on_dcs str n st = Some (h, st') \<Longrightarrow> cursor_view st' = cursor_view st"
  by (auto simp: on_dcs_def request_status_string_def handled_if_def bind_eq_Some_conv Let_def split: if_splits)

subsection \<open>What moves it\<close>

lemma view_pos [simp]:
  "cursor_view (st\<lparr>st_pos := p\<rparr>) = (st_rows st, st_cols st, p, sv_pos (st_saved st), m_origin (st_mode st))"
  by (simp add: cursor_view_def)

lemma calm_view_eq: "cursor_view st' = cursor_view st \<Longrightarrow> calm st' \<longleftrightarrow> calm st"
  by (simp add: calm_def)

lemma calmD:
  assumes "calm st"
  shows "1 \<le> st_rows st" "1 \<le> st_cols st" "inside (st_rows st) (st_cols st) (st_pos st)"
    "inside (st_rows st) (st_cols st) (sv_pos (st_saved st))" "\<not> m_origin (st_mode st)"
  using assms by (simp_all add: calm_def calm_view_def cursor_view_def)

lemma calm_set_row: "calm st \<Longrightarrow> 0 \<le> r \<Longrightarrow> r < st_rows st \<Longrightarrow> calm (set_row r st)"
  by (simp add: set_row_def calm_defs)

lemma calm_set_col: "calm st \<Longrightarrow> 0 \<le> c \<Longrightarrow> c < st_cols st \<Longrightarrow> calm (set_col c st)"
  by (simp add: set_col_def calm_defs)

lemma calm_set_pos: "calm st \<Longrightarrow> inside (st_rows st) (st_cols st) p \<Longrightarrow> calm (st\<lparr>st_pos := p\<rparr>)"
  by (simp add: calm_defs)

lemma calm_cursor [simp]: "calm (updatecursor cbs q b st) \<longleftrightarrow> calm st"
  by (simp add: calm_def)

lemma linefeed_calm:
  assumes "linefeed cbs st = Some st'" "calm st"
  shows "calm st'"
proof (cases "pos_row (st_pos st) = SCROLLREGION_END st - 1")
  case True
  with assms show ?thesis using calm_view_eq [OF view_scroll, of cbs "scrollregion st" 1 0 st st'] by (simp add: linefeed_def)
next
  case False
  with assms show ?thesis using calmD(3) [OF assms(2)] by (auto simp: linefeed_def inside_def intro: calm_set_row split: if_splits)
qed

lemma linefeed_cols: "linefeed cbs st = Some st' \<Longrightarrow> st_cols st' = st_cols st"
  by (auto simp: linefeed_def st_scroll_def try_screen_def set_row_def bind_eq_Some_conv split: if_splits)

lemma tab_stop_inside:
  "tab_to_stop tabs cols 1 col = Some c \<Longrightarrow> 0 \<le> col \<Longrightarrow> col < cols \<Longrightarrow> 0 \<le> c \<and> c < cols"
proof (induction "nat (cols - col)" arbitrary: col rule: less_induct)
  case less
  show ?case
  proof (cases "col < cols - 1")
    case True
    with less.prems obtain stop where "is_col_tabstop (col + 1) tabs = Some stop"
      "(if stop then Some (col + 1) else tab_to_stop tabs cols 1 (col + 1)) = Some c"
      by (subst (asm) tab_to_stop.simps) (auto simp: bind_eq_Some_conv)
    with less.hyps [of "col + 1"] less.prems True show ?thesis by (cases stop) auto
  next
    case False
    with less.prems show ?thesis by (subst (asm) tab_to_stop.simps) auto
  qed
qed

lemma tab_calm: "tab n 1 st = Some st' \<Longrightarrow> calm st \<Longrightarrow> calm st'"
proof (induction n arbitrary: st)
  case (Suc n)
  from Suc.prems obtain c where c: "tab_to_stop (tabstops st) (st_cols st) 1 (pos_col (st_pos st)) = Some c" "tab n 1 (set_col c st) = Some st'"
    by (auto simp: bind_eq_Some_conv)
  have "0 \<le> c \<and> c < st_cols st" using tab_stop_inside [OF c(1)] calmD(3) [OF Suc.prems(2)] by (simp add: inside_def)
  with Suc.IH [OF c(2)] Suc.prems(2) show ?case by (simp add: calm_set_col)
qed simp

lemma control_calm:
  assumes "on_control cbs control st = Some (h, st')" "calm st"
  shows "calm st'"
proof -
  have i: "inside (st_rows st) (st_cols st) (st_pos st)" "1 \<le> st_cols st" using calmD [OF assms(2)] by simp_all
  have feed: "calm (set_col 0 s)" "calm s" if "linefeed cbs st = Some s" for s
    using linefeed_calm [OF that assms(2)] calmD(2) [OF linefeed_calm [OF that assms(2)]] by (simp_all add: calm_set_col)
  have up: "calm s" if "st_scroll cbs (scrollregion st) (- 1) 0 st = Some s" for s
    using calm_view_eq [OF view_scroll [OF that]] assms(2) by simp
  have leftward: "calm (set_col (pos_col (st_pos st) - 1) st)" if "pos_col (st_pos st) > 0"
    using that i assms(2) by (intro calm_set_col) (simp_all add: inside_def)
  have upper: "calm (set_row (pos_row (st_pos st) - 1) st)" if "pos_row (st_pos st) > 0"
    using that i assms(2) by (intro calm_set_row) (simp_all add: inside_def)
  have start: "calm (set_col 0 st)" using i assms(2) by (intro calm_set_col) simp_all
  have hop: "calm (set_col c st)" if "tab_to_stop (tabstops st) (st_cols st) 1 (pos_col (st_pos st)) = Some c" for c
    using tab_stop_inside [OF that] i assms(2) by (intro calm_set_col) (simp_all add: inside_def)
  have same: "calm (on_screen f st)" "calm (st\<lparr>gl_set := n\<rparr>)" "calm (st\<lparr>tabstops := t\<rparr>)" for f n t
    using assms(2) by (simp_all add: calm_def)
  from assms(1) show ?thesis
    unfolding on_control_def Let_def finish_def
    by (auto simp: bind_eq_Some_conv feed up leftward upper start same assms(2) hop split: if_splits) (use assms(2) in simp)
qed

subsection \<open>Text\<close>

lemma glyphs_chars: "g \<in> set (glyphs cs) \<Longrightarrow> set g \<subseteq> set cs"
proof (induction cs rule: glyphs.induct)
  case (2 c cs)
  with set_dropWhileD [of _ vterm_unicode_is_combining cs] set_takeWhileD [of _ vterm_unicode_is_combining cs] show ?case by fastforce
qed simp

lemma glyph_width_nonneg: "\<forall>c \<in> set g. 0 \<le> vterm_unicode_width c \<Longrightarrow> 0 \<le> glyph_width g"
  by (induction g) (simp_all add: glyph_width_def)

lemma advance_calm:
  assumes "calm st" "0 \<le> w"
  shows "calm (if pos_col (st_pos st) + w \<ge> st_cols st then (if b then st\<lparr>at_phantom := True\<rparr> else st) else set_col (pos_col (st_pos st) + w) st)"
  using assms calmD(3) [OF assms(1)] calm_set_col [OF assms(1), of "pos_col (st_pos st) + w"]
  by (auto simp: inside_def calm_def)

lemma view_fields: "cursor_view a = cursor_view b \<Longrightarrow> st_pos a = st_pos b \<and> st_cols a = st_cols b \<and> st_rows a = st_rows b"
  by (simp add: cursor_view_def)

lemma view_combined [simp]: "cursor_view (st\<lparr>combine_width := w, combine_pos := p\<rparr>) = cursor_view st"
  by (simp add: cursor_view_def)

lemma print_glyph_calm:
  assumes "print_glyph cbs final g st = Some st'" "calm st" "0 \<le> glyph_width g"
  shows "calm st'"
proof -
  from assms(1) obtain s1 s2 s3 s4 where
    1: "(if at_phantom st then do { s \<leftarrow> linefeed cbs st; Some ((set_col 0 s)\<lparr>at_phantom := False\<rparr>) } else Some st) = Some s1"
    and 2: "(if m_insert (st_mode s1) then st_scroll cbs \<lparr>start_row = pos_row (st_pos s1), end_row = pos_row (st_pos s1) + 1,
        start_col = pos_col (st_pos s1), end_col = st_cols s1\<rparr> 0 (- 1) s1 else Some s1) = Some s2"
    and 3: "st_putglyph cbs (glyph_chars g) (glyph_width g) (st_pos s1) s2 = Some s3"
    and 4: "(if final then do { s \<leftarrow> put_combines 0 (takeWhile (\<lambda>c. c \<noteq> 0) (glyph_chars g)) s3;
        Some (s\<lparr>combine_width := glyph_width g, combine_pos := st_pos s1\<rparr>) } else Some s3) = Some s4"
    and 5: "st' = (if pos_col (st_pos s1) + glyph_width g \<ge> st_cols s4
        then (if m_autowrap (st_mode s4) then s4\<lparr>at_phantom := True\<rparr> else s4) else set_col (pos_col (st_pos s1) + glyph_width g) s4)"
    unfolding print_glyph_def Let_def bind_eq_Some_conv by blast
  have c1: "calm s1"
  proof (cases "at_phantom st")
    case True
    with 1 obtain s where s: "linefeed cbs st = Some s" "s1 = (set_col 0 s)\<lparr>at_phantom := False\<rparr>" by (auto simp: bind_eq_Some_conv)
    from linefeed_calm [OF s(1) assms(2)] have c: "calm s" .
    have "calm (set_col 0 s)" using c calmD(2) [OF c] by (intro calm_set_col) simp_all
    with s(2) show ?thesis by (simp add: calm_def)
  qed (use 1 assms(2) in simp)
  have v2: "cursor_view s2 = cursor_view s1" using 2 view_scroll by (auto split: if_splits)
  have v3: "cursor_view s3 = cursor_view s1" using view_glyph [OF 3] v2 by simp
  have v4: "cursor_view s4 = cursor_view s1" using 4 v3 by (auto simp: bind_eq_Some_conv dest!: view_combines split: if_splits)
  have "calm s4" using calm_view_eq [OF v4] c1 by simp
  from advance_calm [OF this assms(3), of "m_autowrap (st_mode s4)"] view_fields [OF v4] show ?thesis unfolding 5 by (simp only:)
qed

lemma print_glyphs_calm:
  "print_glyphs cbs gs st = Some st' \<Longrightarrow> calm st \<Longrightarrow> \<forall>g \<in> set gs. 0 \<le> glyph_width g \<Longrightarrow> calm st'"
  by (induction gs arbitrary: st) (auto simp: bind_eq_Some_conv dest: print_glyph_calm)

lemma text_calm:
  assumes "on_text cbs u bytes len st = Some (n, st')" "calm st"
    and widths: "decode_text u bytes len st = Some (st1, cps, k)" "\<forall>c \<in> set cps. 0 \<le> vterm_unicode_width c"
  shows "calm st'"
proof -
  define merge where "merge \<longleftrightarrow> cps \<noteq> [] \<and> vterm_unicode_is_combining (hd cps) \<and> pos_row (st_pos st1) = pos_row (combine_pos st1)
    \<and> pos_col (st_pos st1) = pos_col (combine_pos st1) + combine_width st1"
  from assms(1) widths(1) obtain s2 s3 where
    2: "(if merge then merge_combining cbs (takeWhile vterm_unicode_is_combining cps) st1 else Some st1) = Some s2"
    and 3: "print_glyphs cbs (glyphs (if merge then dropWhile vterm_unicode_is_combining cps else cps)) s2 = Some s3"
    and 4: "st' = updatecursor cbs (st_pos st) False s3"
    by (simp add: on_text_def Let_def bind_eq_Some_conv merge_def) blast
  have "cursor_view s2 = cursor_view st" using 2 view_decode [OF widths(1)] view_merge by (fastforce split: if_splits)
  with assms(2) have c: "calm s2" using calm_view_eq by blast
  have "0 \<le> glyph_width g" if "g \<in> set (glyphs cs)" "set cs \<subseteq> set cps" for g cs
    using glyphs_chars [OF that(1)] that(2) widths(2) by (intro glyph_width_nonneg) blast
  moreover have "set (dropWhile vterm_unicode_is_combining cps) \<subseteq> set cps" using set_dropWhileD by fast
  ultimately have "\<forall>g \<in> set (glyphs (if merge then dropWhile vterm_unicode_is_combining cps else cps)). 0 \<le> glyph_width g" by auto
  from print_glyphs_calm [OF 3 c this] 4 show ?thesis by simp
qed

subsection \<open>Escape sequences, control sequences, size\<close>

lemma view_savepen [simp]: "cursor_view (vterm_state_savepen cbs b st) = cursor_view st"
  by (simp add: vterm_state_savepen_def cursor_view_def on_screen_def Let_def)

lemma view_save: "cursor_view (savecursor cbs True st) = (st_rows st, st_cols st, st_pos st, st_pos st, m_origin (st_mode st))"
  by (simp add: savecursor_def Let_def) (simp add: cursor_view_def)

lemma view_restore:
  "cursor_view (savecursor cbs False st) = (st_rows st, st_cols st, sv_pos (st_saved st), sv_pos (st_saved st), m_origin (st_mode st))"
  by (simp add: savecursor_def Let_def) (simp add: cursor_view_def)

lemma view_reset:
  assumes "vterm_state_reset cbs u hard st = Some s"
  shows "cursor_view s = (st_rows st, st_cols st, (if hard then \<lparr>pos_row = 0, pos_col = 0\<rparr> else st_pos st), sv_pos (st_saved st), False)"
proof -
  from assms obtain tabs where t: "ofold reset_tabstop [0..st_cols st - 1] (tabstops st) = Some tabs"
    by (auto simp: vterm_state_reset_def bind_eq_Some_conv)
  define s1 where "s1 = vterm_state_resetpen cbs (st\<lparr>scrollregion_start := 0, scrollregion_end := - 1, tabstops := tabs, st_mode := reset_mode\<rparr>)"
  define e where "e = (if u then vterm_lookup_encoding ENC_UTF8 0x75 else vterm_lookup_encoding ENC_SINGLE_94 0x42)"
  define s2 where "s2 = cursor_props cbs (s1\<lparr>st_encoding := map (reset_encoding e) (st_encoding s1), gl_set := 0, gr_set := 0\<rparr>)"
  have 1: "cursor_view s1 = (st_rows st, st_cols st, st_pos st, sv_pos (st_saved st), False)"
    by (simp add: s1_def) (simp add: cursor_view_def reset_mode_def)
  have "cursor_view s2 = cursor_view s1" by (simp add: s2_def)
  with 1 have 2: "cursor_view s2 = (st_rows st, st_cols st, st_pos st, sv_pos (st_saved st), False)" by simp
  from assms have s: "s = (if hard then st_erase cbs (whole_screen s2) (s2\<lparr>st_pos := \<lparr>pos_row = 0, pos_col = 0\<rparr>, at_phantom := False\<rparr>) else s2)"
    unfolding vterm_state_reset_def t bind.bind_lunit Let_def s2_def [symmetric] s1_def [symmetric] e_def [symmetric] by simp
  have "cursor_view (s2\<lparr>st_pos := p, at_phantom := False\<rparr>) = (st_rows st, st_cols st, p, sv_pos (st_saved st), False)" for p
    using 2 by (simp add: cursor_view_def)
  with 2 s show ?thesis by simp
qed

lemma escape_calm:
  assumes "on_escape cbs u bytes len st = Some (h, st')" "calm st"
  shows "calm st'"
proof -
  note c = calmD [OF assms(2)]
  have saved: "calm (savecursor cbs b st)" for b
    using c by (cases b) (simp_all add: calm_def calm_view_def view_save view_restore)
  have reset: "calm (on_screen f s)" if "vterm_state_reset cbs u True st = Some s" for f s
    using view_reset [OF that] c by (simp add: calm_def calm_view_def) (simp add: inside_def)
  have aln: "calm s" if "DECALN cbs st = Some s" for s using calm_view_eq [OF view_DECALN [OF that]] assms(2) by simp
  have sel: "calm s" if "select_encoding n b st = Some s" for n b s using calm_view_eq [OF view_select [OF that]] assms(2) by simp
  have same: "calm (st\<lparr>gl_set := n\<rparr>)" "calm (st\<lparr>st_mode := (st_mode st)\<lparr>m_keypad := b\<rparr>\<rparr>)" for n b
    using assms(2) by (simp_all add: calm_def) (simp_all add: cursor_view_def)
  from assms(1) show ?thesis
    unfolding on_escape_def
    by (auto simp: bind_eq_Some_conv saved reset aln sel same assms(2) split: if_splits) (use assms(2) in simp)+
qed

text \<open>A control sequence leaves the size alone; the saved position is the old one or that of the cursor.\<close>

definition saved_view :: "'c vtstate \<Rightarrow> int \<times> int \<times> vpos" where
  "saved_view st = (st_rows st, st_cols st, sv_pos (st_saved st))"

definition saved_from :: "'c vtstate \<Rightarrow> 'c vtstate \<Rightarrow> bool" where
  "saved_from st s \<longleftrightarrow> saved_view s = saved_view st \<or> saved_view s = (st_rows st, st_cols st, st_pos st)"

lemma saved_from_view: "cursor_view s = cursor_view st \<Longrightarrow> saved_from st s"
  by (simp add: cursor_view_def saved_from_def saved_view_def)

lemma saved_from_same: "saved_view s = saved_view st \<Longrightarrow> saved_from st s"
  by (simp add: saved_from_def)

lemma saved_from_refl [simp]: "saved_from st st"
  by (simp add: saved_from_def)

lemma move_saved: "csi_move key args st = Some s \<Longrightarrow> saved_from st s"
  by (intro saved_from_same) (auto simp: csi_move_def move_to_def saved_view_def bind_eq_Some_conv Let_def split: if_splits)

lemma tab_saved: "tab n d st = Some s \<Longrightarrow> saved_view s = saved_view st"
  by (induction n arbitrary: st) (auto simp: saved_view_def set_col_def bind_eq_Some_conv)

lemma savecursor_saved: "saved_from st (savecursor cbs b st)"
  using view_save [of cbs st] view_restore [of cbs st] by (cases b) (simp_all add: saved_from_def saved_view_def cursor_view_def)

lemma view_modes [simp]:
  "cursor_view (st\<lparr>st_mode := (st_mode st)\<lparr>m_cursor := b\<rparr>\<rparr>) = cursor_view st"
  "cursor_view (st\<lparr>st_mode := (st_mode st)\<lparr>m_autowrap := b\<rparr>\<rparr>) = cursor_view st"
  "cursor_view (st\<lparr>st_mode := (st_mode st)\<lparr>m_cursor_blink := b\<rparr>\<rparr>) = cursor_view st"
  "cursor_view (st\<lparr>st_mode := (st_mode st)\<lparr>m_cursor_visible := b\<rparr>\<rparr>) = cursor_view st"
  by (simp_all add: cursor_view_def)

lemma dec_mode_saved: "saved_from st (set_dec_mode cbs n v st)"
proof -
  have same: "saved_from st s" if "cursor_view s = cursor_view st" for s using saved_from_view [OF that] .
  have origin: "saved_from st (updatecursor cbs q b (st\<lparr>st_pos := p, st_mode := (st_mode st)\<lparr>m_origin := v\<rparr>\<rparr>))" for p q b
  proof -
    have "cursor_view (updatecursor cbs q b (st\<lparr>st_pos := p, st_mode := (st_mode st)\<lparr>m_origin := v\<rparr>\<rparr>)) =
      (st_rows st, st_cols st, p, sv_pos (st_saved st), v)" by (simp add: view_calls(1)) (simp add: cursor_view_def)
    then show ?thesis by (simp add: cursor_view_def saved_from_def saved_view_def)
  qed
  have alt: "saved_from st (savecursor cbs v (altscreen cbs v st))"
    using savecursor_saved [of "altscreen cbs v st" cbs v] view_more(7) [of cbs v st]
    by (simp add: saved_from_def saved_view_def cursor_view_def)
  show ?thesis unfolding set_dec_mode_def Let_def by (auto simp: same origin alt savecursor_saved)
qed

lemma other_saved:
  assumes "csi_other cbs u key args st = Some (h, s)"
  shows "saved_from st s"
proof -
  have tabs: "saved_from st s" if "tab n d st = Some s" for n d by (rule saved_from_same [OF tab_saved [OF that]])
  have reset: "saved_from st s" if "vterm_state_reset cbs u False st = Some s"
    using view_reset [OF that] by (simp add: saved_from_def saved_view_def cursor_view_def)
  have same: "saved_from st (set_mode n b st)" "saved_from st (csi_DSR n st)" "saved_from st (csi_DECSCUSR cbs n st)"
    "saved_from st (csi_DECSTBM args n st)" "saved_from st (vterm_push_output bs st)" for n b bs
    by (rule saved_from_view, simp)+
  have pen: "saved_from st s" if "vterm_state_setpen cbs args st = Some s" by (rule saved_from_view [OF view_setpen [OF that]])
  have tbc: "saved_from st s" if "csi_TBC v st = Some (h, s)" for v h by (rule saved_from_view [OF view_TBC [OF that]])
  from assms show ?thesis unfolding csi_other_def Let_def handled_if_def
    by (auto simp: bind_eq_Some_conv tabs reset same pen tbc dec_mode_saved savecursor_saved split: if_splits)
qed

lemma switch_saved:
  assumes "csi_switch cbs u key args st = Some (h, s)"
  shows "saved_from st s"
proof -
  have "saved_from st s" if "csi_edit cbs key args st = Some (h, s)" by (rule saved_from_view [OF view_edit [OF that]])
  with assms show ?thesis
    by (auto simp: csi_switch_def handled_if_def move_saved other_saved split: if_splits)
qed

lemma switch_refused:
  assumes "csi_switch cbs u key args st = Some (False, s)"
  shows "s = st"
  using assms unfolding csi_switch_def csi_other_def csi_edit_def csi_TBC_def csi_EL_def handled_if_def Let_def
  by (auto simp: bind_eq_Some_conv split: if_splits)

lemma clamp_range: "lo \<le> hi \<Longrightarrow> lo \<le> clamp lo hi v \<and> clamp lo hi v \<le> hi"
  by (simp add: clamp_def Let_def)

lemma csi_calm:
  assumes "on_csi cbs u leader args intermed command st = Some (h, st')" "calm st" "\<not> m_origin (st_mode st')"
  shows "calm st'"
proof (cases "csi_key leader intermed command")
  case None
  with assms show ?thesis by (simp add: on_csi_def)
next
  case (Some key)
  with assms(1) obtain b s where s: "csi_switch cbs u key args st = Some (b, s)"
    "(if b then finish cbs (st_pos st) (bound_cursor s) else Some (False, s)) = Some (h, st')"
    by (auto simp: on_csi_def bind_eq_Some_conv)
  show ?thesis
  proof (cases b)
    case True
    with s(2) have st': "st' = updatecursor cbs (st_pos st) True (bound_cursor s)" by (simp add: finish_def)
    then have "m_origin (st_mode st') = m_origin (st_mode (bound_cursor s))"
      using view_calls(1) [of cbs "st_pos st" True "bound_cursor s"] by (simp add: cursor_view_def)
    with assms(3) have o: "\<not> m_origin (st_mode s)" by (simp add: bound_cursor_def Let_def)
    from switch_saved [OF s(1)] calmD [OF assms(2)] have v: "1 \<le> st_rows s" "1 \<le> st_cols s" "inside (st_rows s) (st_cols s) (sv_pos (st_saved s))"
      by (auto simp: saved_from_def saved_view_def)
    have "calm (bound_cursor s)"
      using v o clamp_range [of 0 "st_rows s - 1" "pos_row (st_pos s)"] clamp_range [of 0 "st_cols s - 1" "pos_col (st_pos s)"]
      by (simp add: bound_cursor_def Let_def calm_defs)
    with st' show ?thesis by simp
  next
    case False
    with s(1) have "csi_switch cbs u key args st = Some (False, s)" by simp
    from switch_refused [OF this] s(2) False assms(2) show ?thesis by simp
  qed
qed

lemma resize_calm:
  assumes "on_resize cbs rows cols st = Some st'" "calm st" "1 \<le> rows" "1 \<le> cols" "inside rows cols (sv_pos (st_saved st))"
  shows "calm st'"
proof -
  note c = calmD [OF assms(2)]
  from assms(1) obtain s0 where s0: "resize_tabstops cols st = Some s0" by (auto simp: on_resize_def bind_eq_Some_conv)
  then have v: "cursor_view s0 = cursor_view st" by (auto simp: resize_tabstops_def bind_eq_Some_conv split: if_splits)
  define row where "row = (if pos_row (st_pos st) \<ge> rows then rows - 1 else pos_row (st_pos st))"
  define col where "col = (if pos_col (st_pos st) \<ge> cols then cols - 1 else pos_col (st_pos st))"
  define free where "free \<longleftrightarrow> at_phantom st \<and> col < cols - 1"
  define s1 where "s1 = s0\<lparr>st_rows := rows, st_cols := cols, st_pos := \<lparr>pos_row = row, pos_col = (if free then col + 1 else col)\<rparr>,
    at_phantom := at_phantom st \<and> \<not> free\<rparr>"
  have st': "st' = updatecursor cbs (st_pos st) True (on_screen (sc_resize cbs rows cols) s1)"
    using assms(1) unfolding on_resize_def s0 bind.bind_lunit Let_def row_def [symmetric] col_def [symmetric] free_def [symmetric] s1_def [symmetric]
    by simp
  have "cursor_view s1 = (rows, cols, \<lparr>pos_row = row, pos_col = (if free then col + 1 else col)\<rparr>, sv_pos (st_saved st), m_origin (st_mode st))"
    using v by (simp add: s1_def cursor_view_def)
  moreover have "inside rows cols \<lparr>pos_row = row, pos_col = (if free then col + 1 else col)\<rparr>"
    using c(3) assms(3,4) by (auto simp: inside_def row_def col_def free_def)
  ultimately show ?thesis using assms(3-5) c(5) by (simp add: st' calm_def) (auto simp add: calm_view_def)
qed

subsection \<open>The cursor stays on the screen\<close>

text \<open>
  Calls the parser makes from a hard reset on. A text may only hold characters with a width, a control
  sequence may not switch origin mode on, and a new size has at least one cell and holds the saved position.
\<close>

inductive cursor_run :: "'c state_callbacks \<Rightarrow> bool \<Rightarrow> 'c vtstate \<Rightarrow> bool" for cbs u where
  Start: "vterm_state_reset cbs u True (vterm_obtain_state rows cols scr) = Some st \<Longrightarrow> 1 \<le> rows \<Longrightarrow> 1 \<le> cols \<Longrightarrow> cursor_run cbs u st"
| Printed: "cursor_run cbs u st \<Longrightarrow> on_text cbs u bytes len st = Some (n, st') \<Longrightarrow> decode_text u bytes len st = Some (st1, cps, k)
    \<Longrightarrow> \<forall>c \<in> set cps. 0 \<le> vterm_unicode_width c \<Longrightarrow> cursor_run cbs u st'"
| Control: "cursor_run cbs u st \<Longrightarrow> on_control cbs b st = Some (h, st') \<Longrightarrow> cursor_run cbs u st'"
| Escape: "cursor_run cbs u st \<Longrightarrow> on_escape cbs u bytes len st = Some (h, st') \<Longrightarrow> cursor_run cbs u st'"
| Sequence: "cursor_run cbs u st \<Longrightarrow> on_csi cbs u leader args intermed command st = Some (h, st') \<Longrightarrow> \<not> m_origin (st_mode st')
    \<Longrightarrow> cursor_run cbs u st'"
| Osc: "cursor_run cbs u st \<Longrightarrow> on_osc cbs str len st = Some (h, st') \<Longrightarrow> cursor_run cbs u st'"
| Dcs: "cursor_run cbs u st \<Longrightarrow> on_dcs str len st = Some (h, st') \<Longrightarrow> cursor_run cbs u st'"
| Size: "cursor_run cbs u st \<Longrightarrow> on_resize cbs rows cols st = Some st' \<Longrightarrow> 1 \<le> rows \<Longrightarrow> 1 \<le> cols
    \<Longrightarrow> inside rows cols (sv_pos (st_saved st)) \<Longrightarrow> cursor_run cbs u st'"

lemma reset_calm:
  assumes "vterm_state_reset cbs u True (vterm_obtain_state rows cols scr) = Some st" "1 \<le> rows" "1 \<le> cols"
  shows "calm st"
  using view_reset [OF assms(1)] assms(2,3) by (simp add: calm_def calm_view_def) (simp add: vterm_obtain_state_def inside_def)

lemma cursor_run_calm: "cursor_run cbs u st \<Longrightarrow> calm st"
proof (induction rule: cursor_run.induct)
  case (Osc st str len h st')
  then show ?case using calm_view_eq [OF view_osc [OF Osc(2)]] by simp
next
  case (Dcs st str len h st')
  then show ?case using calm_view_eq [OF view_dcs [OF Dcs(2)]] by simp
qed (blast intro: reset_calm text_calm control_calm escape_calm csi_calm resize_calm)+

text \<open>
  C8: From a hard reset on, the cursor is on the screen after every call of the parser, as long as texts hold
  characters with a width, no control sequence switches origin mode on and a new size has at least one cell
  and holds the saved position: the sums that move the cursor never take it outside.
\<close>

theorem cursor_stays_inside:
  assumes "cursor_run cbs u st"
  shows "inside (st_rows st) (st_cols st) (st_pos st)"
  by (rule calmD(3) [OF cursor_run_calm [OF assms]])

theorem cursor_stays_inside_witness:
  "\<exists>st st'. vterm_state_reset state_cbs False True (vterm_obtain_state 2 3 (screen_new 2 3)) = Some st
    \<and> on_csi state_cbs False None [7, 9] None 0x48 st = Some (True, st') \<and> inside (st_rows st') (st_cols st') (st_pos st')"
proof -
  obtain st where st: "vterm_state_reset state_cbs False True (vterm_obtain_state 2 3 (screen_new 2 3)) = Some st"
    using state_reset_defined [OF screen.obtain_state_inv [of 2 3 "screen_new 2 3"], of False True]
      screen_new_ok [of 2 3] screen_new_fields [of 2 3] by (auto simp: screen_new_def)
  have o: "\<not> m_origin (st_mode st)" using calmD(5) [OF reset_calm [OF st]] by simp
  have "csi_move 0x48 [7, 9] st = Some (st\<lparr>st_pos := \<lparr>pos_row = 6, pos_col = 8\<rparr>, at_phantom := False\<rparr>)"
    using o by (simp add: csi_move_def move_to_def origin_row_def second_arg_def CSI_ARG_OR_def CSI_ARG_def CSI_ARG_MISSING_def int_range_def)
  then obtain st' where st': "on_csi state_cbs False None [7, 9] None 0x48 st = Some (True, st')" "\<not> m_origin (st_mode st')"
    using o by (auto simp: on_csi_def csi_key_def csi_switch_def csi_moves_def handled_if_def finish_def bound_cursor_def state_cbs_def updatecursor_def on_screen_def Let_def)
  have "cursor_run state_cbs False st'" by (rule cursor_run.Sequence [OF cursor_run.Start [OF st] st']) simp_all
  from cursor_stays_inside [OF this] st st' show ?thesis by blast
qed

text \<open>
  C9: Origin mode without a scrolling region puts the cursor two rows above the screen: its row is bounded by
  the end of the region less one, and no region ends at -1.
\<close>

theorem origin_mode_leaves_screen:
  assumes "scrollregion_start st = 0" "scrollregion_end st = - 1" "1 \<le> st_cols st"
  shows "\<exists>st'. on_csi cbs u (Some [0x3f]) [6] None 0x68 st = Some (True, st') \<and> st_pos st' = \<lparr>pos_row = - 2, pos_col = 0\<rparr>"
  using assms
  by (simp add: on_csi_def csi_key_def csi_switch_def csi_moves_def csi_edits_def csi_other_def CSI_ARG_IS_MISSING_def CSI_ARG_def CSI_ARG_MISSING_def
      set_dec_mode_def Let_def finish_def bound_cursor_def clamp_def updatecursor_def on_screen_def)

text \<open>A back tab in column 0 looks for a tab stop left of it, in front of the array.\<close>

lemma count_positive: "1 \<le> CSI_ARG_COUNT a"
proof -
  have "0 \<le> CSI_ARG a" by (simp add: CSI_ARG_def)
  then show ?thesis by (auto simp: CSI_ARG_COUNT_def)
qed

lemma back_tab_reads_before:
  assumes "pos_col (st_pos st) = 0" "1 < st_cols st"
  shows "on_csi cbs u None [a] None 0x5a st = None"
proof -
  obtain n where n: "nat (CSI_ARG_COUNT a) = Suc n" using count_positive [of a] by (cases "nat (CSI_ARG_COUNT a)") auto
  have "tab_to_stop (tabstops st) (st_cols st) (- 1) 0 = None"
    using assms(2) by (subst tab_to_stop.simps) (simp add: is_col_tabstop_def arr_get_def)
  with n assms(1) have "tab (nat (CSI_ARG_COUNT a)) (- 1) st = None" by simp
  then show ?thesis by (simp add: on_csi_def csi_key_def csi_switch_def csi_moves_def csi_edits_def csi_other_def handled_if_def)
qed

theorem origin_mode_leaves_screen_witness:
  "\<exists>st st'. vterm_state_reset state_cbs False True (vterm_obtain_state 2 3 (screen_new 2 3)) = Some st
    \<and> on_csi state_cbs False (Some [0x3f]) [6] None 0x68 st = Some (True, st') \<and> st_pos st' = \<lparr>pos_row = - 2, pos_col = 0\<rparr>"
proof -
  have i: "screen.inv 2 3 (vterm_obtain_state 2 3 (screen_new 2 3))"
    using screen_new_ok [of 2 3] screen_new_fields [of 2 3] by (intro screen.obtain_state_inv) (auto simp: screen_new_def)
  then obtain st where st: "vterm_state_reset state_cbs False True (vterm_obtain_state 2 3 (screen_new 2 3)) = Some st" "screen.inv 2 3 st"
    using state_reset_defined by blast
  have "ended (st_screen (vterm_obtain_state 2 3 (screen_new 2 3)))" using screen_new_ended [of 2 3] by (simp add: vterm_obtain_state_def)
  with hard_reset_fields [OF st(1) i] have f: "scrollregion_start st = 0" "scrollregion_end st = - 1" by simp_all
  have "1 \<le> st_cols st" using st(2) by (simp add: screen.inv_def)
  from origin_mode_leaves_screen [OF f this, of state_cbs False] st(1) show ?thesis by blast
qed

end
