(* ===== verification/HostOutput.thy ===== *)
theory HostOutput
  imports Emulator
begin

section \<open>What the host's output does\<close>

text \<open>
  Properties of the emulator as a whole: its parts stay in step, text reaches the cells at the cursor, a
  line feed on the last line hands the top line to the program.
\<close>

subsection \<open>All emulators\<close>

inductive emulator_reached :: "int \<Rightarrow> int \<Rightarrow> emu_state vterm \<Rightarrow> bool" where
  Start: "0 \<le> rows \<Longrightarrow> 0 \<le> cols \<Longrightarrow> emulator_new rows cols = Some vt \<Longrightarrow> emulator_reached rows cols vt"
| Output: "emulator_reached rows cols vt \<Longrightarrow> emulator_push bytes vt = Some (calls, vt') \<Longrightarrow> emulator_reached rows cols vt'"
| Size: "emulator_reached r c vt \<Longrightarrow> 0 \<le> rows \<Longrightarrow> 0 \<le> cols \<Longrightarrow> vterm_set_size rows cols vt = Some (calls, vt') \<Longrightarrow> emulator_reached rows cols vt'"

lemma emulator_reached_ok: "emulator_reached rows cols vt \<Longrightarrow> emulator_ok rows cols vt"
proof (induction rule: emulator_reached.induct)
  case (Start rows cols vt)
  with emulator_new_fresh [OF Start(1,2)] show ?case by (auto simp: fresh_def)
qed (blast intro: keeps)+

text \<open>
  C4: Whatever the host sends and however the window changes, the state and the screen of the emulator have
  the same size and the same pen, and the cells always fit the size.
\<close>

theorem emulator_in_step:
  assumes "emulator_reached rows cols vt"
  shows "st_rows (cbdata vt) = rows \<and> st_cols (cbdata vt) = cols \<and> scr_rows (emulator_screen vt) = rows \<and> scr_cols (emulator_screen vt) = cols
    \<and> scr_pen (emulator_screen vt) = st_pen (cbdata vt) \<and> length (scr_buffer (emulator_screen vt)) = nat rows * nat cols"
proof -
  have i: "screen.inv rows cols (cbdata vt)" using emulator_reached_ok [OF assms] by (simp add: emulator_ok_def)
  then have "buffer_ok (scr_rows (st_screen (cbdata vt))) (scr_cols (st_screen (cbdata vt))) (scr_buffer (st_screen (cbdata vt)))"
    by (intro buffer_shape) (simp add: screen.inv_def)
  with i show ?thesis by (simp add: screen.inv_def emulator_screen_def buffer_ok_def)
qed

theorem emulator_in_step_witness:
  "\<exists>vt. emulator_new 2 3 = Some vt \<and> st_rows (cbdata vt) = 2 \<and> st_cols (cbdata vt) = 3 \<and> scr_rows (emulator_screen vt) = 2 \<and> scr_cols (emulator_screen vt) = 3
    \<and> scr_pen (emulator_screen vt) = st_pen (cbdata vt) \<and> length (scr_buffer (emulator_screen vt)) = nat 2 * nat 3"
proof -
  from emulator_new_fresh [of 2 3] obtain vt where vt: "emulator_new 2 3 = Some vt" by auto
  from emulator_in_step [OF Start [OF _ _ this]] vt show ?thesis by auto
qed

subsection \<open>Plain text\<close>

lemma combining_high: "\<forall>iv\<in>set combining. 0x300 \<le> fst iv"
  by code_simp

lemma low_not_combining: "c < 0x300 \<Longrightarrow> \<not> vterm_unicode_is_combining c"
  using combining_high unfolding vterm_unicode_is_combining_def bisearch_in_table [OF combining_ok] in_interval_def by fastforce

definition printable :: "int \<Rightarrow> bool" where
  "printable c \<longleftrightarrow> 0x20 \<le> c \<and> c < 0x7f"

lemma printable_simps:
  assumes "printable c"
  shows "\<not> vterm_unicode_is_combining c" "vterm_unicode_width c = 1" "glyph_width [c] = 1" "(word_of_int c :: u32) \<noteq> 0"
proof -
  show 1: "\<not> vterm_unicode_is_combining c" using assms by (intro low_not_combining) (simp add: printable_def)
  then show "vterm_unicode_width c = 1" using assms by (simp add: vterm_unicode_width_def mk_wcwidth_def wide_def printable_def)
  then show "glyph_width [c] = 1" by (simp add: glyph_width_def)
  have "uint (word_of_int c :: u32) = c" using assms by (simp add: uint_word_of_int printable_def)
  then show "(word_of_int c :: u32) \<noteq> 0" using assms by (auto simp: printable_def)
qed

lemma printable_glyphs: "\<forall>c\<in>set cs. printable c \<Longrightarrow> glyphs cs = map (\<lambda>c. [c]) cs"
proof (induction cs)
  case (Cons c cs)
  have "takeWhile vterm_unicode_is_combining cs = [] \<and> dropWhile vterm_unicode_is_combining cs = cs"
    using Cons.prems by (cases cs) (auto simp: printable_simps)
  with Cons show ?case by simp
qed simp

lemma save_glyph:
  assumes "16 \<le> length (combine_chars st)" "combine_chars_size st = 16"
  shows "\<exists>k. put_combines 0 [w] st = Some (st\<lparr>combine_chars := k\<rparr>) \<and> 16 \<le> length k"
  using assms by (auto simp: put_combine_def arr_set_def)

lemma print_char:
  assumes i: "screen.inv rows cols st" and "\<not> at_phantom st" "\<not> m_insert (st_mode st)" "printable c"
    "st_pos st = \<lparr>pos_row = row, pos_col = col\<rparr>" "0 \<le> row" "row < rows" "0 \<le> col" "col + 1 < cols"
  shows "\<exists>st'. print_glyph state_cbs final [c] st = Some st' \<and> screen.inv rows cols st'
    \<and> st_pos st' = \<lparr>pos_row = row, pos_col = col + 1\<rparr> \<and> \<not> at_phantom st' \<and> st_mode st' = st_mode st \<and> st_pen st' = st_pen st
    \<and> scr_calls (st_screen st') = scr_calls (st_screen st)
    \<and> (\<forall>r k. on_screen_at (st_screen st) r k \<longrightarrow> cell_at (st_screen st') r k =
        (if r = row \<and> k = col then put_chars (st_pen st) [word_of_int c] (cell_at (st_screen st) r k) else cell_at (st_screen st) r k))"
proof -
  let ?s = "st_screen st" and ?p = "\<lparr>pos_row = row, pos_col = col\<rparr>"
  note pr = printable_simps [OF assms(4)]
  have s: "screen_ok ?s" "scr_pen ?s = st_pen st" "scr_rows ?s = rows" "scr_cols ?s = cols" "st_cols st = cols"
    "16 \<le> length (combine_chars st)" "combine_chars_size st = 16"
    using i by (simp_all add: screen.inv_def state_ok_def)
  have on: "on_screen_at ?s row col" using assms s by (simp add: on_screen_at_def)
  have new: "copy_chars VTERM_MAX_CHARS_PER_CELL [word_of_int c, 0] = Some [word_of_int c]"
    using pr(4) by (simp add: VTERM_MAX_CHARS_PER_CELL_def numeral_eq_Suc)
  from putglyph_table [OF s(1) new, of ?p 1] on s(2) obtain s' where
    put: "putglyph [word_of_int c, 0] 1 ?p ?s = Some s'" and s': "scr_calls s' = scr_calls ?s"
    and cells: "\<forall>r k. on_screen_at ?s r k \<longrightarrow> cell_at s' r k =
        (if r = row \<and> k = col then put_chars (st_pen st) [word_of_int c] (cell_at ?s r k) else cell_at ?s r k)"
    by auto
  let ?st3 = "st\<lparr>st_screen := s'\<rparr>"
  obtain k where k: "put_combines 0 [word_of_int c] ?st3 = Some (?st3\<lparr>combine_chars := k\<rparr>)"
    using save_glyph [of ?st3] s(6,7) by auto
  have tw: "takeWhile (\<lambda>x. x \<noteq> 0) (glyph_chars [c]) = [word_of_int c]" using pr(4) by (simp add: glyph_chars_def)
  let ?st4 = "if final then ?st3\<lparr>combine_chars := k, combine_width := 1, combine_pos := ?p\<rparr> else ?st3"
  have "print_glyph state_cbs final [c] st = Some (set_col (col + 1) ?st4)"
    using assms put k pr(3) tw s(5) by (simp add: print_glyph_def st_putglyph_def try_screen_def state_cbs_def glyph_chars_def Let_def)
  moreover from screen.print_glyph_inv [OF this i] have "screen.inv rows cols (set_col (col + 1) ?st4)" .
  ultimately show ?thesis using assms cells s' by (auto simp: set_col_def)
qed

lemma print_chars:
  assumes "screen.inv rows cols st" "\<not> at_phantom st" "\<not> m_insert (st_mode st)" "\<forall>c\<in>set cs. printable c"
    "st_pos st = \<lparr>pos_row = row, pos_col = col\<rparr>" "0 \<le> row" "row < rows" "0 \<le> col" "col + int (length cs) < cols"
  shows "\<exists>st'. print_glyphs state_cbs (map (\<lambda>c. [c]) cs) st = Some st' \<and> screen.inv rows cols st'
    \<and> st_pos st' = \<lparr>pos_row = row, pos_col = col + int (length cs)\<rparr> \<and> st_mode st' = st_mode st \<and> st_pen st' = st_pen st
    \<and> scr_calls (st_screen st') = scr_calls (st_screen st)
    \<and> (\<forall>r k. on_screen_at (st_screen st) r k \<longrightarrow> cell_at (st_screen st') r k =
        (if r = row \<and> col \<le> k \<and> k < col + int (length cs)
         then put_chars (st_pen st) [word_of_int (cs ! nat (k - col))] (cell_at (st_screen st) r k) else cell_at (st_screen st) r k))"
  using assms
proof (induction cs arbitrary: st col)
  case (Cons c cs)
  from print_char [OF Cons.prems(1-3) _ Cons.prems(5-8), of c "cs = []"] Cons.prems(4,9) obtain s1 where
    1: "print_glyph state_cbs (cs = []) [c] st = Some s1" "screen.inv rows cols s1" "st_pos s1 = \<lparr>pos_row = row, pos_col = col + 1\<rparr>"
    "\<not> at_phantom s1" "st_mode s1 = st_mode st" "st_pen s1 = st_pen st" "scr_calls (st_screen s1) = scr_calls (st_screen st)"
    and c1: "\<And>r k. on_screen_at (st_screen st) r k \<Longrightarrow> cell_at (st_screen s1) r k =
        (if r = row \<and> k = col then put_chars (st_pen st) [word_of_int c] (cell_at (st_screen st) r k) else cell_at (st_screen st) r k)"
    by auto
  from Cons.IH [OF 1(2,4) _ _ 1(3)] 1(5) Cons.prems obtain s2 where
    2: "print_glyphs state_cbs (map (\<lambda>c. [c]) cs) s1 = Some s2" "screen.inv rows cols s2"
    "st_pos s2 = \<lparr>pos_row = row, pos_col = col + 1 + int (length cs)\<rparr>" "st_mode s2 = st_mode s1" "st_pen s2 = st_pen s1"
    "scr_calls (st_screen s2) = scr_calls (st_screen s1)"
    and c2: "\<And>r k. on_screen_at (st_screen s1) r k \<Longrightarrow> cell_at (st_screen s2) r k =
        (if r = row \<and> col + 1 \<le> k \<and> k < col + 1 + int (length cs)
         then put_chars (st_pen s1) [word_of_int (cs ! nat (k - (col + 1)))] (cell_at (st_screen s1) r k) else cell_at (st_screen s1) r k)"
    by auto
  have on: "on_screen_at (st_screen s1) = on_screen_at (st_screen st)"
    using 1(2) Cons.prems(1) by (simp add: screen.inv_def on_screen_at_def fun_eq_iff)
  have "cell_at (st_screen s2) r k = (if r = row \<and> col \<le> k \<and> k < col + int (length (c # cs))
         then put_chars (st_pen st) [word_of_int ((c # cs) ! nat (k - col))] (cell_at (st_screen st) r k) else cell_at (st_screen st) r k)"
    if o: "on_screen_at (st_screen st) r k" for r k
  proof (cases "r = row \<and> col + 1 \<le> k \<and> k < col + 1 + int (length cs)")
    case True
    then have "nat (k - col) = Suc (nat (k - (col + 1)))" by (simp add: nat_eq_iff Suc_nat_eq_nat_zadd1)
    with True show ?thesis using c1 [OF o] c2 [of r k] o on 1(6) by simp
  next
    case False
    then have "(r = row \<and> k = col) = (r = row \<and> col \<le> k \<and> k < col + int (length (c # cs)))" by auto
    with False show ?thesis using c1 [OF o] c2 [of r k] o on by auto
  qed
  with 1 2 show ?case by simp
qed auto

definition printable_byte :: "byte \<Rightarrow> bool" where
  "printable_byte b \<longleftrightarrow> 0x20 \<le> b \<and> b < 0x7f"

lemma printable_uint: "printable_byte b \<Longrightarrow> printable (uint b) \<and> b < 0x80 \<and> \<not> b < 0x20"
  by (auto simp: printable_byte_def printable_def word_le_def word_less_def)

lemma decode_usascii_all:
  "\<forall>b\<in>set bs. printable_byte b \<Longrightarrow> length cp + length bs \<le> n \<Longrightarrow> decode_usascii n bs cp = Some (cp @ map uint bs, length bs)"
proof (induction bs arbitrary: cp)
  case (Cons b bs)
  then show ?case using printable_uint [of b] Cons.IH [of "cp @ [uint b]"] by (simp add: put_cp_room not_le)
qed simp

definition plain_state :: "int \<Rightarrow> int \<Rightarrow> emu_state \<Rightarrow> bool" where
  "plain_state row col st \<longleftrightarrow> st_pos st = \<lparr>pos_row = row, pos_col = col\<rparr> \<and> \<not> at_phantom st \<and> \<not> m_insert (st_mode st)
     \<and> enc (st_encoding st ! gl_set st) = Some Enc_usascii"

lemma on_text_plain:
  assumes "screen.inv rows cols st" "plain_state row col st" "\<forall>b\<in>set bs. printable_byte b" "bs \<noteq> []"
    "0 \<le> row" "row < rows" "0 \<le> col" "col + int (length bs) < cols"
  shows "\<exists>st'. on_text state_cbs u bs (length bs) st = Some (length bs, st') \<and> screen.inv rows cols st'
    \<and> st_pos st' = \<lparr>pos_row = row, pos_col = col + int (length bs)\<rparr> \<and> st_pen st' = st_pen st
    \<and> scr_calls (st_screen st') = scr_calls (st_screen st)
    \<and> (\<forall>r k. on_screen_at (st_screen st) r k \<longrightarrow> cell_at (st_screen st') r k =
        (if r = row \<and> col \<le> k \<and> k < col + int (length bs)
         then put_chars (st_pen st) [ucast (bs ! nat (k - col))] (cell_at (st_screen st) r k) else cell_at (st_screen st) r k))"
proof -
  obtain b bs' where bs: "bs = b # bs'" using assms(4) by (cases bs) auto
  have b: "b < 0x80" using printable_uint [of b] assms(3) bs by simp
  have sets: "length (st_encoding st) = 4" "gl_set st < 4" using assms(1) by (simp_all add: screen.inv_def state_ok_def)
  have ps: "st_pos st = \<lparr>pos_row = row, pos_col = col\<rparr>" "\<not> at_phantom st" "\<not> m_insert (st_mode st)" "enc (st_encoding st ! gl_set st) = Some Enc_usascii"
    using assms(2) by (simp_all add: plain_state_def)
  have "decode_text u bs (length bs) st = Some (st, map uint bs, length bs)"
    using b sets ps(4) decode_usascii_all [OF assms(3), of "[]" "length bs"]
    by (simp add: decode_text_def bs enc_decode_def)
  moreover have cs: "\<forall>c\<in>set (map uint bs). printable c" using assms(3) printable_uint by auto
  moreover have hd: "\<not> vterm_unicode_is_combining (hd (map uint bs))" using cs printable_simps(1) by (simp add: bs)
  moreover from print_chars [OF assms(1) ps(2,3) cs ps(1) assms(5-7)] assms(8) obtain s2 where
    2: "print_glyphs state_cbs (map (\<lambda>c. [c]) (map uint bs)) st = Some s2" "screen.inv rows cols s2"
    "st_pos s2 = \<lparr>pos_row = row, pos_col = col + int (length bs)\<rparr>" "st_pen s2 = st_pen st" "scr_calls (st_screen s2) = scr_calls (st_screen st)"
    and cells: "\<forall>r k. on_screen_at (st_screen st) r k \<longrightarrow> cell_at (st_screen s2) r k =
        (if r = row \<and> col \<le> k \<and> k < col + int (length bs)
         then put_chars (st_pen st) [word_of_int (map uint bs ! nat (k - col))] (cell_at (st_screen st) r k) else cell_at (st_screen st) r k)"
    by auto
  let ?s3 = "updatecursor state_cbs (st_pos st) False s2"
  have s3: "?s3 = s2" by (cases s2) (simp add: updatecursor_def on_screen_def state_cbs_def)
  ultimately have "on_text state_cbs u bs (length bs) st = Some (length bs, s2)"
    using hd 2(1) printable_glyphs [OF cs] assms(4) by (simp add: on_text_def Let_def del: list.map)
  moreover have "word_of_int (map uint bs ! nat (k - col)) = (ucast (bs ! nat (k - col)) :: u32)" if "col \<le> k" "k < col + int (length bs)" for k
    using that by (simp add: nat_less_iff)
  ultimately show ?thesis using 2 cells by auto
qed

subsection \<open>Through the parser\<close>

lemma push_plain_text:
  assumes "parser_state vt = NORMAL" "strbuffer_cur vt = 0" "bs \<noteq> []" "\<forall>b\<in>set bs. printable_byte b"
    "on_text state_cbs (is_utf8 vt) bs (length bs) (cbdata vt) = Some (length bs, st')"
  shows "emulator_push bs vt = Some (scr_calls (st_screen st') @ [CbText bs], forget_calls (vt\<lparr>cbdata := on_screen (log_call (CbText bs)) st'\<rparr>))"
proof -
  obtain b bs' where bs: "bs = b # bs'" using assms(3) by (cases bs) auto
  have b: "\<not> b < 0x20" "b < 0x80" "b \<noteq> 0" "b \<noteq> 0x7f" "b \<noteq> 0x18" "b \<noteq> 0x1a" "b \<noteq> 0x1b" "\<not> 0x80 \<le> b"
    using assms(4) bs printable_uint [of b] by (auto simp: printable_byte_def)
  let ?vt = "vt\<lparr>cbdata := on_screen (log_call (CbText bs)) st'\<rparr>"
  have "do_string_at (parser_callbacks (is_utf8 vt)) program_callbacks bs (length bs) vt = Some (length bs, bs, ?vt)"
    using assms(1,3,5) by (simp add: do_string_at_def do_text_def parser_callbacks_def program_callbacks_def)
  then have "push_byte (parser_callbacks (is_utf8 vt)) program_callbacks (length bs) 0 (None, bs, vt) = Some (Some (length bs - 1), None, bs, ?vt)"
    using assms(1,2,3) b by (simp add: push_byte_def do_string_def bs)
  then have "push_loop (parser_callbacks (is_utf8 vt)) program_callbacks (length bs) 0 (None, bs, vt) = Some (None, bs, ?vt)"
    using assms(3) by (subst push_loop.simps) (simp add: push_loop.simps [of _ _ "length bs" "length bs"])
  then have "vterm_push_bytes (parser_callbacks (is_utf8 vt)) program_callbacks bs (length bs) vt = Some (bs, ?vt)"
    using assms(1) by (simp add: vterm_push_bytes_def)
  then show ?thesis by (simp add: emulator_push_def on_screen_def log_call_def)
qed

text \<open>
  C5: Printable text that fits into the line appears from the cursor on, one character a cell in the pen's
  colours, the cursor moves behind it, no other cell changes, and the program hears the text.
\<close>

theorem text_shown:
  assumes "emulator_ok rows cols vt" "parser_state vt = NORMAL" "strbuffer_cur vt = 0" "plain_state row col (cbdata vt)"
    "\<forall>b\<in>set bs. printable_byte b" "bs \<noteq> []" "0 \<le> row" "row < rows" "0 \<le> col" "col + int (length bs) < cols"
    "scr_calls (emulator_screen vt) = []"
  shows "case emulator_push bs vt of None \<Rightarrow> False | Some (calls, vt') \<Rightarrow> calls = [CbText bs]
    \<and> emulator_cursor vt' = (col + int (length bs), row)
    \<and> (\<forall>r k. on_screen_at (emulator_screen vt) r k \<longrightarrow> cell_at (emulator_screen vt') r k =
        (if r = row \<and> col \<le> k \<and> k < col + int (length bs)
         then put_chars (st_pen (cbdata vt)) [ucast (bs ! nat (k - col))] (cell_at (emulator_screen vt) r k)
         else cell_at (emulator_screen vt) r k))"
proof -
  have i: "screen.inv rows cols (cbdata vt)" using assms(1) by (simp add: emulator_ok_def)
  from on_text_plain [OF i assms(4-10), of "is_utf8 vt"] obtain st' where
    1: "on_text state_cbs (is_utf8 vt) bs (length bs) (cbdata vt) = Some (length bs, st')"
    "st_pos st' = \<lparr>pos_row = row, pos_col = col + int (length bs)\<rparr>" "scr_calls (st_screen st') = scr_calls (st_screen (cbdata vt))"
    "\<forall>r k. on_screen_at (st_screen (cbdata vt)) r k \<longrightarrow> cell_at (st_screen st') r k =
        (if r = row \<and> col \<le> k \<and> k < col + int (length bs)
         then put_chars (st_pen (cbdata vt)) [ucast (bs ! nat (k - col))] (cell_at (st_screen (cbdata vt)) r k) else cell_at (st_screen (cbdata vt)) r k)"
    by blast
  from push_plain_text [OF assms(2,3,6,5) 1(1)] show ?thesis
    using 1(2-4) assms(11) by (simp add: emulator_screen_def emulator_cursor_def forget_calls_def on_screen_def log_call_def)
qed

lemma fresh_plain:
  assumes "fresh rows cols vt"
  shows "emulator_ok rows cols vt" "parser_state vt = NORMAL" "strbuffer_cur vt = 0" "plain_state 0 0 (cbdata vt)"
    "scr_calls (emulator_screen vt) = []"
proof -
  have i: "screen.inv rows cols (cbdata vt)" using assms by (simp add: fresh_def emulator_ok_def)
  then have "st_encoding (cbdata vt) ! gl_set (cbdata vt) \<in> set (st_encoding (cbdata vt))"
    by (intro nth_mem) (simp add: screen.inv_def state_ok_def)
  then show "plain_state 0 0 (cbdata vt)" using assms by (simp add: fresh_def plain_state_def reset_mode_def)
qed (use assms in \<open>simp_all add: fresh_def\<close>)

theorem text_shown_witness:
  "\<exists>vt. emulator_new 2 9 = Some vt \<and> (case emulator_push [0x48, 0x69] vt of None \<Rightarrow> False | Some (calls, vt') \<Rightarrow> calls = [CbText [0x48, 0x69]]
    \<and> emulator_cursor vt' = (0 + int (length [0x48, 0x69 :: byte]), 0)
    \<and> (\<forall>r k. on_screen_at (emulator_screen vt) r k \<longrightarrow> cell_at (emulator_screen vt') r k =
        (if r = 0 \<and> 0 \<le> k \<and> k < 0 + int (length [0x48, 0x69 :: byte])
         then put_chars (st_pen (cbdata vt)) [ucast ([0x48, 0x69 :: byte] ! nat (k - 0))] (cell_at (emulator_screen vt) r k)
         else cell_at (emulator_screen vt) r k)))"
proof -
  from emulator_new_fresh [of 2 9] obtain vt where vt: "emulator_new 2 9 = Some vt" "fresh 2 9 vt" by auto
  note f = fresh_plain [OF vt(2)]
  have "\<forall>b\<in>set [0x48, 0x69]. printable_byte b" by (simp add: printable_byte_def)
  from text_shown [OF f(1-4) this _ _ _ _ _ f(5)] vt(1) show ?thesis by simp
qed

subsection \<open>A line feed on the last line\<close>

lemma push_control:
  assumes "parser_state vt = NORMAL" "b < 0x20" "b \<notin> {0, 0x18, 0x1a, 0x1b}" "on_control state_cbs b (cbdata vt) = Some (h, st')"
  shows "emulator_push [b] vt = Some (scr_calls (st_screen st'), forget_calls (vt\<lparr>cbdata := st'\<rparr>))"
proof -
  have "b \<noteq> 0x7f" using assms(2) by (auto simp: word_less_def)
  then have "push_byte (parser_callbacks (is_utf8 vt)) program_callbacks 1 0 (None, [b], vt) = Some (Some 0, None, [b], vt\<lparr>cbdata := st'\<rparr>)"
    using assms by (simp add: push_byte_def save_fragment_def after_fragment_def do_control_def parser_callbacks_def)
  then have "push_loop (parser_callbacks (is_utf8 vt)) program_callbacks 1 0 (None, [b], vt) = Some (None, [b], vt\<lparr>cbdata := st'\<rparr>)"
    by (subst push_loop.simps) (simp add: push_loop.simps [of _ _ "Suc 0" "Suc 0"])
  then show ?thesis using assms(1) by (simp add: emulator_push_def vterm_push_bytes_def)
qed

lemma linefeed_scrolls:
  assumes i: "screen.inv rows cols st" and "ended (st_screen st)" "pos_row (st_pos st) = rows - 1"
    "scrollregion_start st = 0" "scrollregion_end st = - 1" "2 \<le> rows" "1 \<le> cols"
  shows "\<exists>scr'. linefeed state_cbs st = Some (st\<lparr>st_screen := scr'\<rparr>)
    \<and> scr_calls scr' = scr_calls (st_screen st) @ [CbPrescroll \<lparr>start_row = 0, end_row = 1, start_col = 0, end_col = cols\<rparr> (cell_for_program (st_screen st))]
    \<and> (\<forall>r k. on_screen_at (st_screen st) r k \<longrightarrow> cell_at scr' r k =
        (if r + 1 < rows then cell_at (st_screen st) (r + 1) k else blank (st_pen st) (cell_at (st_screen st) r k)))"
proof -
  let ?s = "st_screen st" and ?R = "\<lparr>start_row = 0, end_row = rows, start_col = 0, end_col = cols\<rparr>"
  have s: "screen_ok ?s" "scr_rows ?s = rows" "scr_cols ?s = cols" "scr_pen ?s = st_pen st" "st_rows st = rows" "st_cols st = cols"
    using i by (simp_all add: screen.inv_def)
  have "rect_on_screen ?s ?R" using s assms(6,7) by (simp add: rect_on_screen_def)
  from scrollrect_table [OF s(1) this assms(2), of 1 0] obtain scr' where
    1: "scrollrect ?R 1 0 ?s = Some scr'" "scr_calls scr' = scr_calls ?s @ scroll_log ?R 1 0 ?s"
    and cells: "\<And>r k. on_screen_at ?s r k \<Longrightarrow> cell_at scr' r k = (if \<not> in_rect ?R r k then cell_at ?s r k
         else if in_rect ?R (r + 1) (k + 0) then cell_at ?s (r + 1) (k + 0) else blank (scr_pen ?s) (cell_at ?s r k))"
    by auto
  have "cell_at scr' r k = (if r + 1 < rows then cell_at ?s (r + 1) k else blank (st_pen st) (cell_at ?s r k))" if "on_screen_at ?s r k" for r k
    using cells [OF that] that s by (simp add: in_rect_def on_screen_at_def)
  moreover have "scroll_log ?R 1 0 ?s = [CbPrescroll \<lparr>start_row = 0, end_row = 1, start_col = 0, end_col = cols\<rparr> (cell_for_program ?s)]"
    using assms(6,7) by (simp add: scroll_log_def scroll_out_def)
  moreover have "linefeed state_cbs st = Some (st\<lparr>st_screen := scr'\<rparr>)"
    using assms s 1(1) by (simp add: linefeed_def SCROLLREGION_END_def scrollregion_def st_scroll_def try_screen_def state_cbs_def)
  ultimately show ?thesis using 1(2) by auto
qed

lemma line_feed_push:
  assumes "emulator_ok rows cols vt" "parser_state vt = NORMAL" "ended (emulator_screen vt)" "scr_calls (emulator_screen vt) = []"
    "emulator_cursor vt = (col, rows - 1)" "scrollregion_start (cbdata vt) = 0" "scrollregion_end (cbdata vt) = - 1"
    "\<not> m_newline (st_mode (cbdata vt))" "2 \<le> rows" "1 \<le> cols"
  shows "case emulator_push [0x0a] vt of None \<Rightarrow> False | Some (calls, vt') \<Rightarrow>
      calls = [CbPrescroll \<lparr>start_row = 0, end_row = 1, start_col = 0, end_col = cols\<rparr> (cell_for_program (emulator_screen vt))]
    \<and> emulator_cursor vt' = (col, rows - 1)
    \<and> (\<forall>r k. on_screen_at (emulator_screen vt) r k \<longrightarrow> cell_at (emulator_screen vt') r k =
        (if r + 1 < rows then cell_at (emulator_screen vt) (r + 1) k else blank (st_pen (cbdata vt)) (cell_at (emulator_screen vt) r k)))"
proof -
  let ?st = "cbdata vt"
  have i: "screen.inv rows cols ?st" using assms(1) by (simp add: emulator_ok_def)
  have row: "pos_row (st_pos ?st) = rows - 1" "pos_col (st_pos ?st) = col" using assms(5) by (simp_all add: emulator_cursor_def)
  from linefeed_scrolls [OF i assms(3) [unfolded emulator_screen_def] row(1) assms(6,7,9,10)] obtain scr' where
    lf: "linefeed state_cbs ?st = Some (?st\<lparr>st_screen := scr'\<rparr>)"
    and c: "scr_calls scr' = scr_calls (st_screen ?st) @ [CbPrescroll \<lparr>start_row = 0, end_row = 1, start_col = 0, end_col = cols\<rparr> (cell_for_program (st_screen ?st))]"
    and cells: "\<forall>r k. on_screen_at (st_screen ?st) r k \<longrightarrow> cell_at scr' r k =
        (if r + 1 < rows then cell_at (st_screen ?st) (r + 1) k else blank (st_pen ?st) (cell_at (st_screen ?st) r k))"
    by blast
  have "on_control state_cbs 0x0a ?st = Some (True, ?st\<lparr>st_screen := scr'\<rparr>)"
    using lf assms(8) by (simp add: on_control_def finish_def updatecursor_def Let_def)
  from push_control [OF assms(2) _ _ this] show ?thesis
    using c cells row assms(4) by (simp add: emulator_screen_def emulator_cursor_def forget_calls_def on_screen_def)
qed

text \<open>
  C6: A line feed on the last line, without a scrolling region, hands exactly the top line, as it was, to the
  program before it goes, moves every line up by one, blanks the last one and leaves the cursor.
\<close>

theorem line_feed_scrolls:
  assumes "emulator_ok rows cols vt" "parser_state vt = NORMAL" "ended (emulator_screen vt)" "scr_calls (emulator_screen vt) = []"
    "emulator_cursor vt = (col, rows - 1)" "scrollregion_start (cbdata vt) = 0" "scrollregion_end (cbdata vt) = - 1"
    "\<not> m_newline (st_mode (cbdata vt))" "2 \<le> rows" "1 \<le> cols"
  shows "case emulator_push [0x0a] vt of None \<Rightarrow> False | Some (calls, vt') \<Rightarrow>
      calls = [CbPrescroll \<lparr>start_row = 0, end_row = 1, start_col = 0, end_col = cols\<rparr> (cell_for_program (emulator_screen vt))]
    \<and> emulator_cursor vt' = (col, rows - 1)
    \<and> (\<forall>r k. on_screen_at (emulator_screen vt) r k \<longrightarrow> cell_at (emulator_screen vt') r k =
        (if r + 1 < rows then cell_at (emulator_screen vt) (r + 1) k else blank (st_pen (cbdata vt)) (cell_at (emulator_screen vt) r k)))"
  by (rule line_feed_push [OF assms])

text \<open>The first line feed on a screen of two lines only moves the cursor.\<close>

lemma fresh_line_feed:
  assumes "fresh 2 cols vt"
  shows "\<exists>vt'. emulator_push [0x0a] vt = Some ([], vt') \<and> emulator_ok 2 cols vt' \<and> parser_state vt' = NORMAL \<and> ended (emulator_screen vt')
    \<and> scr_calls (emulator_screen vt') = [] \<and> emulator_cursor vt' = (0, 1) \<and> scrollregion_start (cbdata vt') = 0
    \<and> scrollregion_end (cbdata vt') = - 1 \<and> \<not> m_newline (st_mode (cbdata vt'))"
proof -
  let ?st = "cbdata vt"
  have st: "st_pos ?st = \<lparr>pos_row = 0, pos_col = 0\<rparr>" "st_mode ?st = reset_mode" "scrollregion_end ?st = - 1" "st_rows ?st = 2" "parser_state vt = NORMAL"
    using assms by (simp_all add: fresh_def emulator_ok_def screen.inv_def)
  let ?st' = "set_row 1 ?st\<lparr>at_phantom := False\<rparr>"
  have "on_control state_cbs 0x0a ?st = Some (True, ?st')"
    using st by (simp add: on_control_def linefeed_def SCROLLREGION_END_def finish_def updatecursor_def set_row_def on_screen_def state_cbs_def reset_mode_def Let_def)
  from push_control [OF st(5) _ _ this]
  have p: "emulator_push [0x0a] vt = Some (scr_calls (st_screen ?st'), forget_calls (vt\<lparr>cbdata := ?st'\<rparr>))" by simp
  have "emulator_ok 2 cols (forget_calls (vt\<lparr>cbdata := ?st'\<rparr>))" using emulator_push_ok [OF p] assms by (simp add: fresh_def)
  with p assms st show ?thesis
    by (simp add: fresh_def forget_calls_def on_screen_def emulator_screen_def emulator_cursor_def set_row_def ended_def reset_mode_def)
qed

theorem line_feed_scrolls_witness:
  "\<exists>vt. case emulator_push [0x0a] vt of None \<Rightarrow> False | Some (calls, vt') \<Rightarrow>
      calls = [CbPrescroll \<lparr>start_row = 0, end_row = 1, start_col = 0, end_col = 3\<rparr> (cell_for_program (emulator_screen vt))]
    \<and> emulator_cursor vt' = (0, 2 - 1)
    \<and> (\<forall>r k. on_screen_at (emulator_screen vt) r k \<longrightarrow> cell_at (emulator_screen vt') r k =
        (if r + 1 < 2 then cell_at (emulator_screen vt) (r + 1) k else blank (st_pen (cbdata vt)) (cell_at (emulator_screen vt) r k)))"
proof -
  from emulator_new_fresh [of 2 3] obtain v0 where "fresh 2 3 v0" by auto
  from fresh_line_feed [OF this] obtain vt where f: "emulator_ok 2 3 vt" "parser_state vt = NORMAL" "ended (emulator_screen vt)"
    "scr_calls (emulator_screen vt) = []" "emulator_cursor vt = (0, 2 - 1)" "scrollregion_start (cbdata vt) = 0"
    "scrollregion_end (cbdata vt) = - 1" "\<not> m_newline (st_mode (cbdata vt))" by auto
  from line_feed_scrolls [OF f] show ?thesis by (intro exI [of _ vt]) simp
qed

end
