(* ===== verification/Sizes.thy ===== *)
theory Sizes
  imports Emulator
begin

section \<open>The size the program is told\<close>

text \<open>
  The program keeps its own number of rows and columns, which it changes when the emulator calls back with
  a size. The contract of the screen, extended by the calls made so far, shows that the last size told is
  the size the screen has.
\<close>

subsection \<open>What a list of calls tells\<close>

fun told :: "int \<times> int \<Rightarrow> vterm_call \<Rightarrow> int \<times> int" where
  "told d (CbResize r c) = (r, c)"
| "told d _ = d"

definition size_told :: "int \<times> int \<Rightarrow> vterm_call list \<Rightarrow> int \<times> int" where
  "size_told d calls = foldl told d calls"

lemma size_told_simps [simp]: "size_told d [] = d" "size_told d (calls @ [c]) = told (size_told d calls) c"
  "size_told d (c # calls) = size_told (told d c) calls"
  by (simp_all add: size_told_def)

lemma size_told_or: "size_told d' calls = d' \<or> size_told d' calls = size_told d calls"
proof (induction calls rule: rev_induct)
  case (snoc c calls)
  then show ?case by (cases c) auto
qed simp

definition told_right :: "int \<times> int \<Rightarrow> vterm_screen \<Rightarrow> bool" where
  "told_right d scr \<longleftrightarrow> screen_ok scr \<and> size_told d (scr_calls scr) = (scr_rows scr, scr_cols scr)"

subsection \<open>No other function tells a size\<close>

definition screen_told :: "int \<times> int \<Rightarrow> vterm_screen \<Rightarrow> int \<times> int" where
  "screen_told d scr = size_told d (scr_calls scr)"

lemma undamaged_told: "undamaged s' = undamaged s \<Longrightarrow> screen_told d s' = screen_told d s"
  using undamaged_same(8) [of s' s] by (simp add: screen_told_def)

lemma set_buffer_told [simp]: "screen_told d (set_buffer b s) = screen_told d s"
  by (simp add: screen_told_def)

lemma move_row_told: "move_row dest src row s = Some s' \<Longrightarrow> screen_told d s' = screen_told d s"
  by (auto simp: move_row_def bind_eq_Some_conv split: if_splits)

lemma prescroll_told: "prescroll rect s = Some s' \<Longrightarrow> screen_told d s' = screen_told d s"
  by (auto simp: prescroll_def screen_told_def)

lemma moverect_told:
  assumes "moverect_internal dest src s = Some s'"
  shows "screen_told d s' = screen_told d s"
proof -
  from assms obtain s1 s2 where
    1: "(if start_row dest < start_row src then prescroll (dest\<lparr>end_row := start_row src\<rparr>) s
         else if start_row dest > start_row src then prescroll (dest\<lparr>start_row := end_row src\<rparr>) s else Some s) = Some s1"
    and 2: "(if start_col dest < start_col src then prescroll (dest\<lparr>end_col := start_col src\<rparr>) s1
         else if start_col dest > start_col src then prescroll (dest\<lparr>start_col := end_col src\<rparr>) s1 else Some s1) = Some s2"
    and 3: "\<exists>rs. ofold (move_row dest src) rs s2 = Some s'"
    unfolding moverect_internal_def Let_def bind_eq_Some_conv by blast
  from 3 obtain rs where rs: "ofold (move_row dest src) rs s2 = Some s'" ..
  have "screen_told d s' = screen_told d s2"
    by (rule ofold_inv [where P = "\<lambda>x. screen_told d x = screen_told d s2", OF _ refl rs]) (simp add: move_row_told)
  also have "\<dots> = screen_told d s1" using 2 prescroll_told by (auto split: if_splits)
  also have "\<dots> = screen_told d s" using 1 prescroll_told by (auto split: if_splits)
  finally show ?thesis .
qed

lemma erase_internal_told: "screen_ok s \<Longrightarrow> screen_told d (erase_internal rect s) = screen_told d s"
  by (simp add: screen_told_def erase_internal_cells)

lemma scrollrect_told:
  assumes "scrollrect rect v r s = Some s'" "screen_ok s"
  shows "screen_told d s' = screen_told d s"
proof -
  from scrollrect_cells [of rect v r s] assms(1) obtain s1 where
    1: "vterm_scroll_rect rect v r moverect_internal erase_internal s = Some s1" "undamaged s' = undamaged s1"
    by (auto split: option.splits)
  from 1(1) have "s1 = erase_internal rect s \<or>
      (\<exists>x. moverect_internal (scroll_dest rect v r) (scroll_src rect v r) s = Some x \<and> s1 = erase_internal (scroll_freed rect v r) x)"
    by (auto simp: vterm_scroll_rect_def bind_eq_Some_conv split: if_splits)
  then have "screen_told d s1 = screen_told d s"
    using assms(2) moverect_told [where d = d] moverect_internal_keeps by (auto simp: erase_internal_told)
  with undamaged_told [OF 1(2)] show ?thesis by simp
qed

lemma putglyph_told: "putglyph chars w p s = Some s' \<Longrightarrow> screen_ok s \<Longrightarrow> screen_told d s' = screen_told d s"
proof (cases "on_screen_at s (pos_row p) (pos_col p)")
  case True
  assume a: "putglyph chars w p s = Some s'" "screen_ok s"
  from a(1) obtain new where "copy_chars VTERM_MAX_CHARS_PER_CELL chars = Some new"
    using True by (auto simp: putglyph_def getcell_eq bind_eq_Some_conv)
  from putglyph_table [OF a(2) this True, of w] a(1) show ?thesis by (auto simp: screen_told_def)
qed (simp add: putglyph_def getcell_eq)

lemma erase_told: "screen_ok s \<Longrightarrow> screen_told d (erase rect s) = screen_told d s"
  using undamaged_told [OF undamaged_damage(3)] by (simp add: erase_def erase_internal_told)

lemma settermprop_told: "screen_told d (snd (settermprop p s)) = screen_told d s"
proof -
  have "screen_told d (damagescreen x) = screen_told d x" for x by (rule undamaged_told) simp
  then show ?thesis by (cases p) (simp_all add: Let_def, simp_all add: screen_told_def)
qed

lemma resize_told: "screen_told d (resize rows cols s) = (rows, cols)"
  by (simp add: resize_def screen_told_def Let_def)

lemma told_right_alt: "told_right d s \<longleftrightarrow> screen_ok s \<and> screen_told d s = (scr_rows s, scr_cols s)"
  by (simp add: told_right_def screen_told_def)

interpretation sized: screen_contract state_cbs "told_right d" scr_pen "\<lambda>s. (scr_rows s, scr_cols s)" for d
proof
  fix c c' chars w p assume a: "told_right d c" "sc_putglyph state_cbs chars w p c = Some c'"
  with screen.putglyph_law [of c chars w p c'] putglyph_told [of chars w p c c' d]
  show "told_right d c' \<and> scr_pen c' = scr_pen c \<and> (scr_rows c', scr_cols c') = (scr_rows c, scr_cols c)"
    by (simp add: told_right_alt) (simp add: state_cbs_def)
next
  fix c c' rect v r assume a: "told_right d c" "sc_scrollrect state_cbs rect v r c = Some c'"
  with screen.scroll_law [of c rect v r c'] scrollrect_told [of rect v r c c' d]
  show "told_right d c' \<and> scr_pen c' = scr_pen c \<and> (scr_rows c', scr_cols c') = (scr_rows c, scr_cols c)"
    by (simp add: told_right_alt) (simp add: state_cbs_def)
next
  fix c rect assume a: "told_right d c"
  with screen.erase_law [of c rect] erase_told [of c d rect]
  show "told_right d (sc_erase state_cbs rect c) \<and> scr_pen (sc_erase state_cbs rect c) = scr_pen c
    \<and> (scr_rows (sc_erase state_cbs rect c), scr_cols (sc_erase state_cbs rect c)) = (scr_rows c, scr_cols c)"
    by (simp add: told_right_alt) (simp add: state_cbs_def)
next
  fix c rows cols assume a: "told_right d c" "0 \<le> (rows :: int)" "0 \<le> (cols :: int)"
  with screen.resize_law [of c rows cols] resize_told [of d rows cols c]
  show "told_right d (sc_resize state_cbs rows cols c) \<and> scr_pen (sc_resize state_cbs rows cols c) = scr_pen c
    \<and> (scr_rows (sc_resize state_cbs rows cols c), scr_cols (sc_resize state_cbs rows cols c)) = (rows, cols)"
    by (simp add: told_right_alt) (simp add: state_cbs_def)
next
  fix c t assume a: "told_right d c"
  with screen.prop_law [of c t] settermprop_told [of d t c]
  show "told_right d (snd (sc_settermprop state_cbs t c)) \<and> scr_pen (snd (sc_settermprop state_cbs t c)) = scr_pen c
    \<and> (scr_rows (snd (sc_settermprop state_cbs t c)), scr_cols (snd (sc_settermprop state_cbs t c))) = (scr_rows c, scr_cols c)"
    by (simp add: told_right_alt) (simp add: state_cbs_def)
next
  fix c a assume "told_right d c"
  then show "told_right d (sc_setpenattr state_cbs a c) \<and> scr_pen (sc_setpenattr state_cbs a c) = set_attr a (scr_pen c)
    \<and> (scr_rows (sc_setpenattr state_cbs a c), scr_cols (sc_setpenattr state_cbs a c)) = (scr_rows c, scr_cols c)"
    using screen.setpen_law [of c a] by (simp add: told_right_alt state_cbs_def) (simp add: setpenattr_def screen_told_def)
qed (auto simp: told_right_def state_cbs_def log_call_def bell_def screen_ok_def)

lemma logged_told:
  assumes "told (rows, cols) k = (rows, cols)" "sized.inv d rows cols st"
  shows "sized.inv d rows cols (on_screen (log_call k) st)"
proof -
  have ok: "screen_ok (log_call k s) = screen_ok s" for s by (simp add: log_call_def screen_ok_def)
  with assms show ?thesis by (auto simp: sized.inv_def state_ok_def on_screen_def told_right_def ok) (simp_all add: log_call_def)
qed

interpretation telling: kept_by_both "parser_callbacks u" program_callbacks "sized.inv d rows cols" for u d rows cols
proof
qed (auto simp: parser_callbacks_def program_callbacks_def intro!: logged_told
    dest: sized.on_text_inv sized.on_control_inv sized.on_escape_inv sized.on_csi_inv sized.on_osc_inv sized.on_dcs_inv)

subsection \<open>The calls of a push and of a new size\<close>

lemma told_start:
  assumes "emulator_ok rows cols vt" "scr_calls (emulator_screen vt) = []"
  shows "sized.inv (rows, cols) rows cols (cbdata vt)"
  using assms by (simp add: emulator_ok_def screen.inv_def sized.inv_def told_right_def emulator_screen_def)

lemma emulator_push_told:
  assumes "emulator_push bytes vt = Some (calls, vt')" "emulator_ok rows cols vt" "scr_calls (emulator_screen vt) = []"
  shows "size_told (rows, cols) calls = (rows, cols) \<and> scr_calls (emulator_screen vt') = []"
proof -
  from assms(1) obtain mem vt1 where
    1: "vterm_push_bytes (parser_callbacks (is_utf8 vt)) program_callbacks bytes (length bytes) vt = Some (mem, vt1)"
    "calls = scr_calls (st_screen (cbdata vt1))" "vt' = forget_calls vt1"
    by (auto simp: emulator_push_def bind_eq_Some_conv)
  have "telling.kept (rows, cols) rows cols (is_utf8 vt) vt" unfolding telling.kept_def using told_start [OF assms(2,3)] by simp
  from telling.push_bytes_kept [OF 1(1) this] have "sized.inv (rows, cols) rows cols (cbdata vt1)" unfolding telling.kept_def by simp
  with 1(2,3) show ?thesis by (simp add: sized.inv_def told_right_def forget_calls_def emulator_screen_def on_screen_def)
qed

lemma vterm_set_size_told:
  assumes "vterm_set_size rows cols vt = Some (calls, vt')" "emulator_ok r c vt" "scr_calls (emulator_screen vt) = []" "0 \<le> rows" "0 \<le> cols"
  shows "size_told (rows, cols) calls = (rows, cols) \<and> scr_calls (emulator_screen vt') = []"
proof -
  from assms(1) obtain st where
    st: "on_resize state_cbs rows cols (cbdata vt) = Some st" "calls = scr_calls (st_screen st)" "vt' = forget_calls (vt\<lparr>cbdata := st\<rparr>)"
    by (auto simp: vterm_set_size_def bind_eq_Some_conv)
  from sized.on_resize_inv [OF st(1) told_start [OF assms(2,3)] assms(4,5)]
  have "size_told (r, c) calls = (rows, cols)" using st(2) by (simp add: sized.inv_def told_right_def)
  with size_told_or [of "(rows, cols)" calls "(r, c)"] st(3) show ?thesis
    by (auto simp: forget_calls_def emulator_screen_def on_screen_def)
qed

end
