(* ===== verification/Base64.thy ===== *)
theory Base64
  imports Prelude
begin

section \<open>The streaming base64 decoder (base64.c)\<close>

text \<open>
  \<open>base64.c\<close> keeps its state in three globals: the table \<open>base64lookup\<close>, the bit buffer
  \<open>base64_bits\<close> and the write position \<open>base64_bit_pos\<close> in it. \<^term>\<open>b64_state\<close> is these three.
  A call returns the bytes it stored to \<open>output_buffer\<close>, in order, beside the new state; the
  caller's theory checks them against the size of the buffer it passed.
\<close>

subsection \<open>State and operations\<close>

record b64_state =
  base64lookup :: "int list"
  base64_bits :: "int list"
  base64_bit_pos :: int

definition base64alphabet :: "byte list" where
  "base64alphabet = ascii
     ''ABCDEFGHIJKLMNOPQRSTUVWXYZabcdefghijklmnopqrstuvwxyz0123456789+/=''"

text \<open>Static storage before \<open>base64_init\<close> runs.\<close>

definition b64_static :: b64_state where
  "b64_static = \<lparr>base64lookup = replicate 256 0, base64_bits = replicate 8 0, base64_bit_pos = 0\<rparr>"

definition base64_init :: "b64_state \<Rightarrow> b64_state" where
  "base64_init st =
     (let l0 = replicate 256 (-1);
          l1 = fold (\<lambda>n l. l[unat (base64alphabet ! n) := int n]) [0..<65] l0;
          l2 = l1[unat (base64alphabet ! 64) := 0]
      in st\<lparr>base64lookup := l2, base64_bit_pos := 0\<rparr>)"

definition base64_bits2byte :: "int list \<Rightarrow> byte" where
  "base64_bits2byte bs =
     fold (\<lambda>n b. if bs ! n = 1 then b OR push_bit (7 - n) 1 else b) [0..<8] 0"

text \<open>One round of the inner loop: bit \<open>i\<close> of \<open>current\<close> goes into the bit buffer.\<close>

definition b64_put_bit :: "int \<Rightarrow> nat \<Rightarrow> b64_state \<times> byte list \<Rightarrow> (b64_state \<times> byte list) option" where
  "b64_put_bit current i = (\<lambda>(st, out).
     let bit = (if current AND push_bit i 1 > 0 then 1 else 0) in
     do {
       bits \<leftarrow> arr_set (base64_bits st) (base64_bit_pos st) bit;
       let pos = base64_bit_pos st + 1;
       Some (if pos = 8
             then (st\<lparr>base64_bits := bits, base64_bit_pos := 0\<rparr>, out @ [base64_bits2byte bits])
             else (st\<lparr>base64_bits := bits, base64_bit_pos := pos\<rparr>, out))
     })"

text \<open>The inner loop, \<open>i\<close> from 5 down to 0.\<close>

definition b64_put_sextet :: "int \<Rightarrow> b64_state \<times> byte list \<Rightarrow> (b64_state \<times> byte list) option" where
  "b64_put_sextet current s = ofold (b64_put_bit current) [5, 4, 3, 2, 1, 0] s"

text \<open>
  The outer loop, over the characters left. \<open>char\<close> is signed on the targets of the Makefile, so
  \<open>base64lookup[input_string[n]]\<close> is indexed by \<^const>\<open>sint\<close>. The result is the new state, the
  bytes stored and \<open>*failflag\<close>.
\<close>

fun b64_loop :: "b64_state \<Rightarrow> byte list \<Rightarrow> byte list \<Rightarrow> (b64_state \<times> byte list \<times> bool) option" where
  "b64_loop st out [] = Some (st, out, False)"
| "b64_loop st out (c # cs) =
     (if c = 10 \<or> c = 13 \<or> c = 32 then b64_loop st out cs
      else if c = 61 then Some (st\<lparr>base64_bit_pos := 0\<rparr>, out, False)
      else do {
        current \<leftarrow> arr_get (base64lookup st) (sint c);
        if current = -1 then Some (st\<lparr>base64_bit_pos := 0\<rparr>, out, True)
        else do {
          (st', out') \<leftarrow> b64_put_sextet current (st, out);
          b64_loop st' out' cs
        }
      })"

definition base64_decode :: "b64_state \<Rightarrow> byte list \<Rightarrow> (b64_state \<times> byte list \<times> bool) option" where
  "base64_decode st input = b64_loop st [] input"

subsection \<open>Reference: bits\<close>

text \<open>The bits of a byte and of a sextet, most significant first, as the bit buffer holds them.\<close>

definition bits8 :: "byte \<Rightarrow> int list" where
  "bits8 b = map (\<lambda>i. of_bool (bit b i)) [7, 6, 5, 4, 3, 2, 1, 0]"

definition bits6 :: "int \<Rightarrow> int list" where
  "bits6 v = map (\<lambda>i. of_bool (bit v i)) [5, 4, 3, 2, 1, 0]"

fun bytes_of_bits :: "int list \<Rightarrow> byte list" where
  "bytes_of_bits (a # b # c # d # e # f # g # h # rest) =
     base64_bits2byte [a, b, c, d, e, f, g, h] # bytes_of_bits rest"
| "bytes_of_bits _ = []"

definition b64_tail :: "int list \<Rightarrow> int list" where
  "b64_tail bs = drop (8 * (length bs div 8)) bs"


subsection \<open>The bit buffer\<close>

text \<open>The invariant of the globals, and the bits received that no stored byte holds yet.\<close>

definition b64_inv :: "b64_state \<Rightarrow> bool" where
  "b64_inv st \<longleftrightarrow> length (base64_bits st) = 8 \<and> 0 \<le> base64_bit_pos st \<and> base64_bit_pos st < 8"

definition pending :: "b64_state \<Rightarrow> int list" where
  "pending st = take (nat (base64_bit_pos st)) (base64_bits st)"

lemma bit_bits2byte_fold:
  "bit (fold (\<lambda>n b. if P n then b OR push_bit (7 - n) 1 else b) ns (b0 :: byte)) m
   \<longleftrightarrow> bit b0 m \<or> (\<exists>n\<in>set ns. P n \<and> bit (push_bit (7 - n) (1 :: byte)) m)"
  by (induction ns arbitrary: b0) (auto simp: bit_simps)

lemma bit_base64_bits2byte: "m < 8 \<Longrightarrow> bit (base64_bits2byte bs) m \<longleftrightarrow> bs ! (7 - m) = 1"
  unfolding base64_bits2byte_def bit_bits2byte_fold
  by (auto simp: bit_simps intro: bexI [of _ "7 - m"])

lemma bits8_nth: "m < 8 \<Longrightarrow> bits8 b ! (7 - m) = of_bool (bit b m)"
proof -
  assume m: "m < 8"
  have "[7, 6, 5, 4, 3, 2, 1, 0] = rev [0..<8::nat]" by (simp add: upt_rec)
  with m show ?thesis by (simp add: bits8_def rev_nth del: upt_conv_Cons)
qed

lemma bits2byte_bits8: "base64_bits2byte (bits8 b) = b"
  by (rule bit_eqI) (auto simp: bit_base64_bits2byte bits8_nth dest: bit_imp_le_length)

lemma length_pending: "b64_inv st \<Longrightarrow> length (pending st) = nat (base64_bit_pos st)"
  by (auto simp: b64_inv_def pending_def)

lemma bytes_of_bits_short: "length xs < 8 \<Longrightarrow> bytes_of_bits xs = []"
  by (induction xs rule: bytes_of_bits.induct) auto

lemma bytes_of_bits_8: "length xs = 8 \<Longrightarrow> bytes_of_bits (xs @ ys) = base64_bits2byte xs # bytes_of_bits ys"
  by (auto simp: numeral_eq_Suc length_Suc_conv)

lemma b64_tail_short: "length xs < 8 \<Longrightarrow> b64_tail xs = xs"
  by (simp add: b64_tail_def)

lemma b64_tail_8: "length xs = 8 \<Longrightarrow> b64_tail (xs @ ys) = b64_tail ys"
proof -
  assume "length xs = 8"
  moreover have "(8 + length ys) div 8 = Suc (length ys div 8)" by simp
  ultimately show ?thesis by (simp add: b64_tail_def)
qed

lemma split8: "\<not> length xs < 8 \<Longrightarrow> \<exists>us vs. xs = us @ vs \<and> length us = 8"
  by (rule exI [of _ "take 8 xs"], rule exI [of _ "drop 8 xs"]) simp

lemma bytes_of_bits_append: "bytes_of_bits (xs @ ys) = bytes_of_bits xs @ bytes_of_bits (b64_tail xs @ ys)
   \<and> b64_tail (xs @ ys) = b64_tail (b64_tail xs @ ys)"
proof (induction xs rule: length_induct)
  case (1 xs)
  show ?case
  proof (cases "length xs < 8")
    case False
    then obtain us vs where xs: "xs = us @ vs" "length us = 8" using split8 by blast
    then have "bytes_of_bits (vs @ ys) = bytes_of_bits vs @ bytes_of_bits (b64_tail vs @ ys)
      \<and> b64_tail (vs @ ys) = b64_tail (b64_tail vs @ ys)" using 1 by simp
    with xs show ?thesis by (simp only: append_assoc bytes_of_bits_8 b64_tail_8 append_Cons)
  qed (simp add: bytes_of_bits_short b64_tail_short)
qed

lemma and_bit_int: "0 < v AND 2 ^ i \<longleftrightarrow> bit (v::int) i"
proof -
  have "0 \<le> v AND 2 ^ i" by simp
  then show ?thesis
    by (auto simp: bit_iff_and_push_bit_not_eq_0 order.strict_iff_order)
qed

lemma put_bit_spec:
  assumes "b64_inv st"
  shows "\<exists>st'. b64_put_bit v i (st, out) = Some (st', out @ bytes_of_bits (pending st @ [of_bool (bit v i)]))
     \<and> b64_inv st' \<and> pending st' = b64_tail (pending st @ [of_bool (bit v i)]) \<and> base64lookup st' = base64lookup st"
proof -
  define k where "k = nat (base64_bit_pos st)"
  with assms have k: "base64_bit_pos st = int k" "k < 8" "length (base64_bits st) = 8"
    by (auto simp: b64_inv_def)
  let ?b = "of_bool (bit v i) :: int"
  let ?bits = "(base64_bits st)[k := ?b]"
  have p: "take (Suc k) ?bits = pending st @ [?b]"
    using k by (simp add: pending_def take_Suc_conv_app_nth)
  show ?thesis
  proof (cases "k = 7")
    case True
    then have full: "pending st @ [?b] = ?bits" using p k by simp
    have "length (pending st @ [?b]) = 8" using full k by simp
    then have "bytes_of_bits (pending st @ [?b]) = [base64_bits2byte ?bits]" "b64_tail (pending st @ [?b]) = []"
      using bytes_of_bits_8 [of _ "[]"] b64_tail_8 [of _ "[]"] full by (auto simp: b64_tail_def)
    then show ?thesis using k True
      by (auto simp: b64_put_bit_def and_bit_int b64_inv_def pending_def arr_set_def)
  next
    case False
    then have "length (pending st @ [?b]) < 8" using k by (simp add: pending_def)
    then show ?thesis using k False p
      by (auto simp: b64_put_bit_def and_bit_int b64_inv_def pending_def arr_set_def bytes_of_bits_short b64_tail_short
         nat_add_distrib simp del: take_update_cancel)
  qed
qed


subsection \<open>Whole runs\<close>

definition b64_ready :: "b64_state \<Rightarrow> bool" where
  "b64_ready st \<longleftrightarrow> b64_inv st \<and> base64lookup st = base64lookup (base64_init b64_static)"

lemma put_bits_spec:
  assumes "b64_inv st"
  shows "\<exists>st'. ofold (b64_put_bit v) ns (st, out)
       = Some (st', out @ bytes_of_bits (pending st @ map (\<lambda>i. of_bool (bit v i)) ns))
     \<and> b64_inv st' \<and> pending st' = b64_tail (pending st @ map (\<lambda>i. of_bool (bit v i)) ns)
     \<and> base64lookup st' = base64lookup st"
  using assms
proof (induction ns arbitrary: st out)
  case Nil
  then show ?case
    by (auto simp: bytes_of_bits_short b64_tail_short length_pending b64_inv_def)
next
  case (Cons i ns)
  let ?b = "pending st @ [of_bool (bit v i)]" and ?bs = "map (\<lambda>i. of_bool (bit v i)) ns"
  from put_bit_spec [OF Cons.prems] obtain st1 where st1:
    "b64_put_bit v i (st, out) = Some (st1, out @ bytes_of_bits ?b)"
    "b64_inv st1" "pending st1 = b64_tail ?b" "base64lookup st1 = base64lookup st" by blast
  from Cons.IH [OF st1(2), of "out @ bytes_of_bits ?b"] obtain st2 where st2:
    "ofold (b64_put_bit v) ns (st1, out @ bytes_of_bits ?b)
       = Some (st2, (out @ bytes_of_bits ?b) @ bytes_of_bits (pending st1 @ ?bs))"
    "b64_inv st2" "pending st2 = b64_tail (pending st1 @ ?bs)" "base64lookup st2 = base64lookup st1" by blast
  have "bytes_of_bits (?b @ ?bs) = bytes_of_bits ?b @ bytes_of_bits (b64_tail ?b @ ?bs)"
    "b64_tail (?b @ ?bs) = b64_tail (b64_tail ?b @ ?bs)" using bytes_of_bits_append by blast+
  with st1 st2 show ?case by auto
qed

text \<open>The characters a run reads on over, and the bits they carry.\<close>

definition b64_blank :: "byte \<Rightarrow> bool" where
  "b64_blank c \<longleftrightarrow> c = 10 \<or> c = 13 \<or> c = 32"

definition b64_digit :: "byte \<Rightarrow> bool" where
  "b64_digit c \<longleftrightarrow> c \<in> set (take 64 base64alphabet)"

definition b64_value :: "byte \<Rightarrow> int" where
  "b64_value c = base64lookup (base64_init b64_static) ! unat c"

definition b64_payload :: "byte list \<Rightarrow> int list" where
  "b64_payload cs = concat (map (\<lambda>c. bits6 (b64_value c)) (filter b64_digit cs))"

lemma fold_upd_length [simp]: "length (fold (\<lambda>n l. l[f n := g n]) ns l) = length l"
  by (induction ns arbitrary: l) auto

lemma fold_upd_other: "i \<notin> f ` set ns \<Longrightarrow> fold (\<lambda>n l. l[f n := g n]) ns l ! i = l ! i"
  by (induction ns arbitrary: l) auto

lemma fold_upd_same:
  "n \<in> set ns \<Longrightarrow> inj_on f (set ns) \<Longrightarrow> f n < length l \<Longrightarrow> fold (\<lambda>n l. l[f n := g n]) ns l ! f n = g n"
proof (induction ns arbitrary: l)
  case (Cons m ns)
  show ?case
  proof (cases "n \<in> set ns")
    case False
    with Cons.prems have "n = m" "f n \<notin> f ` set ns" by (auto simp: inj_on_def)
    with Cons.prems show ?thesis by (simp add: fold_upd_other)
  qed (use Cons in \<open>simp add: inj_on_def\<close>)
qed simp

lemma base64alphabet_eq: "base64alphabet =
   [65, 66, 67, 68, 69, 70, 71, 72, 73, 74, 75, 76, 77, 78, 79, 80,
    81, 82, 83, 84, 85, 86, 87, 88, 89, 90, 97, 98, 99, 100, 101, 102,
    103, 104, 105, 106, 107, 108, 109, 110, 111, 112, 113, 114, 115, 116, 117, 118,
    119, 120, 121, 122, 48, 49, 50, 51, 52, 53, 54, 55, 56, 57, 43, 47,
    61]"
  by (simp add: base64alphabet_def ascii_def)

lemma alphabet_facts:
  "distinct base64alphabet" "length base64alphabet = 65" "base64alphabet ! 64 = 61"
  "list_all (\<lambda>c. c \<noteq> 10 \<and> c \<noteq> 13 \<and> c \<noteq> 32 \<and> 0 \<le> sint c) base64alphabet"
  "base64alphabet = take 64 base64alphabet @ [61]" "61 \<notin> set (take 64 base64alphabet)"
  by (simp_all add: base64alphabet_eq)

lemma alphabet_inj: "inj_on (\<lambda>n. unat (base64alphabet ! n)) (set [0..<65])"
  using alphabet_facts(1,2) by (auto simp: inj_on_def nth_eq_iff_index_eq unat_inj_iff)

lemma b64_table_length [simp]: "length (base64lookup (base64_init st)) = 256"
  by (simp add: base64_init_def Let_def)

lemma b64_table_digit:
  assumes "n < 64"
  shows "base64lookup (base64_init st) ! unat (base64alphabet ! n) = int n"
proof -
  have b: "unat (base64alphabet ! n) < 256" by simp
  have "unat (base64alphabet ! n) \<noteq> unat (base64alphabet ! 64)"
    using alphabet_facts(1,2) assms by (simp add: nth_eq_iff_index_eq unat_inj_iff)
  with b assms show ?thesis
    by (simp add: base64_init_def Let_def fold_upd_same [OF _ alphabet_inj])
qed

lemma b64_table_other:
  assumes "c \<notin> set base64alphabet"
  shows "base64lookup (base64_init st) ! unat c = -1"
proof -
  have "unat c < 256" by simp
  have ne: "unat c \<noteq> unat (base64alphabet ! n)" if "n < 65" for n
    using assms alphabet_facts(2) that by (auto simp: unat_inj_iff)
  then have ni: "unat c \<notin> (\<lambda>n. unat (base64alphabet ! n)) ` set [0..<65]" by force
  moreover have "unat (base64alphabet ! 64) \<noteq> unat c" using ne [of 64] by simp
  ultimately show ?thesis by (simp add: base64_init_def Let_def fold_upd_other)
qed

lemma b64_digit_iff: "b64_digit c \<longleftrightarrow> (\<exists>n<64. c = base64alphabet ! n)"
  using alphabet_facts(2) by (auto simp: b64_digit_def in_set_conv_nth)

lemma alphabet_split: "c \<in> set base64alphabet \<longleftrightarrow> b64_digit c \<or> c = 61"
proof -
  have "base64alphabet = take 64 base64alphabet @ [61]" by (rule alphabet_facts)
  then have "set base64alphabet = set (take 64 base64alphabet @ [61])" by simp
  then show ?thesis by (auto simp: b64_digit_def)
qed

lemma b64_digitD:
  assumes "b64_digit c"
  shows "\<not> b64_blank c" "c \<noteq> 61" "0 \<le> sint c" "0 \<le> b64_value c" "b64_value c < 64"
proof -
  obtain n where n: "n < 64" "c = base64alphabet ! n" using assms by (auto simp: b64_digit_iff)
  have "c \<in> set base64alphabet" using assms alphabet_split by blast
  then show "\<not> b64_blank c" "0 \<le> sint c"
    using alphabet_facts(4) by (auto simp: list_all_iff b64_blank_def)
  show "c \<noteq> 61" using assms alphabet_facts(6) by (auto simp: b64_digit_def)
  show "0 \<le> b64_value c" "b64_value c < 64" using n by (simp_all add: b64_value_def b64_table_digit)
qed

lemma sint_get:
  assumes "length xs = 256" "0 \<le> sint (c :: byte)"
  shows "arr_get xs (sint c) = Some (xs ! unat c)"
  using assms sint_byte_nonneg [OF assms(2)] by (simp only: arr_get_nat unat_byte_less)


definition b64_clean :: "byte \<Rightarrow> bool" where
  "b64_clean c \<longleftrightarrow> b64_blank c \<or> b64_digit c"

lemma b64_readyD: "b64_ready st \<Longrightarrow> b64_inv st" "b64_ready st \<Longrightarrow> length (base64lookup st) = 256"
  by (simp_all add: b64_ready_def)

lemma b64_step_digit:
  assumes "b64_ready st" "b64_digit c"
  shows "\<exists>st'. b64_ready st' \<and> pending st' = b64_tail (pending st @ bits6 (b64_value c))
    \<and> (\<forall>rest. b64_loop st out (c # rest) = b64_loop st' (out @ bytes_of_bits (pending st @ bits6 (b64_value c))) rest)"
proof -
  note d = b64_digitD [OF assms(2)]
  have g: "arr_get (base64lookup st) (sint c) = Some (b64_value c)"
    using assms(1) d(3) by (simp add: sint_get b64_ready_def b64_value_def)
  from put_bits_spec [OF b64_readyD(1) [OF assms(1)], of "b64_value c" "[5, 4, 3, 2, 1, 0]" out]
  obtain st' where st': "b64_put_sextet (b64_value c) (st, out)
       = Some (st', out @ bytes_of_bits (pending st @ bits6 (b64_value c)))"
     "b64_inv st'" "pending st' = b64_tail (pending st @ bits6 (b64_value c))"
     "base64lookup st' = base64lookup st" unfolding bits6_def b64_put_sextet_def by blast
  have "b64_loop st out (c # rest) = b64_loop st' (out @ bytes_of_bits (pending st @ bits6 (b64_value c))) rest" for rest
    using d g st'(1) by (simp add: b64_blank_def)
  with st' assms(1) show ?thesis by (auto simp: b64_ready_def)
qed

lemma b64_loop_clean:
  assumes "b64_ready st" "\<forall>c\<in>set cs. b64_clean c"
  shows "\<exists>st'. b64_ready st' \<and> pending st' = b64_tail (pending st @ b64_payload cs)
    \<and> (\<forall>rest. b64_loop st out (cs @ rest) = b64_loop st' (out @ bytes_of_bits (pending st @ b64_payload cs)) rest)"
  using assms
proof (induction cs arbitrary: st out)
  case Nil
  then have "length (pending st) < 8" using length_pending [OF b64_readyD(1)] by (auto simp: b64_ready_def b64_inv_def)
  with Nil show ?case by (intro exI [of _ st]) (simp add: b64_payload_def bytes_of_bits_short b64_tail_short)
next
  case (Cons c cs)
  show ?case
  proof (cases "b64_digit c")
    case True
    let ?v = "bits6 (b64_value c)"
    from b64_step_digit [OF Cons.prems(1) True, of out] obtain st1 where st1: "b64_ready st1"
      "pending st1 = b64_tail (pending st @ ?v)"
      "\<And>rest. b64_loop st out (c # rest) = b64_loop st1 (out @ bytes_of_bits (pending st @ ?v)) rest" by blast
    from Cons.IH [OF st1(1), of "out @ bytes_of_bits (pending st @ ?v)"] Cons.prems(2) obtain st2 where st2:
      "b64_ready st2" "pending st2 = b64_tail (pending st1 @ b64_payload cs)"
      "\<And>rest. b64_loop st1 (out @ bytes_of_bits (pending st @ ?v)) (cs @ rest)
        = b64_loop st2 ((out @ bytes_of_bits (pending st @ ?v)) @ bytes_of_bits (pending st1 @ b64_payload cs)) rest"
      by auto
    have p: "b64_payload (c # cs) = ?v @ b64_payload cs" using True by (simp add: b64_payload_def)
    have "bytes_of_bits ((pending st @ ?v) @ b64_payload cs)
        = bytes_of_bits (pending st @ ?v) @ bytes_of_bits (pending st1 @ b64_payload cs)
      \<and> b64_tail ((pending st @ ?v) @ b64_payload cs) = b64_tail (pending st1 @ b64_payload cs)"
      using bytes_of_bits_append [of "pending st @ ?v" "b64_payload cs"] st1(2) by simp
    with st1(3) st2 show ?thesis by (intro exI [of _ st2]) (simp add: p)
  next
    case False
    with Cons.prems(2) have "b64_blank c" by (auto simp: b64_clean_def)
    moreover have "b64_payload (c # cs) = b64_payload cs" using False by (simp add: b64_payload_def)
    ultimately show ?thesis using Cons by (simp add: b64_blank_def)
  qed
qed

lemma b64_stop:
  assumes "b64_ready st" "\<not> b64_clean c"
  shows "b64_loop st out (c # cs) =
    (if c = 61 then Some (st\<lparr>base64_bit_pos := 0\<rparr>, out, False)
     else if sint c < 0 then None else Some (st\<lparr>base64_bit_pos := 0\<rparr>, out, True))"
proof -
  have [simp]: "c \<noteq> 10" "c \<noteq> 13" "c \<noteq> 32" "\<not> b64_digit c"
    using assms(2) by (auto simp: b64_clean_def b64_blank_def)
  consider "c = 61" | "c \<noteq> 61" "sint c < 0" | "c \<noteq> 61" "0 \<le> sint c" by linarith
  then show ?thesis
  proof cases
    case 2
    then have "arr_get (base64lookup st) (sint c) = None" by simp
    with 2 show ?thesis by simp
  next
    case 3
    then have "c \<notin> set base64alphabet" using alphabet_split by auto
    then have "arr_get (base64lookup st) (sint c) = Some (-1)"
      using 3 assms(1) by (simp add: sint_get b64_ready_def b64_table_other)
    with 3 show ?thesis by simp
  qed simp
qed

lemma b64_ready_reset: "b64_ready st \<Longrightarrow> b64_ready (st\<lparr>base64_bit_pos := 0\<rparr>)"
  by (simp add: b64_ready_def b64_inv_def)

lemma base64_init_ready: "length (base64_bits st) = 8 \<Longrightarrow> b64_ready (base64_init st) \<and> pending (base64_init st) = []"
  by (simp add: b64_ready_def b64_inv_def base64_init_def Let_def pending_def)

lemma base64_decode_run:
  assumes "b64_ready st"
  shows "\<exists>st'. b64_ready st' \<and> pending st' = b64_tail (pending st @ b64_payload (takeWhile b64_clean cs))
    \<and> base64_decode st cs =
       (let out = bytes_of_bits (pending st @ b64_payload (takeWhile b64_clean cs)) in
        case dropWhile b64_clean cs of
          [] \<Rightarrow> Some (st', out, False)
        | c # _ \<Rightarrow> if c = 61 then Some (st'\<lparr>base64_bit_pos := 0\<rparr>, out, False)
                    else if sint c < 0 then None
                    else Some (st'\<lparr>base64_bit_pos := 0\<rparr>, out, True))"
proof -
  have "\<forall>c\<in>set (takeWhile b64_clean cs). b64_clean c" by (auto dest: set_takeWhileD)
  from b64_loop_clean [OF assms this, of "[]"] obtain st' where st': "b64_ready st'"
    "pending st' = b64_tail (pending st @ b64_payload (takeWhile b64_clean cs))"
    "\<And>rest. b64_loop st [] (takeWhile b64_clean cs @ rest)
       = b64_loop st' (bytes_of_bits (pending st @ b64_payload (takeWhile b64_clean cs))) rest" by auto
  show ?thesis
  proof (cases "dropWhile b64_clean cs")
    case Nil
    then have tw: "takeWhile b64_clean cs = cs" by (metis append_Nil2 takeWhile_dropWhile_id)
    from st' st'(3) [of "[]"] show ?thesis unfolding Nil tw by (intro exI [of _ st']) (simp add: base64_decode_def)
  next
    case (Cons c ds)
    then have "\<not> b64_clean c" by (metis dropWhile_eq_Cons_conv)
    then have "b64_loop st' out (c # ds) = (if c = 61 then Some (st'\<lparr>base64_bit_pos := 0\<rparr>, out, False)
        else if sint c < 0 then None else Some (st'\<lparr>base64_bit_pos := 0\<rparr>, out, True))" for out
      by (rule b64_stop [OF st'(1)])
    moreover have "cs = takeWhile b64_clean cs @ c # ds" by (metis Cons takeWhile_dropWhile_id)
    then have "base64_decode st cs = b64_loop st' (bytes_of_bits (pending st @ b64_payload (takeWhile b64_clean cs))) (c # ds)"
      using st'(3) [of "c # ds"] by (simp add: base64_decode_def del: b64_loop.simps)
    ultimately show ?thesis
      unfolding Cons using st' by (intro exI [of _ st']) (simp add: Let_def del: b64_loop.simps)
  qed
qed

lemma base64_decode_undefined:
  assumes "b64_ready st"
  shows "base64_decode st cs = None \<longleftrightarrow> (\<exists>c ds. dropWhile b64_clean cs = c # ds \<and> sint c < 0)"
proof (cases "dropWhile b64_clean cs")
  case Nil
  with base64_decode_run [OF assms, of cs] show ?thesis unfolding Nil by (auto simp: Let_def)
next
  case (Cons c ds)
  with base64_decode_run [OF assms, of cs] show ?thesis
    unfolding Cons by (auto simp: Let_def split: if_splits)
qed

text \<open>
  the decoder's only undefined behaviour is the table read with a negative index: it happens
  exactly when the first character that is neither blank nor a base64 digit is a byte above 127
  (\<open>base64lookup[input_string[n]]\<close> with a signed \<open>char\<close>).
\<close>

theorem base64_decode_undefined_iff:
  assumes "b64_ready st"
  shows "base64_decode st cs = None \<longleftrightarrow> (\<exists>c ds. dropWhile b64_clean cs = c # ds \<and> sint c < 0)"
  by (rule base64_decode_undefined [OF assms])

lemma b64_init_static_ready: "b64_ready (base64_init b64_static)"
  using base64_init_ready [of b64_static] by (simp add: b64_static_def)

theorem base64_decode_undefined_iff_witness:
  "base64_decode (base64_init b64_static) [89, 200] = None"
proof -
  have "dropWhile b64_clean [89, 200] = [200 :: byte]" "sint (200 :: byte) < 0" by code_simp+
  then show ?thesis using base64_decode_undefined_iff [OF b64_init_static_ready, of "[89, 200]"] by blast
qed

lemma b64_put_bit_acc: "b64_put_bit v i (st, o1 @ out) = map_option (\<lambda>(s, o2). (s, o1 @ o2)) (b64_put_bit v i (st, out))"
  by (auto simp: b64_put_bit_def Let_def split: bind_splits)

lemma b64_put_bits_acc: "ofold (b64_put_bit v) is (st, o1 @ out)
   = map_option (\<lambda>(s, o2). (s, o1 @ o2)) (ofold (b64_put_bit v) is (st, out))"
proof (induction "is" arbitrary: st out)
  case (Cons i "is")
  then show ?case by (cases "b64_put_bit v i (st, out)") (auto simp: b64_put_bit_acc)
qed simp

lemma b64_put_sextet_acc: "b64_put_sextet v (st, o1 @ out)
   = map_option (\<lambda>(s, o2). (s, o1 @ o2)) (b64_put_sextet v (st, out))"
  unfolding b64_put_sextet_def by (rule b64_put_bits_acc)

lemma b64_loop_acc: "b64_loop st (o1 @ out) cs = map_option (\<lambda>(s, o2, f). (s, o1 @ o2, f)) (b64_loop st out cs)"
proof (induction st out cs rule: b64_loop.induct)
  case (2 st out c cs)
  show ?case
  proof (cases "c = 10 \<or> c = 13 \<or> c = 32 \<or> c = 61")
    case False
    show ?thesis
    proof (cases "arr_get (base64lookup st) (sint c)")
      case (Some v)
      then show ?thesis
        using False 2(2) [OF _ _ Some] by (cases "b64_put_sextet v (st, out)") (auto simp: b64_put_sextet_acc)
    qed (use False in simp)
  qed (use 2 in auto)
qed simp

text \<open>
  a text decoded in two calls gives the bytes, the failure flag and the end state of the whole
  text decoded in one call, when the first part decoded without failure and holds no padding: the
  bits of an incomplete byte are carried in \<open>base64_bits\<close>.
\<close>

theorem base64_decode_fragments:
  assumes "b64_ready st" "base64_decode st xs = Some (st1, o1, False)" "61 \<notin> set xs"
  shows "b64_ready st1 \<and> base64_decode st (xs @ ys) = map_option (\<lambda>(s, o2, f). (s, o1 @ o2, f)) (base64_decode st1 ys)"
proof -
  have "dropWhile b64_clean xs = []"
  proof (cases "dropWhile b64_clean xs")
    case (Cons c ds)
    then have "c \<in> set xs" by (metis set_dropWhileD list.set_intros(1))
    with Cons assms base64_decode_run [OF assms(1), of xs] show ?thesis
      by (auto simp: Let_def split: if_splits)
  qed simp
  then have "\<forall>c\<in>set xs. b64_clean c" by (simp add: dropWhile_eq_Nil_conv)
  from b64_loop_clean [OF assms(1) this, of "[]"] obtain st' o' where st': "b64_ready st'"
    "\<And>rest. b64_loop st [] (xs @ rest) = b64_loop st' o' rest" by auto
  then have "st' = st1" "o' = o1" using st'(2) [of "[]"] assms(2) by (simp_all add: base64_decode_def)
  with st' b64_loop_acc [of st1 o1 "[]" ys] show ?thesis by (simp add: base64_decode_def)
qed

theorem base64_decode_fragments_witness:
  "\<exists>st1. base64_decode (base64_init b64_static) (ascii ''YW'') = Some (st1, [97], False)
    \<and> base64_decode (base64_init b64_static) (ascii ''YWJj'')
      = map_option (\<lambda>(s, o2, f). (s, 97 # o2, f)) (base64_decode st1 (ascii ''Jj''))"
proof -
  have d: "map_option (\<lambda>(s, r). r) (base64_decode (base64_init b64_static) (ascii ''YW'')) = Some ([97], False)"
    by code_simp
  then obtain st1 where st1: "base64_decode (base64_init b64_static) (ascii ''YW'') = Some (st1, [97], False)" by auto
  from base64_decode_fragments [OF b64_init_static_ready st1, of "ascii ''Jj''"] st1
  show ?thesis by (auto simp: ascii_def)
qed

lemma length_bytes_of_bits: "length (bytes_of_bits bs) = length bs div 8"
  by (induction bs rule: bytes_of_bits.induct) auto

lemma length_b64_payload: "length (b64_payload cs) \<le> 6 * length cs"
  by (induction cs) (auto simp: b64_payload_def bits6_def)

lemma base64_decode_bound:
  assumes "b64_ready st" "base64_decode st cs = Some (st', out, f)"
  shows "b64_ready st' \<and> 8 * length out \<le> nat (base64_bit_pos st) + 6 * length cs"
proof -
  let ?p = "b64_payload (takeWhile b64_clean cs)"
  from base64_decode_run [OF assms(1), of cs] assms(2)
  have "b64_ready st' \<and> out = bytes_of_bits (pending st @ ?p)"
    by (cases "dropWhile b64_clean cs"; simp only: list.case Let_def)
      (auto simp: b64_ready_reset split: if_splits)
  then have r: "b64_ready st'" "out = bytes_of_bits (pending st @ ?p)" by blast+
  have "length ?p \<le> 6 * length cs"
    using length_b64_payload [of "takeWhile b64_clean cs"] length_takeWhile_le [of b64_clean cs] by linarith
  moreover have "8 * length out \<le> length (pending st) + length ?p"
    by (simp add: r(2) length_bytes_of_bits)
  ultimately show ?thesis using r length_pending [of st] assms(1) by (simp add: b64_ready_def)
qed

text \<open>
  every decode keeps the decoder's invariant (at most seven pending bits, the lookup table intact),
  and writes at most as many bytes as the pending bits and six bits a character make.
\<close>

theorem base64_decode_inv:
  assumes "b64_ready st" "base64_decode st cs = Some (st', out, f)"
  shows "b64_ready st' \<and> 8 * length out \<le> nat (base64_bit_pos st) + 6 * length cs"
  by (rule base64_decode_bound [OF assms])

theorem base64_decode_inv_witness:
  "\<exists>st'. base64_decode (base64_init b64_static) (ascii ''YWJj'') = Some (st', [97, 98, 99], False) \<and> b64_ready st'"
proof -
  have "map_option (\<lambda>(s, r). r) (base64_decode (base64_init b64_static) (ascii ''YWJj'')) = Some ([97, 98, 99], False)"
    by code_simp
  then obtain st' where st': "base64_decode (base64_init b64_static) (ascii ''YWJj'') = Some (st', [97, 98, 99], False)" by auto
  from base64_decode_inv [OF b64_init_static_ready st'] st' show ?thesis by blast
qed

declare b64_loop.simps(2) [simp del]

subsection \<open>The encoder of RFC 4648 and the round trip\<close>

definition b64_char :: "byte \<Rightarrow> byte" where
  "b64_char v = base64alphabet ! unat v"

fun rfc4648_encode :: "byte list \<Rightarrow> byte list" where
  "rfc4648_encode [] = []"
| "rfc4648_encode [a] =
     [b64_char (drop_bit 2 a), b64_char (push_bit 4 (a AND 3)), 61, 61]"
| "rfc4648_encode [a, b] =
     [b64_char (drop_bit 2 a), b64_char (push_bit 4 (a AND 3) OR drop_bit 4 b),
      b64_char (push_bit 2 (b AND 15)), 61]"
| "rfc4648_encode (a # b # c # rest) =
     [b64_char (drop_bit 2 a), b64_char (push_bit 4 (a AND 3) OR drop_bit 4 b),
      b64_char (push_bit 2 (b AND 15) OR drop_bit 6 c), b64_char (c AND 63)] @ rfc4648_encode rest"


lemma sextet_less: "take_bit 6 v = v \<Longrightarrow> unat (v :: byte) < 64"
proof -
  assume "take_bit 6 v = v"
  then have "unat v = take_bit 6 (unat v)" by (metis unsigned_take_bit_eq)
  then show ?thesis using take_bit_nat_less_exp [of 6 "unat v"] by simp
qed

lemma b64_char_digit: "take_bit 6 v = v \<Longrightarrow> b64_digit (b64_char v)"
  using sextet_less by (auto simp: b64_digit_iff b64_char_def)

lemma bits6_uint: "bits6 (uint (v :: byte)) = map (\<lambda>i. of_bool (bit v i)) [5, 4, 3, 2, 1, 0]"
  by (simp add: bits6_def bit_uint_iff)

lemma bits6_char: "take_bit 6 v = v \<Longrightarrow> bits6 (b64_value (b64_char v)) = bits6 (uint v)"
  using sextet_less [of v] by (simp add: b64_value_def b64_char_def b64_table_digit)

lemma and_masks: "a AND 3 = take_bit 2 a" "a AND 15 = take_bit 4 a" "a AND 63 = take_bit 6 a" for a :: byte
  by (simp_all add: take_bit_eq_mask mask_eq_exp_minus_1)

lemma sextets:
  fixes a b c :: byte
  shows "take_bit 6 (drop_bit 2 a) = drop_bit 2 a"
    "take_bit 6 (push_bit 4 (a AND 3) OR drop_bit 4 b) = push_bit 4 (a AND 3) OR drop_bit 4 b"
    "take_bit 6 (push_bit 2 (b AND 15) OR drop_bit 6 c) = push_bit 2 (b AND 15) OR drop_bit 6 c"
    "take_bit 6 (c AND 63) = c AND 63"
    "take_bit 6 (push_bit 4 (a AND 3)) = push_bit 4 (a AND 3)"
    "take_bit 6 (push_bit 2 (b AND 15)) = push_bit 2 (b AND 15)"
  unfolding and_masks by (rule bit_eqI; auto simp: bit_take_bit_iff bit_or_iff bit_push_bit_iff bit_drop_bit_eq dest: bit_imp_le_length)+

lemma b64_payload_chars:
  "b64_payload (map b64_char vs) = concat (map (\<lambda>v. bits6 (uint v)) vs)"
  "\<forall>c\<in>set (map b64_char vs). b64_clean c" if "\<forall>v\<in>set vs. take_bit 6 v = v"
  using that by (induction vs) (auto simp: b64_payload_def bits6_char b64_char_digit b64_clean_def)

lemma b64_loop_chars:
  assumes "b64_ready st" "pending st = []" "\<forall>v\<in>set vs. take_bit 6 v = v"
    "concat (map (\<lambda>v. bits6 (uint v)) vs) = concat (map bits8 bs) @ zs" "length zs < 8"
  shows "\<exists>st'. b64_ready st' \<and> pending st' = zs
    \<and> (\<forall>rest. b64_loop st out (map b64_char vs @ rest) = b64_loop st' (out @ bs) rest)"
proof -
  have b: "bytes_of_bits (concat (map bits8 bs) @ zs) = bs \<and> b64_tail (concat (map bits8 bs) @ zs) = zs"
  proof (induction bs)
    case (Cons x bs)
    have "length (bits8 x) = 8" by (simp add: bits8_def)
    with Cons show ?case by (simp add: bytes_of_bits_8 b64_tail_8 bits2byte_bits8)
  qed (simp_all add: bytes_of_bits_short b64_tail_short assms(5))
  from b64_loop_clean [OF assms(1) b64_payload_chars(2) [OF assms(3)], of out] b assms(2,4)
  show ?thesis by (simp add: b64_payload_chars(1) [OF assms(3)])
qed

lemmas sextet_bits_simps = list.map concat.simps append.simps bits6_uint bits8_def and_masks
  bit_or_iff bit_push_bit_iff bit_take_bit_iff bit_drop_bit_eq o_def

lemma b64_loop_padding:
  "b64_ready st \<Longrightarrow> \<exists>st'. b64_loop st out (61 # cs) = Some (st', out, False) \<and> b64_ready st' \<and> pending st' = []"
  by (auto simp: b64_loop.simps b64_ready_reset pending_def)

lemma b64_loop_encode:
  assumes "b64_ready st" "pending st = []"
  shows "\<exists>st'. b64_loop st out (rfc4648_encode bs) = Some (st', out @ bs, False) \<and> b64_ready st' \<and> pending st' = []"
  using assms
proof (induction bs arbitrary: st out rule: rfc4648_encode.induct)
  case 1
  then show ?case by auto
next
  case (2 a)
  let ?vs = "[drop_bit 2 a, push_bit 4 (a AND 3)]"
  have "\<forall>v\<in>set ?vs. take_bit 6 v = v" by (simp only: list.set ball_simps sextets simp_thms)
  moreover have "concat (map (\<lambda>v. bits6 (uint v)) ?vs) = concat (map bits8 [a]) @ [0, 0, 0, 0]"
    unfolding sextet_bits_simps by simp
  moreover have "length [0, 0, 0, 0 :: int] < 8" by simp
  ultimately obtain st1 where "b64_ready st1"
    "\<And>rest. b64_loop st out (map b64_char ?vs @ rest) = b64_loop st1 (out @ [a]) rest"
    using b64_loop_chars [OF 2, of ?vs "[a]" "[0, 0, 0, 0]" out] by blast
  then show ?case using b64_loop_padding [of st1 "out @ [a]" "[61]"] by simp
next
  case (3 a b)
  let ?vs = "[drop_bit 2 a, push_bit 4 (a AND 3) OR drop_bit 4 b, push_bit 2 (b AND 15)]"
  have "\<forall>v\<in>set ?vs. take_bit 6 v = v" by (simp only: list.set ball_simps sextets simp_thms)
  moreover have "concat (map (\<lambda>v. bits6 (uint v)) ?vs) = concat (map bits8 [a, b]) @ [0, 0]"
    unfolding sextet_bits_simps by simp
  moreover have "length [0, 0 :: int] < 8" by simp
  ultimately obtain st1 where "b64_ready st1"
    "\<And>rest. b64_loop st out (map b64_char ?vs @ rest) = b64_loop st1 (out @ [a, b]) rest"
    using b64_loop_chars [OF 3, of ?vs "[a, b]" "[0, 0]" out] by blast
  then show ?case using b64_loop_padding [of st1 "out @ [a, b]" "[]"] by simp
next
  case (4 a b c rest)
  let ?vs = "[drop_bit 2 a, push_bit 4 (a AND 3) OR drop_bit 4 b,
    push_bit 2 (b AND 15) OR drop_bit 6 c, c AND 63]"
  have "\<forall>v\<in>set ?vs. take_bit 6 v = v" by (simp only: list.set ball_simps sextets simp_thms)
  moreover have "concat (map (\<lambda>v. bits6 (uint v)) ?vs) = concat (map bits8 [a, b, c]) @ []"
    unfolding sextet_bits_simps by simp
  moreover have "length ([] :: int list) < 8" by simp
  ultimately obtain st1 where st1: "b64_ready st1" "pending st1 = []"
    "\<And>rest. b64_loop st out (map b64_char ?vs @ rest) = b64_loop st1 (out @ [a, b, c]) rest"
    using b64_loop_chars [OF 4(2,3), of ?vs "[a, b, c]" "[]" out] by blast
  then show ?case using "4.IH" [OF st1(1,2), of "out @ [a, b, c]"] by simp
qed

text \<open>
  C36: decoding the RFC 4648 encoding of any bytes, padding included, gives the bytes back without
  failure and leaves no bits pending.
\<close>

theorem base64_roundtrip:
  "\<exists>st'. base64_decode (base64_init b64_static) (rfc4648_encode bs) = Some (st', bs, False) \<and> base64_bit_pos st' = 0"
proof -
  have "b64_ready (base64_init b64_static)" "pending (base64_init b64_static) = []"
    using base64_init_ready [of b64_static] by (auto simp: b64_static_def)
  from b64_loop_encode [OF this, of "[]" bs] obtain st' where
    "b64_loop (base64_init b64_static) [] (rfc4648_encode bs) = Some (st', bs, False)" "b64_ready st'" "pending st' = []"
    by auto
  then show ?thesis using length_pending [of st'] by (auto simp: base64_decode_def b64_ready_def b64_inv_def)
qed

end
