(* ===== verification/Nsdl.thy ===== *)
theory Nsdl
  imports Prelude
begin

section \<open>Software surfaces and line drawing (nsdl.c)\<close>

text \<open>
  \<open>nsdl.c\<close> writes pixels straight into an \<open>SDL_Surface\<close>. A surface is its size, the bytes
  per pixel and per row, and the pixel memory as the bytes it is; a store outside that memory is
  undefined behaviour (\<^const>\<open>None\<close>). Calls to the SDL renderer are output: an operation that
  draws on a renderer returns the list of the calls it makes, in order.
\<close>

subsection \<open>Surfaces\<close>

record surface =
  surf_w :: int
  surf_h :: int
  surf_bpp :: int
  surf_pitch :: int
  surf_pixels :: "byte list"

subsection \<open>Renderer calls\<close>

datatype render_cmd =
    SetRenderDrawColor int int int int
  | RenderDrawLine int int int int
  | RenderDrawRect int int int int
  | RenderFillRect int int int int
  | RenderDrawText int int "u16 list" u32 u32 int int int int
  | RenderCopyTexture surface int int int int
  | RenderCopyFull surface
  | RenderClear
  | RenderPresent

text \<open>
  \<open>RenderDrawText\<close> stands for a call of \<open>draw_unitext_renderer\<close> by the widgets (position, text,
  background, foreground, bold, underline, italic, strike); the call itself is modelled in \<open>Nunifont\<close>.
  A texture is the surface it was made from; \<open>RenderCopyFull\<close> copies it to the whole target.
\<close>

text \<open>\<open>SDL_CreateRGBSurface(SDL_SWSURFACE, w, h, 32, ...)\<close>: four bytes a pixel, zeroed.\<close>

definition create_rgb_surface32 :: "int \<Rightarrow> int \<Rightarrow> surface" where
  "create_rgb_surface32 w h =
     \<lparr>surf_w = w, surf_h = h, surf_bpp = 4, surf_pitch = 4 * w, surf_pixels = replicate (nat (4 * w * h)) 0\<rparr>"

text \<open>A 32-bit store and load at a byte offset, little-endian as on the supported targets.\<close>

definition store32 :: "byte list \<Rightarrow> int \<Rightarrow> u32 \<Rightarrow> byte list option" where
  "store32 m off v =
     (if 0 \<le> off \<and> off + 4 \<le> int (length m)
      then Some (m[nat off := ucast v, nat off + 1 := ucast (drop_bit 8 v),
                   nat off + 2 := ucast (drop_bit 16 v), nat off + 3 := ucast (drop_bit 24 v)])
      else None)"

definition load32 :: "byte list \<Rightarrow> int \<Rightarrow> u32 option" where
  "load32 m off =
     (if 0 \<le> off \<and> off + 4 \<le> int (length m)
      then Some (ucast (m ! nat off) OR push_bit 8 (ucast (m ! (nat off + 1)))
                 OR push_bit 16 (ucast (m ! (nat off + 2))) OR push_bit 24 (ucast (m ! (nat off + 3))))
      else None)"

definition in_surface :: "surface \<Rightarrow> int \<Rightarrow> int \<Rightarrow> bool" where
  "in_surface s x y \<longleftrightarrow> \<not> (x < 0 \<or> y < 0 \<or> x \<ge> surf_w s \<or> y \<ge> surf_h s)"

definition nsdl_pointS :: "surface \<Rightarrow> int \<Rightarrow> int \<Rightarrow> u32 \<Rightarrow> surface option" where
  "nsdl_pointS s x y v =
     (let p = y * surf_pitch s + x * surf_bpp s in
      if \<not> in_surface s x y then Some s
      else do { px \<leftarrow> store32 (surf_pixels s) p v; Some (s\<lparr>surf_pixels := px\<rparr>) })"

definition nsdl_getpointS :: "surface \<Rightarrow> int \<Rightarrow> int \<Rightarrow> u32 option" where
  "nsdl_getpointS s x y =
     (let p = y * surf_pitch s + x * surf_bpp s in
      if \<not> in_surface s x y then Some 0 else load32 (surf_pixels s) p)"

definition nsdl_rectangle_wire :: "int \<Rightarrow> int \<Rightarrow> int \<Rightarrow> int \<Rightarrow> int \<Rightarrow> int \<Rightarrow> int \<Rightarrow> int \<Rightarrow> render_cmd list" where
  "nsdl_rectangle_wire sx sy ex ey r g b a =
     [SetRenderDrawColor r g b a,
      RenderDrawLine sx sy sx ey, RenderDrawLine sx sy ex sy,
      RenderDrawLine ex ey sx ey, RenderDrawLine ex ey ex sy]"

subsection \<open>Lines\<close>

text \<open>
  The loop of \<open>nsdl_lineS\<close>: the first argument counts the rounds left of the 1000 it allows;
  \<open>dx\<close>, \<open>dy\<close>, \<open>sx\<close>, \<open>sy\<close> and the end point do not change.
\<close>

fun line_loop :: "nat \<Rightarrow> surface \<Rightarrow> int \<Rightarrow> int \<Rightarrow> int \<Rightarrow> int \<Rightarrow> int \<Rightarrow> int \<Rightarrow> u32
    \<Rightarrow> int \<Rightarrow> int \<Rightarrow> int \<Rightarrow> surface option" where
  "line_loop 0 s end_x end_y dx dy sx sy color cx cy err = Some s"
| "line_loop (Suc n) s end_x end_y dx dy sx sy color cx cy err = do {
     s' \<leftarrow> nsdl_pointS s cx cy color;
     if cx = end_x \<and> cy = end_y then Some s'
     else
       let e2 = 2 * err;
           (err1, cx1) = (if e2 > 0 - dy then (err - dy, cx + sx) else (err, cx));
           (err2, cy1) = (if e2 < dx then (err1 + dx, cy + sy) else (err1, cy))
       in line_loop n s' end_x end_y dx dy sx sy color cx1 cy1 err2
   }"

definition nsdl_lineS :: "surface \<Rightarrow> int \<Rightarrow> int \<Rightarrow> int \<Rightarrow> int \<Rightarrow> u32 \<Rightarrow> surface option" where
  "nsdl_lineS s start_x start_y end_x end_y color =
     (let dx0 = end_x - start_x; dy0 = end_y - start_y;
          dx = (if dx0 < 0 then 0 - dx0 else dx0);
          dy = (if dy0 < 0 then 0 - dy0 else dy0);
          sx = (if start_x < end_x then 1 else -1);
          sy = (if start_y < end_y then 1 else -1)
      in line_loop 1000 s end_x end_y dx dy sx sy color start_x start_y (dx - dy))"

subsection \<open>Pixel stores\<close>

text \<open>
  The contract a surface gives the drawing code: a store inside the surface is read back, leaves
  every other pixel alone, and a store outside changes nothing.
\<close>

locale pixel_store =
  fixes ok :: "'s \<Rightarrow> bool"
    and inside :: "'s \<Rightarrow> int \<Rightarrow> int \<Rightarrow> bool"
    and put :: "'s \<Rightarrow> int \<Rightarrow> int \<Rightarrow> u32 \<Rightarrow> 's option"
    and get :: "'s \<Rightarrow> int \<Rightarrow> int \<Rightarrow> u32 option"
  assumes put_total: "ok s \<Longrightarrow> \<exists>s'. put s x y v = Some s' \<and> ok s' \<and> inside s' = inside s"
    and get_total: "ok s \<Longrightarrow> \<exists>v. get s x y = Some v"
    and put_get: "ok s \<Longrightarrow> put s x y v = Some s' \<Longrightarrow>
      get s' i j = (if (i, j) = (x, y) \<and> inside s x y then Some v else get s i j)"
begin

text \<open>Drawing a list of points in one colour colours exactly the points inside.\<close>

lemma put_list:
  assumes "ok s"
  shows "\<exists>s'. ofold (\<lambda>(x, y) s. put s x y v) ps s = Some s' \<and> ok s' \<and> inside s' = inside s
    \<and> (\<forall>i j. get s' i j = (if (i, j) \<in> set ps \<and> inside s i j then Some v else get s i j))"
  using assms
proof (induction ps arbitrary: s)
  case (Cons p ps)
  obtain x y where p: "p = (x, y)" by (cases p)
  from put_total [OF Cons.prems] obtain s1 where s1: "put s x y v = Some s1" "ok s1" "inside s1 = inside s" by blast
  from Cons.IH [OF s1(2)] obtain s2 where s2: "ofold (\<lambda>(x, y) s. put s x y v) ps s1 = Some s2" "ok s2"
    "inside s2 = inside s1"
    "\<And>i j. get s2 i j = (if (i, j) \<in> set ps \<and> inside s1 i j then Some v else get s1 i j)" by blast
  have "get s2 i j = (if (i, j) \<in> set (p # ps) \<and> inside s i j then Some v else get s i j)" for i j
    using s2(4) [of i j] put_get [OF Cons.prems s1(1), of i j] s1(3) by (auto simp: p)
  with s1 s2 show ?case by (auto simp: p)
qed simp

text \<open>
  A loop each of whose rounds colours one position of its own leaves every position with its
  round's colour.
\<close>

lemma paint_list:
  assumes "ok s" "distinct (map pos cs)"
    and step: "\<And>c s. c \<in> set cs \<Longrightarrow> ok s \<Longrightarrow> \<exists>s'. f c s = Some s' \<and> ok s' \<and> inside s' = inside s
      \<and> (\<forall>i j. get s' i j = (if (i, j) = pos c \<and> inside s i j then Some (col c) else get s i j))"
  shows "\<exists>s'. ofold f cs s = Some s' \<and> ok s' \<and> inside s' = inside s
    \<and> (\<forall>c\<in>set cs. \<forall>i j. pos c = (i, j) \<longrightarrow> inside s i j \<longrightarrow> get s' i j = Some (col c))
    \<and> (\<forall>i j. (i, j) \<notin> pos ` set cs \<longrightarrow> get s' i j = get s i j)"
  using assms
proof (induction cs arbitrary: s)
  case (Cons c cs)
  from Cons.prems(3) [of c s] Cons.prems(1) obtain s1 where s1: "f c s = Some s1" "ok s1" "inside s1 = inside s"
    "\<And>i j. get s1 i j = (if (i, j) = pos c \<and> inside s i j then Some (col c) else get s i j)" by auto
  from Cons.IH [OF s1(2)] Cons.prems obtain s2 where s2: "ofold f cs s1 = Some s2" "ok s2" "inside s2 = inside s1"
    "\<And>c i j. c \<in> set cs \<Longrightarrow> pos c = (i, j) \<Longrightarrow> inside s1 i j \<Longrightarrow> get s2 i j = Some (col c)"
    "\<And>i j. (i, j) \<notin> pos ` set cs \<Longrightarrow> get s2 i j = get s1 i j" by auto
  have n: "pos c \<notin> pos ` set cs" using Cons.prems(2) by simp
  have "get s2 i j = Some (col d)" if "d \<in> set (c # cs)" "pos d = (i, j)" "inside s i j" for d i j
    using that n s1 s2 by (metis (no_types, lifting) set_ConsD)
  moreover have "get s2 i j = get s i j" if "(i, j) \<notin> pos ` set (c # cs)" for i j
    using that s1(4) s2(5) by auto
  ultimately show ?case using s1 s2 by auto
qed simp

end

text \<open>Surfaces as \<open>SDL_CreateRGBSurface\<close> makes them.\<close>

definition surface_ok :: "surface \<Rightarrow> bool" where
  "surface_ok s \<longleftrightarrow> 0 \<le> surf_w s \<and> 0 \<le> surf_h s \<and> surf_bpp s = 4 \<and> surf_pitch s = 4 * surf_w s
     \<and> int (length (surf_pixels s)) = 4 * surf_w s * surf_h s"

lemma create_surface_ok: "0 \<le> w \<Longrightarrow> 0 \<le> h \<Longrightarrow> surface_ok (create_rgb_surface32 w h)"
  by (simp add: surface_ok_def create_rgb_surface32_def)

lemma join_bytes: "ucast (ucast v :: byte) OR push_bit 8 (ucast (ucast (drop_bit 8 v) :: byte))
   OR push_bit 16 (ucast (ucast (drop_bit 16 v) :: byte)) OR push_bit 24 (ucast (ucast (drop_bit 24 v) :: byte)) = (v :: u32)"
proof (rule bit_word_eqI)
  fix n assume n: "n < LENGTH(32)"
  have bb: "bit (ucast (ucast w :: byte) :: u32) k \<longleftrightarrow> k < 8 \<and> bit (w :: u32) k" for w k
    by (auto simp: bit_unsigned_iff dest: bit_imp_le_length)
  have "n < 8 \<or> (8 \<le> n \<and> n - 8 < 8) \<or> (16 \<le> n \<and> n - 16 < 8) \<or> (24 \<le> n \<and> n - 24 < 8)" using n by auto
  then show "bit (ucast (ucast v :: byte) OR push_bit 8 (ucast (ucast (drop_bit 8 v) :: byte))
   OR push_bit 16 (ucast (ucast (drop_bit 16 v) :: byte)) OR push_bit 24 (ucast (ucast (drop_bit 24 v) :: byte)) :: u32) n = bit v n"
    unfolding bit_or_iff bit_push_bit_iff bb bit_drop_bit_eq o_def using n by (elim disjE) auto
qed

lemma store32_length: "store32 m p v = Some m' \<Longrightarrow> length m' = length m"
  by (auto simp: store32_def split: if_splits)

lemma load_store32_same: "store32 m p v = Some m' \<Longrightarrow> load32 m' p = Some v"
  using join_bytes [of v] by (auto simp: store32_def load32_def split: if_splits)

lemma load_store32_other: "store32 m p v = Some m' \<Longrightarrow> p + 4 \<le> q \<or> q + 4 \<le> p \<Longrightarrow> load32 m' q = load32 m q"
  by (auto simp: store32_def load32_def split: if_splits)

lemma offset_bounds:
  assumes "surface_ok s" "in_surface s x y"
  shows "0 \<le> y * surf_pitch s + x * surf_bpp s" "y * surf_pitch s + x * surf_bpp s + 4 \<le> int (length (surf_pixels s))"
proof -
  have b: "0 \<le> x" "x < surf_w s" "0 \<le> y" "y < surf_h s" using assms(2) by (auto simp: in_surface_def)
  show "0 \<le> y * surf_pitch s + x * surf_bpp s" using b assms(1) by (simp add: surface_ok_def)
  have "(y + 1) * surf_w s \<le> surf_h s * surf_w s" using b by (intro mult_right_mono) auto
  then have "y * surf_w s + x + 1 \<le> surf_w s * surf_h s" using b by (simp add: algebra_simps)
  then show "y * surf_pitch s + x * surf_bpp s + 4 \<le> int (length (surf_pixels s))"
    using assms(1) by (simp add: surface_ok_def algebra_simps)
qed

lemma offset_disjoint:
  assumes "surface_ok s" "in_surface s x y" "in_surface s i j" "(i, j) \<noteq> (x, y)"
  defines "p \<equiv> y * surf_pitch s + x * surf_bpp s" and "q \<equiv> j * surf_pitch s + i * surf_bpp s"
  shows "p + 4 \<le> q \<or> q + 4 \<le> p"
proof -
  have b: "0 \<le> x" "x < surf_w s" "0 \<le> i" "i < surf_w s" using assms(2,3) by (auto simp: in_surface_def)
  have r: "p = 4 * (y * surf_w s + x)" "q = 4 * (j * surf_w s + i)"
    using assms(1) by (simp_all add: p_def q_def surface_ok_def algebra_simps)
  have "y * surf_w s + x \<noteq> j * surf_w s + i"
  proof
    assume e: "y * surf_w s + x = j * surf_w s + i"
    then have "(y * surf_w s + x) div surf_w s = (j * surf_w s + i) div surf_w s"
      "(y * surf_w s + x) mod surf_w s = (j * surf_w s + i) mod surf_w s" by simp_all
    with b assms(4) show False by simp
  qed
  moreover have "4 * u + 4 \<le> 4 * v \<or> 4 * v + 4 \<le> 4 * u" if "u \<noteq> v" for u v :: int
    using that by (cases "u < v") auto
  ultimately show ?thesis unfolding r by blast
qed

interpretation nsdl: pixel_store surface_ok in_surface nsdl_pointS nsdl_getpointS
proof
  fix s x y v assume ok: "surface_ok s"
  show "\<exists>s'. nsdl_pointS s x y v = Some s' \<and> surface_ok s' \<and> in_surface s' = in_surface s"
  proof (cases "in_surface s x y")
    case True
    obtain m' where m': "store32 (surf_pixels s) (y * surf_pitch s + x * surf_bpp s) v = Some m'"
      using offset_bounds [OF ok True] by (simp add: store32_def)
    then have "nsdl_pointS s x y v = Some (s\<lparr>surf_pixels := m'\<rparr>)" using True by (simp add: nsdl_pointS_def Let_def)
    moreover have "surface_ok (s\<lparr>surf_pixels := m'\<rparr>)" using ok store32_length [OF m'] by (simp add: surface_ok_def)
    ultimately show ?thesis by (simp add: in_surface_def fun_eq_iff)
  qed (use ok in \<open>simp add: nsdl_pointS_def\<close>)
  show "\<exists>v. nsdl_getpointS s x y = Some v"
    using offset_bounds [OF ok] by (auto simp: nsdl_getpointS_def load32_def Let_def)
next
  fix s x y v s' i j assume ok: "surface_ok s" and p: "nsdl_pointS s x y v = Some s'"
  show "nsdl_getpointS s' i j = (if (i, j) = (x, y) \<and> in_surface s x y then Some v else nsdl_getpointS s i j)"
  proof (cases "in_surface s x y")
    case True
    with p obtain m' where m': "store32 (surf_pixels s) (y * surf_pitch s + x * surf_bpp s) v = Some m'"
      "s' = s\<lparr>surf_pixels := m'\<rparr>" by (auto simp: nsdl_pointS_def Let_def split: bind_splits)
    have e: "in_surface s' = in_surface s" by (simp add: m' in_surface_def fun_eq_iff)
    consider "(i, j) = (x, y)" | "\<not> in_surface s i j" | "in_surface s i j" "(i, j) \<noteq> (x, y)" by blast
    then show ?thesis
    proof cases
      case 3
      then show ?thesis using load_store32_other [OF m'(1) offset_disjoint [OF ok True 3]] e True
        by (auto simp: nsdl_getpointS_def m'(2) Let_def)
    qed (use e True load_store32_same [OF m'(1)] in \<open>auto simp: nsdl_getpointS_def m'(2) Let_def\<close>)
  qed (use p in \<open>auto simp: nsdl_pointS_def\<close>)
qed

subsection \<open>The points of a line\<close>

text \<open>The points \<^const>\<open>line_loop\<close> passes to \<^const>\<open>nsdl_pointS\<close>, in order.\<close>

fun line_points :: "nat \<Rightarrow> int \<Rightarrow> int \<Rightarrow> int \<Rightarrow> int \<Rightarrow> int \<Rightarrow> int \<Rightarrow> int \<Rightarrow> int \<Rightarrow> int \<Rightarrow> (int \<times> int) list" where
  "line_points 0 ex ey dx dy sx sy cx cy err = []"
| "line_points (Suc n) ex ey dx dy sx sy cx cy err = (cx, cy) #
     (if cx = ex \<and> cy = ey then []
      else line_points n ex ey dx dy sx sy
        (if 2 * err > - dy then cx + sx else cx)
        (if 2 * err < dx then cy + sy else cy)
        (err - (if 2 * err > - dy then dy else 0) + (if 2 * err < dx then dx else 0)))"

lemma line_loop_points:
  "line_loop n s ex ey dx dy sx sy color cx cy err
   = ofold (\<lambda>(x, y) s. nsdl_pointS s x y color) (line_points n ex ey dx dy sx sy cx cy err) s"
proof (induction n arbitrary: s cx cy err)
  case (Suc n)
  show ?case by (cases "nsdl_pointS s cx cy color") (auto simp: Suc.IH Let_def)
qed simp

text \<open>Exchanging the axes.\<close>

lemma line_points_swap:
  "line_points n ey ex dy dx sy sx cy cx (- err)
   = map (\<lambda>(x, y). (y, x)) (line_points n ex ey dx dy sx sy cx cy err)"
proof (induction n arbitrary: cx cy err)
  case (Suc n)
  let ?e = "err - (if 2 * err > - dy then dy else 0) + (if 2 * err < dx then dx else 0)"
  have c: "2 * (- err) > - dx \<longleftrightarrow> 2 * err < dx" "2 * (- err) < dy \<longleftrightarrow> 2 * err > - dy" by auto
  have e: "- err - (if 2 * err < dx then dx else 0) + (if 2 * err > - dy then dy else 0) = - ?e" by auto
  show ?case unfolding line_points.simps c e Suc.IH by auto
qed simp

text \<open>
  On the axis with the longer side \<open>a\<close> every round steps once; on the other the position \<open>j\<close>
  after \<open>k\<close> rounds stays within half a pixel of \<open>b * k / a\<close>.
\<close>

definition near :: "int \<Rightarrow> int \<Rightarrow> int \<Rightarrow> int \<Rightarrow> bool" where
  "near a b k j \<longleftrightarrow> - a \<le> 2 * (a * j - b * k) \<and> 2 * (a * j - b * k) < a \<and> (a = b \<longrightarrow> j = k)"

lemma near_step:
  assumes "near a b k j" "0 < a" "0 \<le> b" "b \<le> a"
  defines "err \<equiv> a - b + (a * j - b * k)"
  shows "2 * err > - b" "near a b (k + 1) (if 2 * err < a then j + 1 else j)"
proof -
  define e where "e = a * j - b * k"
  have e: "- a \<le> 2 * e" "2 * e < a" "a = b \<longrightarrow> e = 0"
    using assms(1) by (auto simp: near_def e_def algebra_simps)
  show "2 * err > - b" using e assms(2-4) unfolding err_def e_def [symmetric] by auto
  show "near a b (k + 1) (if 2 * err < a then j + 1 else j)"
  proof (cases "2 * err < a")
    case True
    have r: "a * (j + 1) - b * (k + 1) = e + a - b" by (simp add: e_def algebra_simps)
    have "2 * e < 2 * b - a" using True unfolding err_def e_def [symmetric] by simp
    then have "- a \<le> 2 * (e + a - b)" "2 * (e + a - b) < a" using e assms(2-4) by auto
    with True assms(1) show ?thesis by (simp only: near_def r if_True) auto
  next
    case False
    have r: "a * j - b * (k + 1) = e - b" by (simp add: e_def algebra_simps)
    have g: "2 * b - a \<le> 2 * e" using False unfolding err_def e_def [symmetric] by simp
    then have "- a \<le> 2 * (e - b)" "2 * (e - b) < a" "a \<noteq> b" using e assms(2-4) by auto
    with False show ?thesis by (simp only: near_def r if_False) auto
  qed
qed

lemma near_end:
  assumes "near a b a j" "0 < a"
  shows "j = b"
proof -
  have "- a \<le> 2 * (a * (j - b))" "2 * (a * (j - b)) < a" using assms(1) by (simp_all add: near_def algebra_simps)
  then have "- a \<le> a * (2 * (j - b))" "a * (2 * (j - b)) < a * 1" by (simp_all add: algebra_simps)
  with assms(2) have "2 * (j - b) < 1" by (simp only: mult_less_cancel_left_pos)
  moreover have "a * (- 1) \<le> a * (2 * (j - b))" using \<open>- a \<le> a * (2 * (j - b))\<close> by simp
  with assms(2) have "- 1 \<le> 2 * (j - b)" by (simp only: mult_le_cancel_left_pos)
  ultimately show ?thesis by presburger
qed

lemma line_points_major:
  assumes "0 < a" "0 \<le> b" "b \<le> a" "sx = 1 \<or> sx = - 1" "sy = 1 \<or> sy = - 1" "k \<le> a" "near a b k j"
  shows "let ps = line_points n (x0 + sx * a) (y0 + sy * b) a b sx sy (x0 + sx * k) (y0 + sy * j) (a - b + (a * j - b * k))
    in length ps = min n (nat (a - k) + 1)
     \<and> (\<forall>i<length ps. \<exists>l. ps ! i = (x0 + sx * (k + int i), y0 + sy * l) \<and> near a b (k + int i) l)"
  using assms(6,7)
proof (induction n arbitrary: k j)
  case (Suc n)
  let ?err = "a - b + (a * j - b * k)"
  show ?case
  proof (cases "k = a")
    case True
    then have "j = b" using near_end Suc.prems(2) assms(1) by blast
    with True Suc.prems show ?thesis by (auto simp: Let_def)
  next
    case False
    then have ne: "x0 + sx * k \<noteq> x0 + sx * a" using assms(4) by auto
    let ?j = "if 2 * ?err < a then j + 1 else j"
    note st = near_step [OF Suc.prems(2) assms(1-3)]
    have c: "(if 2 * ?err < a then y0 + sy * j + sy else y0 + sy * j) = y0 + sy * ?j"
      "x0 + sx * k + sx = x0 + sx * (k + 1)"
      "?err - b + (if 2 * ?err < a then a else 0) = a - b + (a * ?j - b * (k + 1))"
      by (auto simp: algebra_simps)
    let ?ps = "line_points n (x0 + sx * a) (y0 + sy * b) a b sx sy (x0 + sx * (k + 1)) (y0 + sy * ?j)
        (a - b + (a * ?j - b * (k + 1)))"
    have ps: "line_points (Suc n) (x0 + sx * a) (y0 + sy * b) a b sx sy (x0 + sx * k) (y0 + sy * j) ?err
      = (x0 + sx * k, y0 + sy * j) # ?ps"
      using ne st(1) by (simp only: line_points.simps if_True if_False c) simp
    have IH: "length ?ps = min n (nat (a - (k + 1)) + 1)"
      "\<forall>i<length ?ps. \<exists>l. ?ps ! i = (x0 + sx * (k + 1 + int i), y0 + sy * l) \<and> near a b (k + 1 + int i) l"
      using Suc.IH [OF _ st(2)] False Suc.prems(1) by (simp_all add: Let_def)
    have "nat (a - k) = Suc (nat (a - (k + 1)))" using False Suc.prems(1) by simp
    with IH(1) have "length ((x0 + sx * k, y0 + sy * j) # ?ps) = min (Suc n) (nat (a - k) + 1)" by simp
    moreover have "\<exists>l. ((x0 + sx * k, y0 + sy * j) # ?ps) ! i = (x0 + sx * (k + int i), y0 + sy * l) \<and> near a b (k + int i) l"
      if "i < length ((x0 + sx * k, y0 + sy * j) # ?ps)" for i
    proof (cases i)
      case 0
      then show ?thesis using Suc.prems(2) by auto
    next
      case (Suc i')
      then have "i' < length ?ps" using that by simp
      with IH(2) obtain l where "?ps ! i' = (x0 + sx * (k + 1 + int i'), y0 + sy * l)" "near a b (k + 1 + int i') l" by blast
      then show ?thesis using Suc by (intro exI [of _ l]) (simp add: algebra_simps)
    qed
    ultimately show ?thesis unfolding ps Let_def by blast
  qed
qed (simp add: Let_def)


lemma near_bounds:
  assumes "near a b k l" "0 < a" "0 \<le> b" "b \<le> a" "0 \<le> k"
  shows "0 \<le> l" "l \<le> k"
proof -
  have bk: "0 \<le> b * k" "b * k \<le> a * k" using assms by (simp_all add: mult_right_mono)
  have "a * (- 1) \<le> a * (2 * l)" "a * (2 * l) < a * (2 * k + 1)"
    using assms(1) bk unfolding near_def by (simp_all add: algebra_simps)
  then have "- 1 \<le> 2 * l" "2 * l < 2 * k + 1"
    using assms(2) by (simp_all only: mult_le_cancel_left_pos mult_less_cancel_left_pos)
  then show "0 \<le> l" "l \<le> k" by simp_all
qed

text \<open>
  One description for both directions: \<open>M\<close> is the longer side; point \<open>k\<close> lies \<open>k\<close> steps from the
  start and within half a pixel of the straight line, and point \<open>M\<close> is the end.
\<close>

definition good_line :: "nat \<Rightarrow> int \<Rightarrow> int \<Rightarrow> int \<Rightarrow> int \<Rightarrow> (int \<times> int) list \<Rightarrow> bool" where
  "good_line n x0 y0 x1 y1 ps \<longleftrightarrow>
     (let M = max \<bar>x1 - x0\<bar> \<bar>y1 - y0\<bar> in
      length ps = min n (nat M + 1) \<and>
      (\<forall>k x y. k < length ps \<longrightarrow> ps ! k = (x, y) \<longrightarrow>
         max \<bar>x - x0\<bar> \<bar>y - y0\<bar> = int k \<and>
         2 * \<bar>(x - x0) * (y1 - y0) - (y - y0) * (x1 - x0)\<bar> \<le> M \<and>
         ((x, y) = (x1, y1) \<longleftrightarrow> int k = M)))"

lemma good_line_length: "good_line n x0 y0 x1 y1 ps \<Longrightarrow> length ps = min n (nat (max \<bar>x1 - x0\<bar> \<bar>y1 - y0\<bar>) + 1)"
  unfolding good_line_def Let_def by blast

lemma good_line_nth:
  "good_line n x0 y0 x1 y1 ps \<Longrightarrow> k < length ps \<Longrightarrow> ps ! k = (x, y) \<Longrightarrow>
     max \<bar>x - x0\<bar> \<bar>y - y0\<bar> = int k \<and>
     2 * \<bar>(x - x0) * (y1 - y0) - (y - y0) * (x1 - x0)\<bar> \<le> max \<bar>x1 - x0\<bar> \<bar>y1 - y0\<bar> \<and>
     ((x, y) = (x1, y1) \<longleftrightarrow> int k = max \<bar>x1 - x0\<bar> \<bar>y1 - y0\<bar>)"
  unfolding good_line_def Let_def by blast

lemma line_points_xmajor:
  fixes x0 y0 x1 y1 :: int
  assumes "\<bar>y1 - y0\<bar> \<le> \<bar>x1 - x0\<bar>"
  shows "good_line n x0 y0 x1 y1 (line_points n x1 y1 \<bar>x1 - x0\<bar> \<bar>y1 - y0\<bar>
      (if x0 < x1 then 1 else - 1) (if y0 < y1 then 1 else - 1) x0 y0 (\<bar>x1 - x0\<bar> - \<bar>y1 - y0\<bar>))"
proof (cases "x1 = x0")
  case True
  then have "y1 = y0" using assms by simp
  with True show ?thesis by (cases n) (auto simp: good_line_def Let_def)
next
  case False
  define a b sx sy where ab: "a = \<bar>x1 - x0\<bar>" "b = \<bar>y1 - y0\<bar>"
    "sx = (if x0 < x1 then 1 else - 1 :: int)" "sy = (if y0 < y1 then 1 else - 1 :: int)"
  then have r: "0 < a" "0 \<le> b" "b \<le> a" "sx = 1 \<or> sx = - 1" "sy = 1 \<or> sy = - 1"
    "x1 = x0 + sx * a" "y1 = y0 + sy * b" using False assms by auto
  let ?ps = "line_points n (x0 + sx * a) (y0 + sy * b) a b sx sy x0 y0 (a - b)"
  from line_points_major [OF r(1-5), of 0 0 n x0 y0] r(1)
  have ps: "length ?ps = min n (nat a + 1)"
    "\<And>i. i < length ?ps \<Longrightarrow> \<exists>l. ?ps ! i = (x0 + sx * int i, y0 + sy * l) \<and> near a b (int i) l"
    by (simp_all add: Let_def near_def)
  have "max \<bar>x - x0\<bar> \<bar>y - y0\<bar> = int k \<and> 2 * \<bar>(x - x0) * (y1 - y0) - (y - y0) * (x1 - x0)\<bar> \<le> a
      \<and> ((x, y) = (x1, y1) \<longleftrightarrow> int k = a)" if k: "k < length ?ps" and p: "?ps ! k = (x, y)" for k x y
  proof -
    from ps(2) [OF k] p obtain l where l: "x = x0 + sx * int k" "y = y0 + sy * l" "near a b (int k) l" by auto
    note lb = near_bounds [OF l(3) r(1-3)]
    have 1: "max \<bar>x - x0\<bar> \<bar>y - y0\<bar> = int k" using lb r(4,5) by (auto simp: l abs_mult)
    have "(x - x0) * (y1 - y0) - (y - y0) * (x1 - x0) = sx * sy * (b * int k - a * l)"
      by (simp add: l r(6,7) algebra_simps)
    then have "\<bar>(x - x0) * (y1 - y0) - (y - y0) * (x1 - x0)\<bar> = \<bar>b * int k - a * l\<bar>"
      using r(4,5) by (auto simp: abs_mult)
    then have 2: "2 * \<bar>(x - x0) * (y1 - y0) - (y - y0) * (x1 - x0)\<bar> \<le> a"
      using l(3) unfolding near_def by (simp only: abs_minus_commute [of "b * int k"]) linarith
    have "(x, y) = (x1, y1) \<longleftrightarrow> int k = a"
    proof
      assume "(x, y) = (x1, y1)"
      then show "int k = a" using r(4) by (auto simp: l r(6))
    next
      assume ka: "int k = a"
      then have "l = b" using near_end [of a b l] l(3) r(1) by simp
      with ka show "(x, y) = (x1, y1)" by (simp add: l r(6,7))
    qed
    with 1 2 show ?thesis by blast
  qed
  moreover have "max a b = a" using r(3) by simp
  ultimately show ?thesis using ps(1) unfolding good_line_def ab(3,4) [symmetric] ab(1,2) [symmetric] Let_def r(6,7) [symmetric]
    by simp
qed

lemma good_line_swap:
  assumes "good_line n y0 x0 y1 x1 ps"
  shows "good_line n x0 y0 x1 y1 (map (\<lambda>(x, y). (y, x)) ps)"
proof -
  have "max \<bar>x - x0\<bar> \<bar>y - y0\<bar> = int k \<and>
      2 * \<bar>(x - x0) * (y1 - y0) - (y - y0) * (x1 - x0)\<bar> \<le> max \<bar>x1 - x0\<bar> \<bar>y1 - y0\<bar> \<and>
      ((x, y) = (x1, y1) \<longleftrightarrow> int k = max \<bar>x1 - x0\<bar> \<bar>y1 - y0\<bar>)"
    if k: "k < length ps" and p: "(case ps ! k of (x, y) \<Rightarrow> (y, x)) = (x, y)" for k x y
  proof -
    have "ps ! k = (y, x)" using p by (auto split: prod.splits)
    note g = good_line_nth [OF assms k this]
    have 1: "max \<bar>x - x0\<bar> \<bar>y - y0\<bar> = int k" using g max.commute [of "\<bar>x - x0\<bar>"] by metis
    have 2: "2 * \<bar>(x - x0) * (y1 - y0) - (y - y0) * (x1 - x0)\<bar> \<le> max \<bar>x1 - x0\<bar> \<bar>y1 - y0\<bar>"
      using g max.commute [of "\<bar>x1 - x0\<bar>"] abs_minus_commute [of "(x - x0) * (y1 - y0)"] by metis
    have 3: "(x, y) = (x1, y1) \<longleftrightarrow> int k = max \<bar>x1 - x0\<bar> \<bar>y1 - y0\<bar>"
      using g max.commute [of "\<bar>x1 - x0\<bar>"] by (metis Pair_inject)
    from 1 2 3 show ?thesis by blast
  qed
  moreover have "length ps = min n (nat (max \<bar>x1 - x0\<bar> \<bar>y1 - y0\<bar>) + 1)"
    using good_line_length [OF assms] max.commute [of "\<bar>y1 - y0\<bar>" "\<bar>x1 - x0\<bar>"] by metis
  ultimately show ?thesis unfolding good_line_def Let_def length_map by (metis nth_map)
qed

definition line_pixels :: "int \<Rightarrow> int \<Rightarrow> int \<Rightarrow> int \<Rightarrow> (int \<times> int) list" where
  "line_pixels x0 y0 x1 y1 = line_points 1000 x1 y1 \<bar>x1 - x0\<bar> \<bar>y1 - y0\<bar>
      (if x0 < x1 then 1 else - 1) (if y0 < y1 then 1 else - 1) x0 y0 (\<bar>x1 - x0\<bar> - \<bar>y1 - y0\<bar>)"

lemma line_pixels_good: "good_line 1000 x0 y0 x1 y1 (line_pixels x0 y0 x1 y1)"
proof (cases "\<bar>y1 - y0\<bar> \<le> \<bar>x1 - x0\<bar>")
  case True
  then show ?thesis unfolding line_pixels_def by (rule line_points_xmajor)
next
  case False
  then have "\<bar>x1 - x0\<bar> \<le> \<bar>y1 - y0\<bar>" by simp
  from good_line_swap [OF line_points_xmajor [OF this, of 1000]] show ?thesis
    unfolding line_pixels_def by (simp only: line_points_swap [symmetric] minus_diff_eq)
qed

lemma nsdl_lineS_pixels:
  "nsdl_lineS s x0 y0 x1 y1 color = ofold (\<lambda>(x, y) s. nsdl_pointS s x y color) (line_pixels x0 y0 x1 y1) s"
  by (simp add: nsdl_lineS_def Let_def line_loop_points line_pixels_def abs_if)

lemma line_pixels_end: "(x1, y1) \<in> set (line_pixels x0 y0 x1 y1) \<longleftrightarrow> max \<bar>x1 - x0\<bar> \<bar>y1 - y0\<bar> < 1000"
proof -
  let ?M = "max \<bar>x1 - x0\<bar> \<bar>y1 - y0\<bar>" and ?ps = "line_pixels x0 y0 x1 y1"
  have g: "length ?ps = min 1000 (nat ?M + 1)"
    "\<And>k. k < length ?ps \<Longrightarrow> ?ps ! k = (x1, y1) \<longleftrightarrow> int k = ?M"
    subgoal by (rule good_line_length [OF line_pixels_good])
    subgoal for k using good_line_nth [OF line_pixels_good, of k x0 y0 x1 y1] by (cases "?ps ! k") blast
    done
  have "(x1, y1) \<in> set ?ps \<longleftrightarrow> (\<exists>k<length ?ps. int k = ?M)" using g(2) by (auto simp: in_set_conv_nth)
  also have "\<dots> \<longleftrightarrow> ?M < 1000"
  proof
    assume M: "?M < 1000"
    define m where "m = nat ?M"
    have "0 \<le> ?M" by linarith
    with m_def M have m: "int m = ?M" "m < 1000" by linarith+
    then have "m < length ?ps" using g(1) by (simp add: m_def [symmetric])
    with m show "\<exists>k<length ?ps. int k = ?M" by blast
  next
    assume "\<exists>k<length ?ps. int k = ?M"
    then obtain k where "k < length ?ps" "int k = ?M" by blast
    then show "?M < 1000" using g(1) by linarith
  qed
  finally show ?thesis .
qed

lemma nsdl_lineS_run:
  assumes "surface_ok s"
  shows "\<exists>s' ps. nsdl_lineS s x0 y0 x1 y1 color = Some s' \<and> surface_ok s' \<and> good_line 1000 x0 y0 x1 y1 ps
    \<and> ((x1, y1) \<in> set ps \<longleftrightarrow> max \<bar>x1 - x0\<bar> \<bar>y1 - y0\<bar> < 1000)
    \<and> (\<forall>i j. nsdl_getpointS s' i j =
          (if (i, j) \<in> set ps \<and> in_surface s i j then Some color else nsdl_getpointS s i j))"
  using nsdl.put_list [OF assms, of color "line_pixels x0 y0 x1 y1"] line_pixels_good line_pixels_end
  by (metis nsdl_lineS_pixels)



end
