(* ===== verification/Nunifont.thy ===== *)
theory Nunifont
  imports Nsdl
begin

section \<open>Bitmap fonts and text (nunifont.c)\<close>

text \<open>
  \<open>nunifont.c\<close> holds a 16x16 bitmap for each of 65536 characters (32 bytes a character, two
  bytes a row, the leftmost pixel in the lowest bit), one bit a character saying that it is narrow,
  and a cache of the characters already turned into textures.

  The font file is a parameter: \<open>lines\<close> is the content of the line buffer in each round of the loop
  of \<open>load_fonts\<close>, the last round (in which \<open>getline\<close> reads nothing) included. \<open>uthash\<close> tables are
  association lists in insertion order.
\<close>

subsection \<open>State\<close>

record lookup_key =
  key_c :: u32
  key_bg :: u32
  key_fg :: u32
  key_bold :: int
  key_underline :: int
  key_italic :: int
  key_strike :: int

record font_state =
  fontmap :: "byte list"
  widthmap :: "byte list"
  fontmap_size :: int
  widthmap_size :: int
  nunifont_width :: int
  nunifont_height :: int
  nunifont_space :: int
  initialised :: bool
  blink_value :: bool
  system_bg :: u32
  char_render_t_keylen :: int
  display_cache :: "(lookup_key \<times> surface) list"

text \<open>The values of the globals when the program starts; the two maps are null pointers.\<close>

definition font_static :: font_state where
  "font_static = \<lparr>fontmap = [], widthmap = [], fontmap_size = 0, widthmap_size = 0, nunifont_width = 0,
     nunifont_height = 0, nunifont_space = 0, initialised = False, blink_value = False, system_bg = 0,
     char_render_t_keylen = - 1, display_cache = []\<rparr>"

text \<open>What \<open>SDL_DestroyTexture\<close> is called on: a cache entry itself, or an entry's texture.\<close>

datatype destroy_arg = CacheEntry lookup_key | EntryTexture surface

definition nunifont_initcache :: "font_state \<Rightarrow> font_state \<times> destroy_arg list" where
  "nunifont_initcache st =
     (st\<lparr>char_render_t_keylen := 6 * 4 + 4, display_cache := []\<rparr>, map (\<lambda>(k, t). CacheEntry k) (display_cache st))"

definition nunifont_size :: "int \<Rightarrow> font_state \<Rightarrow> font_state" where
  "nunifont_size sz st =
     (let st1 = (if sz = 16 then st\<lparr>nunifont_width := 8, nunifont_height := 16\<rparr> else st);
          st2 = (if sz = 32 then st1\<lparr>nunifont_width := 16, nunifont_height := 32\<rparr> else st1)
      in st2\<lparr>nunifont_space := 0\<rparr>)"

definition set_system_bg :: "u32 \<Rightarrow> font_state \<Rightarrow> font_state" where
  "set_system_bg b st = st\<lparr>system_bg := b\<rparr>"

definition nunifont_blinktimer :: "font_state \<Rightarrow> font_state" where
  "nunifont_blinktimer st = st\<lparr>blink_value := \<not> blink_value st\<rparr>"

subsection \<open>Bitmaps\<close>

definition get_pixel :: "byte list \<Rightarrow> u32 \<Rightarrow> int \<Rightarrow> int \<Rightarrow> int option" where
  "get_pixel fm c c_x c_y =
     (if c_x < 0 then Some 0 else if c_y < 0 then Some 0
      else if c_x > 15 then Some 0 else if c_y > 15 then Some 0
      else let pos = c_y * 16 + c_x; b = pos div 8; k = nat (pos mod 8) in do {
        d \<leftarrow> arr_get fm (32 * int (unat c) + b);
        Some (if d AND push_bit k 1 \<noteq> 0 then 65535 else 0) })"

definition set_widthmap :: "byte list \<Rightarrow> int \<Rightarrow> int \<Rightarrow> byte list option" where
  "set_widthmap wm p v =
     (let b = p div 8; k = nat (p mod 8) in do {
        old \<leftarrow> arr_get wm b;
        arr_set wm b (if v = 1 then old AND NOT (push_bit k 1) else old OR push_bit k 1) })"

definition get_widthmap :: "byte list \<Rightarrow> u16 \<Rightarrow> bool option" where
  "get_widthmap wm p =
     (let b = unat p div 8; k = unat p mod 8 in do {
        d \<leftarrow> arr_get wm (int b);
        Some (d AND push_bit k 1 \<noteq> 0) })"

subsection \<open>Loading a font file\<close>

text \<open>\<open>hex2dec\<close> returns nothing for a character that is no upper-case hex digit.\<close>

definition hex2dec :: "byte \<Rightarrow> int option" where
  "hex2dec h =
     (if h = of_char (CHR ''0'') then Some 0 else if h = of_char (CHR ''1'') then Some 1
      else if h = of_char (CHR ''2'') then Some 2 else if h = of_char (CHR ''3'') then Some 3
      else if h = of_char (CHR ''4'') then Some 4 else if h = of_char (CHR ''5'') then Some 5
      else if h = of_char (CHR ''6'') then Some 6 else if h = of_char (CHR ''7'') then Some 7
      else if h = of_char (CHR ''8'') then Some 8 else if h = of_char (CHR ''9'') then Some 9
      else if h = of_char (CHR ''A'') then Some 10 else if h = of_char (CHR ''B'') then Some 11
      else if h = of_char (CHR ''C'') then Some 12 else if h = of_char (CHR ''D'') then Some 13
      else if h = of_char (CHR ''E'') then Some 14 else if h = of_char (CHR ''F'') then Some 15
      else None)"

text \<open>One bit of a digit: the state is the character's data, the byte and the bit to write.\<close>

definition load_bit :: "int \<Rightarrow> int \<Rightarrow> nat \<Rightarrow> byte list \<times> int \<times> nat \<Rightarrow> (byte list \<times> int \<times> nat) option" where
  "load_bit width v n = (\<lambda>(d, b, k). do {
     old \<leftarrow> arr_get d b;
     d' \<leftarrow> arr_set d b (if v AND 2 ^ (3 - n) = 0 then old AND NOT (push_bit k 1) else old OR push_bit k 1);
     if k + 1 = 8 then Some (d', b + 1 + (if width = 8 then 1 else 0), 0) else Some (d', b, k + 1) })"

fun load_digits :: "int \<Rightarrow> byte list \<Rightarrow> byte list \<times> int \<times> nat \<Rightarrow> (byte list \<times> int \<times> nat) option" where
  "load_digits width (c # d # cs) st =
     (if d = 0 then Some st
      else do { v \<leftarrow> hex2dec c; st' \<leftarrow> ofold (load_bit width v) [0, 1, 2, 3] st; load_digits width (d # cs) st' })"
| "load_digits width [c] st = None"
| "load_digits width [] st = None"

text \<open>The text from the first colon on, or from the terminating NUL.\<close>

fun skip_colon :: "byte list \<Rightarrow> byte list option" where
  "skip_colon (c # cs) = (if c = 0 then Some (c # cs) else if c = of_char (CHR '':'') then Some (c # cs) else skip_colon cs)"
| "skip_colon [] = None"

definition load_line :: "byte list \<Rightarrow> byte list \<Rightarrow> (byte list \<times> int) option" where
  "load_line line f = do {
     s \<leftarrow> cstr line;
     let width = (if length s > 60 then 16 else 8);
     r \<leftarrow> skip_colon line;
     (d, _, _) \<leftarrow> load_digits width (tl r) (f, 0, 0);
     Some (d, if width = 16 then 1 else 0) }"

fun load_fonts_loop :: "nat \<Rightarrow> byte list list \<Rightarrow> byte list \<times> byte list \<Rightarrow> (byte list \<times> byte list) option" where
  "load_fonts_loop n [] maps = Some maps"
| "load_fonts_loop n (l # ls) (fm, wm) = do {
     guard (32 * n + 32 \<le> length fm);
     (d, width) \<leftarrow> load_line l (take 32 (drop (32 * n) fm));
     wm' \<leftarrow> set_widthmap wm (int n) width;
     load_fonts_loop (Suc n) ls (take (32 * n) fm @ d @ drop (32 * n + 32) fm, wm') }"

definition load_fonts :: "byte list list \<Rightarrow> font_state \<Rightarrow> font_state option" where
  "load_fonts lines st = do {
     (fm, wm) \<leftarrow> load_fonts_loop 0 lines (replicate (32 * 65536) 0, replicate (65536 div 8) 0);
     Some (st\<lparr>fontmap := fm, widthmap := wm, fontmap_size := 32 * 65536, widthmap_size := 65536 div 8\<rparr>) }"

definition nunifont_init :: "byte list list \<Rightarrow> font_state \<Rightarrow> font_state option" where
  "nunifont_init lines st = do {
     st1 \<leftarrow> load_fonts lines st;
     Some ((fst (nunifont_initcache st1))\<lparr>initialised := True\<rparr>) }"

definition nunifont_save_staticmap :: "font_state \<Rightarrow> (byte list \<times> byte list) option" where
  "nunifont_save_staticmap st = do {
     guard (fontmap_size st \<le> int (length (fontmap st)));
     guard (widthmap_size st \<le> int (length (widthmap st)));
     Some (take (nat (fontmap_size st)) (fontmap st), take (nat (widthmap_size st)) (widthmap st)) }"

definition nunifont_load_staticmap :: "byte list \<Rightarrow> byte list \<Rightarrow> int \<Rightarrow> int \<Rightarrow> font_state \<Rightarrow> font_state" where
  "nunifont_load_staticmap fm wm fsize wsize st =
     (fst (nunifont_initcache (st\<lparr>fontmap := fm, widthmap := wm, fontmap_size := fsize, widthmap_size := wsize\<rparr>)))
       \<lparr>initialised := True\<rparr>"

subsection \<open>Drawing on surfaces\<close>

definition draw_point :: "surface \<Rightarrow> int \<Rightarrow> int \<Rightarrow> u32 \<Rightarrow> surface option" where
  "draw_point s x y v =
     (let p = y * surf_pitch s + x * surf_bpp s in
      if x < 0 \<or> y < 0 \<or> x \<ge> surf_w s \<or> y \<ge> surf_h s then Some s
      else do { px \<leftarrow> store32 (surf_pixels s) p v; Some (s\<lparr>surf_pixels := px\<rparr>) })"

text \<open>
  The values of \<open>for(size_t c=a;c<b;c++)\<close> with \<open>int\<close> bounds \<open>a \<le> b\<close>, read back as \<open>int\<close>: the
  comparison is unsigned, so a negative start with a bound that is not negative runs no round.
\<close>

definition size_range :: "int \<Rightarrow> int \<Rightarrow> int list" where
  "size_range a b = (if a < 0 \<and> 0 \<le> b then [] else [a..b - 1])"

definition draw_char_point :: "byte list \<Rightarrow> int \<Rightarrow> int \<Rightarrow> u32 \<Rightarrow> u32 \<Rightarrow> u32 \<Rightarrow> int \<Rightarrow> int \<Rightarrow> int \<Rightarrow> int
    \<Rightarrow> int \<times> int \<Rightarrow> surface \<Rightarrow> surface option" where
  "draw_char_point fm x y cin bg fg bold underline italic strike = (\<lambda>(c_x, c_y) screen.
     if c_y = 15 \<and> underline = 1 then draw_point screen c_x c_y fg
     else if c_y = 8 \<and> strike = 1 then draw_point screen c_x c_y fg
     else do {
       value \<leftarrow> get_pixel fm cin (c_x - x) (c_y - y);
       value1 \<leftarrow> get_pixel fm cin (c_x + 1 - x) (c_y - y);
       let i = (if italic = 1 then 1 else 0);
       if value > 0 then draw_point screen (c_x + i) c_y fg
       else do {
         screen1 \<leftarrow> draw_point screen (c_x + i) c_y bg;
         if bold = 1 \<and> value1 > 0 then draw_point screen1 (c_x + i) c_y fg else Some screen1 } })"

definition draw_character_surface :: "byte list \<Rightarrow> surface \<Rightarrow> int \<Rightarrow> int \<Rightarrow> int \<Rightarrow> u32 \<Rightarrow> u32 \<Rightarrow> u32
    \<Rightarrow> int \<Rightarrow> int \<Rightarrow> int \<Rightarrow> int \<Rightarrow> surface option" where
  "draw_character_surface fm screen x y w cin bg fg bold underline italic strike =
     ofold (draw_char_point fm x y cin bg fg bold underline italic strike)
       [(c_x, c_y). c_y \<leftarrow> size_range y (y + 16), c_x \<leftarrow> size_range x (x + w)] screen"

definition draw_space_surface :: "font_state \<Rightarrow> surface \<Rightarrow> int \<Rightarrow> int \<Rightarrow> int \<Rightarrow> u32 \<Rightarrow> surface option" where
  "draw_space_surface st screen x y w bg =
     ofold (\<lambda>(c_x, c_y) s. draw_point s (x + c_x) (y + c_y) bg)
       [(c_x, c_y). c_y \<leftarrow> size_range 0 (nunifont_height st), c_x \<leftarrow> size_range 0 w] screen"

definition draw_space_renderer :: "font_state \<Rightarrow> int \<Rightarrow> int \<Rightarrow> int \<Rightarrow> u32 \<Rightarrow> render_cmd list" where
  "draw_space_renderer st x y w bg =
     [SetRenderDrawColor (int (unat (drop_bit 24 (bg AND 0xff000000)))) (int (unat (drop_bit 16 (bg AND 0x00ff0000))))
        (int (unat (drop_bit 8 (bg AND 0x0000ff00)))) (int (unat (bg AND 0x000000ff))),
      RenderFillRect x y w (nunifont_height st)]"

subsection \<open>Characters through the texture cache\<close>

definition draw_character :: "font_state \<Rightarrow> int \<Rightarrow> int \<Rightarrow> u32 \<Rightarrow> u32 \<Rightarrow> u32 \<Rightarrow> int \<Rightarrow> int \<Rightarrow> int \<Rightarrow> int
    \<Rightarrow> (font_state \<times> render_cmd list) option" where
  "draw_character st x y cin bg fg bold underline italic strike = do {
     narrow \<leftarrow> get_widthmap (widthmap st) (ucast cin);
     let w = (if narrow then 8 else 16);
     let chr = \<lparr>key_c = cin, key_bg = bg, key_fg = fg, key_bold = bold, key_underline = underline,
                key_italic = italic, key_strike = strike\<rparr>;
     (st', texture) \<leftarrow> (case map_of (display_cache st) chr of
         Some t \<Rightarrow> Some (st, t)
       | None \<Rightarrow> do {
           t \<leftarrow> draw_character_surface (fontmap st) (create_rgb_surface32 w 16) 0 0 w cin bg fg bold underline italic strike;
           Some (st\<lparr>display_cache := display_cache st @ [(chr, t)]\<rparr>, t) });
     let mw = (if w = 16 then nunifont_width st * 2 else nunifont_width st);
     Some (st', [RenderCopyTexture texture x y mw (nunifont_height st)]) }"

subsection \<open>Texts\<close>

text \<open>The search for the terminating 0; the first argument counts the rounds left of 10000.\<close>

fun unitext_length :: "nat \<Rightarrow> int \<Rightarrow> u16 list \<Rightarrow> int option" where
  "unitext_length 0 n text = Some 0"
| "unitext_length (Suc k) n text = do {
     c \<leftarrow> arr_get text n;
     if c = 0 then Some n else unitext_length k (n + 1) text }"

definition unitext_surface_char :: "font_state \<Rightarrow> int \<Rightarrow> u32 \<Rightarrow> u32 \<Rightarrow> int \<Rightarrow> int \<Rightarrow> int \<Rightarrow> int
    \<Rightarrow> u16 \<Rightarrow> surface \<times> int \<Rightarrow> (surface \<times> int) option" where
  "unitext_surface_char st c_y bg fg bold underline italic strike c = (\<lambda>(screen, c_x).
     if c = of_char (CHR '' '') then do {
       s1 \<leftarrow> draw_space_surface st screen c_x c_y (nunifont_width st + nunifont_space st) bg;
       Some (s1, c_x + (nunifont_width st + nunifont_space st)) }
     else do {
       narrow \<leftarrow> get_widthmap (widthmap st) c;
       let w = (if narrow then nunifont_width st else nunifont_width st * 2);
       s1 \<leftarrow> draw_character_surface (fontmap st) screen c_x c_y w (ucast c) bg fg bold underline italic strike;
       s2 \<leftarrow> draw_space_surface st s1 (c_x + w) c_y (nunifont_space st) bg;
       s3 \<leftarrow> (if w = nunifont_width st * 2 then draw_space_surface st s2 (c_x + w + 1) c_y (nunifont_space st) bg else Some s2);
       let x1 = (if w = nunifont_width st then c_x + (w + nunifont_space st) else c_x);
       let x2 = (if w = nunifont_width st * 2 then x1 + (w + 2 * nunifont_space st) else x1);
       Some (s3, x2) })"

definition draw_unitext_surface :: "byte list list \<Rightarrow> font_state \<Rightarrow> surface \<Rightarrow> int \<Rightarrow> int \<Rightarrow> u16 list \<Rightarrow> u32 \<Rightarrow> u32
    \<Rightarrow> int \<Rightarrow> int \<Rightarrow> int \<Rightarrow> int \<Rightarrow> (font_state \<times> surface) option" where
  "draw_unitext_surface hexfile st screen x y text bg fg bold underline italic strike = do {
     st1 \<leftarrow> (if initialised st then Some st else nunifont_init hexfile st);
     n \<leftarrow> unitext_length 10000 0 text;
     (s, _) \<leftarrow> ofold (unitext_surface_char st1 y bg fg bold underline italic strike) (take (nat n) text) (screen, x);
     Some (st1, s) }"

definition unitext_renderer_char :: "int \<Rightarrow> u32 \<Rightarrow> u32 \<Rightarrow> int \<Rightarrow> int \<Rightarrow> int \<Rightarrow> int
    \<Rightarrow> u16 \<Rightarrow> font_state \<times> int \<times> render_cmd list \<Rightarrow> (font_state \<times> int \<times> render_cmd list) option" where
  "unitext_renderer_char c_y bg fg bold underline italic strike c = (\<lambda>(st, c_x, out).
     if c = of_char (CHR '' '') then
       Some (st, c_x + (nunifont_width st + nunifont_space st),
         if bg \<noteq> system_bg st then out @ draw_space_renderer st c_x c_y (nunifont_width st + nunifont_space st) bg else out)
     else do {
       narrow \<leftarrow> get_widthmap (widthmap st) c;
       let w = (if narrow then nunifont_width st else nunifont_width st * 2);
       (st1, cmds) \<leftarrow> draw_character st c_x c_y (ucast c) bg fg bold underline italic strike;
       let x1 = (if w = nunifont_width st then c_x + (w + nunifont_space st) else c_x);
       let x2 = (if w = nunifont_width st * 2 then x1 + (w + 2 * nunifont_space st) else x1);
       Some (st1, x2, out @ cmds) })"

definition draw_unitext_renderer :: "byte list list \<Rightarrow> font_state \<Rightarrow> int \<Rightarrow> int \<Rightarrow> u16 list \<Rightarrow> u32 \<Rightarrow> u32
    \<Rightarrow> int \<Rightarrow> int \<Rightarrow> int \<Rightarrow> int \<Rightarrow> (font_state \<times> render_cmd list) option" where
  "draw_unitext_renderer hexfile st x y text bg fg bold underline italic strike = do {
     st1 \<leftarrow> (if initialised st then Some st else nunifont_init hexfile st);
     n \<leftarrow> unitext_length 10000 0 text;
     (st2, _, out) \<leftarrow> ofold (unitext_renderer_char y bg fg bold underline italic strike) (take (nat n) text) (st1, x, []);
     Some (st2, out) }"

definition draw_unitext_fancy_renderer :: "byte list list \<Rightarrow> font_state \<Rightarrow> int \<Rightarrow> int \<Rightarrow> u16 list \<Rightarrow> u32 \<Rightarrow> u32
    \<Rightarrow> int \<Rightarrow> int \<Rightarrow> int \<Rightarrow> int \<Rightarrow> int \<Rightarrow> int \<Rightarrow> (font_state \<times> render_cmd list) option" where
  "draw_unitext_fancy_renderer hexfile st x y text bg fg bold underline italic blink reverse strike =
     (let rev1 = (if blink = 1 \<and> blink_value st then 1 else reverse);
          (bg1, fg1) = (if rev1 = 1 then (fg, bg) else (bg, fg))
      in draw_unitext_renderer hexfile st x y text bg1 fg1 bold underline italic strike)"

subsection \<open>The character width map\<close>

lemma and_bit_ne_0: "(a :: 'a::len word) AND push_bit k 1 \<noteq> 0 \<longleftrightarrow> bit a k"
  by (simp add: and_exp_eq_0_iff_not_bit)

lemma bit_set_flag: "k < 8 \<Longrightarrow> bit ((a :: byte) OR push_bit k 1) m \<longleftrightarrow> m = k \<or> bit a m"
  by (auto simp: bit_or_iff bit_exp_iff)

lemma bit_unset_flag: "k < 8 \<Longrightarrow> bit ((a :: byte) AND NOT (push_bit k 1)) m \<longleftrightarrow> m \<noteq> k \<and> bit a m"
  by (auto simp: bit_and_iff bit_not_iff bit_exp_iff dest: bit_imp_possible_bit)

lemma int_div_mod_8: "int p div 8 = int (p div 8)" "nat (int p mod 8) = p mod 8"
proof -
  show "int p div 8 = int (p div 8)" by (metis zdiv_int of_nat_numeral)
  have "int p mod 8 = int (p mod 8)" by (metis zmod_int of_nat_numeral)
  then show "nat (int p mod 8) = p mod 8" by (simp only: nat_int)
qed

text \<open>Bit \<open>p\<close> of a byte array, as both maps number their bits.\<close>

definition map_bit :: "byte list \<Rightarrow> nat \<Rightarrow> bool" where
  "map_bit m p \<longleftrightarrow> bit (m ! (p div 8)) (p mod 8)"

lemma map_bit_upd:
  assumes "b < length m" "k < 8" "\<And>n. bit v n \<longleftrightarrow> (if n = k then x else bit (m ! b) n)"
  shows "map_bit (m[b := v]) p = (if p = 8 * b + k then x else map_bit m p)"
proof -
  have "p = 8 * b + k \<longleftrightarrow> p div 8 = b \<and> p mod 8 = k"
    using assms(2) mult_div_mod_eq [of 8 p] by auto
  then show ?thesis using assms by (auto simp: map_bit_def nth_list_update)
qed

lemma set_widthmap_run:
  assumes "p < 8 * length wm"
  shows "\<exists>wm'. set_widthmap wm (int p) v = Some wm' \<and> length wm' = length wm
    \<and> (\<forall>q. map_bit wm' q = (if q = p then v \<noteq> 1 else map_bit wm q))"
proof -
  define b k where "b = p div 8" and "k = p mod 8"
  have b: "b < length wm" "k < 8" "p = 8 * b + k" using assms by (auto simp: b_def k_def)
  define w where "w = (if v = 1 then wm ! b AND NOT (push_bit k 1) else wm ! b OR push_bit k 1)"
  have "set_widthmap wm (int p) v = Some (wm[b := w])"
    unfolding set_widthmap_def Let_def w_def int_div_mod_8 using b(1)
    by (simp add: b_def [symmetric] k_def [symmetric])
  moreover have "map_bit (wm[b := w]) q = (if q = p then v \<noteq> 1 else map_bit wm q)" for q
    unfolding b(3)
  proof (rule map_bit_upd [OF b(1,2)])
    show "bit w n \<longleftrightarrow> (if n = k then v \<noteq> 1 else bit (wm ! b) n)" for n
      unfolding w_def using bit_set_flag [OF b(2)] bit_unset_flag [OF b(2)] by auto
  qed
  ultimately show ?thesis by auto
qed

lemma get_widthmap_bit: "unat p div 8 < length wm \<Longrightarrow> get_widthmap wm p = Some (map_bit wm (unat p))"
  unfolding get_widthmap_def Let_def map_bit_def using and_bit_ne_0 by (auto simp: arr_get_nat simp del: of_nat_div)

text \<open>
  after \<open>set_widthmap(p, v)\<close> character \<open>p\<close> is wide exactly when \<open>v\<close> is 1 and every other
  character keeps its width; the map keeps its size.
\<close>

theorem widthmap_set_get:
  assumes "p < 8 * length wm" "unat c < 8 * length wm"
  shows "\<exists>wm'. set_widthmap wm (int p) v = Some wm' \<and> length wm' = length wm
    \<and> get_widthmap wm' c = (if unat c = p then Some (v \<noteq> 1) else get_widthmap wm c)"
proof -
  from set_widthmap_run [OF assms(1), of v] obtain wm' where w: "set_widthmap wm (int p) v = Some wm'" "length wm' = length wm"
    "\<And>q. map_bit wm' q = (if q = p then v \<noteq> 1 else map_bit wm q)" by blast
  have "unat c div 8 < length wm" using assms(2) by auto
  then show ?thesis using w get_widthmap_bit [of c] by simp
qed

theorem widthmap_set_get_witness:
  "\<exists>wm'. set_widthmap [0, 0] 9 0 = Some wm' \<and> get_widthmap wm' 9 = Some True"
  using widthmap_set_get [of 9 "[0, 0]" 9 0] by auto

subsection \<open>Loading one character\<close>

text \<open>Where the \<open>q\<close>-th bit of the hex digits goes: a narrow character fills every other byte.\<close>

definition glyph_place :: "int \<Rightarrow> nat \<Rightarrow> nat" where
  "glyph_place width q = (if width = 8 then q div 8 * 16 + q mod 8 else q)"

lemma glyph_place_eq: "k < 8 \<Longrightarrow> glyph_place width (8 * a + k) = 8 * (if width = 8 then 2 * a else a) + k"
  by (simp add: glyph_place_def)

lemma by_8: obtains a k :: nat where "q = 8 * a + k" "k < 8"
  by (metis mod_less_divisor mult_div_mod_eq zero_less_numeral)

lemma div_mod_8: "k < 8 \<Longrightarrow> (8 * a + k) div 8 = (a :: nat)" "k < 8 \<Longrightarrow> (8 * a + k) mod 8 = (k :: nat)"
  by simp_all

lemma glyph_place_inj: "glyph_place width q = glyph_place width r \<longleftrightarrow> q = r"
proof -
  obtain a k b m where e: "q = 8 * a + k" "k < 8" "r = 8 * b + m" "m < 8" by (metis by_8)
  show ?thesis
  proof
    assume "glyph_place width q = glyph_place width r"
    then have g: "8 * (if width = 8 then 2 * a else a) + k = 8 * (if width = 8 then 2 * b else b) + m"
      using e by (simp only: glyph_place_eq)
    have "k = m" "(if width = 8 then 2 * a else a) = (if width = 8 then 2 * b else b)"
      using arg_cong [OF g, of "\<lambda>n. n mod 8"] arg_cong [OF g, of "\<lambda>n. n div 8"] e by (simp_all only: div_mod_8)
    then show "q = r" using e by (simp split: if_splits)
  qed simp
qed

lemma glyph_place_split: "glyph_place width q = 8 * (glyph_place width q div 8) + q mod 8"
proof -
  obtain a k where e: "q = 8 * a + k" "k < 8" by (rule by_8)
  then show ?thesis by (simp only: glyph_place_eq div_mod_8)
qed

lemma glyph_place_step:
  "glyph_place width q div 8 + (if Suc (q mod 8) = 8 then 1 + (if width = 8 then 1 else 0) else 0)
     = glyph_place width (Suc q) div 8"
  "(if Suc (q mod 8) = 8 then 0 else Suc (q mod 8)) = Suc q mod 8"
proof -
  obtain a k where e: "q = 8 * a + k" "k < 8" by (rule by_8)
  have "(if Suc k = 8 then 0 else Suc k) = Suc q mod 8 \<and>
    glyph_place width q div 8 + (if Suc k = 8 then 1 + (if width = 8 then 1 else 0) else 0) = glyph_place width (Suc q) div 8"
  proof (cases "Suc k = 8")
    case True
    then have s: "Suc q = 8 * (a + 1) + 0" using e by simp
    show ?thesis unfolding s using True e by (simp only: glyph_place_eq div_mod_8 e(1) zero_less_numeral) simp
  next
    case False
    then have s: "Suc q = 8 * a + Suc k" "Suc k < 8" using e by simp_all
    show ?thesis unfolding s(1) using False s(2) e by (simp only: glyph_place_eq div_mod_8) simp
  qed
  then show "(if Suc (q mod 8) = 8 then 0 else Suc (q mod 8)) = Suc q mod 8"
    "glyph_place width q div 8 + (if Suc (q mod 8) = 8 then 1 + (if width = 8 then 1 else 0) else 0)
       = glyph_place width (Suc q) div 8"
    using e by (simp_all only: div_mod_8)
qed

lemma load_bit_step:
  assumes "glyph_place width q < 8 * length d"
  shows "\<exists>d'. load_bit width v n (d, int (glyph_place width q div 8), q mod 8)
      = Some (d', int (glyph_place width (Suc q) div 8), Suc q mod 8) \<and> length d' = length d
    \<and> (\<forall>p. map_bit d' p = (if p = glyph_place width q then bit v (3 - n) else map_bit d p))"
proof -
  define b k where "b = glyph_place width q div 8" and "k = q mod 8"
  have b: "b < length d" "k < 8" "glyph_place width q = 8 * b + k"
    using assms glyph_place_split [of width q] by (auto simp: b_def k_def)
  define w where "w = (if v AND 2 ^ (3 - n) = 0 then d ! b AND NOT (push_bit k 1) else d ! b OR push_bit k 1)"
  have "load_bit width v n (d, int b, k) = Some (d[b := w], int (glyph_place width (Suc q) div 8), Suc q mod 8)"
    using b(1) glyph_place_step(1) [of width q] glyph_place_step(2) [of q] by (auto simp: load_bit_def w_def b_def k_def)
  moreover have "map_bit (d[b := w]) p = (if p = glyph_place width q then bit v (3 - n) else map_bit d p)" for p
    unfolding b(3)
  proof (rule map_bit_upd [OF b(1,2)])
    show "bit w m \<longleftrightarrow> (if m = k then bit v (3 - n) else bit (d ! b) m)" for m
      unfolding w_def using bit_set_flag [OF b(2)] bit_unset_flag [OF b(2)]
      by (auto simp: and_exp_eq_0_iff_not_bit)
  qed
  ultimately show ?thesis by (auto simp: b_def k_def)
qed

text \<open>\<open>loads width q bs d d'\<close>: from digit bit \<open>q\<close> on the bits \<open>bs\<close> have been written, nothing else.\<close>

definition loads :: "int \<Rightarrow> nat \<Rightarrow> bool list \<Rightarrow> byte list \<Rightarrow> byte list \<Rightarrow> bool" where
  "loads width q bs d d' \<longleftrightarrow> length d' = length d
     \<and> (\<forall>i<length bs. map_bit d' (glyph_place width (q + i)) = bs ! i)
     \<and> (\<forall>p. (\<forall>i<length bs. p \<noteq> glyph_place width (q + i)) \<longrightarrow> map_bit d' p = map_bit d p)"

lemma loads_Nil: "loads width q [] d d"
  by (simp add: loads_def)

lemma loads_append:
  assumes "loads width q bs d d1" "loads width (q + length bs) cs d1 d2"
  shows "loads width q (bs @ cs) d d2"
proof -
  have "map_bit d2 (glyph_place width (q + i)) = (bs @ cs) ! i" if i: "i < length bs + length cs" for i
  proof (cases "i < length bs")
    case True
    then have "\<forall>j<length cs. glyph_place width (q + i) \<noteq> glyph_place width (q + length bs + j)"
      by (simp add: glyph_place_inj)
    with assms True show ?thesis by (simp add: loads_def nth_append)
  next
    case False
    then obtain j where "i = length bs + j" "j < length cs" using i by (metis le_add_diff_inverse nat_add_left_cancel_less not_less)
    with assms(2) show ?thesis by (simp add: loads_def nth_append add.assoc)
  qed
  moreover have "map_bit d2 p = map_bit d p"
    if "\<forall>i<length bs + length cs. p \<noteq> glyph_place width (q + i)" for p
  proof -
    have "\<forall>i<length bs. p \<noteq> glyph_place width (q + i)" using that by simp
    moreover have "p \<noteq> glyph_place width (q + length bs + i)" if i: "i < length cs" for i
    proof -
      have "length bs + i < length bs + length cs" using i by simp
      with \<open>\<forall>i<length bs + length cs. p \<noteq> glyph_place width (q + i)\<close> show ?thesis by (metis add.assoc)
    qed
    ultimately show ?thesis using assms by (simp add: loads_def)
  qed
  ultimately show ?thesis using assms by (simp add: loads_def)
qed

lemma load_bits_run:
  assumes "\<forall>i<length ns. glyph_place width (q + i) < 8 * length d"
  shows "\<exists>d'. ofold (load_bit width v) ns (d, int (glyph_place width q div 8), q mod 8)
      = Some (d', int (glyph_place width (q + length ns) div 8), (q + length ns) mod 8)
    \<and> loads width q (map (\<lambda>n. bit v (3 - n)) ns) d d'"
  using assms
proof (induction ns arbitrary: q d)
  case (Cons n ns)
  then have "glyph_place width q < 8 * length d" by force
  from load_bit_step [OF this, of v n] obtain d1 where d1:
    "load_bit width v n (d, int (glyph_place width q div 8), q mod 8)
      = Some (d1, int (glyph_place width (Suc q) div 8), Suc q mod 8)" "length d1 = length d"
    "\<And>p. map_bit d1 p = (if p = glyph_place width q then bit v (3 - n) else map_bit d p)" by blast
  then have l1: "loads width q [bit v (3 - n)] d d1" by (simp add: loads_def)
  have "\<forall>i<length ns. glyph_place width (Suc q + i) < 8 * length d1"
    using Cons.prems d1(2) by (metis Suc_less_eq add_Suc add_Suc_right length_Cons)
  from Cons.IH [OF this] obtain d2 where d2:
    "ofold (load_bit width v) ns (d1, int (glyph_place width (Suc q) div 8), Suc q mod 8)
      = Some (d2, int (glyph_place width (Suc q + length ns) div 8), (Suc q + length ns) mod 8)"
    "loads width (Suc q) (map (\<lambda>n. bit v (3 - n)) ns) d1 d2" by blast
  with d1(1) loads_append [OF l1, of "map (\<lambda>n. bit v (3 - n)) ns" d2] show ?case by simp
qed (simp add: loads_Nil)

definition hexchar :: "int \<Rightarrow> byte" where
  "hexchar v = (if v < 10 then 48 + of_int v else 55 + of_int v)"

lemma hex2dec_hexchar: "0 \<le> v \<Longrightarrow> v < 16 \<Longrightarrow> hex2dec (hexchar v) = Some v \<and> hexchar v \<noteq> 0 \<and> hexchar v \<noteq> 58"
proof -
  have "\<forall>v \<in> set [0..15]. hex2dec (hexchar v) = Some v \<and> hexchar v \<noteq> 0 \<and> hexchar v \<noteq> 58" by code_simp
  moreover assume "0 \<le> v" "v < 16"
  then have "v \<in> set [0..15]" by simp
  ultimately show ?thesis by blast
qed

definition digit_bits :: "int list \<Rightarrow> bool list" where
  "digit_bits ds = concat (map (\<lambda>v. [bit v 3, bit v 2, bit v 1, bit v 0]) ds)"

lemma length_digit_bits [simp]: "length (digit_bits ds) = 4 * length ds"
  by (induction ds) (simp_all add: digit_bits_def)

lemma digit_bits_nth: "i < 4 * length ds \<Longrightarrow> digit_bits ds ! i = bit (ds ! (i div 4)) (3 - i mod 4)"
proof (induction ds arbitrary: i)
  case (Cons v ds)
  have c: "digit_bits (v # ds) = [bit v 3, bit v 2, bit v 1, bit v 0] @ digit_bits ds" by (simp add: digit_bits_def)
  show ?case
  proof (cases "i < 4")
    case True
    then have "i = 0 \<or> i = 1 \<or> i = 2 \<or> i = 3" by auto
    then show ?thesis unfolding c by auto
  next
    case False
    then obtain j where j: "i = 4 + j" by (metis le_add_diff_inverse not_less)
    moreover have "(4 + j) div 4 = Suc (j div 4)" by simp
    ultimately show ?thesis unfolding c using Cons by (simp add: nth_append)
  qed
qed simp

lemma load_digits_run:
  assumes "\<forall>v\<in>set ds. 0 \<le> v \<and> v < 16" "\<forall>i<4 * length ds. glyph_place width (q + i) < 8 * length d"
  shows "\<exists>d' r. load_digits width (map hexchar ds @ 10 # 0 # rest) (d, int (glyph_place width q div 8), q mod 8) = Some (d', r)
    \<and> loads width q (digit_bits ds) d d'"
  using assms
proof (induction ds arbitrary: q d)
  case (Cons v ds)
  have v: "hex2dec (hexchar v) = Some v" using Cons.prems(1) hex2dec_hexchar by simp
  have "\<forall>i<length [0 :: nat, 1, 2, 3]. glyph_place width (q + i) < 8 * length d" using Cons.prems(2) by simp
  moreover have "length [0 :: nat, 1, 2, 3] = 4" "map (\<lambda>n. bit v (3 - n)) [0 :: nat, 1, 2, 3] = [bit v 3, bit v 2, bit v 1, bit v 0]"
    by simp_all
  ultimately obtain d1 where d1:
    "ofold (load_bit width v) [0, 1, 2, 3] (d, int (glyph_place width q div 8), q mod 8)
      = Some (d1, int (glyph_place width (q + 4) div 8), (q + 4) mod 8)"
    "loads width q [bit v 3, bit v 2, bit v 1, bit v 0] d d1" using load_bits_run [of "[0 :: nat, 1, 2, 3]" width q d v] by metis
  have "\<forall>i<4 * length ds. glyph_place width (q + 4 + i) < 8 * length d1"
  proof (intro allI impI)
    fix i assume "i < 4 * length ds"
    then have "4 + i < 4 * length (v # ds)" by simp
    with Cons.prems(2) have "glyph_place width (q + (4 + i)) < 8 * length d" by blast
    then show "glyph_place width (q + 4 + i) < 8 * length d1" using d1(2) by (simp add: loads_def add.assoc)
  qed
  with Cons.IH [of "q + 4" d1] Cons.prems(1) obtain d2 r where d2:
    "load_digits width (map hexchar ds @ 10 # 0 # rest) (d1, int (glyph_place width (q + 4) div 8), (q + 4) mod 8) = Some (d2, r)"
    "loads width (q + 4) (digit_bits ds) d1 d2" by auto
  obtain e es where e: "map hexchar ds @ 10 # 0 # rest = e # es" "e \<noteq> 0"
    using Cons.prems(1) hex2dec_hexchar by (cases ds) auto
  have "load_digits width (map hexchar (v # ds) @ 10 # 0 # rest) (d, int (glyph_place width q div 8), q mod 8) = Some (d2, r)"
    using e d1(1) d2(1) v by (simp del: ofold.simps)
  moreover have "loads width q (digit_bits (v # ds)) d d2"
  proof -
    have "length [bit v 3, bit v 2, bit v 1, bit v 0] = 4" "digit_bits (v # ds) = [bit v 3, bit v 2, bit v 1, bit v 0] @ digit_bits ds"
      by (simp_all add: digit_bits_def)
    then show ?thesis using loads_append [OF d1(2), of "digit_bits ds" d2] d2(2) by metis
  qed
  ultimately show ?case by blast
qed (simp add: loads_Nil digit_bits_def)


lemma get_pixel_bit:
  assumes "32 * unat c + 32 \<le> length fm" "x < 16" "y < 16"
  shows "get_pixel fm c (int x) (int y) = Some (if map_bit (drop (32 * unat c) fm) (16 * y + x) then 65535 else 0)"
proof -
  define p where "p = 16 * y + x"
  have p: "p div 8 < 32" using assms(2,3) by (simp add: p_def)
  have i: "int y * 16 + int x = int p" by (simp add: p_def)
  have "int (unat c) * 32 + int (p div 8) = int (32 * unat c + p div 8)" by simp
  moreover have "32 * unat c + p div 8 < length fm" using p assms(1) by linarith
  ultimately have "arr_get fm (32 * int (unat c) + int (p div 8)) = Some (fm ! (32 * unat c + p div 8))"
    by (metis arr_get_nat mult.commute)
  then show ?thesis
    unfolding get_pixel_def Let_def i int_div_mod_8 and_bit_ne_0 map_bit_def p_def [symmetric]
    using assms p by (simp add: nth_drop)
qed

lemma skip_colon_run: "58 \<notin> set code \<Longrightarrow> 0 \<notin> set code \<Longrightarrow> skip_colon (code @ 58 # cs) = Some (58 # cs)"
  by (induction code) auto

text \<open>The pixel of column \<open>x\<close>, row \<open>y\<close> that the hex digits of a font file line describe.\<close>

definition hex_pixel :: "int list \<Rightarrow> nat \<Rightarrow> nat \<Rightarrow> bool" where
  "hex_pixel ds x y \<longleftrightarrow> (if length ds = 64 then bit (ds ! (4 * y + x div 4)) (3 - x mod 4)
     else bit (ds ! (2 * y + x div 4)) (3 - x mod 4))"

lemma load_line_run:
  assumes "\<forall>v\<in>set ds. 0 \<le> v \<and> v < 16" "length ds = (if wide then 64 else 32)"
    "length code = 4" "58 \<notin> set code" "0 \<notin> set code" "length d = 32"
  shows "\<exists>d'. load_line (code @ 58 # map hexchar ds @ 10 # 0 # rest) d = Some (d', if wide then 1 else 0)
    \<and> loads (if wide then 16 else 8) 0 (digit_bits ds) d d'"
proof -
  let ?line = "code @ 58 # map hexchar ds @ 10 # 0 # rest" and ?w = "if wide then 16 else 8 :: int"
  have nz: "0 \<notin> set (code @ 58 # map hexchar ds @ [10])" using assms(1,5) hex2dec_hexchar by auto
  have c: "cstr ?line = Some (code @ 58 # map hexchar ds @ [10])" using cstr_append_nul [OF nz, of rest] by simp
  have "\<forall>i<4 * length ds. glyph_place ?w (0 + i) < 8 * length d"
  proof (intro allI impI)
    fix i assume i: "i < 4 * length ds"
    obtain a k where a: "i = 8 * a + k" "k < 8" by (rule by_8)
    then have "glyph_place ?w (0 + i) = 8 * (if wide then a else 2 * a) + k" using glyph_place_eq [of k ?w a] by simp
    then show "glyph_place ?w (0 + i) < 8 * length d" using i a assms(2,6) by (simp split: if_splits)
  qed
  from load_digits_run [OF assms(1) this, of rest] obtain d' r where
    "load_digits ?w (map hexchar ds @ 10 # 0 # rest) (d, 0, 0) = Some (d', r)" "loads ?w 0 (digit_bits ds) d d'"
    by (auto simp: glyph_place_def)
  then show ?thesis unfolding load_line_def c skip_colon_run [OF assms(4,5)] using assms(2,3)
    by (cases r; cases wide) simp_all
qed

lemma load_line_pixel:
  assumes "loads (if wide then 16 else 8) 0 (digit_bits ds) d d'" "length ds = (if wide then 64 else 32)" "length d = 32"
    "x < 16" "y < 16"
  shows "get_pixel d' 0 (int x) (int y)
    = (if wide \<or> x < 8 then Some (if hex_pixel ds x y then 65535 else 0) else get_pixel d 0 (int x) (int y))"
proof -
  have l: "length d' = 32" using assms(1,3) by (simp add: loads_def)
  have g: "get_pixel d' 0 (int x) (int y) = Some (if map_bit d' (16 * y + x) then 65535 else 0)"
    "get_pixel d 0 (int x) (int y) = Some (if map_bit d (16 * y + x) then 65535 else 0)"
    using get_pixel_bit [of 0 d' x y] get_pixel_bit [of 0 d x y] l assms(3-5) by simp_all
  have m: "map_bit d' (glyph_place (if wide then 16 else 8) i) = bit (ds ! (i div 4)) (3 - i mod 4)" if "i < 4 * length ds" for i
    using assms(1) that digit_bits_nth [OF that] by (simp add: loads_def)
  have o: "map_bit d' p = map_bit d p" if "\<forall>i<4 * length ds. p \<noteq> glyph_place (if wide then 16 else 8) i" for p
    using assms(1) that by (simp add: loads_def)
  show ?thesis
  proof (cases wide)
    case True
    have "16 * y + x = 4 * (4 * y) + x" by simp
    then have "(16 * y + x) div 4 = 4 * y + x div 4" "(16 * y + x) mod 4 = x mod 4" by presburger+
    with m [of "16 * y + x"] True assms(2,4,5) g show ?thesis by (simp add: glyph_place_def hex_pixel_def)
  next
    case False
    show ?thesis
    proof (cases "x < 8")
      case x: True
      have e: "(8 * y + x) div 4 = 2 * y + x div 4" "(8 * y + x) mod 4 = x mod 4" by presburger+
      have "glyph_place 8 (8 * y + x) = 16 * y + x" using x glyph_place_eq [of x 8 y] by simp
      with m [of "8 * y + x"] False assms(2,4,5) x g e show ?thesis by (simp add: hex_pixel_def)
    next
      case x: False
      have "16 * y + x \<noteq> glyph_place 8 i" for i
      proof -
        obtain a k where i: "i = 8 * a + k" "k < 8" by (rule by_8)
        show ?thesis
        proof
          assume "16 * y + x = glyph_place 8 i"
          then have "16 * y + x = 16 * a + k" using i glyph_place_eq [of k 8 a] by simp
          then have "(16 * y + x) mod 16 = (16 * a + k) mod 16" by simp
          then show False using x i assms(4) by simp
        qed
      qed
      with o [of "16 * y + x"] False x g show ?thesis by simp
    qed
  qed
qed

text \<open>
  reading the font file line of a character (four characters, a colon, 32 or 64 hex digits, a
  newline) never leaves the character's 32 bytes, reports a wide character exactly for 64 digits, and
  leaves a bitmap whose pixels, as \<open>get_pixel\<close> reads them, are the bits of the digits row by row; the
  right half of a narrow character is untouched.
\<close>

theorem load_line_glyph:
  assumes "\<forall>v\<in>set ds. 0 \<le> v \<and> v < 16" "length ds = (if wide then 64 else 32)"
    "length code = 4" "58 \<notin> set code" "0 \<notin> set code" "length d = 32"
  shows "\<exists>d'. load_line (code @ 58 # map hexchar ds @ 10 # 0 # rest) d = Some (d', if wide then 1 else 0) \<and> length d' = 32
    \<and> (\<forall>x y. x < 16 \<longrightarrow> y < 16 \<longrightarrow> get_pixel d' 0 (int x) (int y)
        = (if wide \<or> x < 8 then Some (if hex_pixel ds x y then 65535 else 0) else get_pixel d 0 (int x) (int y)))"
proof -
  from load_line_run [OF assms, of rest] obtain d' where d':
    "load_line (code @ 58 # map hexchar ds @ 10 # 0 # rest) d = Some (d', if wide then 1 else 0)"
    "loads (if wide then 16 else 8) 0 (digit_bits ds) d d'" by blast
  then have "length d' = 32" using assms(6) by (simp add: loads_def)
  with d' load_line_pixel [OF d'(2) assms(2,6)] show ?thesis by blast
qed

theorem load_line_glyph_witness:
  "\<exists>d'. load_line (ascii ''0041:'' @ map hexchar (replicate 31 0 @ [9]) @ [10, 0]) (replicate 32 0) = Some (d', 0)
     \<and> get_pixel d' 0 7 15 = Some 65535 \<and> get_pixel d' 0 6 15 = Some 0"
proof -
  let ?ds = "replicate 31 0 @ [9 :: int]"
  have "\<forall>v\<in>set ?ds. 0 \<le> v \<and> v < 16" "length ?ds = (if False then 64 else 32)" "length (ascii ''0041'') = 4"
    "58 \<notin> set (ascii ''0041'')" "0 \<notin> set (ascii ''0041'')" "length (replicate 32 (0 :: byte)) = 32"
    by (simp_all add: ascii_def)
  from load_line_glyph [OF this, of "[]"] obtain d' where d':
    "load_line (ascii ''0041'' @ 58 # map hexchar ?ds @ [10, 0]) (replicate 32 0) = Some (d', 0)"
    "\<And>x y. x < 8 \<Longrightarrow> y < 16 \<Longrightarrow> get_pixel d' 0 (int x) (int y) = Some (if hex_pixel ?ds x y then 65535 else 0)"
    by fastforce
  have "hex_pixel ?ds 7 15" "\<not> hex_pixel ?ds 6 15" by code_simp+
  then have "get_pixel d' 0 7 15 = Some 65535" "get_pixel d' 0 6 15 = Some 0" using d'(2) [of 7 15] d'(2) [of 6 15] by simp_all
  then show ?thesis using d'(1) by (simp add: ascii_def)
qed

subsection \<open>What a drawn character looks like\<close>

lemma draw_point_eq: "draw_point = nsdl_pointS"
  by (simp add: fun_eq_iff draw_point_def nsdl_pointS_def in_surface_def)

interpretation font: pixel_store surface_ok in_surface draw_point nsdl_getpointS
  unfolding draw_point_eq by (rule nsdl.pixel_store_axioms)

definition font_covers :: "byte list \<Rightarrow> u32 \<Rightarrow> bool" where
  "font_covers fm c \<longleftrightarrow> 32 * unat c + 32 \<le> length fm"

definition lit :: "byte list \<Rightarrow> u32 \<Rightarrow> int \<Rightarrow> int \<Rightarrow> bool" where
  "lit fm c x y \<longleftrightarrow> get_pixel fm c x y = Some 65535"

lemma get_pixel_lit: "font_covers fm c \<Longrightarrow> get_pixel fm c x y = Some (if lit fm c x y then 65535 else 0)"
proof (cases "x < 0 \<or> y < 0 \<or> x > 15 \<or> y > 15")
  case False
  assume c: "font_covers fm c"
  have "nat x < 16" "nat y < 16" using False by auto
  with c False get_pixel_bit [of c fm "nat x" "nat y"] show ?thesis by (simp add: lit_def font_covers_def)
qed (auto simp: get_pixel_def lit_def)

text \<open>
  Rows 15 (underlined) and 8 (struck through) of the surface are solid; elsewhere an italic
  character is one pixel to the right.
\<close>

definition solid_row :: "int \<Rightarrow> int \<Rightarrow> int \<Rightarrow> bool" where
  "solid_row underline strike j \<longleftrightarrow> j = 15 \<and> underline = 1 \<or> j = 8 \<and> strike = 1"

definition slant :: "int \<Rightarrow> int \<Rightarrow> int \<Rightarrow> int \<Rightarrow> int" where
  "slant underline italic strike j = (if \<not> solid_row underline strike j \<and> italic = 1 then 1 else 0)"

definition glyph_color :: "byte list \<Rightarrow> int \<Rightarrow> int \<Rightarrow> u32 \<Rightarrow> u32 \<Rightarrow> u32 \<Rightarrow> int \<Rightarrow> int \<Rightarrow> int \<Rightarrow> int \<times> int \<Rightarrow> u32" where
  "glyph_color fm x y c bg fg bold underline strike = (\<lambda>(i, j).
     if solid_row underline strike j \<or> lit fm c (i - x) (j - y) \<or> bold = 1 \<and> lit fm c (i + 1 - x) (j - y) then fg else bg)"

lemma draw_char_point_paints:
  assumes "surface_ok s" "font_covers fm c"
  shows "\<exists>s'. draw_char_point fm x y c bg fg bold underline italic strike p s = Some s' \<and> surface_ok s'
    \<and> in_surface s' = in_surface s
    \<and> (\<forall>i j. nsdl_getpointS s' i j = (if (i, j) = (fst p + slant underline italic strike (snd p), snd p) \<and> in_surface s i j
          then Some (glyph_color fm x y c bg fg bold underline strike p) else nsdl_getpointS s i j))"
proof -
  obtain px py where p: "p = (px, py)" by (cases p)
  note g = get_pixel_lit [OF assms(2)]
  let ?q = "px + slant underline italic strike py"
  have one: "\<exists>s'. draw_point s ?q py v = Some s' \<and> surface_ok s' \<and> in_surface s' = in_surface s
    \<and> (\<forall>i j. nsdl_getpointS s' i j = (if (i, j) = (?q, py) \<and> in_surface s i j then Some v else nsdl_getpointS s i j))"
    if ok: "surface_ok s" for s v
  proof -
    from font.put_total [OF ok] obtain s' where s': "draw_point s ?q py v = Some s'" "surface_ok s'" "in_surface s' = in_surface s" by blast
    have "nsdl_getpointS s' i j = (if (i, j) = (?q, py) \<and> in_surface s i j then Some v else nsdl_getpointS s i j)" for i j
      unfolding font.put_get [OF ok s'(1), of i j] by (cases "(i, j) = (?q, py)") auto
    with s' show ?thesis by blast
  qed
  show ?thesis
  proof (cases "solid_row underline strike py")
    case True
    with one [OF assms(1), of fg] show ?thesis
      by (auto simp: draw_char_point_def p slant_def glyph_color_def solid_row_def)
  next
    case solid: False
    then have n: "\<not> (py = 15 \<and> underline = 1)" "\<not> (py = 8 \<and> strike = 1)" by (auto simp: solid_row_def)
    have q: "px + (if italic = 1 then 1 else 0) = ?q" using solid by (simp add: slant_def)
    have run: "draw_char_point fm x y c bg fg bold underline italic strike p s
      = (if lit fm c (px - x) (py - y) then draw_point s ?q py fg
         else do { s1 \<leftarrow> draw_point s ?q py bg;
                   if bold = 1 \<and> lit fm c (px + 1 - x) (py - y) then draw_point s1 ?q py fg else Some s1 })"
      unfolding draw_char_point_def p prod.case if_not_P [OF n(1)] if_not_P [OF n(2)] g Let_def q bind.bind_lunit
      by simp
    show ?thesis
    proof (cases "lit fm c (px - x) (py - y)")
      case True
      with one [OF assms(1), of fg] solid show ?thesis unfolding run by (auto simp: p glyph_color_def)
    next
      case nl: False
      from one [OF assms(1), of bg] obtain s1 where s1: "draw_point s ?q py bg = Some s1" "surface_ok s1"
        "in_surface s1 = in_surface s"
        "\<And>i j. nsdl_getpointS s1 i j = (if (i, j) = (?q, py) \<and> in_surface s i j then Some bg else nsdl_getpointS s i j)" by blast
      show ?thesis
      proof (cases "bold = 1 \<and> lit fm c (px + 1 - x) (py - y)")
        case True
        from one [OF s1(2), of fg] obtain s2 where s2: "draw_point s1 ?q py fg = Some s2" "surface_ok s2"
          "in_surface s2 = in_surface s1"
          "\<And>i j. nsdl_getpointS s2 i j = (if (i, j) = (?q, py) \<and> in_surface s1 i j then Some fg else nsdl_getpointS s1 i j)" by blast
        with True nl s1 solid show ?thesis unfolding run by (auto simp: p glyph_color_def)
      next
        case False
        with nl s1 solid show ?thesis unfolding run by (auto simp: p glyph_color_def)
      qed
    qed
  qed
qed

lemma size_range_nonneg: "0 \<le> a \<Longrightarrow> size_range a b = [a..b - 1]"
  by (simp add: size_range_def)

lemma distinct_grid:
  assumes "distinct ys" "distinct xs"
  shows "distinct (map (\<lambda>(a, b). (a + f b, b :: int)) [(a, b). b \<leftarrow> ys, a \<leftarrow> (xs :: int list)])"
  using assms(1)
proof (induction ys)
  case (Cons y ys)
  have "distinct (map (\<lambda>a. (a + f y, y)) xs)" using assms(2) by (simp add: distinct_map inj_on_def)
  with Cons show ?case by (auto simp: o_def)
qed simp

lemma draw_character_surface_run:
  assumes "surface_ok s" "font_covers fm c" "0 \<le> x" "0 \<le> y"
  shows "\<exists>s'. draw_character_surface fm s x y w c bg fg bold underline italic strike = Some s' \<and> surface_ok s'
    \<and> in_surface s' = in_surface s
    \<and> (\<forall>i j. nsdl_getpointS s' i j =
         (let k = i - slant underline italic strike j in
          if in_surface s i j \<and> x \<le> k \<and> k < x + w \<and> y \<le> j \<and> j < y + 16
          then Some (glyph_color fm x y c bg fg bold underline strike (k, j)) else nsdl_getpointS s i j))"
proof -
  let ?cs = "[(c_x, c_y). c_y \<leftarrow> size_range y (y + 16), c_x \<leftarrow> size_range x (x + w)]"
  let ?pos = "\<lambda>(a, b). (a + slant underline italic strike b, b)"
  have cs: "set ?cs = {x..<x + w} \<times> {y..<y + 16}"
    using assms(3,4) by (auto simp: size_range_nonneg image_iff)
  have "distinct (map ?pos ?cs)" by (rule distinct_grid) (use assms(3,4) in \<open>simp_all add: size_range_nonneg\<close>)
  moreover have "\<exists>s'. draw_char_point fm x y c bg fg bold underline italic strike p s = Some s' \<and> surface_ok s'
      \<and> in_surface s' = in_surface s
      \<and> (\<forall>i j. nsdl_getpointS s' i j = (if (i, j) = ?pos p \<and> in_surface s i j
            then Some (glyph_color fm x y c bg fg bold underline strike p) else nsdl_getpointS s i j))"
    if "surface_ok s" for p s
    using draw_char_point_paints [OF that assms(2), of x y bg fg bold underline italic strike p]
    by (cases p) simp
  ultimately have "\<exists>s'. ofold (draw_char_point fm x y c bg fg bold underline italic strike) ?cs s = Some s' \<and> surface_ok s'
      \<and> in_surface s' = in_surface s
      \<and> (\<forall>p\<in>set ?cs. \<forall>i j. ?pos p = (i, j) \<longrightarrow> in_surface s i j \<longrightarrow>
           nsdl_getpointS s' i j = Some (glyph_color fm x y c bg fg bold underline strike p))
      \<and> (\<forall>i j. (i, j) \<notin> ?pos ` set ?cs \<longrightarrow> nsdl_getpointS s' i j = nsdl_getpointS s i j)"
    by (intro font.paint_list [OF assms(1)]) blast+
  then obtain s' where s': "draw_character_surface fm s x y w c bg fg bold underline italic strike = Some s'" "surface_ok s'"
    "in_surface s' = in_surface s"
    "\<And>p i j. p \<in> set ?cs \<Longrightarrow> ?pos p = (i, j) \<Longrightarrow> in_surface s i j \<Longrightarrow>
       nsdl_getpointS s' i j = Some (glyph_color fm x y c bg fg bold underline strike p)"
    "\<And>i j. (i, j) \<notin> ?pos ` set ?cs \<Longrightarrow> nsdl_getpointS s' i j = nsdl_getpointS s i j"
    unfolding draw_character_surface_def by blast
  have "nsdl_getpointS s' i j =
      (let k = i - slant underline italic strike j in
        if in_surface s i j \<and> x \<le> k \<and> k < x + w \<and> y \<le> j \<and> j < y + 16
        then Some (glyph_color fm x y c bg fg bold underline strike (k, j)) else nsdl_getpointS s i j)" for i j
  proof (cases "in_surface s i j")
    case False
    then have "\<not> in_surface s' i j" using s'(3) by simp
    with False show ?thesis by (simp add: nsdl_getpointS_def Let_def)
  next
    case True
    let ?k = "i - slant underline italic strike j"
    have "(i, j) \<in> ?pos ` set ?cs \<longleftrightarrow> (?k, j) \<in> set ?cs" by (force simp: image_iff)
    with True s'(4) [of "(?k, j)" i j] s'(5) [of i j] show ?thesis unfolding cs by (auto simp: Let_def)
  qed
  with s'(1-3) show ?thesis by blast
qed



subsection \<open>The texture cache is invisible\<close>

text \<open>The texture of a character, drawn afresh, and the cache's invariant.\<close>

definition char_texture :: "font_state \<Rightarrow> lookup_key \<Rightarrow> surface option" where
  "char_texture st k = do {
     narrow \<leftarrow> get_widthmap (widthmap st) (ucast (key_c k));
     let w = (if narrow then 8 else 16);
     draw_character_surface (fontmap st) (create_rgb_surface32 w 16) 0 0 w (key_c k) (key_bg k) (key_fg k)
       (key_bold k) (key_underline k) (key_italic k) (key_strike k) }"

definition font_ok :: "font_state \<Rightarrow> bool" where
  "font_ok st \<longleftrightarrow> initialised st \<and> length (fontmap st) = 32 * 65536 \<and> length (widthmap st) = 65536 div 8
     \<and> 0 < nunifont_width st \<and> (\<forall>(k, t)\<in>set (display_cache st). char_texture st k = Some t)"

definition same_font :: "font_state \<Rightarrow> font_state \<Rightarrow> bool" where
  "same_font st st' \<longleftrightarrow> st' = st\<lparr>display_cache := display_cache st'\<rparr>"

lemma same_fontD:
  assumes "same_font st st'"
  shows "widthmap st' = widthmap st" "fontmap st' = fontmap st" "nunifont_width st' = nunifont_width st"
    "nunifont_height st' = nunifont_height st" "nunifont_space st' = nunifont_space st" "system_bg st' = system_bg st"
    "initialised st' = initialised st" "char_texture st' = char_texture st"
proof -
  obtain d where "st' = st\<lparr>display_cache := d\<rparr>" using assms unfolding same_font_def by blast
  then show "widthmap st' = widthmap st" "fontmap st' = fontmap st" "nunifont_width st' = nunifont_width st"
    "nunifont_height st' = nunifont_height st" "nunifont_space st' = nunifont_space st" "system_bg st' = system_bg st"
    "initialised st' = initialised st" "char_texture st' = char_texture st"
    by (simp_all add: char_texture_def fun_eq_iff)
qed

lemma same_font_refl [simp]: "same_font st st"
  by (simp add: same_font_def)

lemma same_font_trans: "same_font a b \<Longrightarrow> same_font b c \<Longrightarrow> same_font a c"
  unfolding same_font_def by (cases a; cases b; cases c) simp

lemma unat_u16_less: "unat (c :: u16) < 65536"
  using unsigned_less [of c] by simp

definition char_narrow :: "font_state \<Rightarrow> u16 \<Rightarrow> bool" where
  "char_narrow st c \<longleftrightarrow> get_widthmap (widthmap st) c = Some True"

lemma font_ok_widthmap: "font_ok st \<Longrightarrow> get_widthmap (widthmap st) c = Some (char_narrow st c)"
proof -
  assume f: "font_ok st"
  have "unat c div 8 < length (widthmap st)" using f unat_u16_less [of c] by (simp add: font_ok_def less_mult_imp_div_less)
  from get_widthmap_bit [OF this] show ?thesis by (auto simp: char_narrow_def)
qed

lemma font_ok_covers: "font_ok st \<Longrightarrow> font_covers (fontmap st) (ucast (c :: u16))"
proof -
  assume f: "font_ok st"
  have "unat (ucast c :: u32) = unat c" 
    using unat_u16_less [of c] by (simp add: unsigned_ucast_eq take_bit_nat_eq_self)
  then show ?thesis using f unat_u16_less [of c] by (simp add: font_ok_def font_covers_def)
qed

lemma ucast_down_up [simp]: "ucast (ucast (c :: u16) :: u32) = c"
  by (simp add: ucast_down_ucast_id is_down)

definition text_key :: "u16 \<Rightarrow> u32 \<Rightarrow> u32 \<Rightarrow> int \<Rightarrow> int \<Rightarrow> int \<Rightarrow> int \<Rightarrow> lookup_key" where
  "text_key c bg fg bold underline italic strike =
     \<lparr>key_c = ucast c, key_bg = bg, key_fg = fg, key_bold = bold, key_underline = underline,
      key_italic = italic, key_strike = strike\<rparr>"

lemma char_texture_total: "font_ok st \<Longrightarrow> \<exists>t. char_texture st (text_key c bg fg bold underline italic strike) = Some t"
proof -
  assume f: "font_ok st"
  have "surface_ok (create_rgb_surface32 8 16)" "surface_ok (create_rgb_surface32 16 16)" by (simp_all add: create_surface_ok)
  from this [THEN draw_character_surface_run, OF font_ok_covers [OF f], of 0 0 _ c bg fg bold underline italic strike]
  have "\<exists>t. draw_character_surface (fontmap st) (create_rgb_surface32 8 16) 0 0 8 (ucast c) bg fg bold underline italic strike = Some t"
    "\<exists>t. draw_character_surface (fontmap st) (create_rgb_surface32 16 16) 0 0 16 (ucast c) bg fg bold underline italic strike = Some t"
    by blast+
  then show ?thesis using font_ok_widthmap [OF f, of c] by (auto simp: char_texture_def text_key_def Let_def)
qed

lemma draw_character_run:
  assumes "font_ok st" "char_texture st (text_key c bg fg bold underline italic strike) = Some t"
  shows "\<exists>st'. draw_character st x y (ucast c) bg fg bold underline italic strike
      = Some (st', [RenderCopyTexture t x y (if char_narrow st c then nunifont_width st else nunifont_width st * 2) (nunifont_height st)])
    \<and> same_font st st' \<and> font_ok st'"
proof -
  let ?k = "text_key c bg fg bold underline italic strike"
  note w = font_ok_widthmap [OF assms(1), of c]
  show ?thesis
  proof (cases "map_of (display_cache st) ?k")
    case None
    let ?st = "st\<lparr>display_cache := display_cache st @ [(?k, t)]\<rparr>"
    have d: "draw_character_surface (fontmap st) (create_rgb_surface32 (if char_narrow st c then 8 else 16) 16) 0 0
        (if char_narrow st c then 8 else 16) (ucast c) bg fg bold underline italic strike = Some t"
      using assms(2) w by (simp add: char_texture_def text_key_def Let_def)
    have s: "same_font st ?st" by (simp add: same_font_def)
    have "font_ok ?st" using assms same_fontD(8) [OF s] by (auto simp: font_ok_def)
    with s show ?thesis using d None w
      by (intro exI [of _ ?st]) (cases "char_narrow st c"; simp add: draw_character_def text_key_def [symmetric])
  next
    case (Some t')
    then have "t' = t" using assms map_of_SomeD [OF Some] by (auto simp: font_ok_def)
    with Some w assms(1) show ?thesis by (intro exI [of _ st]) (auto simp: draw_character_def text_key_def)
  qed
qed

subsection \<open>Layout of a text\<close>

definition char_advance :: "font_state \<Rightarrow> u16 \<Rightarrow> int" where
  "char_advance st c = (if c = 32 \<or> char_narrow st c then nunifont_width st + nunifont_space st
     else 2 * nunifont_width st + 2 * nunifont_space st)"

text \<open>The calls one character makes, with its texture drawn afresh, and those of a whole text.\<close>

definition char_cmds :: "font_state \<Rightarrow> int \<Rightarrow> u32 \<Rightarrow> u32 \<Rightarrow> int \<Rightarrow> int \<Rightarrow> int \<Rightarrow> int \<Rightarrow> int \<Rightarrow> u16 \<Rightarrow> render_cmd list" where
  "char_cmds st y bg fg bold underline italic strike x c =
     (if c = 32 then if bg \<noteq> system_bg st then draw_space_renderer st x y (nunifont_width st + nunifont_space st) bg else []
      else case char_texture st (text_key c bg fg bold underline italic strike) of
        None \<Rightarrow> []
      | Some t \<Rightarrow> [RenderCopyTexture t x y (if char_narrow st c then nunifont_width st else nunifont_width st * 2) (nunifont_height st)])"

fun text_cmds :: "font_state \<Rightarrow> int \<Rightarrow> u32 \<Rightarrow> u32 \<Rightarrow> int \<Rightarrow> int \<Rightarrow> int \<Rightarrow> int \<Rightarrow> int \<Rightarrow> u16 list \<Rightarrow> render_cmd list" where
  "text_cmds st y bg fg bold underline italic strike x [] = []"
| "text_cmds st y bg fg bold underline italic strike x (c # cs) =
     char_cmds st y bg fg bold underline italic strike x c
     @ text_cmds st y bg fg bold underline italic strike (x + char_advance st c) cs"

lemma same_font_cmds:
  assumes "same_font st st'"
  shows "char_advance st' = char_advance st" "char_cmds st' = char_cmds st" "text_cmds st' = text_cmds st"
proof -
  note d = same_fontD [OF assms]
  show a: "char_advance st' = char_advance st" by (simp add: fun_eq_iff char_advance_def char_narrow_def d)
  show c: "char_cmds st' = char_cmds st"
    unfolding fun_eq_iff char_cmds_def char_narrow_def draw_space_renderer_def d by blast
  have "text_cmds st' y bg fg b u i s x cs = text_cmds st y bg fg b u i s x cs" for y bg fg b u i s x cs
    by (induction cs arbitrary: x) (simp_all add: a c)
  then show "text_cmds st' = text_cmds st" by (simp add: fun_eq_iff)
qed

lemma unitext_renderer_char_run:
  assumes "font_ok st"
  shows "\<exists>st'. unitext_renderer_char y bg fg bold underline italic strike c (st, x, out)
      = Some (st', x + char_advance st c, out @ char_cmds st y bg fg bold underline italic strike x c)
    \<and> same_font st st' \<and> font_ok st'"
proof (cases "c = 32")
  case True
  with assms show ?thesis by (auto simp: unitext_renderer_char_def char_advance_def char_cmds_def)
next
  case False
  from char_texture_total [OF assms] obtain t where t: "char_texture st (text_key c bg fg bold underline italic strike) = Some t" by blast
  from draw_character_run [OF assms t, of x y] obtain st' where
    "draw_character st x y (ucast c) bg fg bold underline italic strike
      = Some (st', [RenderCopyTexture t x y (if char_narrow st c then nunifont_width st else nunifont_width st * 2) (nunifont_height st)])"
    "same_font st st'" "font_ok st'" by blast
  moreover have "0 < nunifont_width st" using assms by (simp add: font_ok_def)
  ultimately show ?thesis using False t font_ok_widthmap [OF assms, of c] same_fontD [of st st']
    by (auto simp: unitext_renderer_char_def char_advance_def char_cmds_def Let_def)
qed

lemma unitext_renderer_run:
  assumes "font_ok st"
  shows "\<exists>st' x'. ofold (unitext_renderer_char y bg fg bold underline italic strike) cs (st, x, out)
      = Some (st', x', out @ text_cmds st y bg fg bold underline italic strike x cs)
    \<and> same_font st st' \<and> font_ok st'"
  using assms
proof (induction cs arbitrary: st x out)
  case (Cons c cs)
  from unitext_renderer_char_run [OF Cons.prems, of y bg fg bold underline italic strike c x out] obtain st1 where st1:
    "unitext_renderer_char y bg fg bold underline italic strike c (st, x, out)
      = Some (st1, x + char_advance st c, out @ char_cmds st y bg fg bold underline italic strike x c)"
    "same_font st st1" "font_ok st1" by blast
  from Cons.IH [OF st1(3)] obtain st2 x2 where st2:
    "ofold (unitext_renderer_char y bg fg bold underline italic strike) cs
        (st1, x + char_advance st c, out @ char_cmds st y bg fg bold underline italic strike x c)
      = Some (st2, x2, (out @ char_cmds st y bg fg bold underline italic strike x c)
          @ text_cmds st1 y bg fg bold underline italic strike (x + char_advance st c) cs)"
    "same_font st1 st2" "font_ok st2" by blast
  with st1 same_font_cmds(3) [OF st1(2)] same_font_trans [OF st1(2) st2(2)] show ?case by auto
qed simp

lemma unitext_length_run:
  assumes "0 \<notin> set cs" "length cs < k" "drop n txt = cs @ 0 # rest"
  shows "unitext_length k (int n) txt = Some (int (n + length cs))"
  using assms
proof (induction cs arbitrary: n k)
  case Nil
  then have "n < length txt" "txt ! n = 0" by (metis append_Nil drop_eq_Nil leI list.distinct(1), metis append_Nil hd_drop_conv_nth drop_eq_Nil leI list.distinct(1) list.sel(1))
  with Nil show ?case by (cases k) simp_all
next
  case (Cons c cs)
  then have n: "n < length txt" by (metis append_Cons drop_eq_Nil leI list.distinct(1))
  with Cons.prems have "txt ! n = c" "drop (Suc n) txt = cs @ 0 # rest" by (simp_all add: Cons_nth_drop_Suc [symmetric])
  moreover obtain k' where "k = Suc k'" "length cs < k'" using Cons.prems(2) by (cases k) auto
  moreover have "int n + 1 = 1 + int n" by simp
  ultimately show ?case using Cons.IH [of k' "Suc n"] Cons.prems(1) n by (simp add: add.commute [of "int n" 1])
qed

text \<open>
  C35: rendering a text with the texture cache gives exactly the calls of rendering it with every
  character drawn afresh: each character at the sum of the widths before it, twice as far after a
  wide one, blanks filled only when their background is not the window's; it has no undefined
  behaviour, and the cache still holds only what a fresh drawing gives.
\<close>

theorem draw_unitext_renderer_fresh:
  assumes "font_ok st" "0 \<notin> set cs" "length cs < 10000"
  shows "\<exists>st'. draw_unitext_renderer hexfile st x y (cs @ 0 # rest) bg fg bold underline italic strike
      = Some (st', text_cmds st y bg fg bold underline italic strike x cs) \<and> same_font st st' \<and> font_ok st'"
proof -
  have "unitext_length 10000 0 (cs @ 0 # rest) = Some (int (length cs))"
    using unitext_length_run [of cs 10000 0 "cs @ 0 # rest"] assms(2,3) by simp
  moreover from unitext_renderer_run [OF assms(1)] obtain st' x' where
    "ofold (unitext_renderer_char y bg fg bold underline italic strike) cs (st, x, [])
      = Some (st', x', text_cmds st y bg fg bold underline italic strike x cs)" "same_font st st'" "font_ok st'"
    by (metis append_Nil)
  ultimately show ?thesis using assms(1) by (auto simp: draw_unitext_renderer_def font_ok_def)
qed

definition demo_font :: font_state where
  "demo_font = nunifont_size 16 (nunifont_load_staticmap (replicate (32 * 65536) 0) (replicate (65536 div 8) 255)
     (32 * 65536) (65536 div 8) font_static)"

lemma demo_font_ok: "font_ok demo_font"
  by (simp add: font_ok_def demo_font_def nunifont_size_def nunifont_load_staticmap_def nunifont_initcache_def Let_def)

theorem draw_unitext_renderer_fresh_witness:
  "\<exists>st'. draw_unitext_renderer [] demo_font 3 5 [32, 32, 0] 1 2 0 0 0 0
     = Some (st', [SetRenderDrawColor 0 0 0 1, RenderFillRect 3 5 8 16, SetRenderDrawColor 0 0 0 1, RenderFillRect 11 5 8 16])"
proof -
  have "text_cmds demo_font 5 1 2 0 0 0 0 3 [32, 32]
    = [SetRenderDrawColor 0 0 0 1, RenderFillRect 3 5 8 16, SetRenderDrawColor 0 0 0 1, RenderFillRect 11 5 8 16]"
    by (simp add: char_cmds_def char_advance_def draw_space_renderer_def demo_font_def nunifont_size_def
        nunifont_load_staticmap_def nunifont_initcache_def font_static_def Let_def)
  then show ?thesis using draw_unitext_renderer_fresh [OF demo_font_ok, where cs = "[32, 32]" and hexfile = "[]" and rest = "[]"
      and x = 3 and y = 5 and bg = 1 and fg = 2 and bold = 0 and underline = 0 and italic = 0 and strike = 0] by auto
qed

text \<open>
  \<open>nunifont_initcache\<close> hands the cache entries themselves to \<open>SDL_DestroyTexture\<close>, one call an
  entry, and never a texture, so no texture of the cache is freed when the cache is emptied.
\<close>

theorem nunifont_initcache_frees_no_texture:
  "snd (nunifont_initcache st) = map (CacheEntry \<circ> fst) (display_cache st)
   \<and> (\<forall>t. EntryTexture t \<notin> set (snd (nunifont_initcache st))) \<and> display_cache (fst (nunifont_initcache st)) = []"
  by (auto simp: nunifont_initcache_def)

end
