(* ===== verification/InlineData.thy ===== *)
theory InlineData
  imports Base64 Nunifont
begin

section \<open>Inline images (inlinedata.c)\<close>

text \<open>
  \<open>inlinedata.c\<close> watches the bytes that arrive from the host. It keeps the last \<open>BUFFERSIZE\<close> of
  them, and when they hold the magic text it base64-decodes everything that follows into the
  progressive PNG reader, whose callbacks write the image on \<open>inline_data_layer\<close>.

  libpng is a parameter (\<open>png_lib\<close>): creating a reader may fail, and feeding a reader some bytes calls
  the program's callbacks with the given events and then either returns with the reader advanced or
  jumps back to the \<open>setjmp\<close> of the caller (\<^const>\<open>None\<close>).
\<close>

subsection \<open>The PNG library\<close>

record png_info =
  info_width :: int
  info_height :: int
  info_bit_depth :: int
  info_channels :: int
  info_color_type :: int

datatype png_event =
    PngInfo png_info
  | PngRow int "byte list option"
  | PngEnd

record 'p png_lib =
  create_read_struct :: "'p option"
  create_info_struct :: bool
  process_data :: "'p \<Rightarrow> byte list \<Rightarrow> png_event list \<times> 'p option"

subsection \<open>State\<close>

definition BUFFERSIZE :: nat where "BUFFERSIZE = 10241"

record 'p inline_state =
  inline_data_layer :: surface
  png_width :: int
  png_height :: int
  pixel_depth :: int
  Gpng_ptr :: "'p option"
  row_pointers :: int
  processing_png :: bool
  file_end :: int
  channels :: int
  color_type :: int
  buffer :: "byte list"
  buffer_size :: int
  inline_b64 :: b64_state

definition inline_magic :: "byte list" where
  "inline_magic = ascii ''HTERMFILEXFER''"

definition inline_data_init :: "int \<Rightarrow> int \<Rightarrow> 'p inline_state \<Rightarrow> 'p inline_state" where
  "inline_data_init swidth sheight st =
     st\<lparr>inline_b64 := base64_init (inline_b64 st), inline_data_layer := create_rgb_surface32 swidth sheight\<rparr>"

definition inline_data_resize :: "int \<Rightarrow> int \<Rightarrow> 'p inline_state \<Rightarrow> 'p inline_state" where
  "inline_data_resize swidth sheight st = st\<lparr>inline_data_layer := create_rgb_surface32 swidth sheight\<rparr>"

subsection \<open>The PNG reader's callbacks\<close>

definition PNG_COLOR_TYPE_PALETTE :: int where "PNG_COLOR_TYPE_PALETTE = 3"

definition info_callback :: "png_info \<Rightarrow> 'p inline_state \<Rightarrow> 'p inline_state" where
  "info_callback info st =
     (let st1 = st\<lparr>file_end := 0, png_width := info_width info, png_height := info_height info,
                   pixel_depth := info_bit_depth info, channels := info_channels info,
                   color_type := info_color_type info\<rparr>;
          st2 = (if color_type st1 = PNG_COLOR_TYPE_PALETTE then st1\<lparr>pixel_depth := 8\<rparr> else st1)
      in st2\<lparr>row_pointers := png_height st2\<rparr>)"

text \<open>Only the depths 1 and 8 return a value.\<close>

definition inlineget_pixel :: "byte list \<Rightarrow> int \<Rightarrow> int \<Rightarrow> u32 option" where
  "inlineget_pixel row depth idx =
     (if depth = 1 then
        (let pos = depth * idx; b = pos div 8; k = pos - (pos div 8) * 8 in do {
           d \<leftarrow> arr_get row b;
           Some (if int (unat d) AND 2 ^ nat (8 - k) \<noteq> 0 then 1 else 0) })
      else if depth = 8 then load32 row (4 * idx)
      else None)"

definition row_callback :: "byte list option \<Rightarrow> int \<Rightarrow> 'p inline_state \<Rightarrow> 'p inline_state option" where
  "row_callback new_row row_num st = do {
     guard (0 \<le> row_num \<and> row_num < row_pointers st);
     layer \<leftarrow> ofold (\<lambda>n layer. do {
         row \<leftarrow> new_row;
         pixel \<leftarrow> inlineget_pixel row (pixel_depth st) n;
         let pixel1 = (if pixel_depth st = 1 \<and> pixel \<noteq> 0 then 0xFFFFFFFF else pixel);
         nsdl_pointS layer n row_num pixel1 }) [0..png_width st - 1] (inline_data_layer st);
     Some (st\<lparr>inline_data_layer := layer\<rparr>) }"

definition png_cleanup :: "'p inline_state \<Rightarrow> 'p inline_state" where
  "png_cleanup st = st\<lparr>Gpng_ptr := None, file_end := 1\<rparr>"

definition end_callback :: "'p inline_state \<Rightarrow> 'p inline_state" where
  "end_callback st = png_cleanup st"

fun png_callback :: "png_event \<Rightarrow> 'p inline_state \<Rightarrow> 'p inline_state option" where
  "png_callback (PngInfo info) st = Some (info_callback info st)"
| "png_callback (PngRow n row) st = row_callback row n st"
| "png_callback PngEnd st = Some (end_callback st)"

definition initialize_png_reader :: "'p png_lib \<Rightarrow> 'p inline_state \<Rightarrow> 'p inline_state \<times> int" where
  "initialize_png_reader lib st =
     (case create_read_struct lib of
        None \<Rightarrow> (st\<lparr>Gpng_ptr := None\<rparr>, 1)
      | Some p \<Rightarrow> if \<not> create_info_struct lib then (st\<lparr>Gpng_ptr := None\<rparr>, 1) else (st\<lparr>Gpng_ptr := Some p\<rparr>, 0))"

definition inlinepng_process_data :: "'p png_lib \<Rightarrow> byte list \<Rightarrow> 'p inline_state \<Rightarrow> ('p inline_state \<times> int) option" where
  "inlinepng_process_data lib data st =
     (case Gpng_ptr st of
        None \<Rightarrow> Some (png_cleanup st, 0)
      | Some p \<Rightarrow> (case process_data lib p data of (events, result) \<Rightarrow> do {
          st1 \<leftarrow> ofold png_callback events st;
          case result of
            None \<Rightarrow> Some (st1\<lparr>Gpng_ptr := None\<rparr>, 1)
          | Some p' \<Rightarrow> Some (st1\<lparr>Gpng_ptr := (if Gpng_ptr st1 = None then None else Some p')\<rparr>, 0) }))"

subsection \<open>The byte buffer\<close>

definition buffer_shift :: "byte list \<Rightarrow> byte list" where
  "buffer_shift b = fold (\<lambda>n b. b[n := b ! (n + 1)]) [0..<BUFFERSIZE - 1] b"

definition buffer_put :: "byte \<Rightarrow> 'p inline_state \<Rightarrow> 'p inline_state option" where
  "buffer_put c st =
     (if buffer_size st < int BUFFERSIZE then do {
        b \<leftarrow> arr_set (buffer st) (buffer_size st) c;
        Some (st\<lparr>buffer := b, buffer_size := buffer_size st + 1\<rparr>) }
      else do {
        b \<leftarrow> arr_set (buffer_shift (buffer st)) (int BUFFERSIZE - 1) c;
        Some (st\<lparr>buffer := b\<rparr>) })"

definition buffer_push :: "byte list \<Rightarrow> 'p inline_state \<Rightarrow> 'p inline_state option" where
  "buffer_push data st = ofold buffer_put data st"

definition buffer_clear :: "'p inline_state \<Rightarrow> 'p inline_state" where
  "buffer_clear st = st\<lparr>buffer_size := 0\<rparr>"

definition buffer_search :: "byte list \<Rightarrow> 'p inline_state \<Rightarrow> int" where
  "buffer_search v st =
     (if buffer_size st - int (length v) < 0 then - 1
      else case List.find (\<lambda>n. take (length v) (drop n (buffer st)) = v) [0..<nat (buffer_size st) - length v] of
        Some n \<Rightarrow> int n
      | None \<Rightarrow> - 1)"

subsection \<open>Receiving data\<close>

text \<open>\<open>base64_decode\<close> into a local array of \<open>cap\<close> bytes.\<close>

definition decode_into :: "nat \<Rightarrow> byte list \<Rightarrow> 'p inline_state \<Rightarrow> ('p inline_state \<times> byte list \<times> bool) option" where
  "decode_into cap data st = do {
     (b64, out, failflag) \<leftarrow> base64_decode (inline_b64 st) data;
     guard (length out \<le> cap);
     Some (st\<lparr>inline_b64 := b64\<rparr>, out, failflag) }"

definition inline_continue :: "'p png_lib \<Rightarrow> byte list \<Rightarrow> 'p inline_state \<Rightarrow> ('p inline_state \<times> int) option" where
  "inline_continue lib data st =
     (if file_end st = 1 then Some (st\<lparr>processing_png := False\<rparr>, 1)
      else do {
        (st1, decoded, failflag) \<leftarrow> decode_into 10240 data st;
        st2 \<leftarrow> (if decoded \<noteq> [] then map_option fst (inlinepng_process_data lib decoded st1) else Some st1);
        Some (if decoded \<noteq> [] \<and> file_end st2 = 1 then (st2\<lparr>processing_png := False\<rparr>, 1)
              else if failflag then (st2\<lparr>file_end := 1, processing_png := False\<rparr>, 2)
              else if file_end st2 = 1 then (st2\<lparr>processing_png := False\<rparr>, 1)
              else (st2, 1)) })"

definition inline_start :: "'p png_lib \<Rightarrow> int \<Rightarrow> 'p inline_state \<Rightarrow> ('p inline_state \<times> int) option" where
  "inline_start lib pos st =
     (let st1 = st\<lparr>processing_png := True, inline_b64 := base64_init (inline_b64 st)\<rparr>;
          st2 = fst (initialize_png_reader lib st1);
          skip = nat pos + length inline_magic
      in do {
        (st3, decoded, failflag) \<leftarrow> decode_into 4096 (take (nat (buffer_size st2) - skip) (drop skip (buffer st2))) st2;
        st4 \<leftarrow> (if decoded \<noteq> [] then map_option fst (inlinepng_process_data lib decoded st3) else Some st3);
        let st5 = buffer_clear st4;
        Some (if failflag then (st5\<lparr>processing_png := False\<rparr>, 0) else (st5, 2)) })"

definition inline_data_receive :: "'p png_lib \<Rightarrow> byte list \<Rightarrow> 'p inline_state \<times> font_state
    \<Rightarrow> (('p inline_state \<times> font_state) \<times> int) option" where
  "inline_data_receive lib data = (\<lambda>(st, font).
     if processing_png st then map_option (\<lambda>(st', r). ((st', font), r)) (inline_continue lib data st)
     else do {
       st1 \<leftarrow> buffer_push data (st\<lparr>file_end := 0\<rparr>);
       let npos = buffer_search (ascii ''HTERMFNORMAL'') st1;
       let font1 = (if npos > 0 then nunifont_size 16 font else font);
       let dpos = buffer_search (ascii ''HTERMFDOUBLE'') st1;
       let font2 = (if dpos > 0 then nunifont_size 32 font1 else font1);
       let pos = buffer_search inline_magic st1;
       if pos < 0 then Some ((st1, font2), 0)
       else map_option (\<lambda>(st', r). ((st', font2), r)) (inline_start lib pos st1) })"

text \<open>\<open>SDL_FillRect\<close> of the whole layer with 0.\<close>

definition fill_surface0 :: "surface \<Rightarrow> surface" where
  "fill_surface0 s = s\<lparr>surf_pixels := replicate (length (surf_pixels s)) 0\<rparr>"

definition inline_data_clear :: "'p inline_state \<Rightarrow> 'p inline_state" where
  "inline_data_clear st = buffer_clear (st\<lparr>inline_data_layer := fill_surface0 (inline_data_layer st)\<rparr>)"

subsection \<open>The buffer keeps the last bytes\<close>

lemma shift_fold:
  "k < length b \<Longrightarrow> fold (\<lambda>n b. b[n := b ! Suc n]) [0..<k] b = take k (tl b) @ drop k b"
proof (induction k)
  case (Suc k)
  then have e: "fold (\<lambda>n b. b[n := b ! Suc n]) [0..<k] b = take k (tl b) @ drop k b" by simp
  have l: "length (take k (tl b)) = k" using Suc.prems by simp
  have d: "drop k b = b ! k # b ! Suc k # drop (Suc (Suc k)) b" "drop (Suc k) b = b ! Suc k # drop (Suc (Suc k)) b"
    using Suc.prems by (simp_all add: Cons_nth_drop_Suc)
  have t: "take (Suc k) (tl b) = take k (tl b) @ [b ! Suc k]"
    using Suc.prems by (simp add: take_Suc_conv_app_nth nth_tl)
  show ?case using l by (simp add: e t) (simp add: d nth_append list_update_append)
qed simp

lemma buffer_shift_eq: "length b = BUFFERSIZE \<Longrightarrow> buffer_shift b = tl b @ [last b]"
proof -
  assume l: "length b = BUFFERSIZE"
  then have n: "0 < length b" by (simp add: BUFFERSIZE_def)
  then have "drop (length b - 1) b = [last b]"
    by (metis append_butlast_last_id append_eq_conv_conj length_butlast length_greater_0_conv)
  with n l show ?thesis using shift_fold [of "BUFFERSIZE - 1" b] by (simp add: buffer_shift_def)
qed

definition buffer_ok :: "'p inline_state \<Rightarrow> bool" where
  "buffer_ok st \<longleftrightarrow> length (buffer st) = BUFFERSIZE \<and> 0 \<le> buffer_size st \<and> buffer_size st \<le> int BUFFERSIZE"

definition buffered :: "'p inline_state \<Rightarrow> byte list" where
  "buffered st = take (nat (buffer_size st)) (buffer st)"

definition no_buffer :: "'p inline_state \<Rightarrow> 'p inline_state" where
  "no_buffer st = st\<lparr>buffer := [], buffer_size := 0\<rparr>"

lemma length_buffered: "buffer_ok st \<Longrightarrow> int (length (buffered st)) = buffer_size st"
  by (auto simp: buffer_ok_def buffered_def min_def)

lemma arr_set_snoc [simp]: "arr_set (xs @ [y]) (int (length xs)) c = Some (xs @ [c])"
  by (simp add: arr_set_def)

lemma buffer_put_spec:
  assumes "buffer_ok st"
  shows "\<exists>st'. buffer_put c st = Some st' \<and> buffer_ok st' \<and> no_buffer st' = no_buffer st
    \<and> buffered st' = last_n BUFFERSIZE (buffered st @ [c])"
proof (cases "buffer_size st < int BUFFERSIZE")
  case True
  define n where "n = nat (buffer_size st)"
  have n: "buffer_size st = int n" "n < length (buffer st)" using True assms by (auto simp: n_def buffer_ok_def)
  let ?st = "st\<lparr>buffer := (buffer st)[n := c], buffer_size := int n + 1\<rparr>"
  have "buffer_put c st = Some ?st" using True n by (simp add: buffer_put_def)
  moreover have "buffer_ok ?st" using assms True n by (simp add: buffer_ok_def)
  moreover have "nat (int n + 1) = Suc n" by simp
  then have "buffered ?st = buffered st @ [c]" using n
    by (simp add: buffered_def take_Suc_conv_app_nth del: nat_add_distrib)
  moreover have "length (buffered st @ [c]) \<le> BUFFERSIZE" using True length_buffered [OF assms] by simp
  ultimately show ?thesis by (intro exI [of _ ?st]) (simp add: no_buffer_def)
next
  case False
  then have n: "buffer_size st = int BUFFERSIZE" "length (buffer st) = BUFFERSIZE" using assms by (auto simp: buffer_ok_def)
  have z: "0 < BUFFERSIZE" by (simp add: BUFFERSIZE_def)
  have b: "buffer_shift (buffer st) = tl (buffer st) @ [last (buffer st)]" using n by (simp add: buffer_shift_eq)
  let ?st = "st\<lparr>buffer := tl (buffer st) @ [c]\<rparr>"
  have l: "length (tl (buffer st)) = BUFFERSIZE - 1" using n by simp
  have "arr_set (buffer_shift (buffer st)) (int BUFFERSIZE - 1) c = Some (tl (buffer st) @ [c])"
  proof -
    have i: "int BUFFERSIZE - 1 = int (length (tl (buffer st)))" using l z by simp
    show ?thesis unfolding b i by (simp del: length_tl)
  qed
  then have "buffer_put c st = Some ?st" using n by (simp add: buffer_put_def)
  moreover have "buffer_ok ?st" using n z by (simp add: buffer_ok_def)
  moreover have "buffered st = buffer st" "buffered ?st = tl (buffer st) @ [c]" using n z by (simp_all add: buffered_def)
  moreover have "last_n BUFFERSIZE (buffer st @ [c]) = tl (buffer st) @ [c]"
    using n z by (cases "buffer st") (simp_all add: last_n_def)
  ultimately show ?thesis by (intro exI [of _ ?st]) (simp add: no_buffer_def)
qed

interpretation inline_buf: bounded_log buffer_ok buffered no_buffer buffer_put BUFFERSIZE
proof
  fix st :: "'p inline_state" and c
  assume ok: "buffer_ok st"
  then show "\<exists>s'. buffer_put c st = Some s' \<and> buffer_ok s' \<and> no_buffer s' = no_buffer st
      \<and> buffered s' = last_n BUFFERSIZE (buffered st @ [c])" by (rule buffer_put_spec)
  show "length (buffered st) \<le> BUFFERSIZE" using ok by (simp add: buffered_def buffer_ok_def)
qed

lemma buffer_push_run:
  "buffer_ok st \<Longrightarrow> \<exists>st'. buffer_push data st = Some st' \<and> buffer_ok st' \<and> no_buffer st' = no_buffer st
    \<and> buffered st' = last_n BUFFERSIZE (buffered st @ data)"
  unfolding buffer_push_def by (rule inline_buf.push_list)

text \<open>
  pushing any bytes never writes outside the buffer, leaves the rest of the state alone, and the
  buffer then holds the last \<open>BUFFERSIZE\<close> bytes of everything pushed, in order.
\<close>

theorem buffer_push_last:
  assumes "buffer_ok st"
  shows "\<exists>st'. buffer_push data st = Some st' \<and> buffer_ok st' \<and> no_buffer st' = no_buffer st
    \<and> buffered st' = last_n BUFFERSIZE (buffered st @ data)"
  by (rule buffer_push_run [OF assms])

definition inline_static :: "'p inline_state" where
  "inline_static = \<lparr>inline_data_layer = create_rgb_surface32 0 0, png_width = 0, png_height = 0, pixel_depth = 0,
     Gpng_ptr = None, row_pointers = 0, processing_png = False, file_end = 0, channels = 0, color_type = 0,
     buffer = replicate BUFFERSIZE 0, buffer_size = 0, inline_b64 = b64_static\<rparr>"

lemma inline_static_ok: "buffer_ok inline_static" "buffered inline_static = []"
  by (simp_all add: buffer_ok_def inline_static_def buffered_def)

theorem buffer_push_last_witness:
  "\<exists>st'. buffer_push [1, 2, 3] (inline_static :: unit inline_state) = Some st' \<and> buffered st' = [1, 2, 3]"
  using buffer_push_last [OF inline_static_ok(1), of "[1, 2, 3]"] by (auto simp: inline_static_ok last_n_def BUFFERSIZE_def)

subsection \<open>Searching the buffer\<close>

definition occurs_at :: "byte list \<Rightarrow> byte list \<Rightarrow> nat \<Rightarrow> bool" where
  "occurs_at v xs n \<longleftrightarrow> take (length v) (drop n xs) = v"

lemma occurs_at_buffered:
  assumes "buffer_ok st" "n + length v \<le> nat (buffer_size st)"
  shows "take (length v) (drop n (buffer st)) = v \<longleftrightarrow> occurs_at v (buffered st) n"
proof -
  have "take (length v) (drop n (take (nat (buffer_size st)) (buffer st))) = take (length v) (drop n (buffer st))"
    using assms(2) by (simp add: drop_take min_def)
  then show ?thesis by (simp add: occurs_at_def buffered_def)
qed

lemma buffer_search_run:
  assumes "buffer_ok st"
  shows "buffer_search v st = - 1 \<and> (\<forall>n. n + length v < length (buffered st) \<longrightarrow> \<not> occurs_at v (buffered st) n)
    \<or> (\<exists>n. buffer_search v st = int n \<and> n + length v < length (buffered st) \<and> occurs_at v (buffered st) n
        \<and> (\<forall>m<n. \<not> occurs_at v (buffered st) m))"
proof -
  have b: "nat (buffer_size st) = length (buffered st)" using length_buffered [OF assms] by simp
  let ?P = "\<lambda>n. take (length v) (drop n (buffer st)) = v"
  have P: "?P n \<longleftrightarrow> occurs_at v (buffered st) n" if "n + length v < length (buffered st)" for n
    using occurs_at_buffered [OF assms, of n v] that b by simp
  show ?thesis
  proof (cases "buffer_size st - int (length v) < 0")
    case True
    then show ?thesis using length_buffered [OF assms] by (auto simp: buffer_search_def)
  next
    case False
    show ?thesis
    proof (cases "List.find ?P [0..<nat (buffer_size st) - length v]")
      case None
      have "\<not> ?P n" if "n + length v < length (buffered st)" for n
        using None that unfolding find_None_iff b by auto
      with False None P show ?thesis by (simp add: buffer_search_def)
    next
      case (Some n)
      then obtain i where i: "i < nat (buffer_size st) - length v" "?P i" "n = i" "\<forall>j<i. \<not> ?P j"
        by (auto simp: find_Some_iff)
      then have "n + length v < length (buffered st)" using b by simp
      moreover have "occurs_at v (buffered st) n" "\<forall>m<n. \<not> occurs_at v (buffered st) m"
        using P i calculation by (auto simp: less_trans)
      ultimately show ?thesis using False Some by (auto simp: buffer_search_def)
    qed
  qed
qed

text \<open>
  the search returns the first place where the text occurs and is followed by at least one more
  byte, and -1 exactly when there is none: an occurrence at the very end of the buffer is not seen.
\<close>

theorem buffer_search_first:
  assumes "buffer_ok st"
  shows "(buffer_search v st = int n \<longleftrightarrow> n + length v < length (buffered st) \<and> occurs_at v (buffered st) n
      \<and> (\<forall>m<n. \<not> occurs_at v (buffered st) m))
    \<and> (buffer_search v st = - 1 \<longleftrightarrow> (\<forall>n. n + length v < length (buffered st) \<longrightarrow> \<not> occurs_at v (buffered st) n))"
proof -
  have u: "n = k" if "occurs_at v (buffered st) n" "\<forall>m<n. \<not> occurs_at v (buffered st) m"
    "occurs_at v (buffered st) k" "\<forall>m<k. \<not> occurs_at v (buffered st) m" for k
    using that by (metis linorder_neqE_nat)
  from buffer_search_run [OF assms, of v] show ?thesis
  proof (elim disjE exE conjE)
    assume "buffer_search v st = - 1" "\<forall>n. n + length v < length (buffered st) \<longrightarrow> \<not> occurs_at v (buffered st) n"
    then show ?thesis by auto
  next
    fix k assume k: "buffer_search v st = int k" "k + length v < length (buffered st)" "occurs_at v (buffered st) k"
      "\<forall>m<k. \<not> occurs_at v (buffered st) m"
    then show ?thesis using u by auto
  qed
qed

theorem buffer_search_first_witness:
  "buffer_search [7] (inline_static\<lparr>buffer := 7 # replicate 10240 0, buffer_size := 1\<rparr> :: unit inline_state) = - 1
   \<and> buffer_search [7] (inline_static\<lparr>buffer := 7 # replicate 10240 0, buffer_size := 2\<rparr> :: unit inline_state) = 0"
proof -
  let ?st = "\<lambda>n. inline_static\<lparr>buffer := 7 # replicate 10240 0, buffer_size := n\<rparr> :: unit inline_state"
  have ok: "buffer_ok (?st 1)" "buffer_ok (?st 2)" by (simp_all add: buffer_ok_def BUFFERSIZE_def)
  have b: "buffered (?st 1) = [7]" "buffered (?st 2) = [7, 0]" by (simp_all add: buffered_def eval_nat_numeral)
  have "buffer_search [7] (?st 1) = - 1" using buffer_search_first [OF ok(1), of "[7]"] b(1) by simp
  moreover have "buffer_search [7] (?st 2) = int 0"
    using buffer_search_first [OF ok(2), of "[7]" 0] b(2) by (simp add: occurs_at_def)
  ultimately show ?thesis by simp
qed

subsection \<open>The magic text, split over several reads\<close>

lemma buffer_search_prefix:
  assumes "buffer_ok st" "buffer_ok st'" "buffered st' = buffered st @ ys" "0 \<le> buffer_search v st"
  shows "buffer_search v st' = buffer_search v st"
proof -
  from buffer_search_run [OF assms(1), of v] assms(4) obtain n where n: "buffer_search v st = int n"
    "n + length v < length (buffered st)" "occurs_at v (buffered st) n" "\<forall>m<n. \<not> occurs_at v (buffered st) m" by auto
  have o: "occurs_at v (buffered st') m \<longleftrightarrow> occurs_at v (buffered st) m" if "m \<le> n" for m
    using n(2) that assms(3) by (simp add: occurs_at_def)
  from buffer_search_run [OF assms(2), of v] show ?thesis
  proof (elim disjE exE conjE)
    assume "\<forall>n. n + length v < length (buffered st') \<longrightarrow> \<not> occurs_at v (buffered st') n"
    then show ?thesis using n o [of n] assms(3) by simp
  next
    fix k assume k: "buffer_search v st' = int k" "occurs_at v (buffered st') k" "\<forall>m<k. \<not> occurs_at v (buffered st') m"
    have "\<not> n < k" using k(3) o [of n] n(3) by auto
    moreover have "\<not> k < n" using k(2) o [of k] n(4) by auto
    ultimately show ?thesis using k(1) n(1) by simp
  qed
qed

lemma nunifont_size_again [simp]:
  "nunifont_size 32 (nunifont_size 16 f) = nunifont_size 32 f" "nunifont_size 32 (nunifont_size 32 f) = nunifont_size 32 f"
  "nunifont_size 16 (nunifont_size 16 f) = nunifont_size 16 f"
  by (simp_all add: nunifont_size_def Let_def)

text \<open>The part of the handler that a buffer without the magic text runs.\<close>

definition font_commands :: "'p inline_state \<Rightarrow> font_state \<Rightarrow> font_state" where
  "font_commands st font =
     (let font1 = (if buffer_search (ascii ''HTERMFNORMAL'') st > 0 then nunifont_size 16 font else font)
      in if buffer_search (ascii ''HTERMFDOUBLE'') st > 0 then nunifont_size 32 font1 else font1)"

lemma inline_receive_idle:
  "\<not> processing_png st \<Longrightarrow> buffer_push data (st\<lparr>file_end := 0\<rparr>) = Some st1 \<Longrightarrow>
    inline_data_receive lib data (st, font) =
      (if buffer_search inline_magic st1 < 0 then Some ((st1, font_commands st1 font), 0)
       else map_option (\<lambda>(st', r). ((st', font_commands st1 font), r)) (inline_start lib (buffer_search inline_magic st1) st1))"
  by (simp add: inline_data_receive_def font_commands_def Let_def)

lemma font_commands_prefix:
  assumes "buffer_ok st" "buffer_ok st'" "buffered st' = buffered st @ ys"
  shows "font_commands st' (font_commands st font) = font_commands st' font"
  using buffer_search_prefix [OF assms, of "ascii ''HTERMFNORMAL''"] buffer_search_prefix [OF assms, of "ascii ''HTERMFDOUBLE''"]
  unfolding font_commands_def Let_def by (auto simp del: of_nat_less_0_iff)

lemma no_buffer_file_end: "no_buffer st' = no_buffer st \<Longrightarrow> file_end st' = file_end st \<and> processing_png st' = processing_png st
    \<and> inline_b64 st' = inline_b64 st \<and> Gpng_ptr st' = Gpng_ptr st \<and> inline_data_layer st' = inline_data_layer st"
  unfolding no_buffer_def by (cases st; cases st') simp


definition demo_lib :: "unit png_lib" where
  "demo_lib = \<lparr>create_read_struct = None, create_info_struct = False, process_data = \<lambda>p d. ([], Some p)\<rparr>"


text \<open>
  while \<open>HTERMFDOUBLE\<close> is in the buffer (not at its start or end) every chunk selects the large
  font, even one that ends in \<open>HTERMFNORMAL\<close>: the command to go back has no effect.
\<close>

theorem inline_double_font_wins:
  assumes "\<not> processing_png st" "buffer_ok st" "length (buffered st @ data) \<le> BUFFERSIZE"
    "0 < n" "n + 12 < length (buffered st @ data)" "occurs_at (ascii ''HTERMFDOUBLE'') (buffered st @ data) n"
    "\<not> occurs_at (ascii ''HTERMFDOUBLE'') (buffered st @ data) 0"
    and none: "\<forall>n. n + length inline_magic < length (buffered st @ data) \<longrightarrow> \<not> occurs_at inline_magic (buffered st @ data) n"
  shows "\<exists>st'. inline_data_receive lib data (st, font) = Some ((st', nunifont_size 32 font), 0)"
proof -
  let ?st = "st\<lparr>file_end := 0\<rparr>" and ?d = "ascii ''HTERMFDOUBLE''"
  have ok: "buffer_ok ?st" "buffered ?st = buffered st" using assms(2) by (simp_all add: buffer_ok_def buffered_def)
  from buffer_push_run [OF ok(1), of data] obtain st1 where st1: "buffer_push data ?st = Some st1" "buffer_ok st1"
    "buffered st1 = buffered st @ data" using assms(3) ok(2) by auto
  have l: "length ?d = 12" by (simp add: ascii_def)
  have "0 < buffer_search ?d st1"
    using buffer_search_run [OF st1(2), of ?d]
  proof (elim disjE exE conjE)
    assume "\<forall>n. n + length ?d < length (buffered st1) \<longrightarrow> \<not> occurs_at ?d (buffered st1) n"
    then show ?thesis using assms(5,6) unfolding st1(3) l by blast
  next
    fix k assume k: "buffer_search ?d st1 = int k" "occurs_at ?d (buffered st1) k"
    then have "k \<noteq> 0" using assms(7) unfolding st1(3) by metis
    then show ?thesis unfolding k(1) by simp
  qed
  then have "font_commands st1 font = nunifont_size 32 font" by (simp add: font_commands_def Let_def)
  moreover have "buffer_search inline_magic st1 < 0"
    using buffer_search_run [OF st1(2), of inline_magic] none st1(3) by auto
  ultimately show ?thesis using inline_receive_idle [OF assms(1) st1(1), of lib font] by simp
qed

theorem inline_double_font_wins_witness:
  "\<exists>st'. inline_data_receive demo_lib (ascii ''xHTERMFDOUBLExHTERMFNORMALx'') (inline_static, font_static)
    = Some ((st', nunifont_size 32 font_static), 0)"
proof (rule inline_double_font_wins [where n = 1])
  let ?xs = "buffered (inline_static :: unit inline_state) @ ascii ''xHTERMFDOUBLExHTERMFNORMALx''"
  have x: "?xs = ascii ''xHTERMFDOUBLExHTERMFNORMALx''" by (simp add: inline_static_ok)
  have "\<forall>n\<in>set [0..<14]. \<not> occurs_at inline_magic (ascii ''xHTERMFDOUBLExHTERMFNORMALx'') n" by code_simp
  then show "\<forall>n. n + length inline_magic < length ?xs \<longrightarrow> \<not> occurs_at inline_magic ?xs n"
    unfolding x by (auto simp: inline_magic_def ascii_def)
  show "occurs_at (ascii ''HTERMFDOUBLE'') ?xs 1" "\<not> occurs_at (ascii ''HTERMFDOUBLE'') ?xs 0"
    unfolding x by code_simp+
  show "\<not> processing_png (inline_static :: unit inline_state)" by (simp add: inline_static_def)
qed (simp_all add: inline_static_ok ascii_def BUFFERSIZE_def)

subsection \<open>The decode buffer\<close>

lemma b64_payload_digits: "\<forall>c\<in>set cs. b64_digit c \<Longrightarrow> length (b64_payload cs) = 6 * length cs"
  by (induction cs) (auto simp: b64_payload_def bits6_def)

lemma base64_decode_digits:
  assumes "b64_ready st" "pending st = []" "\<forall>c\<in>set cs. b64_digit c"
  shows "\<exists>st' out. base64_decode st cs = Some (st', out, False) \<and> length out = 6 * length cs div 8"
proof -
  have "dropWhile b64_clean cs = []" "takeWhile b64_clean cs = cs"
    using assms(3) by (simp_all add: dropWhile_eq_Nil_conv takeWhile_eq_all_conv b64_clean_def)
  with base64_decode_run [OF assms(1), of cs] assms(2) b64_payload_digits [OF assms(3)] show ?thesis
    by (auto simp: length_bytes_of_bits Let_def)
qed

lemma drop_buffered: "take (nat (buffer_size st) - k) (drop k (buffer st)) = drop k (buffered st)"
  by (simp add: buffered_def drop_take)

lemma init_reader_frame: "buffer (fst (initialize_png_reader lib st)) = buffer st"
  "buffer_size (fst (initialize_png_reader lib st)) = buffer_size st"
  "inline_b64 (fst (initialize_png_reader lib st)) = inline_b64 st"
  by (auto simp: initialize_png_reader_def split: option.splits)

lemma inline_start_decode:
  "inline_start lib (int n) st = None \<or>
    (\<exists>r. decode_into 4096 (drop (n + length inline_magic) (buffered st))
       (fst (initialize_png_reader lib (st\<lparr>processing_png := True, inline_b64 := base64_init (inline_b64 st)\<rparr>))) = Some r)"
  unfolding inline_start_def Let_def init_reader_frame nat_int drop_buffered [symmetric]
  by (auto split: bind_splits)

text \<open>
  a chunk that begins with the magic text and goes on with more than 5462 base64 digits, which
  still fits the byte buffer, overruns the 4096 bytes of the array it is decoded into.
\<close>

theorem inline_first_decode_overflow:
  assumes "\<not> processing_png st" "buffer_ok st" "buffered st = []" "length (base64_bits (inline_b64 st)) = 8"
    "\<forall>c\<in>set text. b64_digit c" "5462 < length text" "length text + 13 \<le> BUFFERSIZE"
  shows "inline_data_receive lib (inline_magic @ text) (st, font) = None"
proof -
  let ?st = "st\<lparr>file_end := 0\<rparr>"
  have m: "length inline_magic = 13" by (simp add: inline_magic_def ascii_def)
  have ok: "buffer_ok ?st" "buffered ?st = []" using assms(2,3) by (simp_all add: buffer_ok_def buffered_def)
  from buffer_push_run [OF ok(1), of "inline_magic @ text"] obtain st1 where st1:
    "buffer_push (inline_magic @ text) ?st = Some st1" "buffer_ok st1" "no_buffer st1 = no_buffer ?st"
    "buffered st1 = inline_magic @ text" using assms(7) ok(2) m by auto
  have b: "inline_b64 st1 = inline_b64 st" using no_buffer_file_end [OF st1(3)] by simp
  have "occurs_at inline_magic (buffered st1) 0" using st1(4) by (simp add: occurs_at_def)
  moreover have "0 + length inline_magic < length (buffered st1)" using st1(4) assms(6) by (auto simp: m)
  ultimately have s: "buffer_search inline_magic st1 = int 0"
    using buffer_search_run [OF st1(2), of inline_magic] by (metis gr0I)
  note i = base64_init_ready [of "inline_b64 st"]
  let ?d = "fst (initialize_png_reader lib (st1\<lparr>processing_png := True, inline_b64 := base64_init (inline_b64 st1)\<rparr>))"
  from base64_decode_digits [OF _ _ assms(5), of "base64_init (inline_b64 st)"] i assms(4) obtain b64 out where
    "base64_decode (base64_init (inline_b64 st)) text = Some (b64, out, False)" "length out = 6 * length text div 8" by auto
  then have "decode_into 4096 text ?d = None" using assms(6) b by (simp add: decode_into_def init_reader_frame guard_def)
  with inline_start_decode [of lib 0 st1] st1(4) have "inline_start lib (int 0) st1 = None" by simp
  with inline_receive_idle [OF assms(1) st1(1), of lib font] s show ?thesis by simp
qed

theorem inline_first_decode_overflow_witness:
  "inline_data_receive demo_lib (inline_magic @ replicate 6000 65) (inline_static, font_static) = None"
proof -
  have "b64_digit 65" by code_simp
  then show ?thesis
    by (intro inline_first_decode_overflow)
      (simp_all add: inline_static_ok BUFFERSIZE_def, simp_all add: inline_static_def b64_static_def)
qed

text \<open>
  the array never overruns when the chunks are at most 5462 bytes long: if the buffer held no
  complete magic text before a chunk of seven-bit characters, whatever the chunk completes decodes
  into at most 4096 bytes without undefined behaviour.
\<close>

theorem inline_first_decode_fits:
  assumes "buffer_ok st" "length (base64_bits (inline_b64 st)) = 8" "length data \<le> 5462"
    "\<forall>c\<in>set (buffered st @ data). 0 \<le> sint c" "length (buffered st @ data) \<le> BUFFERSIZE"
    and none: "\<forall>n. n + length inline_magic < length (buffered st) \<longrightarrow> \<not> occurs_at inline_magic (buffered st) n"
    and push: "buffer_push data st = Some st1" and found: "buffer_search inline_magic st1 = int n"
  shows "\<exists>st2 out f. decode_into 4096 (drop (n + length inline_magic) (buffered st1))
      (fst (initialize_png_reader lib (st1\<lparr>processing_png := True, inline_b64 := base64_init (inline_b64 st1)\<rparr>)))
    = Some (st2, out, f) \<and> length out \<le> 4096"
proof -
  let ?cs = "drop (n + length inline_magic) (buffered st1)"
  from buffer_push_run [OF assms(1), of data] push assms(5) have st1: "buffer_ok st1" "no_buffer st1 = no_buffer st"
    "buffered st1 = buffered st @ data" by auto
  have b: "inline_b64 st1 = inline_b64 st" using no_buffer_file_end [OF st1(2)] by simp
  from buffer_search_run [OF st1(1), of inline_magic] found have n: "n + length inline_magic < length (buffered st1)"
    "occurs_at inline_magic (buffered st1) n" by auto
  have "length (buffered st) \<le> n + length inline_magic"
  proof (rule ccontr)
    assume a: "\<not> ?thesis"
    then have "occurs_at inline_magic (buffered st) n" using n(2) by (simp add: occurs_at_def st1(3))
    with none a show False by simp
  qed
  then have l: "length ?cs \<le> 5462" using assms(3) st1(3) by simp
  note i = base64_init_ready [OF assms(2)]
  have "set ?cs \<subseteq> set (buffered st @ data)" unfolding st1(3) by (rule set_drop_subset)
  then have "\<not> (\<exists>c ds. dropWhile b64_clean ?cs = c # ds \<and> sint c < 0)"
    using assms(4) by (metis list.set_intros(1) linorder_not_less set_dropWhileD subsetD)
  then obtain b64 out f where d: "base64_decode (base64_init (inline_b64 st)) ?cs = Some (b64, out, f)"
    using base64_decode_undefined [OF i [THEN conjunct1]] by (metis not_None_eq prod_cases3)
  have "8 * length out \<le> 6 * 5462"
    using base64_decode_bound [OF i [THEN conjunct1] d] l length_pending [of "base64_init (inline_b64 st)"] i
    by (auto simp: b64_ready_def)
  then have "length out \<le> 4096" by simp
  with d show ?thesis by (simp add: decode_into_def init_reader_frame b)
qed


theorem inline_first_decode_fits_witness:
  "\<exists>st1 st2 out f. buffer_push (inline_magic @ ascii ''QUJD'') (inline_static :: unit inline_state) = Some st1
    \<and> decode_into 4096 (drop 13 (buffered st1))
        (fst (initialize_png_reader demo_lib (st1\<lparr>processing_png := True, inline_b64 := base64_init (inline_b64 st1)\<rparr>)))
      = Some (st2, out, f) \<and> length out \<le> 4096"
proof -
  let ?st = "inline_static :: unit inline_state" and ?data = "inline_magic @ ascii ''QUJD''"
  have l: "length ?data = 17" "length inline_magic = 13" by (simp_all add: inline_magic_def ascii_def)
  from buffer_push_run [OF inline_static_ok(1), of ?data] obtain st1 :: "unit inline_state" where
    st1: "buffer_push ?data ?st = Some st1" "buffer_ok st1" "buffered st1 = ?data"
    using l(1) by (auto simp: inline_static_ok BUFFERSIZE_def)
  have "occurs_at inline_magic (buffered st1) 0" "0 + length inline_magic < length (buffered st1)"
    using st1(3) l by (simp_all add: occurs_at_def)
  then have "buffer_search inline_magic st1 = int 0"
    using buffer_search_run [OF st1(2), of inline_magic] by (metis gr0I)
  moreover have "\<forall>c\<in>set ?data. 0 \<le> sint c" by code_simp
  ultimately show ?thesis
    using inline_first_decode_fits [OF inline_static_ok(1), of ?data st1 0 demo_lib] st1 l
    by (auto simp: inline_static_ok BUFFERSIZE_def, auto simp: inline_static_def b64_static_def)
qed

subsection \<open>Pixels of one-bit images\<close>

text \<open>Pixel \<open>idx\<close> of a one-bit PNG row: the leftmost pixel is the highest bit of its byte.\<close>

definition png_bit :: "byte list \<Rightarrow> nat \<Rightarrow> bool" where
  "png_bit row idx \<longleftrightarrow> bit (row ! (idx div 8)) (7 - idx mod 8)"

text \<open>
  for a one-bit image the program reads the pixel to the left of the one asked for, and the
  first pixel of each group of eight is always 0: the shift is one too far.
\<close>

theorem inlineget_pixel_one_bit:
  assumes "idx < 8 * length row"
  shows "inlineget_pixel row 1 (int idx) = Some (if idx mod 8 \<noteq> 0 \<and> png_bit row (idx - 1) then 1 else 0)"
proof -
  obtain a k where i: "idx = 8 * a + k" "k < 8" by (rule by_8)
  then have a: "a < length row" using assms by simp
  have d: "int idx div 8 = int a" "int idx - int a * 8 = int k" using i by (simp_all add: int_div_mod_8)
  have "nat (8 - int k) = 8 - k" by simp
  then have "inlineget_pixel row 1 (int idx) = Some (if bit (uint (row ! a)) (8 - k) then 1 else 0)"
    using a by (simp add: inlineget_pixel_def d and_exp_eq_0_iff_not_bit)
  moreover have "bit (uint (row ! a)) (8 - k) \<longleftrightarrow> k \<noteq> 0 \<and> png_bit row (idx - 1)"
  proof (cases "k = 0")
    case False
    then have r: "idx - 1 = 8 * a + (k - 1)" "k - 1 < 8" "7 - (k - 1) = 8 - k" using i by simp_all
    have "png_bit row (idx - 1) \<longleftrightarrow> bit (row ! a) (8 - k)" unfolding png_bit_def r(1) div_mod_8 [OF r(2)] r(3) ..
    then show ?thesis using False by (simp add: bit_uint_iff)
  qed (simp add: bit_uint_iff)
  ultimately show ?thesis using i by (simp add: div_mod_8)
qed

theorem inlineget_pixel_one_bit_witness:
  "inlineget_pixel [128] 1 0 = Some 0 \<and> inlineget_pixel [128] 1 1 = Some 1 \<and> png_bit [128] 0"
proof -
  have "png_bit [128] 0" by code_simp
  then show ?thesis using inlineget_pixel_one_bit [of 0 "[128]"] inlineget_pixel_one_bit [of 1 "[128]"] by simp
qed

end
