(* ===== verification/Regis.thy ===== *)
theory Regis
  imports Nunifont
begin

section \<open>ReGIS graphics (regis.c)\<close>

text \<open>
  \<open>regis.c\<close> interprets the vector graphics commands of a device control string. Its functions take
  a \<open>char *\<close> into the string, cut the string up with \<open>strsep\<close> (which overwrites the separators by
  NULs) and return the pointer to go on from. The string is modelled as the memory it lies in: a byte
  list in which pointers are indices; reading past its end is undefined (\<^const>\<open>None\<close>). The time of
  day is a parameter.
\<close>

subsection \<open>C string functions\<close>

fun scan_to :: "byte \<Rightarrow> byte list \<Rightarrow> nat option" where
  "scan_to d [] = None"
| "scan_to d (c # cs) = (if c = d \<or> c = 0 then Some 0 else map_option Suc (scan_to d cs))"

text \<open>\<open>strsep(&p, d)\<close> for a single separator: the new \<open>p\<close>, a null pointer when there is none.\<close>

definition strsep :: "byte \<Rightarrow> nat \<Rightarrow> byte list \<Rightarrow> (nat option \<times> byte list) option" where
  "strsep d p mem = do {
     k \<leftarrow> scan_to d (drop p mem);
     Some (if mem ! (p + k) = 0 then (None, mem) else (Some (p + k + 1), mem[p + k := 0])) }"

definition is_space :: "byte \<Rightarrow> bool" where
  "is_space c \<longleftrightarrow> c = 32 \<or> 9 \<le> c \<and> c \<le> 13"

text \<open>\<open>atoi\<close>: undefined when the value is no \<open>int\<close> or the digits run off the memory.\<close>

definition atoi :: "byte list \<Rightarrow> int option" where
  "atoi cs =
     (let ws = dropWhile is_space cs;
          neg = (ws \<noteq> [] \<and> hd ws = 45);
          r = (if ws \<noteq> [] \<and> (hd ws = 45 \<or> hd ws = 43) then tl ws else ws);
          v = digits_value (takeWhile is_digit r);
          w = (if neg then - v else v)
      in if dropWhile is_digit r = [] then None
         else if - (2 ^ 31) \<le> w \<and> w < 2 ^ 31 then Some w else None)"

subsection \<open>State\<close>

record regis_state =
  pen_x :: int
  pen_y :: int
  regis_layer :: surface
  regis_is_clear :: bool
  regis_last_render :: "int \<times> int"
  regis_font :: font_state

definition regis_cleared :: "regis_state \<Rightarrow> bool" where
  "regis_cleared st = (if regis_is_clear st then True else False)"

definition regis_clear :: "regis_state \<Rightarrow> regis_state" where
  "regis_clear st = st\<lparr>regis_layer := (regis_layer st)\<lparr>surf_pixels := replicate (length (surf_pixels (regis_layer st))) 0\<rparr>,
     regis_is_clear := True\<rparr>"

definition regis_init :: "int \<Rightarrow> int \<Rightarrow> regis_state \<Rightarrow> regis_state" where
  "regis_init w h st = st\<lparr>regis_layer := create_rgb_surface32 w h\<rparr>"

definition regis_resize :: "int \<Rightarrow> int \<Rightarrow> regis_state \<Rightarrow> regis_state" where
  "regis_resize w h st = st\<lparr>regis_layer := create_rgb_surface32 w h\<rparr>"

subsection \<open>Commands\<close>

text \<open>Each command returns the pointer to go on from, the memory and the state.\<close>

type_synonym regis_result = "(nat \<times> byte list \<times> regis_state) option"

definition regis_process_cmd_screen :: "nat \<Rightarrow> byte list \<Rightarrow> regis_state \<Rightarrow> regis_result" where
  "regis_process_cmd_screen cmd mem st = do {
     (code, mem1) \<leftarrow> strsep 41 (cmd + 2) mem;
     Some (case code of None \<Rightarrow> cmd + 1 | Some p \<Rightarrow> p, mem1, st) }"

text \<open>
  The characters copied to \<open>wdata\<close>, sign extended. The array of 1000 is not initialised, so an
  empty text leaves its first element indeterminate, and the 0 behind the 1000th is outside.
\<close>

definition regis_wdata :: "byte list \<Rightarrow> u16 list option" where
  "regis_wdata s = (if s = [] \<or> length s \<ge> 1000 then None else Some (map scast s @ [0]))"

definition regis_process_cmd_text :: "byte list list \<Rightarrow> nat \<Rightarrow> byte list \<Rightarrow> regis_state \<Rightarrow> regis_result" where
  "regis_process_cmd_text hexfile cmd mem st = do {
     c \<leftarrow> arr_get mem (int (cmd + 1));
     if c = of_char (CHR 0x27) then do {
       (data, mem1) \<leftarrow> strsep (of_char (CHR 0x27)) (cmd + 2) mem;
       case data of
         None \<Rightarrow> Some (cmd + 1, mem1, st)
       | Some p \<Rightarrow> do {
           s \<leftarrow> cstr (drop (cmd + 2) mem1);
           wdata \<leftarrow> regis_wdata s;
           (font, layer) \<leftarrow> draw_unitext_surface hexfile (regis_font st) (regis_layer st) (pen_x st) (pen_y st) wdata
             0 0xFFFFFFFF 0 0 0 0;
           Some (p, mem1, st\<lparr>regis_layer := layer, regis_font := font\<rparr>) } }
     else if c = of_char (CHR ''('') then do {
       (data, mem1) \<leftarrow> strsep (of_char (CHR '')'')) (cmd + 2) mem;
       Some (case data of None \<Rightarrow> cmd + 1 | Some p \<Rightarrow> p, mem1, st) }
     else Some (cmd + 1, mem, st) }"

definition regis_process_cmd_w :: "nat \<Rightarrow> byte list \<Rightarrow> regis_state \<Rightarrow> regis_result" where
  "regis_process_cmd_w cmd mem st = do {
     (code, mem1) \<leftarrow> strsep 41 (cmd + 2) mem;
     Some (case code of None \<Rightarrow> cmd + 1 | Some p \<Rightarrow> p, mem1, st) }"

definition regis_process_cmd_position :: "nat \<Rightarrow> byte list \<Rightarrow> regis_state \<Rightarrow> regis_result" where
  "regis_process_cmd_position cmd mem st = do {
     (xstr, mem1) \<leftarrow> strsep (of_char (CHR '','')) (cmd + 2) mem;
     case xstr of
       None \<Rightarrow> Some (cmd + 1, mem1, st)
     | Some x \<Rightarrow> do {
         (ystr, mem2) \<leftarrow> strsep (of_char (CHR '']'')) (x + 1) mem1;
         case ystr of
           None \<Rightarrow> Some (cmd + 1, mem2, st)
         | Some y \<Rightarrow> do {
             new_x \<leftarrow> atoi (drop (cmd + 2) mem2);
             new_y \<leftarrow> atoi (drop x mem2);
             Some (y, mem2, st\<lparr>pen_x := new_x, pen_y := new_y\<rparr>) } } }"

definition regis_process_cmd_vector :: "nat \<Rightarrow> byte list \<Rightarrow> regis_state \<Rightarrow> regis_result" where
  "regis_process_cmd_vector cmd mem st = do {
     empty \<leftarrow> has_prefix (ascii ''v[]'') (drop cmd mem);
     if empty then Some (cmd + 3, mem, st)
     else do {
       (xstr, mem1) \<leftarrow> strsep (of_char (CHR '','')) (cmd + 2) mem;
       case xstr of
         None \<Rightarrow> Some (cmd + 2, mem1, st)
       | Some x \<Rightarrow> do {
           (ystr, mem2) \<leftarrow> strsep (of_char (CHR '']'')) x mem1;
           case ystr of
             None \<Rightarrow> Some (cmd + 2, mem2, st)
           | Some y \<Rightarrow> do {
               new_x \<leftarrow> atoi (drop (cmd + 2) mem2);
               new_y \<leftarrow> atoi (drop x mem2);
               layer \<leftarrow> nsdl_lineS (regis_layer st) (pen_x st) (pen_y st) new_x new_y 0xFFFFFFFF;
               Some (y, mem2, st\<lparr>regis_layer := layer, pen_x := new_x, pen_y := new_y\<rparr>) } } } }"

definition regis_process_command :: "byte list list \<Rightarrow> nat \<Rightarrow> byte list \<Rightarrow> regis_state \<Rightarrow> regis_result" where
  "regis_process_command hexfile cmd mem st0 =
     (let st = st0\<lparr>regis_is_clear := False\<rparr> in do {
        c \<leftarrow> arr_get mem (int cmd);
        if c = of_char (CHR ''S'') then regis_process_cmd_screen cmd mem st
        else if c = of_char (CHR ''T'') then regis_process_cmd_text hexfile cmd mem st
        else if c = of_char (CHR ''W'') then regis_process_cmd_w cmd mem st
        else if c = of_char (CHR ''P'') then regis_process_cmd_position cmd mem st
        else if c = of_char (CHR ''v'') then regis_process_cmd_vector cmd mem st
        else Some (cmd + 1, mem, st) })"

subsection \<open>Every command moves on\<close>

lemma scan_to_bound: "scan_to d cs = Some k \<Longrightarrow> k < length cs \<and> (cs ! k = d \<or> cs ! k = 0) \<and> (\<forall>i<k. cs ! i \<noteq> d \<and> cs ! i \<noteq> 0)"
proof (induction cs arbitrary: k)
  case (Cons c cs)
  then show ?case by (cases k) (auto split: if_splits simp: less_Suc_eq_0_disj)
qed simp

lemma strsep_bound:
  assumes "strsep d p mem = Some (q, mem1)"
  shows "length mem1 = length mem" "p < length mem" "q = Some r \<Longrightarrow> p < r \<and> r \<le> length mem"
proof -
  from assms obtain k where k: "scan_to d (drop p mem) = Some k"
    "(q, mem1) = (if mem ! (p + k) = 0 then (None, mem) else (Some (p + k + 1), mem[p + k := 0]))"
    unfolding strsep_def by (auto split: bind_splits)
  have "k < length mem - p" using scan_to_bound [OF k(1)] by simp
  then show "length mem1 = length mem" "p < length mem" "q = Some r \<Longrightarrow> p < r \<and> r \<le> length mem"
    using k(2) by (auto split: if_splits)
qed

lemma regis_screen_advances: "regis_process_cmd_screen cmd mem st = Some (p, mem1, st1) \<Longrightarrow> length mem1 = length mem \<and> cmd < p"
  unfolding regis_process_cmd_screen_def by (auto split: bind_splits option.splits dest: strsep_bound)

lemma regis_w_advances: "regis_process_cmd_w cmd mem st = Some (p, mem1, st1) \<Longrightarrow> length mem1 = length mem \<and> cmd < p"
  unfolding regis_process_cmd_w_def by (auto split: bind_splits option.splits dest: strsep_bound)

lemma regis_text_advances:
  assumes "regis_process_cmd_text hexfile cmd mem st = Some (p, mem1, st1)"
  shows "length mem1 = length mem \<and> cmd < p"
proof -
  obtain c where c: "arr_get mem (int (cmd + 1)) = Some c"
    using assms unfolding regis_process_cmd_text_def by (auto split: bind_splits)
  show ?thesis
  proof (cases "c = of_char (CHR 0x27)")
    case True
    then obtain data mem2 where d: "strsep (of_char (CHR 0x27)) (cmd + 2) mem = Some (data, mem2)"
      "mem1 = mem2" "data = None \<longrightarrow> p = cmd + 1" "data \<noteq> None \<longrightarrow> data = Some p"
      using assms c unfolding regis_process_cmd_text_def by (auto split: bind_splits option.splits)
    show ?thesis using strsep_bound(1,3) [OF d(1)] d(2-4) by (cases data) auto
  next
    case False
    then show ?thesis
      using assms c unfolding regis_process_cmd_text_def
      by (auto split: bind_splits option.splits if_splits dest: strsep_bound)
  qed
qed

lemma regis_position_advances:
  assumes "regis_process_cmd_position cmd mem st = Some (p, mem1, st1)"
  shows "length mem1 = length mem \<and> cmd < p"
proof -
  obtain q mem2 where q: "strsep (of_char (CHR '','')) (cmd + 2) mem = Some (q, mem2)"
    using assms unfolding regis_process_cmd_position_def by (auto split: bind_splits)
  show ?thesis
  proof (cases q)
    case None
    then show ?thesis using assms q strsep_bound(1) [OF q] unfolding regis_process_cmd_position_def by auto
  next
    case (Some x)
    then obtain r mem3 where r: "strsep (of_char (CHR '']'')) (x + 1) mem2 = Some (r, mem3)" "mem1 = mem3"
      "r = None \<longrightarrow> p = cmd + 1" "r \<noteq> None \<longrightarrow> r = Some p"
      using assms q unfolding regis_process_cmd_position_def by (auto split: bind_splits option.splits)
    from strsep_bound(1,3) [OF q] strsep_bound(1,3) [OF r(1)] Some r(2-4) show ?thesis by (cases r) auto
  qed
qed

lemma regis_vector_advances:
  assumes "regis_process_cmd_vector cmd mem st = Some (p, mem1, st1)"
  shows "length mem1 = length mem \<and> cmd < p"
proof -
  obtain e where e: "has_prefix (ascii ''v[]'') (drop cmd mem) = Some e"
    using assms unfolding regis_process_cmd_vector_def by (auto split: bind_splits)
  show ?thesis
  proof (cases e)
    case True
    then show ?thesis using assms e unfolding regis_process_cmd_vector_def by auto
  next
    case False
    obtain q mem2 where q: "strsep (of_char (CHR '','')) (cmd + 2) mem = Some (q, mem2)"
      using assms e False unfolding regis_process_cmd_vector_def by (auto split: bind_splits)
    show ?thesis
    proof (cases q)
      case None
      then show ?thesis using assms e False q strsep_bound(1) [OF q] unfolding regis_process_cmd_vector_def by auto
    next
      case (Some x)
      then obtain r mem3 where r: "strsep (of_char (CHR '']'')) x mem2 = Some (r, mem3)" "mem1 = mem3"
        "r = None \<longrightarrow> p = cmd + 2" "r \<noteq> None \<longrightarrow> r = Some p"
        using assms e False q unfolding regis_process_cmd_vector_def by (auto split: bind_splits option.splits)
      from strsep_bound(1,3) [OF q] strsep_bound(1,3) [OF r(1)] Some r(2-4) show ?thesis by (cases r) auto
    qed
  qed
qed

lemma regis_command_advances:
  assumes "regis_process_command hexfile cmd mem st = Some (p, mem1, st1)"
  shows "length mem1 = length mem \<and> cmd < p \<and> cmd < length mem"
proof -
  from assms have "cmd < length mem" by (auto simp: regis_process_command_def Let_def split: bind_splits dest: arr_get_SomeD)
  with assms show ?thesis
    unfolding regis_process_command_def Let_def
    by (auto split: bind_splits if_splits
        dest: regis_screen_advances regis_w_advances regis_text_advances regis_position_advances regis_vector_advances)
qed

text \<open>
  The loop of \<open>regis_processor\<close>; \<open>n\<close> counts its rounds, \<open>clock n\<close> is the time of day read in round
  \<open>n\<close> in seconds and microseconds. It stops when fewer than two of the \<open>cmdlen\<close> bytes are left or
  at a NUL.
\<close>

function regis_loop :: "byte list list \<Rightarrow> (nat \<Rightarrow> int \<times> int) \<Rightarrow> int \<Rightarrow> nat \<Rightarrow> nat \<Rightarrow> nat \<Rightarrow> byte list \<Rightarrow> regis_state
    \<Rightarrow> (byte list \<times> regis_state) option" where
  "regis_loop hexfile clock cmdlen start n command mem st =
     (case regis_process_command hexfile command mem st of
        None \<Rightarrow> None
      | Some (p, mem1, st1) \<Rightarrow>
          let st2 = st1\<lparr>regis_last_render := (fst (clock n), snd (clock n) * 1000)\<rparr> in
          if cmdlen - (int p - int start) < 2 then Some (mem1, st2)
          else do {
            c \<leftarrow> arr_get mem1 (int p);
            if c = 0 then Some (mem1, st2) else regis_loop hexfile clock cmdlen start (Suc n) p mem1 st2 })"
  by pat_completeness auto
termination
  by (relation "measure (\<lambda>(hexfile, clock, cmdlen, start, n, command, mem, st). length mem - command)")
    (auto dest!: regis_command_advances)

definition regis_processor :: "byte list list \<Rightarrow> (nat \<Rightarrow> int \<times> int) \<Rightarrow> nat \<Rightarrow> int \<Rightarrow> byte list \<Rightarrow> regis_state
    \<Rightarrow> (byte list \<times> regis_state) option" where
  "regis_processor hexfile clock cmd cmdlen mem st = regis_loop hexfile clock cmdlen cmd 0 cmd mem st"

definition regis_recent :: "int \<times> int \<Rightarrow> regis_state \<Rightarrow> bool" where
  "regis_recent now st =
     (let sec = fst now - fst (regis_last_render st);
          nsec = snd now * 1000 - snd (regis_last_render st);
          (sec1, nsec1) = (if nsec < 0 then (sec - 1, nsec + 1000000000) else (sec, nsec))
      in if sec1 > 0 then False else if nsec1 > 200000000 then False else True)"

declare regis_loop.simps [simp del]

subsection \<open>Decimal numbers\<close>

lemma digit_not_special:
  assumes "is_digit c"
  shows "\<not> is_space c" "c \<noteq> 45" "c \<noteq> 43" "c \<noteq> 0" "c \<noteq> 44" "c \<noteq> 93"
proof -
  have "\<forall>n\<in>set [48..<58]. (let c = of_nat n :: byte in \<not> is_space c \<and> c \<noteq> 45 \<and> c \<noteq> 43 \<and> c \<noteq> 0 \<and> c \<noteq> 44 \<and> c \<noteq> 93)"
    by code_simp
  moreover have "48 \<le> unat c" "unat c < 58" using assms by (simp_all add: is_digit_def word_le_nat_alt)
  then have "unat c \<in> set [48..<58]" by (simp only: set_upt atLeastLessThan_iff simp_thms)
  ultimately have "\<not> is_space c \<and> c \<noteq> 45 \<and> c \<noteq> 43 \<and> c \<noteq> 0 \<and> c \<noteq> 44 \<and> c \<noteq> 93"
    by (auto simp only: Let_def dest!: bspec [of _ _ "unat c"]) simp_all
  then show "\<not> is_space c" "c \<noteq> 45" "c \<noteq> 43" "c \<noteq> 0" "c \<noteq> 44" "c \<noteq> 93" by blast+
qed

lemma dec_chars: "dec v \<noteq> [] \<and> 0 \<notin> set (dec v) \<and> 44 \<notin> set (dec v) \<and> 93 \<notin> set (dec v)"
proof -
  have "\<not> is_digit 0" "\<not> is_digit 44" "\<not> is_digit 93" by code_simp+
  then show ?thesis using nat_dec_digits [of "nat v"] nat_dec_digits [of "nat (- v)"] by (auto simp: dec_def)
qed

lemma atoi_dec:
  assumes "int_range v" "\<not> is_digit c"
  shows "atoi (dec v @ c # rest) = Some v"
proof -
  have t: "takeWhile is_digit (nat_dec n @ c # rest) = nat_dec n" "dropWhile is_digit (nat_dec n @ c # rest) = c # rest" for n
    using nat_dec_digits [of n] assms(2) by (simp_all add: takeWhile_append dropWhile_append)
  show ?thesis
  proof (cases "v < 0")
    case True
    have "\<not> is_space 45" by code_simp
    then show ?thesis using True assms by (simp add: atoi_def dec_def t nat_dec_value int_range_def del: dropWhile_eq_Nil_conv)
  next
    case False
    obtain d ds where d: "nat_dec (nat v) = d # ds" "is_digit d" using nat_dec_digits [of "nat v"] by (cases "nat_dec (nat v)") auto
    have "dropWhile is_space (nat_dec (nat v) @ c # rest) = nat_dec (nat v) @ c # rest"
      "hd (nat_dec (nat v) @ c # rest) = d"
      using d digit_not_special(1) by simp_all
    with False assms digit_not_special(2,3) [OF d(2)] show ?thesis
      by (simp add: atoi_def dec_def t nat_dec_value int_range_def Let_def del: dropWhile_eq_Nil_conv hd_append hd_append2)
  qed
qed

subsection \<open>The line commands\<close>

lemma scan_to_run: "d \<notin> set s \<Longrightarrow> 0 \<notin> set s \<Longrightarrow> scan_to d (s @ d # rest) = Some (length s)"
  by (induction s) auto

lemma strsep_run:
  "d \<notin> set s \<Longrightarrow> 0 \<notin> set s \<Longrightarrow> d \<noteq> 0 \<Longrightarrow> length a = p \<Longrightarrow>
    strsep d p (a @ s @ d # rest) = Some (Some (p + length s + 1), a @ s @ 0 # rest)"
  by (auto simp: strsep_def scan_to_run nth_append list_update_append)

lemma drop_3 [simp]: "drop (3 + length s) (u # v # s @ w # r) = r"
  by (simp add: numeral_3_eq_3)

lemma position_run:
  assumes "int_range x" "int_range y"
  shows "regis_process_cmd_position (length a) (a @ 80 # 91 # dec x @ 44 # dec y @ 93 # rest) st
    = Some (length a + 4 + length (dec x) + length (dec y), a @ 80 # 91 # dec x @ 0 # dec y @ 0 # rest, st\<lparr>pen_x := x, pen_y := y\<rparr>)"
proof -
  obtain c cs where c: "dec y = c # cs" using dec_chars [of y] by (cases "dec y") auto
  have 1: "strsep 44 (length a + 2) (a @ 80 # 91 # dec x @ 44 # dec y @ 93 # rest)
    = Some (Some (length a + 3 + length (dec x)), a @ 80 # 91 # dec x @ 0 # dec y @ 93 # rest)"
    using strsep_run [of 44 "dec x" "a @ [80, 91]" "length a + 2" "dec y @ 93 # rest"] dec_chars [of x] by simp
  have 2: "strsep 93 (length a + 3 + length (dec x) + 1) (a @ 80 # 91 # dec x @ 0 # dec y @ 93 # rest)
    = Some (Some (length a + 4 + length (dec x) + length (dec y)), a @ 80 # 91 # dec x @ 0 # dec y @ 0 # rest)"
    using strsep_run [of 93 cs "a @ 80 # 91 # dec x @ [0, c]" "length a + 3 + length (dec x) + 1" rest] dec_chars [of y] c by simp
  have n: "\<not> is_digit 0" by code_simp
  show ?thesis
    unfolding regis_process_cmd_position_def
    using 1 2 atoi_dec [OF assms(1) n, of "dec y @ 0 # rest"] atoi_dec [OF assms(2) n, of rest] by simp
qed

lemma vector_run:
  assumes "int_range x" "int_range y" "nsdl_lineS (regis_layer st) (pen_x st) (pen_y st) x y 0xFFFFFFFF = Some layer"
  shows "regis_process_cmd_vector (length a) (a @ 118 # 91 # dec x @ 44 # dec y @ 93 # rest) st
    = Some (length a + 4 + length (dec x) + length (dec y), a @ 118 # 91 # dec x @ 0 # dec y @ 0 # rest,
        st\<lparr>regis_layer := layer, pen_x := x, pen_y := y\<rparr>)"
proof -
  have 1: "strsep 44 (length a + 2) (a @ 118 # 91 # dec x @ 44 # dec y @ 93 # rest)
    = Some (Some (length a + 3 + length (dec x)), a @ 118 # 91 # dec x @ 0 # dec y @ 93 # rest)"
    using strsep_run [of 44 "dec x" "a @ [118, 91]" "length a + 2" "dec y @ 93 # rest"] dec_chars [of x] by simp
  have 2: "strsep 93 (length a + 3 + length (dec x)) (a @ 118 # 91 # dec x @ 0 # dec y @ 93 # rest)
    = Some (Some (length a + 4 + length (dec x) + length (dec y)), a @ 118 # 91 # dec x @ 0 # dec y @ 0 # rest)"
    using strsep_run [of 93 "dec y" "a @ 118 # 91 # dec x @ [0]" "length a + 3 + length (dec x)" rest] dec_chars [of y] by simp
  obtain c cs where c: "dec x = c # cs" "c \<noteq> 93" using dec_chars [of x] by (cases "dec x") auto
  then have 3: "has_prefix (ascii ''v[]'') (drop (length a) (a @ 118 # 91 # dec x @ 44 # dec y @ 93 # rest)) = Some False"
    by (simp add: ascii_def)
  have n: "\<not> is_digit 0" by code_simp
  show ?thesis
    unfolding regis_process_cmd_vector_def 3
    using 1 2 atoi_dec [OF assms(1) n, of "dec y @ 0 # rest"] atoi_dec [OF assms(2) n, of rest] assms(3) by simp
qed

definition regis_line_text :: "int \<Rightarrow> int \<Rightarrow> int \<Rightarrow> int \<Rightarrow> byte list" where
  "regis_line_text x0 y0 x1 y1 = ascii ''P['' @ dec x0 @ ascii '','' @ dec y0 @ ascii '']v['' @ dec x1 @ ascii '','' @ dec y1 @ ascii '']''"

text \<open>Interpreting such a text in the middle of the memory, up to the check whether the loop goes on.\<close>

lemma regis_line_run:
  assumes "surface_ok (regis_layer st)" "\<forall>v\<in>{x0, y0, x1, y1}. \<bar>v\<bar> < 2 ^ 28"
    "int (length (regis_line_text x0 y0 x1 y1)) \<le> cmdlen"
  obtains text' st' ps where
    "regis_loop hexfile clock cmdlen (length a) 0 (length a) (a @ regis_line_text x0 y0 x1 y1 @ rest) st
      = (if cmdlen - int (length (regis_line_text x0 y0 x1 y1)) < 2 then Some (a @ text' @ rest, st')
         else do { c \<leftarrow> arr_get rest 0;
                   if c = 0 then Some (a @ text' @ rest, st')
                   else regis_loop hexfile clock cmdlen (length a) 2 (length (a @ text')) (a @ text' @ rest) st' })"
    "length text' = length (regis_line_text x0 y0 x1 y1)"
    "pen_x st' = x1" "pen_y st' = y1" "surface_ok (regis_layer st')" "\<not> regis_cleared st'"
    "good_line 1000 x0 y0 x1 y1 ps"
    "\<forall>i j. nsdl_getpointS (regis_layer st') i j =
          (if (i, j) \<in> set ps \<and> in_surface (regis_layer st) i j then Some 0xFFFFFFFF
           else nsdl_getpointS (regis_layer st) i j)"
proof -
  have r: "int_range x0" "int_range y0" "int_range x1" "int_range y1" using assms(2) by (auto simp: int_range_def)
  let ?v = "118 # 91 # dec x1 @ 44 # dec y1 @ 93 # rest"
  let ?m0 = "a @ 80 # 91 # dec x0 @ 44 # dec y0 @ 93 # ?v"
  let ?t0 = "80 # 91 # dec x0 @ 0 # dec y0 @ [0]" and ?t1 = "118 # 91 # dec x1 @ 0 # dec y1 @ [0]"
  let ?n = "4 + length (dec x0) + length (dec y0)" and ?k = "4 + length (dec x1) + length (dec y1)"
  have t: "a @ regis_line_text x0 y0 x1 y1 @ rest = ?m0" "length (regis_line_text x0 y0 x1 y1) = ?n + ?k"
    by (simp_all add: regis_line_text_def ascii_def)
  define st0 st1 where "st0 = st\<lparr>regis_is_clear := False\<rparr>" and
    "st1 = st0\<lparr>pen_x := x0, pen_y := y0, regis_last_render := (fst (clock 0), snd (clock 0) * 1000)\<rparr>"
  have p: "regis_process_command hexfile (length a) ?m0 st = Some (length a + ?n, (a @ ?t0) @ ?v, st0\<lparr>pen_x := x0, pen_y := y0\<rparr>)"
    using position_run [OF r(1,2), of a ?v st0] by (simp add: regis_process_command_def Let_def st0_def add.assoc)
  from nsdl_lineS_run [OF assms(1)] obtain layer ps where layer:
    "nsdl_lineS (regis_layer st) x0 y0 x1 y1 0xFFFFFFFF = Some layer" "surface_ok layer" "good_line 1000 x0 y0 x1 y1 ps"
    "\<And>i j. nsdl_getpointS layer i j =
          (if (i, j) \<in> set ps \<and> in_surface (regis_layer st) i j then Some 0xFFFFFFFF else nsdl_getpointS (regis_layer st) i j)" by blast
  define st2 where "st2 = st1\<lparr>regis_layer := layer, pen_x := x1, pen_y := y1\<rparr>"
  define st3 where "st3 = st2\<lparr>regis_last_render := (fst (clock 1), snd (clock 1) * 1000)\<rparr>"
  have la: "length (a @ ?t0) = length a + ?n" by simp
  have c: "arr_get ((a @ ?t0) @ ?v) (int (length a + ?n)) = Some 118"
    using arr_get_nat [of "length a + ?n" "(a @ ?t0) @ ?v"] la by (simp only: nth_append length_append) simp
  have e: "st1\<lparr>regis_is_clear := False\<rparr> = st1" by (simp add: st1_def st0_def)
  have "nsdl_lineS (regis_layer st1) (pen_x st1) (pen_y st1) x1 y1 0xFFFFFFFF = Some layer"
    using layer(1) by (simp add: st1_def st0_def)
  from vector_run [OF r(3,4) this, of "a @ ?t0" rest]
  have v: "regis_process_command hexfile (length a + ?n) ((a @ ?t0) @ ?v) st1
      = Some (length a + ?n + ?k, (a @ ?t0) @ ?t1 @ rest, st2)"
    unfolding regis_process_command_def Let_def e c la by (simp add: st2_def add.assoc)
  have 1: "regis_loop hexfile clock cmdlen (length a) 0 (length a) ?m0 st
      = regis_loop hexfile clock cmdlen (length a) 1 (length a + ?n) ((a @ ?t0) @ ?v) st1"
    unfolding regis_loop.simps [of _ _ _ _ 0] p using c assms(3) [unfolded t]
    by (simp add: Let_def st1_def del: append.simps append_assoc append_Cons)
  have l2: "length ((a @ ?t0) @ ?t1) = length a + ?n + ?k" by simp
  have g: "arr_get ((a @ ?t0) @ ?t1 @ rest) (int (length a + ?n + ?k)) = arr_get rest 0"
    using arr_get_behind [of "(a @ ?t0) @ ?t1" rest] unfolding l2 unfolding append_assoc .
  have d: "cmdlen - (int (length a + ?n + ?k) - int (length a)) = cmdlen - int (?n + ?k)" by simp
  have 2: "regis_loop hexfile clock cmdlen (length a) 1 (length a + ?n) ((a @ ?t0) @ ?v) st1
      = (if cmdlen - int (?n + ?k) < 2 then Some ((a @ ?t0) @ ?t1 @ rest, st3)
         else do { c \<leftarrow> arr_get rest 0;
                   if c = 0 then Some ((a @ ?t0) @ ?t1 @ rest, st3)
                   else regis_loop hexfile clock cmdlen (length a) 2 (length a + ?n + ?k) ((a @ ?t0) @ ?t1 @ rest) st3 })"
    unfolding regis_loop.simps [of _ _ _ _ 1] v by (simp only: option.case prod.case Let_def g d st3_def Suc_1)
  have l3: "length (a @ ?t0 @ ?t1) = length a + ?n + ?k" by simp
  show ?thesis
  proof (rule that [of "?t0 @ ?t1" st3 ps])
    show "regis_loop hexfile clock cmdlen (length a) 0 (length a) (a @ regis_line_text x0 y0 x1 y1 @ rest) st
      = (if cmdlen - int (length (regis_line_text x0 y0 x1 y1)) < 2 then Some (a @ (?t0 @ ?t1) @ rest, st3)
         else do { c \<leftarrow> arr_get rest 0;
                   if c = 0 then Some (a @ (?t0 @ ?t1) @ rest, st3)
                   else regis_loop hexfile clock cmdlen (length a) 2 (length (a @ (?t0 @ ?t1))) (a @ (?t0 @ ?t1) @ rest) st3 })"
      unfolding t 1 l3 append_assoc by (rule 2 [unfolded append_assoc])
  qed (use layer(2-4) in \<open>simp_all add: t st3_def st2_def st1_def st0_def regis_cleared_def\<close>)
qed


definition regis_static :: "int \<Rightarrow> int \<Rightarrow> regis_state" where
  "regis_static w h = \<lparr>pen_x = 0, pen_y = 0, regis_layer = create_rgb_surface32 w h, regis_is_clear = True,
     regis_last_render = (0, 0), regis_font = font_static\<rparr>"


text \<open>
  every command, whatever the text, either is undefined or hands back a later pointer and memory
  of the same size, so the interpreter's loop ends after at most as many rounds as there are bytes.
\<close>

theorem regis_command_progress:
  assumes "regis_process_command hexfile cmd mem st = Some (p, mem1, st1)"
  shows "length mem1 = length mem \<and> cmd < p \<and> cmd < length mem"
  by (rule regis_command_advances [OF assms])

theorem regis_command_progress_witness:
  "\<exists>st1. regis_process_command [] 0 [120, 0] (regis_static 1 1) = Some (1, [120, 0], st1) \<and> (0 :: nat) < 1"
proof -
  have e: "regis_process_command [] 0 [120, 0] (regis_static 1 1) = Some (1, [120, 0], (regis_static 1 1)\<lparr>regis_is_clear := False\<rparr>)"
    by (simp add: regis_process_command_def Let_def)
  from regis_command_progress [OF e] show ?thesis using e by blast
qed

text \<open>
  \<open>regis_recent\<close> says whether the last command was interpreted at most 200 milliseconds ago, also
  when the seconds differ; a time before the last command counts by its distance modulo one second.
\<close>

theorem regis_recent_iff:
  assumes "0 \<le> snd now" "snd now < 1000000" "0 \<le> snd (regis_last_render st)" "snd (regis_last_render st) < 1000000000"
  defines "elapsed \<equiv> (fst now - fst (regis_last_render st)) * 1000000000 + (snd now * 1000 - snd (regis_last_render st))"
  shows "regis_recent now st \<longleftrightarrow> elapsed < 1000000000 \<and> elapsed mod 1000000000 \<le> 200000000"
proof -
  define s n where "s = fst now - fst (regis_last_render st)" and "n = snd now * 1000 - snd (regis_last_render st)"
  define s1 n1 where "s1 = (if n < 0 then s - 1 else s)" and "n1 = (if n < 0 then n + 1000000000 else n)"
  have n1: "0 \<le> n1" "n1 < 1000000000" using assms(1-4) by (auto simp: n1_def n_def)
  have e: "elapsed = n1 + s1 * 1000000000" by (simp add: elapsed_def s1_def n1_def s_def n_def)
  have "regis_recent now st \<longleftrightarrow> \<not> s1 > 0 \<and> \<not> n1 > 200000000"
    unfolding regis_recent_def Let_def s_def [symmetric] n_def [symmetric] s1_def n1_def by auto
  moreover have "elapsed mod 1000000000 = n1" using n1 by (simp add: e)
  moreover have "s1 > 0 \<longleftrightarrow> \<not> elapsed < 1000000000" using n1 unfolding e by auto
  ultimately show ?thesis by auto
qed

theorem regis_recent_iff_witness:
  "regis_recent (7, 100000) (regis_static 1 1\<lparr>regis_last_render := (6, 950000000)\<rparr>)"
  by (subst regis_recent_iff) simp_all

text \<open>
  a position command whose text ends right behind the comma is read past its terminating NUL:
  the search for the bracket starts one character too late.
\<close>

theorem regis_position_overread:
  assumes "int_range x"
  shows "regis_process_command hexfile (length a) (a @ ascii ''P['' @ dec x @ ascii '','' @ [0]) st = None"
proof -
  have 1: "strsep 44 (length a + 2) (a @ 80 # 91 # dec x @ [44, 0])
    = Some (Some (length a + 3 + length (dec x)), a @ 80 # 91 # dec x @ [0, 0])"
    using strsep_run [of 44 "dec x" "a @ [80, 91]" "length a + 2" "[0]"] dec_chars [of x] by simp
  have 2: "strsep 93 (length a + 3 + length (dec x) + 1) (a @ 80 # 91 # dec x @ [0, 0]) = None"
    by (simp add: strsep_def)
  show ?thesis using 1 2
    by (simp add: regis_process_command_def regis_process_cmd_position_def ascii_def Let_def)
qed

theorem regis_position_overread_witness:
  "regis_process_command [] 0 (ascii ''P['' @ dec 12 @ ascii '','' @ [0]) (regis_static 1 1) = None"
  using regis_position_overread [of 12 "[]" "[]" "regis_static 1 1"] by (simp add: int_range_def)

text \<open>
  the quoted text command has defined behaviour only for texts of 1 to 999 characters: the
  array it copies the text to is left indeterminate by an empty text and overrun by a longer one.
\<close>

theorem regis_text_undefined:
  assumes "39 \<notin> set s" "0 \<notin> set s" "s = [] \<or> 1000 \<le> length s"
  shows "regis_process_command hexfile (length a) (a @ ascii ''T'' @ 39 # s @ 39 # rest) st = None"
proof -
  have 1: "strsep 39 (length a + 2) (a @ 84 # 39 # s @ 39 # rest)
    = Some (Some (length a + 3 + length s), a @ 84 # 39 # s @ 0 # rest)"
    using strsep_run [of 39 s "a @ [84, 39]" "length a + 2" rest] assms(1,2) by simp
  have 2: "arr_get (a @ 84 # 39 # s @ 39 # rest) (int (length a + 1)) = Some 39"
    using arr_get_append [of "a @ [84]" 39 "s @ 39 # rest"] by simp
  have 3: "cstr (drop (length a + 2) (a @ 84 # 39 # s @ 0 # rest)) = Some s" using cstr_append_nul [OF assms(2), of rest] by simp
  have "regis_wdata s = None" using assms(3) by (auto simp: regis_wdata_def)
  with 1 2 3 show ?thesis
    by (simp add: regis_process_command_def regis_process_cmd_text_def ascii_def Let_def)
qed

theorem regis_text_undefined_witness:
  "regis_process_command [] 0 (ascii ''T'' @ 39 # [] @ 39 # [0]) (regis_static 1 1) = None"
  using regis_text_undefined [of "[]" "[]" "[]" "[0]" "regis_static 1 1"] by simp

end
