(* ===== verification/Scrollback.thy ===== *)
theory Scrollback
  imports Nunifont Cells
begin

section \<open>Screen rows and the scrollback (main.c)\<close>

text \<open>
  The rows the program draws come from the emulator's screen or from the scrollback, a ring of
  copies of the rows that scrolled off. The emulator is a parameter here: \<open>get_cell row col\<close> is the cell
  \<open>vterm_screen_get_cell\<close> delivers.
\<close>

subsection \<open>Cells\<close>

definition cellcompare :: "vcell \<Rightarrow> vcell \<Rightarrow> bool" where
  "cellcompare a b =
     (if cell_chars a ! 0 \<noteq> cell_chars b ! 0 then False
      else if cell_chars a ! 1 \<noteq> cell_chars b ! 1 then False
      else if va_bold (cell_attrs a) \<noteq> va_bold (cell_attrs b) then False
      else if va_underline (cell_attrs a) \<noteq> va_underline (cell_attrs b) then False
      else if va_italic (cell_attrs a) \<noteq> va_italic (cell_attrs b) then False
      else if va_blink (cell_attrs a) \<noteq> va_blink (cell_attrs b) then False
      else if va_reverse (cell_attrs a) \<noteq> va_reverse (cell_attrs b) then False
      else if va_strike (cell_attrs a) \<noteq> va_strike (cell_attrs b) then False
      else if va_font (cell_attrs a) \<noteq> va_font (cell_attrs b) then False
      else True)"

subsection \<open>The scrollback ring\<close>

definition scroll_buffer_initial_size :: nat where "scroll_buffer_initial_size = 10000"

text \<open>\<open>scroll_buffer\<close> is empty while the C pointer is null; an empty slot is \<^const>\<open>None\<close>.\<close>

record scroll_state =
  scroll_buffer :: "vcell list option list"
  scroll_buffer_lens :: "int list"
  scroll_buffer_size :: int
  scroll_buffer_start :: int
  scroll_buffer_end :: int

definition scroll_static :: scroll_state where
  "scroll_static = \<lparr>scroll_buffer = [], scroll_buffer_lens = [], scroll_buffer_size = 0, scroll_buffer_start = 0, scroll_buffer_end = 0\<rparr>"

definition scroll_buffer_init :: "scroll_state \<Rightarrow> scroll_state" where
  "scroll_buffer_init st =
     st\<lparr>scroll_buffer := replicate scroll_buffer_initial_size None,
        scroll_buffer_lens := replicate scroll_buffer_initial_size 0,
        scroll_buffer_size := int scroll_buffer_initial_size, scroll_buffer_start := 0, scroll_buffer_end := 0\<rparr>"

definition scroll_buffer_push :: "vcell list \<Rightarrow> scroll_state \<Rightarrow> scroll_state option" where
  "scroll_buffer_push scroll_line st0 =
     (let st = (if scroll_buffer st0 = [] then scroll_buffer_init st0 else st0);
          e = (if scroll_buffer_end st \<ge> scroll_buffer_size st then 0 else scroll_buffer_end st)
      in do {
        old \<leftarrow> arr_get (scroll_buffer st) e;
        b \<leftarrow> arr_set (scroll_buffer st) e (Some scroll_line);
        l \<leftarrow> arr_set (scroll_buffer_lens st) e (int (length scroll_line));
        Some (st\<lparr>scroll_buffer := b, scroll_buffer_lens := l, scroll_buffer_end := e + 1\<rparr>) })"

definition scroll_buffer_get :: "int \<Rightarrow> scroll_state \<Rightarrow> (vcell list option \<times> int) option" where
  "scroll_buffer_get line_number st =
     (let idx0 = scroll_buffer_end st - line_number - 1;
          idx = (if idx0 < 0 then scroll_buffer_size st + idx0 else idx0)
      in do {
        line \<leftarrow> arr_get (scroll_buffer st) idx;
        len \<leftarrow> arr_get (scroll_buffer_lens st) idx;
        Some (line, len) })"

text \<open>
  A row of the screen or, for a negative number, of the scrollback: the row (\<^const>\<open>None\<close> a null
  pointer), \<open>dont_free\<close> and its length, the last two as they were when the function leaves them alone.
\<close>

definition grab_row :: "(int \<Rightarrow> int \<Rightarrow> vcell) \<Rightarrow> int \<Rightarrow> scroll_state \<Rightarrow> int \<Rightarrow> bool \<Rightarrow> int
    \<Rightarrow> (vcell list option \<times> bool \<times> int) option" where
  "grab_row get_cell cols st trow dont_free len =
     (if trow \<ge> 0 then Some (Some (map (get_cell trow) [0..cols - 1]), False, cols)
      else if 0 - trow > scroll_buffer_size st then Some (None, dont_free, len)
      else do {
        (line, l) \<leftarrow> scroll_buffer_get (0 - trow) st;
        Some (line, True, l) })"

text \<open>
  The emulator's callback before rows scroll off; the local array holds 1000 cells. The flag says
  that a redraw is asked for.
\<close>

definition screen_prescroll :: "(int \<Rightarrow> int \<Rightarrow> vcell) \<Rightarrow> int \<Rightarrow> vrect \<Rightarrow> scroll_state \<Rightarrow> (scroll_state \<times> bool \<times> int) option" where
  "screen_prescroll get_cell cols rect st =
     (if start_row rect \<noteq> 0 \<or> start_col rect \<noteq> 0 \<or> end_col rect \<noteq> cols then Some (st, False, 0)
      else do {
        st1 \<leftarrow> ofold (\<lambda>row st. do {
            guard (cols \<le> 1000);
            scroll_buffer_push (map (get_cell row) [0..cols - 1]) st }) [start_row rect..end_row rect - 1] st;
        Some (st1, True, 1) })"

subsection \<open>Drawing a row\<close>

definition color_word :: "vcolor \<Rightarrow> u32" where
  "color_word c = push_bit 24 (ucast (vc_red c)) + push_bit 16 (ucast (vc_green c)) + push_bit 8 (ucast (vc_blue c)) + 0xff"

record row_draw =
  rd_font :: font_state
  rd_blinking :: bool
  rd_out :: "render_cmd list"

text \<open>The loop of \<open>draw_row\<close> from cell \<open>n\<close> on; the first argument is at least the rounds left.\<close>

fun draw_cells :: "nat \<Rightarrow> byte list list \<Rightarrow> vcell list \<Rightarrow> int \<Rightarrow> int \<Rightarrow> int \<Rightarrow> int \<Rightarrow> int \<Rightarrow> row_draw \<Rightarrow> row_draw option" where
  "draw_cells 0 hexfile row ypos glen cols n xpos d = Some d"
| "draw_cells (Suc k) hexfile row ypos glen cols n xpos d =
     (if \<not> n < cols then Some d
      else if n \<ge> glen then Some d
      else do {
        c \<leftarrow> arr_get row n;
        let ch = (ucast (cell_chars c ! 0) :: u16);
        let rtext = [if ch = 0 then of_char (CHR '' '') else ch, 0];
        let blinking = (if va_blink (cell_attrs c) = 1 then True else rd_blinking d);
        (font, cmds) \<leftarrow> draw_unitext_fancy_renderer hexfile (rd_font d) xpos ypos rtext (color_word (cell_bg c)) (color_word (cell_fg c))
          (va_bold (cell_attrs c)) (va_underline (cell_attrs c)) (va_italic (cell_attrs c)) (va_blink (cell_attrs c))
          (va_reverse (cell_attrs c)) (va_strike (cell_attrs c));
        let d1 = \<lparr>rd_font = font, rd_blinking = blinking, rd_out = rd_out d @ cmds\<rparr>;
        let step = nunifont_width font + nunifont_space font;
        if cell_width c = 2 then draw_cells k hexfile row ypos glen cols (n + 2) (xpos + step + step) d1
        else draw_cells k hexfile row ypos glen cols (n + 1) (xpos + step) d1 })"

definition draw_row :: "byte list list \<Rightarrow> vcell list \<Rightarrow> int \<Rightarrow> int \<Rightarrow> int \<Rightarrow> row_draw \<Rightarrow> row_draw option" where
  "draw_row hexfile row ypos glen cols d = draw_cells (nat cols) hexfile row ypos glen cols 0 0 d"

subsection \<open>The ring keeps the last rows\<close>

definition row_len :: "vcell list option \<Rightarrow> int" where
  "row_len r = (case r of None \<Rightarrow> 0 | Some l \<Rightarrow> int (length l))"

text \<open>The slots before the end hold the newest rows; those behind are all empty or all filled.\<close>

definition ring_shape :: "scroll_state \<Rightarrow> vcell list list \<Rightarrow> vcell list option list \<Rightarrow> bool" where
  "ring_shape st new old \<longleftrightarrow> scroll_buffer st = map Some new @ old \<and> scroll_buffer_end st = int (length new)
     \<and> scroll_buffer_size st = int scroll_buffer_initial_size \<and> length new + length old = scroll_buffer_initial_size
     \<and> (old = replicate (length old) None \<or> new \<noteq> [] \<and> (\<exists>rows. old = map Some rows))
     \<and> scroll_buffer_lens st = map row_len (scroll_buffer st)"

definition scroll_ok :: "scroll_state \<Rightarrow> bool" where
  "scroll_ok st \<longleftrightarrow> scroll_buffer st = [] \<and> scroll_buffer_end st = 0 \<and> scroll_buffer_size st = 0
     \<or> (\<exists>new old. ring_shape st new old)"

definition scroll_rows :: "scroll_state \<Rightarrow> vcell list list" where
  "scroll_rows st = List.map_filter id (drop (nat (scroll_buffer_end st)) (scroll_buffer st))
     @ List.map_filter id (take (nat (scroll_buffer_end st)) (scroll_buffer st))"

lemma map_filter_Some [simp]: "List.map_filter id (map Some xs) = xs" "List.map_filter id (replicate n None) = []"
  by (induction xs, simp_all add: List.map_filter_simps) (induction n, simp_all add: List.map_filter_simps)

lemma ring_shape_rows: "ring_shape st new old \<Longrightarrow> scroll_rows st = List.map_filter id old @ new"
  by (simp add: ring_shape_def scroll_rows_def)

lemma ring_shape_init: "ring_shape (scroll_buffer_init st) [] (replicate scroll_buffer_initial_size None)"
  by (simp add: ring_shape_def scroll_buffer_init_def row_len_def map_replicate_const)

lemma scroll_size_pos: "0 < scroll_buffer_initial_size"
  by (simp add: scroll_buffer_initial_size_def)

lemma ring_put:
  assumes s: "scroll_buffer st = map Some a @ x # b" "scroll_buffer_lens st = map row_len (scroll_buffer st)"
    and e: "(if scroll_buffer_end st \<ge> scroll_buffer_size st then 0 else scroll_buffer_end st) = int (length a)"
  shows "scroll_buffer_push row st = Some (st\<lparr>scroll_buffer := map Some a @ Some row # b,
    scroll_buffer_lens := map row_len (map Some a @ Some row # b), scroll_buffer_end := int (length a) + 1\<rparr>)"
proof -
  have n: "scroll_buffer st \<noteq> []" using s(1) by simp
  have 1: "arr_get (map Some a @ x # b) (int (length a)) = Some x"
    using arr_get_append [of "map Some a" x b] by simp
  have 2: "arr_set (map Some a @ x # b) (int (length a)) (Some row) = Some (map Some a @ Some row # b)"
    by (simp add: arr_set_def list_update_append)
  have 3: "arr_set (map row_len (map Some a @ x # b)) (int (length a)) (int (length row)) = Some (map row_len (map Some a @ Some row # b))"
    by (simp add: arr_set_def list_update_append row_len_def)
  show ?thesis unfolding scroll_buffer_push_def Let_def if_not_P [OF n] e s(2) unfolding s(1) 1 2 3 bind.bind_lunit ..
qed

lemma ring_push:
  assumes r: "ring_shape st new old"
  shows "\<exists>st' new' old'. scroll_buffer_push row st = Some st' \<and> ring_shape st' new' old'
    \<and> scroll_rows st' = last_n scroll_buffer_initial_size (scroll_rows st @ [row])"
proof (cases old)
  case Nil
  then have n: "length new = scroll_buffer_initial_size" using r by (simp add: ring_shape_def)
  then obtain n0 ns where ns: "new = n0 # ns" using scroll_size_pos by (cases new) auto
  let ?st = "st\<lparr>scroll_buffer := Some row # map Some ns, scroll_buffer_lens := map row_len (Some row # map Some ns), scroll_buffer_end := 1\<rparr>"
  have p: "scroll_buffer_push row st = Some ?st"
    using ring_put [of st "[]" "Some n0" "map Some ns" row] r n by (simp add: ring_shape_def ns Nil)
  have s: "ring_shape ?st [row] (map Some ns)" using r n by (simp add: ring_shape_def ns Nil)
  have "scroll_rows st = new" using ring_shape_rows [OF r] Nil by (simp add: List.map_filter_simps)
  then have "last_n scroll_buffer_initial_size (scroll_rows st @ [row]) = ns @ [row]"
    using n by (simp add: last_n_def ns)
  with p s ring_shape_rows [OF s] show ?thesis by (intro exI [of _ ?st] exI) auto
next
  case (Cons x os)
  let ?st = "st\<lparr>scroll_buffer := map Some new @ Some row # os, scroll_buffer_lens := map row_len (map Some new @ Some row # os),
    scroll_buffer_end := int (length new) + 1\<rparr>"
  have p: "scroll_buffer_push row st = Some ?st"
    using ring_put [of st new x os row] r by (simp add: ring_shape_def Cons)
  have s: "ring_shape ?st (new @ [row]) os" using r by (auto simp: ring_shape_def Cons map_eq_Cons_conv Cons_eq_map_conv)
  from r consider "old = replicate (length old) None" | rows where "old = map Some rows" by (auto simp: ring_shape_def)
  then have "scroll_rows ?st = last_n scroll_buffer_initial_size (scroll_rows st @ [row])"
  proof cases
    case 1
    then have "List.map_filter id old = ([] :: vcell list list)" "os = replicate (length os) None"
      using Cons by (metis map_filter_Some(2)) (use 1 Cons in simp)
    then have "scroll_rows st = new" "scroll_rows ?st = new @ [row]"
      using ring_shape_rows [OF r] ring_shape_rows [OF s] by (simp, metis map_filter_Some(2) append_Nil)
    then show ?thesis using r by (simp add: ring_shape_def Cons)
  next
    case 2
    then obtain r0 rs where rs: "rows = r0 # rs" "os = map Some rs" using Cons by (cases rows) auto
    have "scroll_rows st = r0 # rs @ new" "scroll_rows ?st = rs @ new @ [row]"
      using ring_shape_rows [OF r] ring_shape_rows [OF s] 2 rs by (simp_all add: List.map_filter_simps)
    moreover have "length (r0 # rs @ new) = scroll_buffer_initial_size" using r 2 rs by (simp add: ring_shape_def)
    ultimately show ?thesis by (simp add: last_n_def)
  qed
  with p s show ?thesis by blast
qed

lemma scroll_push_spec:
  assumes ok: "scroll_ok st"
  shows "\<exists>st'. scroll_buffer_push row st = Some st' \<and> scroll_ok st'
    \<and> scroll_rows st' = last_n scroll_buffer_initial_size (scroll_rows st @ [row])"
proof (cases "scroll_buffer st = []")
  case True
  then have e: "scroll_rows st = []" by (simp add: scroll_rows_def List.map_filter_simps)
  have "scroll_buffer (scroll_buffer_init st) \<noteq> []" using scroll_size_pos by (simp add: scroll_buffer_init_def)
  then have "scroll_buffer_push row st = scroll_buffer_push row (scroll_buffer_init st)"
    using True by (simp add: scroll_buffer_push_def)
  moreover have "scroll_rows (scroll_buffer_init st) = []" using ring_shape_rows [OF ring_shape_init] by simp
  ultimately show ?thesis using ring_push [OF ring_shape_init, of row st] e by (auto simp: scroll_ok_def)
next
  case False
  with ok obtain new old where "ring_shape st new old" by (auto simp: scroll_ok_def)
  from ring_push [OF this, of row] show ?thesis by (auto simp: scroll_ok_def)
qed

lemma scroll_rows_bound: "scroll_ok st \<Longrightarrow> length (scroll_rows st) \<le> scroll_buffer_initial_size"
proof -
  have m: "length (List.map_filter id xs) \<le> length xs" for xs :: "vcell list option list"
    by (induction xs) (auto simp: List.map_filter_simps split: option.splits)
  assume "scroll_ok st"
  then consider "scroll_buffer st = []" | new old where "ring_shape st new old" by (auto simp: scroll_ok_def)
  then show ?thesis
  proof cases
    case 1
    then show ?thesis by (simp add: scroll_rows_def List.map_filter_simps)
  next
    case 2
    then have "length new + length old = scroll_buffer_initial_size" by (simp add: ring_shape_def)
    then show ?thesis using ring_shape_rows [OF 2] m [of old] by simp
  qed
qed

interpretation scroll: bounded_log scroll_ok scroll_rows "\<lambda>_. ()" scroll_buffer_push scroll_buffer_initial_size
  by unfold_locales (use scroll_push_spec scroll_rows_bound in auto)

text \<open>What the ring's reader delivers for each distance from the newest row.\<close>

lemma scroll_get_run:
  assumes "ring_shape st new old" "k < length (scroll_rows st)"
  shows "scroll_buffer_get (int k) st = Some (Some (scroll_rows st ! (length (scroll_rows st) - Suc k)),
    int (length (scroll_rows st ! (length (scroll_rows st) - Suc k))))"
proof -
  let ?b = "scroll_buffer st" and ?B = scroll_buffer_initial_size
  have b: "?b = map Some new @ old" "length ?b = ?B" "scroll_buffer_lens st = map row_len ?b"
    "scroll_buffer_end st = int (length new)" "scroll_buffer_size st = int ?B"
    using assms(1) by (simp_all add: ring_shape_def)
  have get: "scroll_buffer_get (int k) st = Some (Some r, int (length r))"
    if "?b ! i = Some r" "i < ?B" "int i = (if int (length new) - int k - 1 < 0 then int ?B + (int (length new) - int k - 1) else int (length new) - int k - 1)"
    for r i
    unfolding scroll_buffer_get_def Let_def b(4,5) that(3) [symmetric] using that(1,2) b(2,3) by (simp add: row_len_def)
  note r = ring_shape_rows [OF assms(1)]
  show ?thesis
  proof (cases "k < length new")
    case True
    let ?i = "length new - Suc k"
    have "?i < length new" using True by simp
    then have "?b ! ?i = Some (new ! ?i)" unfolding b(1) by (simp only: nth_append length_map nth_map if_True)
    moreover have "?i < ?B" using True b(1,2) by simp
    moreover have "int ?i = (if int (length new) - int k - 1 < 0 then int ?B + (int (length new) - int k - 1) else int (length new) - int k - 1)"
      using True by (simp add: of_nat_diff)
    moreover have "scroll_rows st ! (length (scroll_rows st) - Suc k) = new ! ?i"
    proof -
      have e: "length (scroll_rows st) - Suc k = length (List.map_filter id old) + ?i" using True unfolding r by simp
      show ?thesis unfolding e unfolding r by (rule nth_append_length_plus)
    qed
    ultimately show ?thesis using get by simp
  next
    case False
    then have "List.map_filter id old \<noteq> ([] :: vcell list list)" using assms(2) unfolding r by auto
    moreover have "old = replicate (length old) None \<or> (\<exists>rows. old = map Some rows)" using assms(1) unfolding ring_shape_def by blast
    ultimately obtain rows where o: "old = map Some rows" by (metis map_filter_Some(2))
    have l: "length new + length rows = ?B" using assms(1) o by (simp add: ring_shape_def)
    have k: "k < ?B" using assms(2) l unfolding r o by simp
    let ?i = "?B + length new - Suc k"
    have i: "?i = length new + (length rows - (Suc k - length new))" "length rows - (Suc k - length new) < length rows" "?i < ?B"
      using False l k by auto
    then have "?b ! ?i = Some (rows ! (length rows - (Suc k - length new)))" by (simp add: b(1) o nth_append)
    moreover have "int ?i = (if int (length new) - int k - 1 < 0 then int ?B + (int (length new) - int k - 1) else int (length new) - int k - 1)"
      using False k by (simp add: of_nat_diff)
    moreover have "scroll_rows st ! (length (scroll_rows st) - Suc k) = rows ! (length rows - (Suc k - length new))"
      using i False unfolding r o by (simp add: nth_append)
    ultimately show ?thesis using get i(3) by simp
  qed
qed

text \<open>
  C38: pushing rows never leaves the ring's memory, and it then holds the last 10000 rows pushed,
  in order, whatever was pushed before.
\<close>

theorem scroll_buffer_keeps_last:
  assumes "scroll_ok st"
  shows "\<exists>st'. ofold scroll_buffer_push rows st = Some st' \<and> scroll_ok st'
    \<and> scroll_rows st' = last_n scroll_buffer_initial_size (scroll_rows st @ rows)"
  using scroll.push_list [OF assms, of rows] by blast

lemma scroll_static_ok: "scroll_ok scroll_static" "scroll_rows scroll_static = []"
  by (simp_all add: scroll_ok_def scroll_static_def scroll_rows_def List.map_filter_simps)

theorem scroll_buffer_keeps_last_witness:
  "\<exists>st'. ofold scroll_buffer_push [[], []] scroll_static = Some st' \<and> scroll_rows st' = [[], []]"
  using scroll_buffer_keeps_last [OF scroll_static_ok(1), of "[[], []]"]
  by (auto simp: scroll_static_ok last_n_def scroll_buffer_initial_size_def)

text \<open>
  row \<open>-k\<close> of the display is the row before the \<open>k\<close>-th newest of the scrollback: the newest row
  is never shown, as \<open>grab_row\<close> asks for line \<open>k\<close> where line 0 is the newest.
\<close>

theorem grab_row_skips_newest:
  assumes "scroll_ok st" "0 < k" "k < length (scroll_rows st)"
  shows "grab_row get_cell cols st (- int k) df len
    = Some (Some (scroll_rows st ! (length (scroll_rows st) - Suc k)), True, int (length (scroll_rows st ! (length (scroll_rows st) - Suc k))))"
proof -
  have "scroll_buffer st \<noteq> []" using assms(3) by (auto simp: scroll_rows_def List.map_filter_simps)
  then obtain new old where r: "ring_shape st new old" using assms(1) by (auto simp: scroll_ok_def)
  then have "int k \<le> scroll_buffer_size st" using assms(3) scroll_rows_bound [OF assms(1)] by (simp add: ring_shape_def)
  with assms(2) scroll_get_run [OF r assms(3)] show ?thesis by (simp add: grab_row_def)
qed

theorem grab_row_skips_newest_witness:
  "\<forall>c. \<exists>st. ofold scroll_buffer_push [[c], []] scroll_static = Some st \<and> grab_row (\<lambda>_ _. c) 80 st (- 1) False 0 = Some (Some [c], True, 1)"
proof
  fix c :: vcell
  from scroll.push_list [OF scroll_static_ok(1), of "[[c], []]"] obtain st where
    st: "ofold scroll_buffer_push [[c], []] scroll_static = Some st" "scroll_ok st" "scroll_rows st = [[c], []]"
    by (auto simp: scroll_static_ok last_n_def scroll_buffer_initial_size_def)
  then show "\<exists>st. ofold scroll_buffer_push [[c], []] scroll_static = Some st \<and> grab_row (\<lambda>_ _. c) 80 st (- 1) False 0 = Some (Some [c], True, 1)"
    using grab_row_skips_newest [OF st(2), of 1 "\<lambda>_ _. c" 80 False 0] by auto
qed

text \<open>
  with a full ring, asking for the oldest row (\<open>-10000\<close>) delivers the newest one: the index
  wraps around.
\<close>

theorem grab_row_oldest_is_newest:
  assumes "scroll_ok st" "length (scroll_rows st) = scroll_buffer_initial_size"
  shows "grab_row get_cell cols st (- int scroll_buffer_initial_size) df len
    = Some (Some (last (scroll_rows st)), True, int (length (last (scroll_rows st))))"
proof -
  let ?B = scroll_buffer_initial_size
  have "scroll_buffer st \<noteq> []" using assms(2) scroll_size_pos by (auto simp: scroll_rows_def List.map_filter_simps)
  then obtain new old where r: "ring_shape st new old" using assms(1) by (auto simp: scroll_ok_def)
  have "new \<noteq> []"
  proof
    assume "new = []"
    with r have "old = replicate (length old) None" by (auto simp: ring_shape_def)
    then have "List.map_filter id old = ([] :: vcell list list)" by (metis map_filter_Some(2))
    with \<open>new = []\<close> ring_shape_rows [OF r] assms(2) scroll_size_pos show False by simp
  qed
  then obtain ns n0 where ns: "new = ns @ [n0]" by (metis rev_exhaust)
  have b: "scroll_buffer st = map Some ns @ Some n0 # old" "scroll_buffer_lens st = map row_len ns_b"
    "scroll_buffer_end st = int (length ns) + 1" "scroll_buffer_size st = int ?B" "length ns < ?B"
    if "ns_b = scroll_buffer st" for ns_b
    using r that by (auto simp: ring_shape_def ns)
  have "scroll_buffer_get (int ?B) st = Some (Some n0, int (length n0))"
    using b [OF refl] arr_get_append [of "map Some ns" "Some n0" old] arr_get_append [of "map row_len (map Some ns)" "row_len (Some n0)" "map row_len old"]
    by (simp add: scroll_buffer_get_def Let_def) (simp add: row_len_def)
  then show ?thesis using scroll_size_pos b(4) [OF refl] ring_shape_rows [OF r] by (simp add: grab_row_def ns)
qed


theorem grab_row_oldest_is_newest_witness:
  "\<forall>c. \<exists>st. ofold scroll_buffer_push (replicate 9999 [] @ [[c]]) scroll_static = Some st
    \<and> grab_row (\<lambda>_ _. c) 80 st (- 10000) False 0 = Some (Some [c], True, 1)"
proof
  fix c :: vcell
  let ?rows = "replicate 9999 [] @ [[c]]"
  have l: "length ?rows = scroll_buffer_initial_size" by (simp add: scroll_buffer_initial_size_def)
  from scroll.push_list [OF scroll_static_ok(1), of ?rows] obtain st where
    st: "ofold scroll_buffer_push ?rows scroll_static = Some st" "scroll_ok st" "scroll_rows st = ?rows"
    using l unfolding scroll_static_ok(2) append_Nil by (metis last_n_all order_refl)
  then have "length (scroll_rows st) = scroll_buffer_initial_size" using l by simp
  from grab_row_oldest_is_newest [OF st(2) this, of "\<lambda>_ _. c" 80 False 0] st(1,3)
  show "\<exists>st. ofold scroll_buffer_push (replicate 9999 [] @ [[c]]) scroll_static = Some st
    \<and> grab_row (\<lambda>_ _. c) 80 st (- 10000) False 0 = Some (Some [c], True, 1)"
    by (simp add: scroll_buffer_initial_size_def)
qed

end
