(* ===== verification/Selection.thy ===== *)
theory Selection
  imports Scrollback
begin

section \<open>Selecting and copying text (main.c)\<close>

text \<open>
  The mouse selection of \<open>main.c\<close> on the Linux build: from pixels to rows and columns, collecting the
  text of a region, encoding it for the clipboard, and the state machine over the mouse events.

  \<open>fw\<close> and \<open>fh\<close> are the width and height of a character cell in pixels; the float quotients of
  \<open>mouse_to_select_box\<close> are exact for coordinates below 2^23, so floor and ceiling are integer
  divisions. The arrays allocated by \<open>malloc\<close> start out indeterminate: their elements are
  optional, and using an element never written is undefined.
\<close>

subsection \<open>From pixels to cells\<close>

definition mouse_to_select_box :: "int \<Rightarrow> int \<Rightarrow> int \<Rightarrow> int \<Rightarrow> int \<Rightarrow> int \<Rightarrow> int \<Rightarrow> int \<Rightarrow> int \<times> int \<times> int \<times> int" where
  "mouse_to_select_box fw fh sx sy so ex ey eo =
     (let stx = sx div fw;
          etx0 = - ((- ex) div fw);
          sty = sy div fh - so;
          ety0 = - ((- ey) div fh) - eo;
          (etx1, ety) = (if sy > ey then (etx0 - 1, ety0 - 1) else if sy < ey then (etx0, ety0 - 1) else (etx0, ety0));
          etx2 = (if sty = ety \<and> etx1 < stx then etx1 - 1 else etx1);
          etx = (if sty = ety \<and> etx2 > stx then etx2 + 1 else etx2)
      in (stx, sty, etx, ety))"

subsection \<open>Collecting text\<close>

text \<open>
  The cell at \<open>row_data[n]\<close>. The read one past the row's end, which every call makes, gives \<open>past\<close>:
  \<^const>\<open>None\<close> if it traps, otherwise whatever cell lies behind the row.
\<close>

definition read_cell :: "vcell option \<Rightarrow> vcell list \<Rightarrow> int \<Rightarrow> vcell option" where
  "read_cell past row n = (if n = int (length row) then past else arr_get row n)"

text \<open>The loop that clips the region's end to the last cell that is no blank.\<close>

fun clip_end :: "vcell option \<Rightarrow> vcell list \<Rightarrow> nat \<Rightarrow> int \<Rightarrow> int option" where
  "clip_end past row 0 end_x = do {
     c \<leftarrow> read_cell past row 0;
     Some (if cell_chars c ! 0 \<noteq> 32 then (if 0 < end_x then 0 else end_x) else end_x) }"
| "clip_end past row (Suc n) end_x = do {
     c \<leftarrow> read_cell past row (int (Suc n));
     if cell_chars c ! 0 \<noteq> 32 then Some (if int (Suc n) < end_x then int (Suc n) else end_x)
     else clip_end past row n end_x }"

record region =
  reg_text :: "u16 option list"
  reg_len :: int
  reg_end_x :: int

definition put_text :: "int \<Rightarrow> u16 \<Rightarrow> region \<Rightarrow> region option" where
  "put_text n c r = do { t \<leftarrow> arr_set (reg_text r) n (Some c); Some (r\<lparr>reg_text := t\<rparr>) }"

definition region_cell :: "vcell option \<Rightarrow> vcell list \<Rightarrow> int \<Rightarrow> int \<Rightarrow> region \<Rightarrow> region option" where
  "region_cell past row glen x r = do {
     let r1 = (if reg_end_x r \<ge> glen then r\<lparr>reg_end_x := glen - 1\<rparr> else r);
     c \<leftarrow> read_cell past row x;
     let u = (ucast (cell_chars c ! 0) :: u16);
     r2 \<leftarrow> put_text (reg_len r1) u r1;
     Some (if u \<noteq> 0 \<and> u \<noteq> 65535 then r2\<lparr>reg_len := reg_len r2 + 1\<rparr> else r2) }"

definition region_row :: "vcell option \<Rightarrow> (int \<Rightarrow> int \<Rightarrow> vcell) \<Rightarrow> int \<Rightarrow> scroll_state \<Rightarrow> int \<Rightarrow> int \<Rightarrow> int \<Rightarrow> int
    \<Rightarrow> region \<Rightarrow> region option" where
  "region_row past get_cell cols scr start_x0 start_y end_y y r = do {
     (row_data, dont_free, glen) \<leftarrow> grab_row get_cell cols scr y False 0;
     r1 \<leftarrow> (case row_data of
         None \<Rightarrow> put_text 0 0 r
       | Some row \<Rightarrow> do {
           let start_x = (if y = start_y then start_x0 else 0);
           let end_x = (if y = end_y then reg_end_x r else cols);
           end_x1 \<leftarrow> (if cols < 0 then Some end_x else clip_end past row (nat cols) end_x);
           ofold (region_cell past row glen) [start_x..end_x1 - 1] r });
     if y \<noteq> end_y then do {
       r2 \<leftarrow> put_text (reg_len r1) 10 r1;
       Some (r2\<lparr>reg_len := reg_len r2 + 1\<rparr>) }
     else Some r1 }"

text \<open>The array holds 10240 bytes, 5120 characters.\<close>

definition get_text_region :: "vcell option \<Rightarrow> (int \<Rightarrow> int \<Rightarrow> vcell) \<Rightarrow> int \<Rightarrow> scroll_state \<Rightarrow> int \<Rightarrow> int \<Rightarrow> int \<Rightarrow> int
    \<Rightarrow> (u16 option list \<times> int) option" where
  "get_text_region past get_cell cols scr start_x start_y0 end_x end_y0 =
     (let (start_y, end_y) = (if start_y0 > end_y0 then (end_y0, start_y0) else (start_y0, end_y0)) in do {
        r \<leftarrow> ofold (region_row past get_cell cols scr start_x start_y end_y) [start_y..end_y]
               \<lparr>reg_text = replicate 5120 None, reg_len = 0, reg_end_x = end_x\<rparr>;
        r1 \<leftarrow> ofold (\<lambda>k. put_text (reg_len r + k) 0) [0, 1, 2, 3, 4, 5, 6, 7] r;
        Some (reg_text r1, reg_len r1) })"

subsection \<open>Encoding for the clipboard\<close>

definition utf8proc_encode_char :: "int \<Rightarrow> byte list" where
  "utf8proc_encode_char uc =
     (if uc < 0 then []
      else if uc < 0x80 then [of_int uc]
      else if uc < 0x800 then [of_int (0xC0 + drop_bit 6 uc), of_int (0x80 + (uc AND 0x3F))]
      else if uc = 0xFFFF then [0xFF]
      else if uc = 0xFFFE then [0xFE]
      else if uc < 0x10000 then [of_int (0xE0 + drop_bit 12 uc), of_int (0x80 + (drop_bit 6 uc AND 0x3F)), of_int (0x80 + (uc AND 0x3F))]
      else if uc < 0x110000 then [of_int (0xF0 + drop_bit 18 uc), of_int (0x80 + (drop_bit 12 uc AND 0x3F)),
        of_int (0x80 + (drop_bit 6 uc AND 0x3F)), of_int (0x80 + (uc AND 0x3F))]
      else [])"

text \<open>One round of \<open>copy_text\<close>: the local array holds 20000 bytes, of which five are zeroed behind the text.\<close>

definition copy_char :: "u16 option list \<Rightarrow> int \<Rightarrow> int \<Rightarrow> byte list \<Rightarrow> byte list option" where
  "copy_char itext from n out = do {
     c \<leftarrow> arr_get itext (from + n);
     u \<leftarrow> c;
     let out1 = out @ utf8proc_encode_char (int (unat u));
     guard (length out1 + 5 \<le> 20000);
     Some out1 }"

text \<open>
  The text handed to the clipboard programs for the characters \<open>itext[from]\<close> on: \<open>%s\<close> stops at the
  first NUL, and the array is indeterminate if nothing was copied into it.
\<close>

definition copy_text :: "u16 option list \<Rightarrow> int \<Rightarrow> int \<Rightarrow> byte list option" where
  "copy_text itext from len = do {
     out \<leftarrow> ofold (copy_char itext from) [0..len - 1] [];
     guard (len > 0);
     Some (takeWhile (\<lambda>c. c \<noteq> 0) out) }"

subsection \<open>The mouse\<close>

datatype mouse_event =
    MouseMotion int int
  | MouseButtonUp int int
  | MouseButtonDown int int
  | MouseWheel int
  | OtherEvent

record sel_state =
  draw_selection :: bool
  draw_fade_selection :: int
  select_start_x :: int
  select_start_y :: int
  select_end_x :: int
  select_end_y :: int
  select_start_scroll_offset :: int
  select_end_scroll_offset :: int
  scroll_offset :: int
  select_text_start_x :: int
  select_text_start_y :: int
  select_text_end_x :: int
  select_text_end_y :: int
  last_text_point_x :: int
  last_text_point_y :: int
  redraw_req :: bool
  clipboard :: "byte list list"

definition sel_static :: sel_state where
  "sel_static = \<lparr>draw_selection = False, draw_fade_selection = 0, select_start_x = 0, select_start_y = 0,
     select_end_x = 0, select_end_y = 0, select_start_scroll_offset = 0, select_end_scroll_offset = 0,
     scroll_offset = 0, select_text_start_x = - 1, select_text_start_y = - 1, select_text_end_x = - 1,
     select_text_end_y = - 1, last_text_point_x = - 1, last_text_point_y = - 1, redraw_req = True, clipboard = []\<rparr>"

definition redraw_required :: "sel_state \<Rightarrow> sel_state" where
  "redraw_required s = s\<lparr>redraw_req := True\<rparr>"

text \<open>The environment of the mouse code: cell size, screen, scrollback and the read past a row's end.\<close>

record sel_env =
  env_fw :: int
  env_fh :: int
  env_cols :: int
  env_cell :: "int \<Rightarrow> int \<Rightarrow> vcell"
  env_scroll :: scroll_state
  env_past :: "vcell option"

definition env_box :: "sel_env \<Rightarrow> sel_state \<Rightarrow> int \<times> int \<times> int \<times> int" where
  "env_box env s = mouse_to_select_box (env_fw env) (env_fh env) (select_start_x s) (select_start_y s)
     (select_start_scroll_offset s) (select_end_x s) (select_end_y s) (select_end_scroll_offset s)"

definition env_region :: "sel_env \<Rightarrow> int \<Rightarrow> int \<Rightarrow> int \<Rightarrow> int \<Rightarrow> (u16 option list \<times> int) option" where
  "env_region env = get_text_region (env_past env) (env_cell env) (env_cols env) (env_scroll env)"

text \<open>The two searches for a blank or newline: leftwards from \<open>n\<close>, rightwards while below \<open>cols\<close> and \<open>len\<close>.\<close>

fun word_left :: "u16 option list \<Rightarrow> nat \<Rightarrow> int option" where
  "word_left text 0 = do { c \<leftarrow> arr_get text 0; u \<leftarrow> c; Some (if u = 32 \<or> u = 10 then 1 else - 1) }"
| "word_left text (Suc n) = do {
     c \<leftarrow> arr_get text (int (Suc n)); u \<leftarrow> c;
     if u = 32 \<or> u = 10 then Some (int (Suc n) + 1) else word_left text n }"

fun word_right :: "nat \<Rightarrow> u16 option list \<Rightarrow> int \<Rightarrow> int \<Rightarrow> int \<Rightarrow> int option" where
  "word_right 0 text cols len n = Some (- 1)"
| "word_right (Suc k) text cols len n =
     (if \<not> (n < cols \<and> n < len) then Some (- 1)
      else do {
        c \<leftarrow> arr_get text n; u \<leftarrow> c;
        if u = 32 \<or> u = 10 then Some (n - 1) else word_right k text cols len (n + 1) })"

text \<open>A click (a drag of less than 15 pixels): the second one in the same cell selects a word.\<close>

definition mouse_click :: "sel_env \<Rightarrow> sel_state \<Rightarrow> sel_state option" where
  "mouse_click env s0 =
     (let s = s0\<lparr>select_end_scroll_offset := scroll_offset s0\<rparr>;
          (tsx, tsy, tex, tey) = env_box env s
      in do {
        s1 \<leftarrow> (if last_text_point_x s = tsx \<and> last_text_point_y s = tsy then do {
              (text, len) \<leftarrow> env_region env 0 tsy (env_cols env) tsy;
              word_start \<leftarrow> (if tsx < 0 then Some (- 1) else word_left text (nat tsx));
              word_end0 \<leftarrow> word_right (nat (env_cols env - tsx)) text (env_cols env) len tsx;
              let word_end = (if word_end0 = - 1 then len - 1 else word_end0);
              clip \<leftarrow> (if len \<noteq> 0 then map_option (\<lambda>t. [t]) (copy_text text word_start (word_end - word_start + 1)) else Some []);
              Some (s\<lparr>clipboard := clipboard s @ clip, select_text_start_x := word_start, select_text_end_x := word_end + 1,
                      select_text_start_y := tsy, select_text_end_y := tsy, draw_fade_selection := 50\<rparr>) }
            else Some (s\<lparr>draw_selection := False, draw_fade_selection := 0\<rparr>));
        Some ((redraw_required s1)\<lparr>last_text_point_x := tsx, last_text_point_y := tsy\<rparr>) })"

definition mouse_drag_end :: "sel_env \<Rightarrow> sel_state \<Rightarrow> sel_state option" where
  "mouse_drag_end env s0 =
     (let s = s0\<lparr>select_end_scroll_offset := scroll_offset s0\<rparr>;
          (tsx, tsy, tex, tey) = env_box env s;
          s1 = s\<lparr>select_text_start_x := tsx, select_text_start_y := tsy, select_text_end_x := tex, select_text_end_y := tey\<rparr>;
          (sx, ex) = (if tex < tsx then (tex, tsx) else (tsx, tex));
          (sy, ey) = (if tey < tsy then (tey, tsy) else (tsy, tey))
      in do {
        (text, len) \<leftarrow> env_region env sx sy ex ey;
        clip \<leftarrow> (if len \<noteq> 0 then map_option (\<lambda>t. [t]) (copy_text text 0 len) else Some []);
        Some ((redraw_required (s1\<lparr>clipboard := clipboard s1 @ clip\<rparr>))\<lparr>draw_fade_selection := 50\<rparr>) })"

fun process_mouse_event :: "sel_env \<Rightarrow> mouse_event \<Rightarrow> sel_state \<Rightarrow> sel_state option" where
  "process_mouse_event env OtherEvent s = Some s"
| "process_mouse_event env (MouseWheel y) s =
     (if y > 0 then Some (redraw_required (s\<lparr>scroll_offset := scroll_offset s + 1\<rparr>))
      else let s1 = s\<lparr>scroll_offset := scroll_offset s - 1\<rparr>;
               s2 = (if scroll_offset s1 < 0 then s1\<lparr>scroll_offset := 0\<rparr> else s1)
           in Some (redraw_required s2))"
| "process_mouse_event env (MouseMotion x y) s =
     (if draw_selection s = True then
        let s1 = s\<lparr>select_end_scroll_offset := scroll_offset s\<rparr>;
            (tsx, tsy, tex, tey) = env_box env s1;
            s2 = s1\<lparr>select_text_start_x := tsx, select_text_start_y := tsy, select_text_end_x := tex, select_text_end_y := tey\<rparr>
        in Some (redraw_required (s2\<lparr>select_end_x := x, select_end_y := y\<rparr>))
      else Some s)"
| "process_mouse_event env (MouseButtonUp x y) s0 =
     (let s = s0\<lparr>draw_selection := False\<rparr>;
          xd = select_start_x s - select_end_x s; xdelta = (if xd < 0 then 0 - xd else xd);
          yd = select_start_y s - select_end_y s; ydelta = (if yd < 0 then 0 - yd else yd)
      in if xdelta < 15 \<and> ydelta < 15 then mouse_click env s else mouse_drag_end env s)"
| "process_mouse_event env (MouseButtonDown x y) s =
     Some (s\<lparr>select_start_scroll_offset := scroll_offset s, select_start_x := x, select_start_y := y,
             select_end_x := x, select_end_y := y, select_text_start_x := - 1, select_text_end_x := - 1,
             select_text_start_y := - 1, select_text_end_y := - 1, draw_selection := True, draw_fade_selection := 0\<rparr>)"

subsection \<open>Drawing the selection\<close>

definition redraw_selection :: "int \<Rightarrow> int \<Rightarrow> int \<Rightarrow> sel_state \<Rightarrow> sel_state \<times> render_cmd list" where
  "redraw_selection fw fh display_width s =
     (if draw_selection s \<or> draw_fade_selection s > 0 then
        let color = (if draw_fade_selection s > 0 then draw_fade_selection s * 5 else 255);
            s1 = (if draw_fade_selection s > 0 then redraw_required (s\<lparr>draw_fade_selection := draw_fade_selection s - 1\<rparr>) else s);
            s2 = s1\<lparr>select_end_scroll_offset := scroll_offset s1\<rparr>;
            sx = select_text_start_x s2 * fw;
            sy = (select_text_start_y s2 + scroll_offset s2) * fh;
            ex = select_text_end_x s2 * fw;
            ey = (select_text_end_y s2 + scroll_offset s2) * fh - 1;
            many = (select_text_start_y s2 \<noteq> select_text_end_y s2)
        in (s2,
            [SetRenderDrawColor color color color color]
            @ (if many then [RenderDrawLine 0 (sy + fh) sx (sy + fh), RenderDrawLine sx sy (display_width - 1) sy]
               else [RenderDrawLine sx sy ex sy])
            @ [RenderDrawLine sx sy sx (sy + fh)]
            @ (if many then [RenderDrawLine ex ey (display_width - 1) ey, RenderDrawLine ex (ey + fh) 0 (ey + fh)]
               else [RenderDrawLine sx (ey + fh) ex (ey + fh)])
            @ [RenderDrawLine ex (ey + fh) ex ey]
            @ (if many then [RenderDrawLine 0 (sy + fh) 0 (ey + fh), RenderDrawLine (display_width - 1) sy (display_width - 1) ey] else []))
      else (s, []))"

subsection \<open>What a region's text is\<close>

lemma put_text_run: "0 \<le> n \<Longrightarrow> n < int (length (reg_text r)) \<Longrightarrow> put_text n c r = Some (r\<lparr>reg_text := (reg_text r)[nat n := Some c]\<rparr>)"
  by (simp add: put_text_def arr_set_def)

text \<open>\<open>us\<close> has been collected so far.\<close>

definition collected :: "region \<Rightarrow> u16 list \<Rightarrow> bool" where
  "collected r us \<longleftrightarrow> length (reg_text r) = 5120 \<and> reg_len r = int (length us) \<and> length us \<le> 5120
     \<and> take (length us) (reg_text r) = map Some us"

definition kept :: "u16 \<Rightarrow> bool" where
  "kept u \<longleftrightarrow> u \<noteq> 0 \<and> u \<noteq> 65535"

lemma region_cell_run:
  assumes "collected r us" "length us < 5120" "read_cell past row x = Some c"
  shows "\<exists>r'. region_cell past row glen x r = Some r' \<and> collected r' (us @ (if kept (ucast (cell_chars c ! 0)) then [ucast (cell_chars c ! 0)] else []))"
proof -
  let ?u = "ucast (cell_chars c ! 0) :: u16"
  let ?r1 = "if reg_end_x r \<ge> glen then r\<lparr>reg_end_x := glen - 1\<rparr> else r"
  have e: "reg_len ?r1 = int (length us)" "length (reg_text ?r1) = 5120" "reg_text ?r1 = reg_text r"
    using assms(1) by (simp_all add: collected_def)
  let ?r2 = "?r1\<lparr>reg_text := (reg_text r)[length us := Some ?u]\<rparr>"
  have p: "put_text (reg_len ?r1) ?u ?r1 = Some ?r2"
    unfolding e(1) using put_text_run [of "int (length us)" ?r1 ?u] e(2,3) assms(2) by simp
  have t: "take (length us) ((reg_text r)[length us := Some ?u]) = map Some us"
    "take (Suc (length us)) ((reg_text r)[length us := Some ?u]) = map Some (us @ [?u])"
    using assms(1,2) by (simp_all add: collected_def take_Suc_conv_app_nth)
  let ?r3 = "if ?u \<noteq> 0 \<and> ?u \<noteq> 65535 then ?r2\<lparr>reg_len := reg_len ?r2 + 1\<rparr> else ?r2"
  have "region_cell past row glen x r = Some ?r3"
    unfolding region_cell_def Let_def assms(3) p bind.bind_lunit ..
  moreover have "collected ?r3 (us @ (if kept ?u then [?u] else []))"
    using assms(1,2) t e(1) by (cases "kept ?u") (auto simp: collected_def kept_def)
  ultimately show ?thesis by blast
qed

lemma region_cells_run:
  assumes "collected r us" "length us + length xs \<le> 5120" "\<forall>x\<in>set xs. read_cell past row x = Some (f x)"
  shows "\<exists>r'. ofold (region_cell past row glen) xs r = Some r'
    \<and> collected r' (us @ filter kept (map (\<lambda>x. ucast (cell_chars (f x) ! 0)) xs))"
  using assms
proof (induction xs arbitrary: r us)
  case (Cons x xs)
  let ?u = "ucast (cell_chars (f x) ! 0) :: u16"
  from region_cell_run [OF Cons.prems(1), of past row x "f x" glen] Cons.prems(2,3) obtain r1 where r1:
    "region_cell past row glen x r = Some r1" "collected r1 (us @ (if kept ?u then [?u] else []))" by auto
  have "length (us @ (if kept ?u then [?u] else [])) + length xs \<le> 5120" using Cons.prems(2) by (cases "kept ?u") simp_all
  from Cons.IH [OF r1(2) this] Cons.prems(3) obtain r2 where
    "ofold (region_cell past row glen) xs r1 = Some r2"
    "collected r2 ((us @ (if kept ?u then [?u] else [])) @ filter kept (map (\<lambda>x. ucast (cell_chars (f x) ! 0)) xs))" by auto
  then show ?case using r1(1) by (intro exI [of _ r2]) auto
qed simp

text \<open>The last index up to \<open>n\<close> whose cell is no blank.\<close>

fun last_nonblank :: "(int \<Rightarrow> u32) \<Rightarrow> nat \<Rightarrow> nat option" where
  "last_nonblank ch 0 = (if ch 0 \<noteq> 32 then Some 0 else None)"
| "last_nonblank ch (Suc n) = (if ch (int (Suc n)) \<noteq> 32 then Some (Suc n) else last_nonblank ch n)"

lemma last_nonblank_iff:
  "(last_nonblank ch n = Some k \<longleftrightarrow> k \<le> n \<and> ch (int k) \<noteq> 32 \<and> (\<forall>m. k < m \<and> m \<le> n \<longrightarrow> ch (int m) = 32))
   \<and> (last_nonblank ch n = None \<longleftrightarrow> (\<forall>m\<le>n. ch (int m) = 32))"
proof (induction n)
  case (Suc n)
  then show ?case
    by (auto simp: le_Suc_eq simp del: of_nat_Suc)
qed (auto intro: gr0I)

lemma clip_end_run:
  assumes "\<forall>m\<le>n. read_cell past row (int m) = Some (f (int m))"
  shows "clip_end past row n e = Some (case last_nonblank (\<lambda>x. cell_chars (f x) ! 0) n of None \<Rightarrow> e | Some k \<Rightarrow> min e (int k))"
  using assms
proof (induction n)
  case (Suc n)
  then have "clip_end past row n e = Some (case last_nonblank (\<lambda>x. cell_chars (f x) ! 0) n of None \<Rightarrow> e | Some k \<Rightarrow> min e (int k))" by simp
  moreover have "read_cell past row (int (Suc n)) = Some (f (int (Suc n)))" using Suc.prems by blast
  ultimately show ?case by (simp add: min_def del: of_nat_Suc)
qed (simp add: min_def)

text \<open>
  The cell at a column of a screen row, the one past its end included, the column a region of one
  row is clipped to, and its text.
\<close>

definition row_cell :: "vcell \<Rightarrow> (int \<Rightarrow> int \<Rightarrow> vcell) \<Rightarrow> int \<Rightarrow> int \<Rightarrow> int \<Rightarrow> vcell" where
  "row_cell p get_cell cols y x = (if x = cols then p else get_cell y x)"

definition clip_col :: "vcell \<Rightarrow> (int \<Rightarrow> int \<Rightarrow> vcell) \<Rightarrow> int \<Rightarrow> int \<Rightarrow> int \<Rightarrow> int" where
  "clip_col p get_cell cols y e = (case last_nonblank (\<lambda>x. cell_chars (row_cell p get_cell cols y x) ! 0) (nat cols) of
     None \<Rightarrow> e | Some k \<Rightarrow> min e (int k))"

definition row_text :: "vcell \<Rightarrow> (int \<Rightarrow> int \<Rightarrow> vcell) \<Rightarrow> int \<Rightarrow> int \<Rightarrow> int \<Rightarrow> int \<Rightarrow> u16 list" where
  "row_text p get_cell cols y sx ex = filter kept (map (\<lambda>x. ucast (cell_chars (get_cell y x) ! 0)) [sx..clip_col p get_cell cols y ex - 1])"

lemma read_row_cell:
  assumes "0 \<le> x" "x \<le> cols"
  shows "read_cell (Some p) (map (get_cell y) [0..cols - 1]) x = Some (row_cell p get_cell cols y x)"
proof (cases "x = cols")
  case False
  then have "nat x < length [0..cols - 1]" "[0..cols - 1] ! nat x = x" using assms by (simp_all add: nth_upto)
  then show ?thesis using False assms by (simp add: read_cell_def row_cell_def arr_get_def)
qed (use assms in \<open>simp add: read_cell_def row_cell_def\<close>)

lemma zero_fill:
  assumes "\<forall>k\<in>set ks. 0 \<le> k \<and> int n + k < int (length (reg_text r))"
  shows "\<exists>t. ofold (\<lambda>k. put_text (int n + k) 0) ks r = Some (r\<lparr>reg_text := t\<rparr>) \<and> length t = length (reg_text r)
    \<and> take n t = take n (reg_text r) \<and> (0 \<in> set ks \<or> reg_text r ! n = Some 0 \<longrightarrow> t ! n = Some 0)"
  using assms
proof (induction ks arbitrary: r)
  case (Cons k ks)
  let ?r = "r\<lparr>reg_text := (reg_text r)[nat (int n + k) := Some 0]\<rparr>"
  have k: "0 \<le> k" "int n + k < int (length (reg_text r))" using Cons.prems by simp_all
  then have p: "put_text (int n + k) 0 r = Some ?r" by (simp add: put_text_run)
  have n: "n \<le> nat (int n + k)" "nat (int n + k) < length (reg_text r)" "k \<noteq> 0 \<Longrightarrow> n \<noteq> nat (int n + k)" using k by auto
  from Cons.IH [of ?r] Cons.prems obtain t where t: "ofold (\<lambda>k. put_text (int n + k) 0) ks ?r = Some (?r\<lparr>reg_text := t\<rparr>)"
    "length t = length (reg_text r)" "take n t = take n (reg_text r)"
    "0 \<in> set ks \<or> reg_text ?r ! n = Some 0 \<longrightarrow> t ! n = Some 0" using n(1) by auto
  have "reg_text ?r ! n = Some 0" if "k = 0 \<or> reg_text r ! n = Some 0"
    using that n by (cases "k = 0") auto
  with p t show ?case by (intro exI [of _ t]) auto
next
  case Nil
  then show ?case by (intro exI [of _ "reg_text r"]) simp
qed

lemma region_tail_run:
  assumes "collected r us" "length us + 8 \<le> 5120"
  shows "\<exists>t. ofold (\<lambda>k. put_text (reg_len r + k) 0) [0, 1, 2, 3, 4, 5, 6, 7] r = Some (r\<lparr>reg_text := t\<rparr>)
    \<and> length t = 5120 \<and> take (length us) t = map Some us \<and> t ! length us = Some 0"
proof -
  have l: "reg_len r = int (length us)" "length (reg_text r) = 5120" "take (length us) (reg_text r) = map Some us"
    using assms(1) by (simp_all add: collected_def)
  have "\<forall>k\<in>set [0, 1, 2, 3, 4, 5, 6, 7]. 0 \<le> k \<and> int (length us) + k < int (length (reg_text r))"
    using assms(2) l(2) by simp
  from zero_fill [OF this] l show ?thesis by (simp del: ofold.simps)
qed

lemma region_one_row_run:
  fixes p :: vcell and get_cell :: "int \<Rightarrow> int \<Rightarrow> vcell"
  assumes "0 \<le> y" "0 \<le> sx" "ex \<le> cols" "0 \<le> cols" "cols \<le> 5112"
  defines "us \<equiv> row_text p get_cell cols y sx ex"
  shows "\<exists>t. get_text_region (Some p) get_cell cols scr sx y ex y = Some (t, int (length us))
    \<and> length t = 5120 \<and> take (length us) t = map Some us \<and> t ! length us = Some 0"
proof -
  let ?row = "map (get_cell y) [0..cols - 1]" and ?r = "\<lparr>reg_text = replicate 5120 None, reg_len = 0, reg_end_x = ex\<rparr>"
  let ?c = "clip_col p get_cell cols y ex"
  have c: "clip_end (Some p) ?row (nat cols) ex = Some ?c"
    unfolding clip_col_def by (rule clip_end_run) (use assms(4) read_row_cell in \<open>auto simp: le_nat_iff\<close>)
  have ce: "?c \<le> ex" by (auto simp: clip_col_def split: option.splits)
  have rd: "\<forall>x\<in>set [sx..?c - 1]. read_cell (Some p) ?row x = Some (get_cell y x)"
    using read_row_cell [of _ cols p get_cell y] assms(2,3) ce by (auto simp: row_cell_def)
  have n: "length [sx..?c - 1] \<le> 5112" using ce assms(2,3,5) by simp
  have "collected ?r []" by (simp add: collected_def)
  from region_cells_run [OF this _ rd, of cols] n obtain r where r:
    "ofold (region_cell (Some p) ?row cols) [sx..?c - 1] ?r = Some r" "collected r us"
    unfolding us_def row_text_def by auto
  have l: "length us + 8 \<le> 5120" using n length_filter_le [of kept "map (\<lambda>x. ucast (cell_chars (get_cell y x) ! 0)) [sx..?c - 1]"]
    unfolding us_def row_text_def by simp
  have "region_row (Some p) get_cell cols scr sx y y y ?r = Some r"
    using c r(1) assms(1,4) by (simp add: region_row_def grab_row_def)
  then have "ofold (region_row (Some p) get_cell cols scr sx y y) [y..y] ?r = Some r" by simp
  moreover from region_tail_run [OF r(2) l] obtain t where
    "ofold (\<lambda>k. put_text (reg_len r + k) 0) [0, 1, 2, 3, 4, 5, 6, 7] r = Some (r\<lparr>reg_text := t\<rparr>)"
    "length t = 5120" "take (length us) t = map Some us" "t ! length us = Some 0" by blast
  moreover have "reg_len r = int (length us)" using r(2) by (simp add: collected_def)
  ultimately show ?thesis by (simp add: get_text_region_def del: ofold.simps)
qed

text \<open>
  the text of a region in one screen row is that of the cells from the start column up to, but
  not including, the end column or the last cell of the row that is no blank, whichever comes first,
  without empty cells and the right halves of wide characters; it is followed by a 0. The row is
  searched from the cell behind its end.
\<close>

theorem region_one_row:
  assumes "0 \<le> y" "0 \<le> sx" "ex \<le> cols" "0 \<le> cols" "cols \<le> 5112"
  shows "\<exists>t. get_text_region (Some p) get_cell cols scr sx y ex y = Some (t, int (length (row_text p get_cell cols y sx ex)))
    \<and> take (length (row_text p get_cell cols y sx ex)) t = map Some (row_text p get_cell cols y sx ex)
    \<and> t ! length (row_text p get_cell cols y sx ex) = Some 0"
  using region_one_row_run [OF assms, of p get_cell scr] by blast

text \<open>Without a readable cell behind the row, no region with a row of the screen has a text.\<close>

lemma region_trap:
  assumes "0 \<le> y" "0 \<le> cols"
  shows "get_text_region None get_cell cols scr sx y ex y = None"
proof -
  have "clip_end None (map (get_cell y) [0..cols - 1]) (nat cols) ex = None"
  proof (cases "nat cols")
    case 0
    then show ?thesis using assms(2) by (simp add: read_cell_def)
  next
    case (Suc n)
    then have "read_cell None (map (get_cell y) [0..cols - 1]) (int (Suc n)) = None"
      using assms(2) by (simp add: read_cell_def)
    then show ?thesis unfolding Suc by (simp del: of_nat_Suc)
  qed
  then show ?thesis using assms by (simp add: get_text_region_def region_row_def grab_row_def)
qed

text \<open>
  collecting the text of a screen row always reads the cell behind the row's last one, beyond
  the memory allocated for it: if that read traps, there is no text, whatever the region.
\<close>

theorem region_overreads:
  assumes "0 \<le> y" "0 \<le> cols"
  shows "get_text_region None get_cell cols scr sx y ex y = None"
  by (rule region_trap [OF assms])

definition text_cell :: "u32 \<Rightarrow> vcell" where
  "text_cell c = \<lparr>cell_chars = [c, 0, 0, 0, 0, 0], cell_width = 1,
     cell_attrs = \<lparr>va_bold = 0, va_underline = 0, va_italic = 0, va_blink = 0, va_reverse = 0, va_strike = 0, va_font = 0\<rparr>,
     cell_fg = \<lparr>vc_red = 0, vc_green = 0, vc_blue = 0\<rparr>, cell_bg = \<lparr>vc_red = 0, vc_green = 0, vc_blue = 0\<rparr>\<rparr>"

definition demo_cell :: "int \<Rightarrow> int \<Rightarrow> vcell" where
  "demo_cell row col = text_cell (if col = 0 then 72 else if col = 1 then 105 else 32)"

theorem region_overreads_witness: "get_text_region None demo_cell 80 scroll_static 0 2 5 2 = None"
  using region_overreads [of 2 80 demo_cell scroll_static 0 5] by simp

theorem region_one_row_witness:
  "\<exists>t. get_text_region (Some (text_cell 32)) demo_cell 4 scroll_static 0 2 4 2 = Some (t, 1) \<and> take 1 t = [Some 72] \<and> t ! 1 = Some 0"
proof -
  have "row_text (text_cell 32) demo_cell 4 2 0 4 = [72]" by code_simp
  then show ?thesis using region_one_row [of 2 0 4 4 "text_cell 32" demo_cell scroll_static] by simp
qed

subsection \<open>The clipboard text\<close>

text \<open>A reader of UTF-8 sequences of up to three bytes.\<close>

fun utf8_units :: "byte list \<Rightarrow> u16 list" where
  "utf8_units [] = []"
| "utf8_units (a # r) =
     (if unat a < 128 then of_nat (unat a) # utf8_units r
      else case r of
        [] \<Rightarrow> []
      | b # r1 \<Rightarrow>
          if unat a < 224 then of_nat ((unat a - 192) * 64 + (unat b - 128)) # utf8_units r1
          else (case r1 of
              [] \<Rightarrow> []
            | c # r2 \<Rightarrow> of_nat ((unat a - 224) * 4096 + (unat b - 128) * 64 + (unat c - 128)) # utf8_units r2))"

lemma unat_of_nat_byte: "n < 256 \<Longrightarrow> unat (of_nat n :: byte) = n"
  by (simp add: unsigned_of_nat take_bit_nat_eq_self)

lemma int_bits: "drop_bit 6 (int n) = int (n div 64)" "drop_bit 12 (int n) = int (n div 4096)"
  "int n AND 63 = int (n mod 64)"
proof -
  show "drop_bit 6 (int n) = int (n div 64)" "drop_bit 12 (int n) = int (n div 4096)"
    by (simp_all add: drop_bit_eq_div zdiv_int)
  have "int n AND 63 = take_bit 6 (int n)" by (simp add: take_bit_eq_mask mask_eq_exp_minus_1)
  then show "int n AND 63 = int (n mod 64)" by (simp add: take_bit_eq_mod zmod_int)
qed

lemma encode_bytes:
  "n < 128 \<Longrightarrow> utf8proc_encode_char (int n) = [of_nat n]"
  "128 \<le> n \<Longrightarrow> n < 2048 \<Longrightarrow> utf8proc_encode_char (int n) = [of_nat (192 + n div 64), of_nat (128 + n mod 64)]"
  "2048 \<le> n \<Longrightarrow> n < 65534 \<Longrightarrow> utf8proc_encode_char (int n) =
     [of_nat (224 + n div 4096), of_nat (128 + n div 64 mod 64), of_nat (128 + n mod 64)]"
  by (simp_all add: utf8proc_encode_char_def int_bits)

lemma encode_unit:
  assumes "u \<noteq> 0" "unat (u :: u16) < 65534"
  shows "utf8_units (utf8proc_encode_char (int (unat u)) @ r) = u # utf8_units r"
    "0 \<notin> set (utf8proc_encode_char (int (unat u)))" "length (utf8proc_encode_char (int (unat u))) \<le> 3"
proof -
  define n where "n = unat u"
  have n: "n \<noteq> 0" "n < 65534" "u = of_nat n" using assms by (auto simp: n_def unat_eq_0)
  consider "n < 128" | "128 \<le> n" "n < 2048" | "2048 \<le> n" by linarith
  then have "utf8_units (utf8proc_encode_char (int n) @ r) = u # utf8_units r \<and> 0 \<notin> set (utf8proc_encode_char (int n))
    \<and> length (utf8proc_encode_char (int n)) \<le> 3"
  proof cases
    case 1
    have "of_nat n \<noteq> (0 :: byte)" using n(1) 1 unat_of_nat_byte [of n] by auto
    then show ?thesis using 1 n by (simp add: encode_bytes(1) unat_of_nat_byte)
  next
    case 2
    define a b where "a = n div 64" and "b = n mod 64"
    have ab: "2 \<le> a" "a < 32" "b < 64" "n = a * 64 + b" using 2 by (auto simp: a_def b_def)
    have b: "unat (of_nat (192 + a) :: byte) = 192 + a" "unat (of_nat (128 + b) :: byte) = 128 + b"
      using ab by (simp_all only: unat_of_nat_byte)
    then have "of_nat (192 + a) \<noteq> (0 :: byte)" "of_nat (128 + b) \<noteq> (0 :: byte)" by (metis unat_0 add_is_0 zero_neq_numeral)+
    then show ?thesis unfolding encode_bytes(2) [OF 2] a_def [symmetric] b_def [symmetric]
      using b ab n(3) by (simp del: of_nat_add of_nat_mult)
  next
    case 3
    define a b c where "a = n div 4096" and "b = n div 64 mod 64" and "c = n mod 64"
    have a: "a = n div 64 div 64" by (simp add: a_def div_mult2_eq [symmetric])
    have "n = n div 64 * 64 + c" "n div 64 = a * 64 + b" by (simp_all add: a b_def c_def)
    then have "n = a * 4096 + b * 64 + c" by linarith
    moreover have "b < 64" "c < 64" by (simp_all add: b_def c_def)
    ultimately have abc: "a < 16" "b < 64" "c < 64" "n = a * 4096 + b * 64 + c" using n(2) by linarith+
    have b: "unat (of_nat (224 + a) :: byte) = 224 + a" "unat (of_nat (128 + b) :: byte) = 128 + b" "unat (of_nat (128 + c) :: byte) = 128 + c"
      using abc by (simp_all only: unat_of_nat_byte)
    then have "of_nat (224 + a) \<noteq> (0 :: byte)" "of_nat (128 + b) \<noteq> (0 :: byte)" "of_nat (128 + c) \<noteq> (0 :: byte)"
      by (metis unat_0 add_is_0 zero_neq_numeral)+
    then show ?thesis unfolding encode_bytes(3) [OF 3 n(2)] a_def [symmetric] b_def [symmetric] c_def [symmetric]
      using b abc n(3) by (simp del: of_nat_add of_nat_mult)
  qed
  then show "utf8_units (utf8proc_encode_char (int (unat u)) @ r) = u # utf8_units r"
    "0 \<notin> set (utf8proc_encode_char (int (unat u)))" "length (utf8proc_encode_char (int (unat u))) \<le> 3"
    by (simp_all add: n_def)
qed

definition encode_units :: "u16 list \<Rightarrow> byte list" where
  "encode_units us = concat (map (\<lambda>u. utf8proc_encode_char (int (unat u))) us)"

lemma encode_units_decode:
  assumes "\<forall>u\<in>set us. u \<noteq> 0 \<and> unat u < 65534"
  shows "utf8_units (encode_units us) = us \<and> 0 \<notin> set (encode_units us) \<and> length (encode_units us) \<le> 3 * length us"
  using assms
proof (induction us)
  case (Cons u us)
  then show ?case using encode_unit(1) [of u "encode_units us"] encode_unit(2,3) [of u] by (auto simp: encode_units_def)
qed (simp add: encode_units_def)

lemma copy_text_run:
  assumes "\<forall>u\<in>set us. u \<noteq> 0 \<and> unat u < 65534" "us \<noteq> []" "length us \<le> 5112" "take (length us) t = map Some us"
  shows "copy_text t 0 (int (length us)) = Some (encode_units us)"
proof -
  have l: "length us \<le> length t" using assms(4) by (metis length_map length_take min.cobounded1)
  have step: "ofold (copy_char t 0) [0..int k - 1] [] = Some (encode_units (take k us))" if "k \<le> length us" for k
    using that
  proof (induction k)
    case (Suc k)
    have r: "[0..int (Suc k) - 1] = [0..int k - 1] @ [int k]" using upto_rec2 [of 0 "int k"] by simp
    have "t ! k = Some (us ! k)" using assms(4) Suc.prems by (metis Suc_le_lessD length_map nth_map nth_take)
    then have g: "arr_get t (0 + int k) = Some (Some (us ! k))" using Suc.prems l by simp
    have e: "encode_units (take k us) @ utf8proc_encode_char (int (unat (us ! k))) = encode_units (take (Suc k) us)"
      using Suc.prems by (simp add: encode_units_def take_Suc_conv_app_nth)
    have "\<forall>u\<in>set (take (Suc k) us). u \<noteq> 0 \<and> unat u < 65534" using assms(1) by (meson in_set_takeD)
    then have "length (encode_units (take (Suc k) us)) \<le> 3 * length (take (Suc k) us)" using encode_units_decode by blast
    then have n: "length (encode_units (take (Suc k) us)) + 5 \<le> 20000" using Suc.prems assms(3) by simp
    have "copy_char t 0 (int k) (encode_units (take k us)) = Some (encode_units (take (Suc k) us))"
      unfolding copy_char_def g bind.bind_lunit Let_def e guard_def using n by simp
    then show ?case using Suc unfolding r ofold_append by simp
  qed (simp add: encode_units_def)
  have "0 \<notin> set (encode_units us)" using encode_units_decode [OF assms(1)] by blast
  then have "takeWhile (\<lambda>c. c \<noteq> 0) (encode_units us) = encode_units us" by (metis (mono_tags, lifting) takeWhile_eq_all_conv)
  then show ?thesis using step [of "length us"] assms(2) by (simp add: copy_text_def)
qed



subsection \<open>The mouse\<close>

text \<open>
  a double click into the first word of a row, one with no blank before it, reads the memory
  before the row's text: the start of the word is left at -1.
\<close>

theorem first_word_underflow:
  assumes "env_box env (s\<lparr>select_end_scroll_offset := scroll_offset s\<rparr>) = (x, y, ex, ey)"
    "last_text_point_x s = x" "last_text_point_y s = y" "0 \<le> x"
    "env_region env 0 y (env_cols env) y = Some (text, len)" "len \<noteq> 0"
    "\<forall>n\<le>nat x. n < length text \<and> (\<exists>u. text ! n = Some u \<and> u \<noteq> 32 \<and> u \<noteq> 10)"
  shows "mouse_click env s = None"
proof -
  have "word_left text n = Some (- 1)" if "\<forall>m\<le>n. m < length text \<and> (\<exists>u. text ! m = Some u \<and> u \<noteq> 32 \<and> u \<noteq> 10)" for n
    using that
  proof (induction n)
    case 0
    then obtain u where "0 < length text" "text ! 0 = Some u" "u \<noteq> 32" "u \<noteq> 10" by (meson le_refl)
    then show ?case by (cases "text") simp_all
  next
    case (Suc n)
    then obtain u where u: "Suc n < length text" "text ! Suc n = Some u" "u \<noteq> 32" "u \<noteq> 10" by (meson le_refl)
    have "word_left text n = Some (- 1)" using Suc.prems by (intro Suc.IH) (meson le_SucI)
    with u show ?case by (simp del: of_nat_Suc)
  qed
  then have w: "word_left text (nat x) = Some (- 1)" using assms(7) by blast
  have "copy_text text (- 1) k = None" for k
  proof (cases "k \<le> 0")
    case False
    then have "[0..k - 1] = 0 # [1..k - 1]" using upto_rec1 [of 0 "k - 1"] by simp
    then show ?thesis by (simp add: copy_text_def copy_char_def)
  qed (simp add: copy_text_def guard_def)
  then show ?thesis using assms w by (simp add: mouse_click_def)
qed

definition demo_env :: sel_env where
  "demo_env = \<lparr>env_fw = 8, env_fh = 16, env_cols = 4, env_cell = demo_cell, env_scroll = scroll_static, env_past = Some (text_cell 32)\<rparr>"

theorem first_word_underflow_witness:
  "mouse_click demo_env (sel_static\<lparr>last_text_point_x := 0, last_text_point_y := 0\<rparr>) = None"
proof -
  let ?s = "sel_static\<lparr>last_text_point_x := 0, last_text_point_y := 0\<rparr>"
  have "env_box demo_env (?s\<lparr>select_end_scroll_offset := scroll_offset ?s\<rparr>) = (0, 0, 0, 0)" by code_simp
  moreover have "row_text (text_cell 32) demo_cell 4 0 0 4 = [72]" by code_simp
  then obtain t where "env_region demo_env 0 0 (env_cols demo_env) 0 = Some (t, 1)" "length t = 5120" "take 1 t = [Some 72]"
    using region_one_row_run [of 0 0 4 4 "text_cell 32" demo_cell scroll_static] by (auto simp: env_region_def demo_env_def)
  moreover from this have "t ! 0 = Some 72" by (cases t) auto
  ultimately show ?thesis using first_word_underflow [of demo_env ?s 0 0 0 0 t 1] by (simp add: sel_static_def)
qed

text \<open>
  the box of a drag. Dragging right inside one row of cells selects that row from the cell
  pressed to one beyond the cell released in; but if the pointer ends at exactly the height it
  started from, off the cell border, the row below is selected too.
\<close>

theorem select_box_cases:
  assumes "0 < fw" "0 < fh" "sx div fw < ex div fw" "ex mod fw \<noteq> 0" "sy div fh = ey div fh" "sy mod fh \<noteq> 0"
  shows "mouse_to_select_box fw fh sx sy so ex ey so =
    (if sy < ey then (sx div fw, sy div fh - so, ex div fw + 2, sy div fh - so)
     else if sy = ey then (sx div fw, sy div fh - so, ex div fw + 1, sy div fh - so + 1)
     else if ey mod fh = 0 then (sx div fw, sy div fh - so, ex div fw, sy div fh - so - 1)
     else (sx div fw, sy div fh - so, if ex div fw > sx div fw then ex div fw + 1 else ex div fw, sy div fh - so))"
proof -
  have c: "- ((- a) div d) = a div d + (if a mod d = 0 then 0 else 1)" if "0 < d" for a d :: int
    using that by (simp add: zdiv_zminus1_eq_if)
  have "sy < ey \<Longrightarrow> ey mod fh \<noteq> 0"
  proof
    assume "sy < ey" "ey mod fh = 0"
    then have "ey = ey div fh * fh" by (metis div_mult_mod_eq add_0_right)
    then have "ey = sy - sy mod fh" using assms(5) by (metis minus_mod_eq_div_mult)
    then show False using \<open>sy < ey\<close> pos_mod_sign [OF assms(2), of sy] by linarith
  qed
  then show ?thesis using assms unfolding mouse_to_select_box_def c [OF assms(1)] c [OF assms(2)]
    by (auto simp: Let_def)
qed

theorem select_box_cases_witness: "mouse_to_select_box 8 16 3 20 0 30 20 0 = (0, 1, 4, 2)"
  using select_box_cases [of 8 16 3 30 20 20 0] by simp

lemma mouse_offset_run:
  assumes "process_mouse_event env ev s = Some s'" "0 \<le> scroll_offset s"
  shows "0 \<le> scroll_offset s' \<and> (case ev of
      MouseWheel y \<Rightarrow> scroll_offset s' = (if y > 0 then scroll_offset s + 1 else max 0 (scroll_offset s - 1))
    | _ \<Rightarrow> scroll_offset s' = scroll_offset s)"
proof (cases ev)
  case (MouseButtonUp x y)
  have "scroll_offset s1 = scroll_offset s0" if "mouse_click env s0 = Some s1" for s0 s1
    using that unfolding mouse_click_def Let_def redraw_required_def
    by (auto split: prod.splits if_splits bind_splits)
  moreover have "scroll_offset s1 = scroll_offset s0" if "mouse_drag_end env s0 = Some s1" for s0 s1
    using that unfolding mouse_drag_end_def Let_def redraw_required_def
    by (auto split: prod.splits bind_splits)
  ultimately show ?thesis using assms MouseButtonUp by (fastforce simp: Let_def split: if_splits)
next
  case (MouseMotion x y)
  then show ?thesis using assms by (auto simp: redraw_required_def Let_def split: if_splits prod.splits)
qed (use assms in \<open>auto simp: redraw_required_def Let_def split: if_splits\<close>)

text \<open>
  the scroll offset is never negative, and no mouse event makes it so; only the wheel changes it,
  by one line.
\<close>

theorem mouse_scroll_offset:
  assumes "process_mouse_event env ev s = Some s'" "0 \<le> scroll_offset s"
  shows "0 \<le> scroll_offset s' \<and> (case ev of
      MouseWheel y \<Rightarrow> scroll_offset s' = (if y > 0 then scroll_offset s + 1 else max 0 (scroll_offset s - 1))
    | _ \<Rightarrow> scroll_offset s' = scroll_offset s)"
  by (rule mouse_offset_run [OF assms])

theorem mouse_scroll_offset_witness:
  "\<exists>s'. process_mouse_event demo_env (MouseWheel (- 1)) sel_static = Some s' \<and> scroll_offset s' = 0"
proof -
  obtain s' where "process_mouse_event demo_env (MouseWheel (- 1)) sel_static = Some s'" by (simp add: Let_def)
  with mouse_scroll_offset [OF this] show ?thesis by (simp add: sel_static_def)
qed

end
