(* ===== verification/Widgets.thy ===== *)
theory Widgets
  imports Nsdl
begin

section \<open>The widget tables (ngui_textbox.c, ngui_textlabel.c, ngui_stringselect.c)\<close>

text \<open>
  Every kind of widget lives in a static array of 50 slots and a counter of the slots handed out.
  Slots are never reused: an id is the index of its slot, deleting clears \<open>valid\<close>. Nothing checks
  the counter, so the 51st widget is a store outside the array (\<^const>\<open>None\<close>).

  What a widget does to the rest of the program is output: the callbacks it calls, with their
  argument, and the requests to redraw. A callback is a value of the type \<open>'cb\<close> of function pointers,
  and \<open>NULL\<close> is \<^const>\<open>None\<close>; calling \<open>NULL\<close> is undefined.
\<close>

subsection \<open>Events and actions\<close>

datatype sdl_event =
    SDL_MOUSEBUTTONDOWN int int
  | SDL_MOUSEBUTTONUP int int
  | SDL_MOUSEMOTION int int
  | SDL_MOUSEWHEEL int
  | SDL_KEYDOWN int int u32
  | SDL_KEYUP int
  | SDL_TEXTINPUT "byte list"
  | SDL_WINDOWEVENT int int int
  | SDL_QUIT
  | SDL_OTHEREVENT

text \<open>
  The arguments: the mouse position; the wheel's \<open>y\<close>; scancode, key symbol and \<open>unicode\<close> of a key;
  the 32-byte array of a text input; kind and data of a window event.
\<close>

datatype 'cb ui_act = UiCall 'cb "byte list" | UiRedraw

subsection \<open>Tables\<close>

record 'w table =
  tab_size :: int
  tab_slots :: "'w list"

definition table_get :: "'w table \<Rightarrow> int \<Rightarrow> 'w option" where
  "table_get t i = arr_get (tab_slots t) i"

definition table_put :: "'w table \<Rightarrow> int \<Rightarrow> 'w \<Rightarrow> 'w table option" where
  "table_put t i w = do { sl \<leftarrow> arr_set (tab_slots t) i w; Some (t\<lparr>tab_slots := sl\<rparr>) }"

text \<open>\<open>for(n=0; n<size; n++) if(slots[n].valid) f(&slots[n])\<close>, the loop of every table.\<close>

definition each_valid :: "('w \<Rightarrow> bool) \<Rightarrow> ('w \<Rightarrow> ('w \<times> 'a list) option) \<Rightarrow> 'w table \<Rightarrow> ('w table \<times> 'a list) option" where
  "each_valid valid f t = ofold (\<lambda>n (t, out). do {
       d \<leftarrow> table_get t n;
       if valid d then do {
         (d', out') \<leftarrow> f d;
         t' \<leftarrow> table_put t n d';
         Some (t', out @ out') }
       else Some (t, out) }) [0..tab_size t - 1] (t, [])"

definition table_ok :: "('w \<Rightarrow> bool) \<Rightarrow> 'w table \<Rightarrow> bool" where
  "table_ok wok t \<longleftrightarrow> 0 \<le> tab_size t \<and> tab_size t \<le> 50 \<and> length (tab_slots t) = 50 \<and> (\<forall>w\<in>set (tab_slots t). wok w)"

definition live :: "'w table \<Rightarrow> 'w list" where
  "live t = take (nat (tab_size t)) (tab_slots t)"

text \<open>The same loop on the list of the slots handed out.\<close>

fun step_all :: "('w \<Rightarrow> bool) \<Rightarrow> ('w \<Rightarrow> ('w \<times> 'a list) option) \<Rightarrow> 'w list \<Rightarrow> ('w list \<times> 'a list) option" where
  "step_all valid f [] = Some ([], [])"
| "step_all valid f (w # ws) = do {
     (w', o1) \<leftarrow> (if valid w then f w else Some (w, []));
     (ws', o2) \<leftarrow> step_all valid f ws;
     Some (w' # ws', o1 @ o2) }"

lemma upto_nat_Cons: "i < j \<Longrightarrow> [i..j - 1] = i # [i + 1..j - 1]" for i j :: int
  using upto_rec1 [of i "j - 1"] by simp

lemma each_loop:
  "ofold (\<lambda>n (t, out). do {
       d \<leftarrow> table_get t n;
       if valid d then do { (d', out') \<leftarrow> f d; t' \<leftarrow> table_put t n d'; Some (t', out @ out') }
       else Some (t, out) }) [int (length pre)..int (length pre + length ws) - 1]
     (t\<lparr>tab_slots := pre @ ws @ post\<rparr>, out)
   = do { (ws', out') \<leftarrow> step_all valid f ws; Some (t\<lparr>tab_slots := pre @ ws' @ post\<rparr>, out @ out') }"
proof (induction ws arbitrary: pre out)
  case (Cons w ws)
  have e: "[int (length pre)..int (length pre + length (w # ws)) - 1]
      = int (length pre) # [int (length (pre @ [w'])).. int (length (pre @ [w']) + length ws) - 1]" for w'
    using upto_nat_Cons [of "int (length pre)" "int (length pre + length (w # ws))"] by (simp add: add.commute)
  have g: "arr_get (pre @ w # ws @ post) (int (length pre)) = Some w"
    "arr_set (pre @ w # ws @ post) (int (length pre)) w' = Some (pre @ w' # ws @ post)" for w'
    by (simp_all add: arr_set_def)
  show ?case
  proof (cases "valid w")
    case True
    show ?thesis
    proof (cases "f w")
      case None
      then show ?thesis using True by (simp only: e [of w]) (simp add: g table_get_def)
    next
      case (Some r)
      obtain w' o1 where r: "r = (w', o1)" by (cases r)
      from Cons.IH [of "pre @ [w']" "out @ o1"] show ?thesis using True Some r
        by (simp only: e [of w']) (simp add: g table_get_def table_put_def split: prod.splits bind_splits)
    qed
  next
    case False
    from Cons.IH [of "pre @ [w]" out] show ?thesis using False
      by (simp only: e [of w]) (simp add: g table_get_def split: prod.splits bind_splits)
  qed
qed simp

lemma each_valid_step:
  assumes "0 \<le> tab_size t" "tab_size t \<le> int (length (tab_slots t))"
  shows "each_valid valid f t =
    do { (ws, out) \<leftarrow> step_all valid f (live t); Some (t\<lparr>tab_slots := ws @ drop (nat (tab_size t)) (tab_slots t)\<rparr>, out) }"
proof -
  have "int (length (live t)) = tab_size t" using assms by (simp add: live_def)
  with each_loop [where t = t and valid = valid and f = f and pre = "[]" and ws = "live t"
      and post = "drop (nat (tab_size t)) (tab_slots t)" and out = "[]"]
  show ?thesis by (simp add: each_valid_def live_def)
qed

lemma step_all_length: "step_all valid f ws = Some (ws', out) \<Longrightarrow> length ws' = length ws"
  by (induction ws arbitrary: ws' out) (auto split: bind_splits prod.splits if_splits)

subsection \<open>The contract of a widget\<close>

text \<open>
  What the tables rely on: a handler leaves the widget well formed and does not change whether it is
  in use, and a deleted widget is not in use. In exchange, a loop over the table keeps the table well
  formed and reaches exactly the widgets in use.
\<close>

locale widget_kind =
  fixes valid :: "'w \<Rightarrow> bool" and wok :: "'w \<Rightarrow> bool" and kill :: "'w \<Rightarrow> 'w"
    and handle :: "'e \<Rightarrow> 'w \<Rightarrow> ('w \<times> 'a list) option"
  assumes kill_invalid: "\<not> valid (kill w)"
    and kill_ok: "wok w \<Longrightarrow> wok (kill w)"
    and handle_keeps: "wok w \<Longrightarrow> handle e w = Some (w', as) \<Longrightarrow> wok w' \<and> valid w' = valid w"
begin

lemma step_all_keeps:
  "\<forall>w\<in>set ws. wok w \<Longrightarrow> step_all valid (handle e) ws = Some (ws', as) \<Longrightarrow>
     (\<forall>w\<in>set ws'. wok w) \<and> map valid ws' = map valid ws"
  by (induction ws arbitrary: ws' as) (auto split: bind_splits prod.splits if_splits dest: handle_keeps)

lemma each_keeps:
  assumes "table_ok wok t" "each_valid valid (handle e) t = Some (t', as)"
  shows "table_ok wok t' \<and> tab_size t' = tab_size t \<and> map valid (tab_slots t') = map valid (tab_slots t)"
proof -
  from assms(1) have b: "0 \<le> tab_size t" "tab_size t \<le> int (length (tab_slots t))" by (simp_all add: table_ok_def)
  from assms(2) obtain ws where ws: "step_all valid (handle e) (live t) = Some (ws, as)"
    "t' = t\<lparr>tab_slots := ws @ drop (nat (tab_size t)) (tab_slots t)\<rparr>"
    unfolding each_valid_step [OF b] by (auto split: bind_splits)
  have ok: "\<forall>w\<in>set (live t). wok w" "\<forall>w\<in>set (drop (nat (tab_size t)) (tab_slots t)). wok w"
    using assms(1) by (auto simp: table_ok_def live_def dest: in_set_takeD in_set_dropD)
  from step_all_keeps [OF ok(1) ws(1)]
  have s: "\<forall>w\<in>set ws. wok w" "map valid ws = map valid (live t)" by simp_all
  have "map valid (tab_slots t') = map valid (live t @ drop (nat (tab_size t)) (tab_slots t))"
    using s(2) by (simp add: ws(2))
  then have "map valid (tab_slots t') = map valid (tab_slots t)" by (simp add: live_def)
  moreover have "length (tab_slots t') = length (tab_slots t)" using calculation by (metis length_map)
  ultimately show ?thesis using assms(1) s(1) ok(2) by (auto simp: table_ok_def ws(2))
qed

text \<open>A slot that is not in use is not touched, and contributes nothing.\<close>

lemma step_all_nth:
  "step_all valid (handle e) ws = Some (ws', as) \<Longrightarrow> i < length ws \<Longrightarrow>
     (if valid (ws ! i) then \<exists>a. handle e (ws ! i) = Some (ws' ! i, a) \<and> set a \<subseteq> set as else ws' ! i = ws ! i)"
proof (induction ws arbitrary: ws' as i)
  case (Cons w ws)
  then obtain w1 o1 ws1 o2 where e: "(if valid w then handle e w else Some (w, [])) = Some (w1, o1)"
    "step_all valid (handle e) ws = Some (ws1, o2)" "ws' = w1 # ws1" "as = o1 @ o2"
    by (auto split: bind_splits prod.splits)
  show ?case
  proof (cases i)
    case 0
    then show ?thesis using e by (auto split: if_splits)
  next
    case (Suc j)
    with Cons.prems have "j < length ws" by simp
    from Cons.IH [OF e(2) this] e Suc show ?thesis by (auto split: if_splits)
  qed
qed simp

end

text \<open>A widget whose handler has no undefined behaviour: then neither has the loop.\<close>

locale total_widget_kind = widget_kind +
  assumes handle_total: "wok w \<Longrightarrow> valid w \<Longrightarrow> \<exists>w' as. handle e w = Some (w', as)"
begin

lemma step_all_total:
  "\<forall>w\<in>set ws. wok w \<Longrightarrow> \<exists>ws' as. step_all valid (handle e) ws = Some (ws', as)
      \<and> ws' = map (\<lambda>w. if valid w then fst (the (handle e w)) else w) ws
      \<and> as = concat (map (\<lambda>w. if valid w then snd (the (handle e w)) else []) ws)"
proof (induction ws)
  case (Cons w ws)
  then obtain ws' as where "step_all valid (handle e) ws = Some (ws', as)"
    "ws' = map (\<lambda>w. if valid w then fst (the (handle e w)) else w) ws"
    "as = concat (map (\<lambda>w. if valid w then snd (the (handle e w)) else []) ws)" by auto
  moreover have "valid w \<longrightarrow> (\<exists>w' a. handle e w = Some (w', a))" using handle_total [of w e] Cons.prems by auto
  ultimately show ?case by (cases "valid w") auto
qed simp

lemma each_total:
  assumes "table_ok wok t"
  shows "\<exists>t' as. each_valid valid (handle e) t = Some (t', as) \<and> table_ok wok t' \<and> tab_size t' = tab_size t
    \<and> live t' = map (\<lambda>w. if valid w then fst (the (handle e w)) else w) (live t)
    \<and> as = concat (map (\<lambda>w. if valid w then snd (the (handle e w)) else []) (live t))"
proof -
  from assms have b: "0 \<le> tab_size t" "tab_size t \<le> int (length (tab_slots t))" by (simp_all add: table_ok_def)
  have "\<forall>w\<in>set (live t). wok w" using assms by (auto simp: table_ok_def live_def dest: in_set_takeD)
  from step_all_total [OF this, of e] obtain ws as where ws: "step_all valid (handle e) (live t) = Some (ws, as)"
    "ws = map (\<lambda>w. if valid w then fst (the (handle e w)) else w) (live t)"
    "as = concat (map (\<lambda>w. if valid w then snd (the (handle e w)) else []) (live t))" by blast
  define t' where "t' = t\<lparr>tab_slots := ws @ drop (nat (tab_size t)) (tab_slots t)\<rparr>"
  have r: "each_valid valid (handle e) t = Some (t', as)" using ws(1) unfolding each_valid_step [OF b] t'_def by simp
  have k: "table_ok wok t'" "tab_size t' = tab_size t" using each_keeps [OF assms r] by simp_all
  have "length (live t) = nat (tab_size t)" using b by (simp add: live_def)
  then have "live t' = ws" using ws(2) by (simp add: live_def t'_def)
  with r k ws(2,3) show ?thesis by blast
qed

end

end
