(* ===== verification/TextWidgets.thy ===== *)
theory TextWidgets
  imports Widgets
begin

section \<open>Text boxes, labels and string lists (ngui_textbox.c, ngui_textlabel.c, ngui_stringselect.c)\<close>

text \<open>
  The widgets that only show or edit text. \<open>char\<close> is signed, so a character above 127 widens to a
  16-bit value with its upper byte set. Where an expression mixes an \<open>int\<close> with \<open>strlen\<close>, C converts it
  to the 64-bit \<open>size_t\<close>: \<open>size_less\<close> is that comparison.
\<close>

definition size_less :: "int \<Rightarrow> int \<Rightarrow> bool" where
  "size_less a b \<longleftrightarrow> a mod 2 ^ 64 < b mod 2 ^ 64"

lemma size_less_nonneg: "0 \<le> a \<Longrightarrow> a < 2 ^ 64 \<Longrightarrow> 0 \<le> b \<Longrightarrow> b < 2 ^ 64 \<Longrightarrow> size_less a b \<longleftrightarrow> a < b"
  by (simp add: size_less_def)

definition widen :: "byte list \<Rightarrow> u16 list" where
  "widen cs = map scast cs"

definition SDLK_BACKSPACE :: int where "SDLK_BACKSPACE = 8"

subsection \<open>Text boxes\<close>

record 'cb textbox =
  tb_valid :: bool
  tb_x :: int
  tb_y :: int
  tb_passwordbox :: bool
  tb_x_padding :: int
  tb_y_padding :: int
  tb_width :: int
  tb_selected :: bool
  tb_text :: "byte list"
  tb_callback :: "'cb option"

text \<open>The static array before any text box is added: all zero.\<close>

definition textbox_zero :: "'cb textbox" where
  "textbox_zero = \<lparr>tb_valid = False, tb_x = 0, tb_y = 0, tb_passwordbox = False, tb_x_padding = 0, tb_y_padding = 0,
     tb_width = 0, tb_selected = False, tb_text = replicate 100 0, tb_callback = None\<rparr>"

definition ngui_textboxs :: "'cb textbox table" where
  "ngui_textboxs = \<lparr>tab_size = 0, tab_slots = replicate 50 textbox_zero\<rparr>"

definition textbox_redraw :: "'cb textbox \<Rightarrow> 'cb ui_act list" where
  "textbox_redraw d = (case tb_callback d of None \<Rightarrow> [] | Some f \<Rightarrow> [UiCall f (ascii ''redraw'')])"

definition textbox_mouse :: "int \<Rightarrow> int \<Rightarrow> 'cb textbox \<Rightarrow> 'cb textbox \<times> 'cb ui_act list" where
  "textbox_mouse x y d =
     (if x > tb_x d - tb_x_padding d \<and> x < tb_x d + tb_width d * 8 + tb_x_padding d
         \<and> y > tb_y d - tb_y_padding d \<and> y < tb_y d + 16 + tb_y_padding d
      then (d\<lparr>tb_selected := True\<rparr>, textbox_redraw d)
      else (d\<lparr>tb_selected := False\<rparr>, textbox_redraw d))"

text \<open>
  The key press of a selected box: the search for the end of the text stops after 100 characters, and
  the character and a NUL are stored behind it.
\<close>

definition textbox_key :: "int \<Rightarrow> u32 \<Rightarrow> 'cb textbox \<Rightarrow> ('cb textbox \<times> 'cb ui_act list) option" where
  "textbox_key key_sym unicode d =
     (if key_sym = SDLK_BACKSPACE then do {
        s \<leftarrow> cstr (tb_text d);
        let p = int (length s);
        t \<leftarrow> (if p > 0 then arr_set (tb_text d) (p - 1) 0 else Some (tb_text d));
        Some (d\<lparr>tb_text := t\<rparr>, textbox_redraw d) }
      else do {
        let p = int (length (takeWhile (\<lambda>c. c \<noteq> 0) (take 100 (tb_text d))));
        t1 \<leftarrow> arr_set (tb_text d) p (ucast unicode);
        t2 \<leftarrow> arr_set t1 (p + 1) 0;
        Some (d\<lparr>tb_text := t2\<rparr>, textbox_redraw d) })"

definition ngui_receive_event_textbox :: "sdl_event \<Rightarrow> 'cb textbox \<Rightarrow> ('cb textbox \<times> 'cb ui_act list) option" where
  "ngui_receive_event_textbox event d = do {
     let (d1, o1) = (case event of SDL_MOUSEBUTTONDOWN x y \<Rightarrow> textbox_mouse x y d | _ \<Rightarrow> (d, []));
     (d2, o2) \<leftarrow> (if tb_selected d1
         then (case event of SDL_KEYDOWN scancode key_sym unicode \<Rightarrow> textbox_key key_sym unicode d1 | _ \<Rightarrow> Some (d1, []))
         else Some (d1, []));
     Some (d2, o1 @ o2) }"

definition ngui_render_textbox :: "'cb textbox \<Rightarrow> render_cmd list" where
  "ngui_render_textbox d =
     (let text0 = widen (tb_text d);
          text1 = (if tb_passwordbox d = False then text0 else map (\<lambda>c. if c \<noteq> 0 then 42 else c) text0)
      in [RenderDrawText (tb_x d) (tb_y d) text1 0 65535 0 0 0 0])"

definition ngui_delete_textbox :: "int \<Rightarrow> 'cb textbox table \<Rightarrow> 'cb textbox table option" where
  "ngui_delete_textbox i t = do { d \<leftarrow> table_get t i; table_put t i (d\<lparr>tb_valid := False\<rparr>) }"

definition ngui_add_textbox :: "int \<Rightarrow> int \<Rightarrow> byte list \<Rightarrow> bool \<Rightarrow> 'cb option \<Rightarrow> 'cb textbox table \<Rightarrow> ('cb textbox table \<times> int) option" where
  "ngui_add_textbox x y s passwordbox callback t = do {
     d \<leftarrow> table_get t (tab_size t);
     s' \<leftarrow> c_strcpy (tb_text d) s;
     t' \<leftarrow> table_put t (tab_size t) (d\<lparr>tb_valid := True, tb_x := x, tb_y := y, tb_passwordbox := passwordbox,
              tb_x_padding := 10, tb_y_padding := 10, tb_width := 8 * 20, tb_text := s', tb_callback := callback\<rparr>);
     let t'' = t'\<lparr>tab_size := tab_size t' + 1\<rparr>;
     Some (t'', tab_size t'' - 1) }"

definition ngui_receiveall_textbox :: "sdl_event \<Rightarrow> 'cb textbox table \<Rightarrow> ('cb textbox table \<times> 'cb ui_act list) option" where
  "ngui_receiveall_textbox event t = each_valid tb_valid (ngui_receive_event_textbox event) t"

definition ngui_renderall_textbox :: "'cb textbox table \<Rightarrow> ('cb textbox table \<times> render_cmd list) option" where
  "ngui_renderall_textbox t = each_valid tb_valid (\<lambda>d. Some (d, ngui_render_textbox d)) t"

definition ngui_textbox_get_value :: "int \<Rightarrow> 'cb textbox table \<Rightarrow> byte list option" where
  "ngui_textbox_get_value i t = do { d \<leftarrow> table_get t i; Some (tb_text d) }"

subsection \<open>Labels\<close>

record textlabel =
  tl_valid :: bool
  tl_x :: int
  tl_y :: int
  tl_text :: "byte list"

definition textlabel_zero :: textlabel where
  "textlabel_zero = \<lparr>tl_valid = False, tl_x = 0, tl_y = 0, tl_text = replicate 100 0\<rparr>"

definition ngui_textlabels :: "textlabel table" where
  "ngui_textlabels = \<lparr>tab_size = 0, tab_slots = replicate 50 textlabel_zero\<rparr>"

definition ngui_receive_event_textlabel :: "sdl_event \<Rightarrow> textlabel \<Rightarrow> (textlabel \<times> 'cb ui_act list) option" where
  "ngui_receive_event_textlabel event d = Some (d, [])"

definition ngui_render_textlabel :: "textlabel \<Rightarrow> render_cmd list" where
  "ngui_render_textlabel d = [RenderDrawText (tl_x d) (tl_y d) (widen (tl_text d)) 1 65535 0 0 0 0]"

definition ngui_add_textlabel :: "int \<Rightarrow> int \<Rightarrow> byte list \<Rightarrow> textlabel table \<Rightarrow> (textlabel table \<times> int) option" where
  "ngui_add_textlabel x y s t = do {
     d \<leftarrow> table_get t (tab_size t);
     s' \<leftarrow> c_strcpy (tl_text d) s;
     t' \<leftarrow> table_put t (tab_size t) (d\<lparr>tl_valid := True, tl_x := x, tl_y := y, tl_text := s'\<rparr>);
     let t'' = t'\<lparr>tab_size := tab_size t' + 1\<rparr>;
     Some (t'', tab_size t'' - 1) }"

definition ngui_delete_textlabel :: "int \<Rightarrow> textlabel table \<Rightarrow> textlabel table option" where
  "ngui_delete_textlabel i t = do { d \<leftarrow> table_get t i; table_put t i (d\<lparr>tl_valid := False\<rparr>) }"

definition ngui_receiveall_textlabel :: "sdl_event \<Rightarrow> textlabel table \<Rightarrow> (textlabel table \<times> 'cb ui_act list) option" where
  "ngui_receiveall_textlabel event t = each_valid tl_valid (ngui_receive_event_textlabel event) t"

definition ngui_renderall_textlabel :: "textlabel table \<Rightarrow> (textlabel table \<times> render_cmd list) option" where
  "ngui_renderall_textlabel t = each_valid tl_valid (\<lambda>d. Some (d, ngui_render_textlabel d)) t"

subsection \<open>String lists\<close>

text \<open>
  \<open>stringlist\<close> points to an array of strings that ends with a null pointer (\<^const>\<open>None\<close>); an array
  without one is read past its end. A string is the text of a \<open>char *\<close>.
\<close>

record 'cb stringselect =
  ss_valid :: bool
  ss_x :: int
  ss_y :: int
  ss_x_padding :: int
  ss_y_padding :: int
  ss_shine :: int
  ss_stringlist :: "byte list option list"
  ss_callback :: "'cb option"

definition stringselect_zero :: "'cb stringselect" where
  "stringselect_zero = \<lparr>ss_valid = False, ss_x = 0, ss_y = 0, ss_x_padding = 0, ss_y_padding = 0, ss_shine = 0,
     ss_stringlist = [], ss_callback = None\<rparr>"

definition ngui_stringselects :: "'cb stringselect table" where
  "ngui_stringselects = \<lparr>tab_size = 0, tab_slots = replicate 50 stringselect_zero\<rparr>"

definition stringselect_hit :: "int \<Rightarrow> int \<Rightarrow> int \<Rightarrow> byte list \<Rightarrow> 'cb stringselect \<Rightarrow> bool" where
  "stringselect_hit x y cyoff s d \<longleftrightarrow>
     x > ss_x d - ss_x_padding d \<and> size_less x (ss_x d + int (length s) * 8 + ss_x_padding d)
     \<and> y > ss_y d + cyoff - ss_y_padding d \<and> y < ss_y d + cyoff + 16 + ss_y_padding d"

text \<open>The loops over the strings from index \<open>n\<close> on.\<close>

fun stringselect_click :: "int \<Rightarrow> int \<Rightarrow> nat \<Rightarrow> byte list option list \<Rightarrow> 'cb stringselect
    \<Rightarrow> ('cb stringselect \<times> 'cb ui_act list) option" where
  "stringselect_click x y n [] d = None"
| "stringselect_click x y n (None # ss) d = Some (d, [])"
| "stringselect_click x y n (Some s # ss) d = do {
     let cyoff = int n * (32 + ss_y_padding d);
     (d1, o1) \<leftarrow> (if stringselect_hit x y cyoff s d
        then do { f \<leftarrow> ss_callback d; Some (d\<lparr>ss_shine := 20\<rparr>, [UiCall f s, UiRedraw]) }
        else Some (d, []));
     (d2, o2) \<leftarrow> stringselect_click x y (Suc n) ss d1;
     Some (d2, o1 @ o2) }"

definition ngui_receive_event_stringselect :: "sdl_event \<Rightarrow> 'cb stringselect \<Rightarrow> ('cb stringselect \<times> 'cb ui_act list) option" where
  "ngui_receive_event_stringselect event d =
     (case event of SDL_MOUSEBUTTONDOWN x y \<Rightarrow> stringselect_click x y 0 (ss_stringlist d) d | _ \<Rightarrow> Some (d, []))"

text \<open>
  The local array of 1000 characters: an empty string leaves it uninitialised, and one of 1000 or more
  is written past its end.
\<close>

definition stringselect_utext :: "byte list \<Rightarrow> u16 list option" where
  "stringselect_utext s = do { guard (s \<noteq> [] \<and> length s < 1000); Some (widen s @ [0]) }"

fun stringselect_rows :: "nat \<Rightarrow> byte list option list \<Rightarrow> 'cb stringselect \<Rightarrow> render_cmd list option" where
  "stringselect_rows n [] d = None"
| "stringselect_rows n (None # ss) d = Some []"
| "stringselect_rows n (Some s # ss) d = do {
     let cyoff = int n * (32 + ss_y_padding d);
     utext \<leftarrow> stringselect_utext s;
     cmds \<leftarrow> stringselect_rows (Suc n) ss d;
     Some ([SetRenderDrawColor 255 255 255 255,
            RenderDrawRect (ss_x d - ss_x_padding d) (ss_y d - ss_y_padding d + cyoff)
              (int (length s) * 8 + ss_x_padding d * 2) (16 + ss_y_padding d),
            RenderDrawText (ss_x d) (ss_y d + cyoff) utext 0 65535 0 0 0 0] @ cmds) }"

definition ngui_render_stringselect :: "'cb stringselect \<Rightarrow> render_cmd list option" where
  "ngui_render_stringselect d = stringselect_rows 0 (ss_stringlist d) d"

definition ngui_add_stringselect :: "int \<Rightarrow> int \<Rightarrow> byte list option list \<Rightarrow> 'cb option \<Rightarrow> 'cb stringselect table
    \<Rightarrow> ('cb stringselect table \<times> int) option" where
  "ngui_add_stringselect x y stringlist callback t = do {
     d \<leftarrow> table_get t (tab_size t);
     t' \<leftarrow> table_put t (tab_size t) (d\<lparr>ss_valid := True, ss_x := x, ss_y := y, ss_x_padding := 20, ss_y_padding := 20,
              ss_shine := 0, ss_stringlist := stringlist, ss_callback := callback\<rparr>);
     let t'' = t'\<lparr>tab_size := tab_size t' + 1\<rparr>;
     Some (t'', tab_size t'' - 1) }"

definition ngui_delete_stringselect :: "int \<Rightarrow> 'cb stringselect table \<Rightarrow> 'cb stringselect table option" where
  "ngui_delete_stringselect i t = do { d \<leftarrow> table_get t i; table_put t i (d\<lparr>ss_valid := False\<rparr>) }"

definition ngui_receiveall_stringselect :: "sdl_event \<Rightarrow> 'cb stringselect table \<Rightarrow> ('cb stringselect table \<times> 'cb ui_act list) option" where
  "ngui_receiveall_stringselect event t = each_valid ss_valid (ngui_receive_event_stringselect event) t"

definition ngui_renderall_stringselect :: "'cb stringselect table \<Rightarrow> ('cb stringselect table \<times> render_cmd list) option" where
  "ngui_renderall_stringselect t =
     each_valid ss_valid (\<lambda>d. do { cmds \<leftarrow> ngui_render_stringselect d; Some (d, cmds) }) t"


subsection \<open>The contracts\<close>

definition textbox_ok :: "'cb textbox \<Rightarrow> bool" where
  "textbox_ok d \<longleftrightarrow> length (tb_text d) = 100 \<and> 0 \<in> set (tb_text d)"

definition textlabel_ok :: "textlabel \<Rightarrow> bool" where
  "textlabel_ok d \<longleftrightarrow> length (tl_text d) = 100"

definition stringselect_ok :: "'cb stringselect \<Rightarrow> bool" where
  "stringselect_ok d \<longleftrightarrow> (ss_valid d \<longrightarrow> None \<in> set (ss_stringlist d) \<and> ss_callback d \<noteq> None)"

lemma kill_ok [simp]:
  "textbox_ok (d\<lparr>tb_valid := v\<rparr>) = textbox_ok d" "textlabel_ok (l\<lparr>tl_valid := v\<rparr>) = textlabel_ok l"
  by (simp_all add: textbox_ok_def textlabel_ok_def)

lemma textbox_mouse_frame:
  "textbox_mouse x y d = (d', as) \<Longrightarrow> tb_text d' = tb_text d \<and> tb_valid d' = tb_valid d"
  by (auto simp: textbox_mouse_def split: if_splits)

lemma textbox_key_keeps:
  assumes "textbox_ok d" "textbox_key k u d = Some (d', as)"
  shows "textbox_ok d' \<and> tb_valid d' = tb_valid d"
proof (cases "k = SDLK_BACKSPACE")
  case True
  then show ?thesis using assms
    by (auto simp: textbox_key_def textbox_ok_def cstr_def split: if_splits bind_splits dest!: arr_set_SomeD
        intro: set_update_same)
next
  case False
  then obtain p t1 t2 where t: "arr_set (tb_text d) p (ucast u) = Some t1" "arr_set t1 (p + 1) 0 = Some t2"
    "d' = d\<lparr>tb_text := t2\<rparr>" using assms(2) by (auto simp: textbox_key_def Let_def split: bind_splits)
  then show ?thesis using assms(1) arr_set_length [OF t(1)]
    by (auto simp: textbox_ok_def dest!: arr_set_SomeD intro: set_update_memI)
qed

lemma textbox_event_keeps:
  assumes "textbox_ok d" "ngui_receive_event_textbox e d = Some (d', as)"
  shows "textbox_ok d' \<and> tb_valid d' = tb_valid d"
proof -
  obtain d1 o1 where m: "(case e of SDL_MOUSEBUTTONDOWN x y \<Rightarrow> textbox_mouse x y d | _ \<Rightarrow> (d, [])) = (d1, o1)"
    by (metis surj_pair)
  then have d1: "textbox_ok d1" "tb_valid d1 = tb_valid d"
    using assms(1) by (auto simp: textbox_ok_def split: sdl_event.splits dest: textbox_mouse_frame)
  from assms(2) obtain o2 where "(if tb_selected d1
         then (case e of SDL_KEYDOWN scancode k u \<Rightarrow> textbox_key k u d1 | _ \<Rightarrow> Some (d1, []))
         else Some (d1, [])) = Some (d', o2)"
    unfolding ngui_receive_event_textbox_def m by (auto split: bind_splits)
  then show ?thesis using d1 by (auto split: if_splits sdl_event.splits dest: textbox_key_keeps)
qed

interpretation textbox_events: widget_kind tb_valid textbox_ok "\<lambda>d. d\<lparr>tb_valid := False\<rparr>" ngui_receive_event_textbox
  by unfold_locales (auto dest: textbox_event_keeps)

interpretation textbox_render: total_widget_kind tb_valid textbox_ok "\<lambda>d. d\<lparr>tb_valid := False\<rparr>"
    "\<lambda>(_::unit) d. Some (d, ngui_render_textbox d)"
  by unfold_locales auto

interpretation textlabel_events: total_widget_kind tl_valid textlabel_ok "\<lambda>d. d\<lparr>tl_valid := False\<rparr>"
    ngui_receive_event_textlabel
  by unfold_locales (auto simp: ngui_receive_event_textlabel_def)

interpretation textlabel_render: total_widget_kind tl_valid textlabel_ok "\<lambda>d. d\<lparr>tl_valid := False\<rparr>"
    "\<lambda>(_::unit) d. Some (d, ngui_render_textlabel d)"
  by unfold_locales auto

lemma stringselect_click_Some:
  assumes "ss_callback d = Some f"
  shows "stringselect_click x y n (Some s # ss) d =
    (let hit = stringselect_hit x y (int n * (32 + ss_y_padding d)) s d in do {
       (d2, o2) \<leftarrow> stringselect_click x y (Suc n) ss (if hit then d\<lparr>ss_shine := 20\<rparr> else d);
       Some (d2, (if hit then [UiCall f s, UiRedraw] else []) @ o2) })"
  using assms by (simp add: Let_def)

lemma stringselect_click_run:
  "None \<in> set ss \<Longrightarrow> ss_callback d = Some f \<Longrightarrow> \<exists>k as. stringselect_click x y n ss d = Some (d\<lparr>ss_shine := k\<rparr>, as)"
proof (induction ss arbitrary: n d)
  case (Cons so ss)
  show ?case
  proof (cases so)
    case None
    then show ?thesis by (intro exI [of _ "ss_shine d"]) simp
  next
    case (Some s)
    define d1 where "d1 = (if stringselect_hit x y (int n * (32 + ss_y_padding d)) s d then d\<lparr>ss_shine := 20\<rparr> else d)"
    have "None \<in> set ss" "ss_callback d1 = Some f" using Cons.prems Some by (auto simp: d1_def)
    from Cons.IH [OF this, of "Suc n"] obtain k as where
      "stringselect_click x y (Suc n) ss d1 = Some (d1\<lparr>ss_shine := k\<rparr>, as)" by blast
    moreover have "d1\<lparr>ss_shine := k\<rparr> = d\<lparr>ss_shine := k\<rparr>" by (simp add: d1_def)
    ultimately show ?thesis unfolding Some stringselect_click_Some [OF Cons.prems(2)] Let_def d1_def [symmetric] by auto
  qed
qed simp

lemma stringselect_event_run:
  assumes "stringselect_ok d" "ss_valid d"
  shows "\<exists>k as. ngui_receive_event_stringselect e d = Some (d\<lparr>ss_shine := k\<rparr>, as)"
proof (cases e)
  case (SDL_MOUSEBUTTONDOWN x y)
  with assms stringselect_click_run [of "ss_stringlist d" d] show ?thesis
    by (auto simp: ngui_receive_event_stringselect_def stringselect_ok_def)
qed (auto simp: ngui_receive_event_stringselect_def intro!: exI [of _ "ss_shine d"])

lemma stringselect_click_frame:
  "stringselect_click x y n ss d = Some (d', as) \<Longrightarrow> \<exists>k. d' = d\<lparr>ss_shine := k\<rparr>"
proof (induction ss arbitrary: n d as)
  case (Cons so ss)
  show ?case
  proof (cases so)
    case None
    with Cons.prems show ?thesis by (intro exI [of _ "ss_shine d"]) simp
  next
    case (Some s)
    with Cons.prems obtain d1 o1 o2 where "d1 = d \<or> d1 = d\<lparr>ss_shine := 20\<rparr>"
      "stringselect_click x y (Suc n) ss d1 = Some (d', o2)"
      by (auto simp: Let_def split: bind_splits if_splits prod.splits)
    with Cons.IH [OF this(2)] show ?thesis by auto
  qed
qed simp

lemma stringselect_event_frame:
  "ngui_receive_event_stringselect e d = Some (d', as) \<Longrightarrow> \<exists>k. d' = d\<lparr>ss_shine := k\<rparr>"
  by (cases e) (auto simp: ngui_receive_event_stringselect_def dest: stringselect_click_frame
      intro: exI [of _ "ss_shine d"])

interpretation stringselect_events: total_widget_kind ss_valid stringselect_ok "\<lambda>d. d\<lparr>ss_valid := False\<rparr>"
    ngui_receive_event_stringselect
proof
  fix d d' :: "'a stringselect" and e as
  assume "stringselect_ok d" "ngui_receive_event_stringselect e d = Some (d', as)"
  then show "stringselect_ok d' \<and> ss_valid d' = ss_valid d"
    using stringselect_event_frame [of e d d' as] by (auto simp: stringselect_ok_def)
next
  fix d :: "'a stringselect" and e
  assume "stringselect_ok d" "ss_valid d"
  from stringselect_event_run [OF this, of e] show "\<exists>d' as. ngui_receive_event_stringselect e d = Some (d', as)" by blast
qed (auto simp: stringselect_ok_def)

subsection \<open>Typing into a box\<close>

definition textbox_holds :: "byte list \<Rightarrow> 'cb textbox \<Rightarrow> bool" where
  "textbox_holds s d \<longleftrightarrow> 0 \<notin> set s \<and> (\<exists>junk. tb_text d = s @ 0 # junk \<and> length s + length junk = 99)"

lemma textbox_holds_value: "textbox_holds s d \<Longrightarrow> cstr (tb_text d) = Some s"
  by (auto simp: textbox_holds_def cstr_append_nul)

definition press :: "u32 \<Rightarrow> 'cb textbox \<Rightarrow> 'cb textbox option" where
  "press u d = map_option fst (ngui_receive_event_textbox (SDL_KEYDOWN 0 0 u) d)"

lemma textbox_key_run:
  assumes "textbox_holds s d" "k \<noteq> SDLK_BACKSPACE" "(ucast u :: byte) \<noteq> 0"
  shows "textbox_key k u d = (if length s < 99
    then Some (d\<lparr>tb_text := s @ ucast u # 0 # tl (drop (Suc (length s)) (tb_text d))\<rparr>, textbox_redraw d) else None)"
proof -
  from assms(1) obtain junk where t: "tb_text d = s @ 0 # junk" "length s + length junk = 99" "0 \<notin> set s"
    by (auto simp: textbox_holds_def)
  have tk: "take 100 (tb_text d) = s @ 0 # junk" using t by simp
  have p: "takeWhile (\<lambda>c. c \<noteq> 0) (take 100 (tb_text d)) = s" unfolding tk by (rule takeWhile_nul [OF t(3)])
  have s1: "arr_set (tb_text d) (int (length s)) (ucast u) = Some (s @ ucast u # junk)" using t by (simp add: arr_set_def)
  show ?thesis
  proof (cases junk)
    case Nil
    then have "arr_set (s @ [ucast u]) (int (length s) + 1) 0 = None" by (simp add: arr_set_def)
    with Nil t s1 p assms(2) show ?thesis by (simp add: textbox_key_def)
  next
    case (Cons j js)
    then have "arr_set (s @ ucast u # junk) (int (length s) + 1) 0 = Some (s @ ucast u # 0 # js)"
      by (simp add: arr_set_def nat_add_distrib list_update_append)
    with Cons t s1 p assms(2) show ?thesis by (simp add: textbox_key_def)
  qed
qed

lemma press_run:
  assumes "textbox_holds s d" "tb_selected d" "(ucast u :: byte) \<noteq> 0"
  shows "if length s < 99 then \<exists>d'. press u d = Some d' \<and> textbox_holds (s @ [ucast u]) d' \<and> tb_selected d'
    else press u d = None"
proof -
  have "(0::int) \<noteq> SDLK_BACKSPACE" by (simp add: SDLK_BACKSPACE_def)
  note r = textbox_key_run [OF assms(1) this assms(3)]
  from assms(1) obtain junk where t: "tb_text d = s @ 0 # junk" "length s + length junk = 99" "0 \<notin> set s"
    by (auto simp: textbox_holds_def)
  show ?thesis
    by (cases junk) (use r t assms(2,3) in \<open>auto simp: press_def ngui_receive_event_textbox_def textbox_holds_def\<close>)
qed

lemma typing_run:
  "textbox_holds s d \<Longrightarrow> tb_selected d \<Longrightarrow> \<forall>u\<in>set us. (ucast u :: byte) \<noteq> 0 \<Longrightarrow> length s + length us \<le> 99 \<Longrightarrow>
   \<exists>d'. ofold press us d = Some d' \<and> textbox_holds (s @ map ucast us) d' \<and> tb_selected d'"
proof (induction us arbitrary: s d)
  case (Cons u us)
  then obtain d1 where "press u d = Some d1" "textbox_holds (s @ [ucast u]) d1" "tb_selected d1"
    using press_run [of s d u] by auto
  with Cons.IH [of "s @ [ucast u]" d1] Cons.prems show ?case by auto
qed auto

lemma strcpy_holds: "c_strcpy (tb_text d) s = Some t \<Longrightarrow> 0 \<notin> set s \<Longrightarrow> length (tb_text d) = 100 \<Longrightarrow>
  textbox_holds s (d\<lparr>tb_text := t\<rparr>)"
  by (auto simp: c_strcpy_def textbox_holds_def split: if_splits)

text \<open>
  Typing into a selected text box appends the characters, and the box reads back as the text it
  had followed by the typed one, as long as both fit 99 characters. Then one more key stores its NUL
  behind the array of 100: undefined behaviour, where the source only guards the search for the end.
\<close>

theorem textbox_typing:
  assumes "textbox_holds s d" "tb_selected d" "\<forall>u\<in>set us. (ucast u :: byte) \<noteq> 0" "length s + length us \<le> 99"
  shows "\<exists>d'. ofold press us d = Some d' \<and> cstr (tb_text d') = Some (s @ map ucast us)
    \<and> (length s + length us = 99 \<longrightarrow> (\<forall>u. (ucast u :: byte) \<noteq> 0 \<longrightarrow> press u d' = None))"
proof -
  from typing_run [OF assms] obtain d' where d': "ofold press us d = Some d'"
    "textbox_holds (s @ map ucast us) d'" "tb_selected d'" by blast
  moreover have "press u d' = None" if "length s + length us = 99" "(ucast u :: byte) \<noteq> 0" for u
    using press_run [OF d'(2,3) that(2)] that(1) by simp
  ultimately show ?thesis using textbox_holds_value by blast
qed

definition demo_textbox :: "unit textbox" where
  "demo_textbox = textbox_zero\<lparr>tb_valid := True, tb_selected := True\<rparr>"

lemma demo_textbox_holds: "textbox_holds [] demo_textbox"
  using replicate_Suc [of 99 "0::byte"]
  by (auto simp: textbox_holds_def demo_textbox_def textbox_zero_def intro!: exI [of _ "replicate 99 0"])

theorem textbox_typing_witness:
  "\<exists>d'. ofold press (replicate 99 (97::u32)) demo_textbox = Some d' \<and> cstr (tb_text d') = Some (replicate 99 97)
    \<and> press 98 d' = None"
  using textbox_typing [OF demo_textbox_holds, of "replicate 99 97"] by (auto simp: demo_textbox_def)

subsection \<open>Picking from a list\<close>

text \<open>
  The boxes of two neighbouring strings of a list overlap by three pixels, although they are drawn
  apart: a click on pixel rows 33 to 35 below a string's position picks that string and then the next one.
\<close>

theorem stringselect_double_pick:
  assumes "ss_stringlist d = [Some s1, Some s2, None]" "ss_callback d = Some f"
    "ss_x_padding d = 20" "ss_y_padding d = 20" "0 \<le> ss_x d" "ss_x d < 2 ^ 31"
    "length s1 < 2 ^ 31" "length s2 < 2 ^ 31" "0 \<le> x" "ss_x d - 20 < x"
    "x < ss_x d + 8 * int (min (length s1) (length s2)) + 20" "ss_y d + 32 < y" "y < ss_y d + 36"
  shows "ngui_receive_event_stringselect (SDL_MOUSEBUTTONDOWN x y) d
    = Some (d\<lparr>ss_shine := 20\<rparr>, [UiCall f s1, UiRedraw, UiCall f s2, UiRedraw])"
proof -
  have z: "size_less x (ss_x d + int (length s) * 8 + 20)" if "s = s1 \<or> s = s2" for s
  proof -
    have "x < ss_x d + int (length s) * 8 + 20" "int (length s) < 2 ^ 31" using that assms(7,8,11) by auto
    with assms(5,6,9) show ?thesis by (subst size_less_nonneg) auto
  qed
  have "stringselect_hit x y 0 s1 d" "stringselect_hit x y 52 s2 (d\<lparr>ss_shine := 20\<rparr>)"
    using assms z [of s1] z [of s2] by (simp_all add: stringselect_hit_def)
  with assms(1-4) show ?thesis by (simp add: ngui_receive_event_stringselect_def Let_def)
qed

definition demo_list :: "nat stringselect" where
  "demo_list = stringselect_zero\<lparr>ss_valid := True, ss_x := 100, ss_y := 200, ss_x_padding := 20, ss_y_padding := 20,
     ss_stringlist := [Some (ascii ''one''), Some (ascii ''two''), None], ss_callback := Some 7\<rparr>"

theorem stringselect_double_pick_witness:
  "ngui_receive_event_stringselect (SDL_MOUSEBUTTONDOWN 110 234) demo_list
    = Some (demo_list\<lparr>ss_shine := 20\<rparr>, [UiCall 7 (ascii ''one''), UiRedraw, UiCall 7 (ascii ''two''), UiRedraw])"
  by (rule stringselect_double_pick) (simp_all add: demo_list_def ascii_def)

end
