(* ===== verification/Buttons.thy ===== *)
theory Buttons
  imports TextWidgets Nunifont
begin

section \<open>Buttons and the virtual keyboard (ngui_button.c, virtual_buttons.c)\<close>

text \<open>
  Buttons, the icons drawn in place of the text of those whose text starts with \<open>I\<close>, and the on-screen
  keys of the iOS build, which are buttons found by their text. Rendering a button both draws and asks
  for the next redraw while the button shines, so its output is a list of both.
\<close>

datatype 'cb ui_out = Draw render_cmd | Act "'cb ui_act"

subsection \<open>Icons\<close>

definition shine_col :: "int \<Rightarrow> int" where
  "shine_col shine =
     (if shine \<noteq> 0 then (if shine > 10 then (255 div 10) * (shine - 10) else (160 div 10) * (10 - shine)) else 160)"

definition icon_frame :: "int \<Rightarrow> int \<Rightarrow> int \<Rightarrow> int \<Rightarrow> int \<Rightarrow> render_cmd list" where
  "icon_frame x y w h shine =
     (let col = shine_col shine in
      [SetRenderDrawColor 80 80 80 255, RenderDrawRect x y w h, SetRenderDrawColor col col col 255])"

definition draw_kbshow_icon :: "int \<Rightarrow> int \<Rightarrow> int \<Rightarrow> render_cmd list" where
  "draw_kbshow_icon x y shine = icon_frame x y 112 80 shine @ [
      RenderDrawRect x y 16 16, RenderDrawRect (x + 32) y 16 16, RenderDrawRect (x + 64) y 16 16,
      RenderDrawRect (x + 96) y 16 16, RenderDrawRect (x + 16) (y + 32) 16 16,
      RenderDrawRect (x + 48) (y + 32) 16 16, RenderDrawRect (x + 80) (y + 32) 16 16]"

definition draw_close_icon :: "int \<Rightarrow> int \<Rightarrow> int \<Rightarrow> render_cmd list" where
  "draw_close_icon x y shine = icon_frame x y 96 80 shine @ [
      RenderDrawLine (x + 16) y (x + 16) (y + 16), RenderDrawLine (x + 16) (y + 16) (x + 32) (y + 16),
      RenderDrawLine (x + 32) (y + 16) (x + 32) (y + 32), RenderDrawLine (x + 32) (y + 32) (x + 48) (y + 32),
      RenderDrawLine (x + 48) (y + 32) (x + 48) (y + 48), RenderDrawLine (x + 48) (y + 48) (x + 64) (y + 48),
      RenderDrawLine (x + 64) (y + 48) (x + 64) (y + 64), RenderDrawLine (x + 64) (y + 64) (x + 80) (y + 64),
      RenderDrawLine (x + 80) (y + 64) (x + 80) (y + 80), RenderDrawLine (x + 80) y (x + 80) (y + 16),
      RenderDrawLine (x + 80) (y + 16) (x + 64) (y + 16), RenderDrawLine (x + 64) (y + 16) (x + 64) (y + 32),
      RenderDrawLine (x + 64) (y + 32) (x + 48) (y + 32), RenderDrawLine (x + 48) (y + 32) (x + 48) (y + 48),
      RenderDrawLine (x + 48) (y + 48) (x + 32) (y + 48), RenderDrawLine (x + 32) (y + 48) (x + 32) (y + 64),
      RenderDrawLine (x + 32) (y + 64) (x + 16) (y + 64), RenderDrawLine (x + 16) (y + 64) (x + 16) (y + 80)]"

definition draw_paste_icon :: "int \<Rightarrow> int \<Rightarrow> int \<Rightarrow> render_cmd list" where
  "draw_paste_icon x y shine = icon_frame x y 96 96 shine @ [
      RenderDrawLine (x + 16) (y + 32) x (y + 32), RenderDrawLine x (y + 32) x (y + 64),
      RenderDrawLine x (y + 48) (x + 16) (y + 48), RenderDrawLine (x + 16) (y + 32) (x + 16) (y + 48),
      RenderDrawLine (x + 48) (y + 32) (x + 32) (y + 32), RenderDrawLine (x + 32) (y + 32) (x + 32) (y + 48),
      RenderDrawLine (x + 32) (y + 48) (x + 48) (y + 48), RenderDrawLine (x + 48) (y + 48) (x + 48) (y + 64),
      RenderDrawLine (x + 48) (y + 64) (x + 32) (y + 64), RenderDrawLine (x + 96) (y + 32) (x + 64) (y + 32),
      RenderDrawLine (x + 80) (y + 32) (x + 80) (y + 64 - 1)]"

definition draw_esc_icon :: "int \<Rightarrow> int \<Rightarrow> int \<Rightarrow> render_cmd list" where
  "draw_esc_icon x y shine = icon_frame x y 96 96 shine @ [
      RenderDrawLine (x + 16) y x y, RenderDrawLine x y x (y + 32),
      RenderDrawLine x (y + 32) (x + 16) (y + 32), RenderDrawLine x (y + 16) (x + 16) (y + 16),
      RenderDrawLine (x + 48) y (x + 32) y, RenderDrawLine (x + 32) y (x + 32) (y + 16),
      RenderDrawLine (x + 32) (y + 16) (x + 48) (y + 16), RenderDrawLine (x + 48) (y + 16) (x + 48) (y + 32),
      RenderDrawLine (x + 48) (y + 32) (x + 32) (y + 32), RenderDrawLine (x + 80) y (x + 64) y,
      RenderDrawLine (x + 64) y (x + 64) (y + 32), RenderDrawLine (x + 64) (y + 32) (x + 80) (y + 32)]"

definition draw_tab_icon :: "int \<Rightarrow> int \<Rightarrow> int \<Rightarrow> render_cmd list" where
  "draw_tab_icon x y shine = icon_frame x y 96 96 shine @ [
      RenderDrawLine (x + 32) (y + 64) x (y + 64), RenderDrawLine (x + 16) (y + 64) (x + 16) (y + 96 - 1),
      RenderDrawLine (x + 64) (y + 64) (x + 48) (y + 64), RenderDrawLine (x + 48) (y + 64) (x + 48) (y + 96 - 1),
      RenderDrawLine (x + 64) (y + 64) (x + 64) (y + 96 - 1), RenderDrawLine (x + 64) (y + 80) (x + 48) (y + 80),
      RenderDrawLine (x + 96 - 2) (y + 64) (x + 80) (y + 64), RenderDrawLine (x + 80) (y + 64) (x + 80) (y + 96 - 1),
      RenderDrawLine (x + 80) (y + 96 - 1) (x + 96 - 2) (y + 96 - 1), RenderDrawLine (x + 96 - 1) (y + 96 - 1) (x + 96 - 1) (y + 80 + 2),
      RenderDrawLine (x + 96 - 1) (y + 80 - 2) (x + 96 - 1) (y + 64 + 1), RenderDrawLine (x + 80) (y + 80) (x + 96 - 2) (y + 80)]"

definition draw_alt_icon :: "int \<Rightarrow> int \<Rightarrow> int \<Rightarrow> render_cmd list" where
  "draw_alt_icon x y shine = icon_frame x y 96 96 shine @ [
      RenderDrawLine (x + 16) (y + 64) x (y + 64), RenderDrawLine x (y + 64) x (y + 96 - 1),
      RenderDrawLine x (y + 80) (x + 16) (y + 80), RenderDrawLine (x + 16) (y + 64) (x + 16) (y + 96 - 1),
      RenderDrawLine (x + 32) (y + 64) (x + 32) (y + 96 - 1), RenderDrawLine (x + 48) (y + 96 - 1) (x + 32) (y + 96 - 1),
      RenderDrawLine (x + 96) (y + 64) (x + 64) (y + 64), RenderDrawLine (x + 80) (y + 64) (x + 80) (y + 96 - 1)]"

definition draw_ctrl_icon :: "int \<Rightarrow> int \<Rightarrow> int \<Rightarrow> render_cmd list" where
  "draw_ctrl_icon x y shine = icon_frame x y 96 96 shine @ [
      RenderDrawLine (x + 16) y x y, RenderDrawLine x y x (y + 32),
      RenderDrawLine x (y + 32) (x + 16) (y + 32), RenderDrawLine (x + 64) y (x + 32) y,
      RenderDrawLine (x + 48) y (x + 48) (y + 32), RenderDrawLine (x + 80) y (x + 80) (y + 32),
      RenderDrawLine (x + 80) (y + 32) (x + 96) (y + 32)]"

definition draw_up_icon :: "int \<Rightarrow> int \<Rightarrow> int \<Rightarrow> render_cmd list" where
  "draw_up_icon x y shine = icon_frame x y 96 96 shine @ [
      RenderDrawLine (x + 32) y (x + 64) y, RenderDrawLine (x + 64) y (x + 64) (y + 32),
      RenderDrawLine (x + 64) (y + 32) (x + 80) (y + 32), RenderDrawLine (x + 80) (y + 32) (x + 80) (y + 64),
      RenderDrawLine (x + 80) (y + 64) (x + 96) (y + 64), RenderDrawLine (x + 96) (y + 64) (x + 96) (y + 96),
      RenderDrawLine x (y + 96) x (y + 64), RenderDrawLine x (y + 64) (x + 16) (y + 64),
      RenderDrawLine (x + 16) (y + 64) (x + 16) (y + 32), RenderDrawLine (x + 16) (y + 32) (x + 32) (y + 32),
      RenderDrawLine (x + 32) (y + 32) (x + 32) y]"

definition draw_down_icon :: "int \<Rightarrow> int \<Rightarrow> int \<Rightarrow> render_cmd list" where
  "draw_down_icon x y shine = icon_frame x y 96 96 shine @ [
      RenderDrawLine (x + 32) (y + 96 - 1) (x + 64) (y + 96 - 1), RenderDrawLine (x + 64) (y + 96 - 1) (x + 64) (y + 64),
      RenderDrawLine (x + 64) (y + 64) (x + 80) (y + 64), RenderDrawLine (x + 80) (y + 64) (x + 80) (y + 32),
      RenderDrawLine (x + 80) (y + 32) (x + 96) (y + 32), RenderDrawLine (x + 96) (y + 32) (x + 96) y,
      RenderDrawLine x y x (y + 32), RenderDrawLine x (y + 32) (x + 16) (y + 32),
      RenderDrawLine (x + 16) (y + 32) (x + 16) (y + 64), RenderDrawLine (x + 16) (y + 64) (x + 32) (y + 64),
      RenderDrawLine (x + 32) (y + 64) (x + 32) (y + 96 - 1)]"

definition draw_right_icon :: "int \<Rightarrow> int \<Rightarrow> int \<Rightarrow> render_cmd list" where
  "draw_right_icon x y shine = icon_frame x y 96 96 shine @ [
      RenderDrawLine (x + 96 - 1) (y + 32) (x + 96 - 1) (y + 64), RenderDrawLine (x + 96) (y + 64) (x + 64) (y + 64),
      RenderDrawLine (x + 64) (y + 64) (x + 64) (y + 80), RenderDrawLine (x + 64) (y + 80) (x + 32) (y + 80),
      RenderDrawLine (x + 32) (y + 80) (x + 32) (y + 96), RenderDrawLine (x + 32) (y + 96) x (y + 96),
      RenderDrawLine x y (x + 32) y, RenderDrawLine (x + 32) y (x + 32) (y + 16),
      RenderDrawLine (x + 32) (y + 16) (x + 64) (y + 16), RenderDrawLine (x + 64) (y + 16) (x + 64) (y + 32),
      RenderDrawLine (x + 64) (y + 32) (x + 96) (y + 32)]"

definition draw_left_icon :: "int \<Rightarrow> int \<Rightarrow> int \<Rightarrow> render_cmd list" where
  "draw_left_icon x y shine = icon_frame x y 96 96 shine @ [
      RenderDrawLine x (y + 64) x (y + 32), RenderDrawLine x (y + 32) (x + 32) (y + 32),
      RenderDrawLine (x + 32) (y + 32) (x + 32) (y + 16), RenderDrawLine (x + 32) (y + 16) (x + 64) (y + 16),
      RenderDrawLine (x + 64) (y + 16) (x + 64) y, RenderDrawLine (x + 64) y (x + 96) y,
      RenderDrawLine (x + 96) (y + 96) (x + 64) (y + 96), RenderDrawLine (x + 64) (y + 96) (x + 64) (y + 80),
      RenderDrawLine (x + 64) (y + 80) (x + 32) (y + 80), RenderDrawLine (x + 32) (y + 80) (x + 32) (y + 64),
      RenderDrawLine (x + 32) (y + 64) x (y + 64)]"

definition draw_menu_icon :: "int \<Rightarrow> int \<Rightarrow> int \<Rightarrow> render_cmd list" where
  "draw_menu_icon x y shine = []"

text \<open>The comparisons of \<open>ngui_render_button\<close>, in its order.\<close>

definition button_icons :: "(string \<times> (int \<Rightarrow> int \<Rightarrow> int \<Rightarrow> render_cmd list)) list" where
  "button_icons = [(''Iclose'', draw_close_icon), (''Ikbshow'', draw_kbshow_icon), (''Ipaste'', draw_paste_icon),
     (''Iesc'', draw_esc_icon), (''Itab'', draw_tab_icon), (''Ialt'', draw_alt_icon), (''Ictrl'', draw_ctrl_icon),
     (''Iup'', draw_up_icon), (''Idown'', draw_down_icon), (''Ileft'', draw_left_icon), (''Iright'', draw_right_icon),
     (''Imenu'', draw_menu_icon)]"

subsection \<open>Buttons\<close>

record 'cb button =
  bt_valid :: bool
  bt_x :: int
  bt_y :: int
  bt_x_padding :: int
  bt_y_padding :: int
  bt_shine :: int
  bt_text :: "byte list"
  bt_callback :: "'cb option"

definition button_zero :: "'cb button" where
  "button_zero = \<lparr>bt_valid = False, bt_x = 0, bt_y = 0, bt_x_padding = 0, bt_y_padding = 0, bt_shine = 0,
     bt_text = replicate 100 0, bt_callback = None\<rparr>"

definition ngui_buttons :: "'cb button table" where
  "ngui_buttons = \<lparr>tab_size = 0, tab_slots = replicate 50 button_zero\<rparr>"

definition button_press :: "'cb button \<Rightarrow> ('cb button \<times> 'cb ui_act list) option" where
  "button_press d = do { f \<leftarrow> bt_callback d; Some (d\<lparr>bt_shine := 20\<rparr>, [UiCall f (ascii ''press''), UiRedraw]) }"

definition button_in_icon :: "int \<Rightarrow> int \<Rightarrow> 'cb button \<Rightarrow> bool" where
  "button_in_icon x y d \<longleftrightarrow> x > bt_x d \<and> x < bt_x d + 16 * 6 \<and> y > bt_y d \<and> y < bt_y d + 16 * 6"

definition button_in_text :: "int \<Rightarrow> int \<Rightarrow> byte list \<Rightarrow> 'cb button \<Rightarrow> bool" where
  "button_in_text x y s d \<longleftrightarrow>
     x > bt_x d - bt_x_padding d \<and> size_less x (bt_x d + int (length s) * 8 + bt_x_padding d)
     \<and> y > bt_y d - bt_y_padding d \<and> y < bt_y d + 16 + bt_y_padding d"

definition ngui_receive_event_button :: "sdl_event \<Rightarrow> 'cb button \<Rightarrow> ('cb button \<times> 'cb ui_act list) option" where
  "ngui_receive_event_button event d =
     (case event of
        SDL_MOUSEBUTTONDOWN x y \<Rightarrow> do {
          c \<leftarrow> arr_get (bt_text d) 0;
          (d1, o1) \<leftarrow> (if c = 73 \<and> button_in_icon x y d then button_press d else Some (d, []));
          s \<leftarrow> cstr (bt_text d1);
          (d2, o2) \<leftarrow> (if button_in_text x y s d1 then button_press d1 else Some (d1, []));
          Some (d2, o1 @ o2) }
      | _ \<Rightarrow> Some (d, []))"

text \<open>\<open>ustrcmp\<close> compares a 16-bit text with a \<open>char\<close> text, both promoted to \<open>int\<close>.\<close>

fun ustrcmp :: "u16 list \<Rightarrow> byte list \<Rightarrow> int option" where
  "ustrcmp (a # as) (b # bs) =
     (if int (unat a) \<noteq> sint b then Some 1 else if a = 0 \<and> b = 0 then Some 0 else ustrcmp as bs)"
| "ustrcmp _ _ = None"

text \<open>\<open>strcmp\<close> finds the buttons by their text; the loop covers the deleted ones as well.\<close>

definition move_slot :: "byte list \<Rightarrow> int \<Rightarrow> int \<Rightarrow> 'cb button \<Rightarrow> ('cb button \<times> unit list) option" where
  "move_slot name nx ny d = do {
     s \<leftarrow> cstr (bt_text d);
     Some (if s = name then d\<lparr>bt_x := nx, bt_y := ny\<rparr> else d, []) }"

definition ngui_move_button :: "string \<Rightarrow> int \<Rightarrow> int \<Rightarrow> 'cb button table \<Rightarrow> 'cb button table option" where
  "ngui_move_button name nx ny t = map_option fst (each_valid (\<lambda>_. True) (move_slot (ascii name) nx ny) t)"

definition button_icon :: "int \<Rightarrow> int \<Rightarrow> int \<Rightarrow> u16 list \<Rightarrow> string \<times> (int \<Rightarrow> int \<Rightarrow> int \<Rightarrow> render_cmd list)
    \<Rightarrow> render_cmd list \<times> bool \<Rightarrow> (render_cmd list \<times> bool) option" where
  "button_icon x y shine text icon out = do {
     r \<leftarrow> ustrcmp text (ascii (fst icon) @ [0]);
     Some (if r = 0 then (fst out @ snd icon x y shine, True) else out) }"

definition ngui_render_button :: "'cb button \<Rightarrow> ('cb button \<times> 'cb ui_out list) option" where
  "ngui_render_button d = do {
     let text = widen (bt_text d);
     (cmds, notext) \<leftarrow> ofold (button_icon (bt_x d) (bt_y d) (bt_shine d) text) button_icons
        ([SetRenderDrawColor 160 160 160 255], False);
     let (d1, acts) = (if bt_shine d > 0 then (d\<lparr>bt_shine := bt_shine d - 1\<rparr>, [Act UiRedraw]) else (d, []));
     s \<leftarrow> cstr (bt_text d1);
     Some (d1, map Draw cmds @ acts @ (if \<not> notext
        then [Draw (RenderDrawRect (bt_x d1 - bt_x_padding d1) (bt_y d1 - bt_y_padding d1)
                (int (length s) * 8 + bt_x_padding d1 * 2) (16 + bt_y_padding d1)),
              Draw (RenderDrawText (bt_x d1) (bt_y d1) text 0 65535 0 0 0 0)]
        else [])) }"

definition ngui_add_button :: "int \<Rightarrow> int \<Rightarrow> byte list \<Rightarrow> 'cb option \<Rightarrow> 'cb button table \<Rightarrow> ('cb button table \<times> int) option" where
  "ngui_add_button x y s callback t = do {
     d \<leftarrow> table_get t (tab_size t);
     s' \<leftarrow> c_strcpy (bt_text d) s;
     t' \<leftarrow> table_put t (tab_size t) (d\<lparr>bt_valid := True, bt_x := x, bt_y := y, bt_x_padding := 20, bt_y_padding := 20,
              bt_shine := 0, bt_text := s', bt_callback := callback\<rparr>);
     let t'' = t'\<lparr>tab_size := tab_size t' + 1\<rparr>;
     Some (t'', tab_size t'' - 1) }"

definition ngui_delete_button :: "int \<Rightarrow> 'cb button table \<Rightarrow> 'cb button table option" where
  "ngui_delete_button i t = do { d \<leftarrow> table_get t i; table_put t i (d\<lparr>bt_valid := False\<rparr>) }"

definition ngui_receiveall_button :: "sdl_event \<Rightarrow> 'cb button table \<Rightarrow> ('cb button table \<times> 'cb ui_act list) option" where
  "ngui_receiveall_button event t = each_valid bt_valid (ngui_receive_event_button event) t"

definition ngui_renderall_button :: "'cb button table \<Rightarrow> ('cb button table \<times> 'cb ui_out list) option" where
  "ngui_renderall_button t = each_valid bt_valid ngui_render_button t"

subsection \<open>The virtual keyboard\<close>

datatype vkey = KbUp | KbDown | KbLeft | KbRight | KbEsc | KbCtrl | KbAlt | KbTab | KbPaste | KbKbshow | KbClose

datatype kb_act =
    SendKeyboardKey bool int
  | SendKeyboardText "byte list"
  | KbWrite "byte list"
  | StartTextInput
  | ConnClose

text \<open>The two flags that modify the next key typed.\<close>

record kb_flags =
  hterm_next_key_ctrl :: bool
  hterm_next_key_alt :: bool

definition key_tap :: "int \<Rightarrow> kb_act list" where
  "key_tap scancode = [SendKeyboardKey True scancode, SendKeyboardKey False scancode]"

text \<open>The callbacks \<open>virtual_kb_*\<close>; \<open>paste\<close> is what \<open>paste_text\<close> returns.\<close>

fun virtual_kb :: "vkey \<Rightarrow> byte list option \<Rightarrow> kb_flags \<Rightarrow> kb_flags \<times> kb_act list" where
  "virtual_kb KbUp paste k = (k, key_tap 82)"
| "virtual_kb KbDown paste k = (k, key_tap 81)"
| "virtual_kb KbLeft paste k = (k, key_tap 80)"
| "virtual_kb KbRight paste k = (k, key_tap 79)"
| "virtual_kb KbEsc paste k = (k, SendKeyboardText [27] # key_tap 41)"
| "virtual_kb KbCtrl paste k = (k\<lparr>hterm_next_key_ctrl := True\<rparr>, [])"
| "virtual_kb KbAlt paste k = (k\<lparr>hterm_next_key_alt := True\<rparr>, [])"
| "virtual_kb KbTab paste k = (k, SendKeyboardText [9] # key_tap 43)"
| "virtual_kb KbPaste paste k = (k, case paste of None \<Rightarrow> [] | Some s \<Rightarrow> [KbWrite s])"
| "virtual_kb KbKbshow paste k = (k, [StartTextInput])"
| "virtual_kb KbClose paste k = (k, [ConnClose])"

text \<open>The display as the program knows it: the part not covered by the keyboard, and the whole of it.\<close>

record display =
  display_width :: int
  display_height :: int
  display_width_abs :: int
  display_height_abs :: int

definition add_vkey :: "int \<times> int \<times> string \<times> vkey \<Rightarrow> vkey button table \<Rightarrow> vkey button table option" where
  "add_vkey b t = (case b of (x, y, name, k) \<Rightarrow> map_option fst (ngui_add_button x y (ascii name) (Some k) t))"

definition move_vkey :: "string \<times> int \<times> int \<Rightarrow> vkey button table \<Rightarrow> vkey button table option" where
  "move_vkey m t = (case m of (name, x, y) \<Rightarrow> ngui_move_button name x y t)"

definition virtual_buttons_disable :: "vkey button table \<Rightarrow> vkey button table option" where
  "virtual_buttons_disable t = ofold move_vkey (map (\<lambda>name. (name, - 1000, - 1000))
     [''Iesc'', ''Ialt'', ''Ictrl'', ''Itab'', ''Iup'', ''Idown'', ''Ileft'', ''Iright'', ''Ipaste'', ''Ikbshow'']) t"

definition virtual_buttons_reposition :: "display \<Rightarrow> int \<Rightarrow> int \<Rightarrow> vkey button table \<Rightarrow> vkey button table option" where
  "virtual_buttons_reposition dp fw fh t =
     (let dw = fw * 2;
          w = display_width dp - (display_width dp smod (fw * 2));
          h = display_height dp - (display_height dp smod fh)
      in ofold move_vkey
        [(''Iesc'', w - dw * 6 * 3, h - fh * 6 * 3), (''Ialt'', w - dw * 6 * 3, h - fh * 6 * 1),
         (''Ictrl'', w - dw * 6 * 1, h - fh * 6 * 3), (''Itab'', w - dw * 6 * 1, h - fh * 6 * 1),
         (''Iup'', w - dw * 6 * 2, h - fh * 6 * 3), (''Idown'', w - dw * 6 * 2, h - fh * 6 * 1),
         (''Ileft'', w - dw * 6 * 3, h - fh * 6 * 2), (''Iright'', w - dw * 6 * 1, h - fh * 6 * 2),
         (''Ipaste'', w - dw * 6 * 2, h - fh * 6 * 2),
         (if display_height dp - fh * 6 * 3 > 80 then (''Iclose'', w - dw * 6 * 1, 0)
          else (''Iclose'', w - dw * 6 * 4, h - fh * 6 * 3)),
         (''Ikbshow'', display_width_abs dp - dw * 7, display_height_abs dp - 5 * fh),
         (''Ikbshow'', - 1000, - 1000)] t)"

definition virtual_buttons_add :: "display \<Rightarrow> int \<Rightarrow> int \<Rightarrow> vkey button table \<Rightarrow> vkey button table option" where
  "virtual_buttons_add dp fw fh t =
     (let w = display_width dp - (display_width dp smod 16);
          h = display_height dp - (display_height dp smod 16)
      in do {
        t1 \<leftarrow> ofold add_vkey
          [(w - 16 * 6 * 3, h - 16 * 6 * 3, ''Iesc'', KbEsc), (w - 16 * 6 * 3, h - 16 * 6 * 1, ''Ialt'', KbAlt),
           (w - 16 * 6 * 1, h - 16 * 6 * 3, ''Ictrl'', KbCtrl), (w - 16 * 6 * 1, h - 16 * 6 * 1, ''Itab'', KbTab),
           (w - 16 * 6 * 2, h - 16 * 6 * 3, ''Iup'', KbUp), (w - 16 * 6 * 2, h - 16 * 6 * 1, ''Idown'', KbDown),
           (w - 16 * 6 * 3, h - 16 * 6 * 2, ''Ileft'', KbLeft), (w - 16 * 6 * 1, h - 16 * 6 * 2, ''Iright'', KbRight),
           (w - 16 * 6 * 2, h - 16 * 6 * 2, ''Ipaste'', KbPaste),
           (if display_height dp - 16 * 6 * 3 > 80 then (w - 16 * 6 * 1, 0, ''Iclose'', KbClose)
            else (w - 16 * 6 * 4, h - 16 * 6 * 3, ''Iclose'', KbClose)),
           (display_width_abs dp - 16 * 7, display_height_abs dp - 5 * 16, ''Ikbshow'', KbKbshow)] t;
        virtual_buttons_reposition dp fw fh t1 })"

subsection \<open>Contracts\<close>

definition button_ok :: "'cb button \<Rightarrow> bool" where
  "button_ok d \<longleftrightarrow> length (bt_text d) = 100 \<and> 0 \<in> set (bt_text d) \<and> (bt_valid d \<longrightarrow> bt_callback d \<noteq> None)
     \<and> 0 \<le> bt_shine d \<and> bt_shine d \<le> 20"

definition button_name :: "'cb button \<Rightarrow> byte list" where
  "button_name d = takeWhile (\<lambda>c. c \<noteq> 0) (bt_text d)"

lemma button_cstr: "button_ok d \<Longrightarrow> cstr (bt_text d) = Some (button_name d)"
  by (simp add: button_ok_def cstr_def button_name_def)

definition button_calls :: "int \<Rightarrow> int \<Rightarrow> 'cb \<Rightarrow> 'cb button \<Rightarrow> 'cb ui_act list" where
  "button_calls x y f d =
     (if bt_text d ! 0 = 73 \<and> button_in_icon x y d then [UiCall f (ascii ''press''), UiRedraw] else [])
     @ (if button_in_text x y (button_name d) d then [UiCall f (ascii ''press''), UiRedraw] else [])"

lemma button_shine_frame [simp]:
  "button_in_icon x y (d\<lparr>bt_shine := k\<rparr>) = button_in_icon x y d"
  "button_in_text x y s (d\<lparr>bt_shine := k\<rparr>) = button_in_text x y s d"
  "button_name (d\<lparr>bt_shine := k\<rparr>) = button_name d"
  by (simp_all add: button_in_icon_def button_in_text_def button_name_def)

lemma button_click_run:
  assumes "button_ok d" "bt_callback d = Some f"
  shows "ngui_receive_event_button (SDL_MOUSEBUTTONDOWN x y) d
    = Some (if button_calls x y f d = [] then d else d\<lparr>bt_shine := 20\<rparr>, button_calls x y f d)"
proof -
  have "0 < length (bt_text d)" using assms(1) by (auto simp: button_ok_def)
  then have "arr_get (bt_text d) 0 = Some (bt_text d ! 0)" by (simp add: arr_get_def)
  moreover have "cstr (bt_text d) = Some (button_name d)" by (rule button_cstr [OF assms(1)])
  ultimately show ?thesis using assms(2)
    by (simp add: ngui_receive_event_button_def button_press_def button_calls_def)
qed

lemma button_event_other: "(\<forall>x y. e \<noteq> SDL_MOUSEBUTTONDOWN x y) \<Longrightarrow> ngui_receive_event_button e d = Some (d, [])"
  by (cases e) (auto simp: ngui_receive_event_button_def)

lemma button_event_keeps:
  assumes "button_ok d" "ngui_receive_event_button e d = Some (d', as)"
  shows "button_ok d' \<and> bt_valid d' = bt_valid d"
proof (cases "\<exists>x y. e = SDL_MOUSEBUTTONDOWN x y")
  case True
  then have "d' = d \<or> (d' = d\<lparr>bt_shine := 20\<rparr>)" using assms(2)
    by (auto simp: ngui_receive_event_button_def button_press_def split: bind_splits if_splits)
  then show ?thesis using assms(1) by (auto simp: button_ok_def)
next
  case False
  then show ?thesis using assms button_event_other [of e d] by auto
qed

lemma button_event_total:
  assumes "button_ok d" "bt_valid d"
  shows "\<exists>d' as. ngui_receive_event_button e d = Some (d', as)"
proof -
  from assms obtain f where "bt_callback d = Some f" by (auto simp: button_ok_def)
  with button_click_run [OF assms(1)] button_event_other [of e d] show ?thesis by (cases e) auto
qed

interpretation button_events: total_widget_kind bt_valid button_ok "\<lambda>d. d\<lparr>bt_valid := False\<rparr>" ngui_receive_event_button
proof
  fix d d' :: "'a button" and e as
  assume "button_ok d" "ngui_receive_event_button e d = Some (d', as)"
  then show "button_ok d' \<and> bt_valid d' = bt_valid d" by (rule button_event_keeps)
next
  fix d :: "'a button" and e
  assume "button_ok d" "bt_valid d"
  then show "\<exists>d' as. ngui_receive_event_button e d = Some (d', as)" by (rule button_event_total)
qed (auto simp: button_ok_def)

lemma widen_char: "unat (scast (c :: byte) :: u16) = (if 0 \<le> sint c then nat (sint c) else nat (sint c + 65536))"
proof -
  have r: "- 128 \<le> sint c" "sint c < 128" using sint_lt [of c] sint_ge [of c] by simp_all
  have "uint (scast c :: u16) = sint c mod 65536"
    unfolding scast_eq uint_word_of_int by simp
  also have "\<dots> = (if 0 \<le> sint c then sint c else sint c + 65536)"
  proof (cases "0 \<le> sint c")
    case False
    then have "(sint c + 65536) mod 65536 = sint c + 65536" using r by (intro mod_pos_pos_trivial) simp_all
    then show ?thesis using False by simp
  qed (use r in simp)
  finally show ?thesis by (metis unat_eq_nat_uint)
qed

lemma widen_eq: "0 \<le> sint b \<Longrightarrow> int (unat (scast (c :: byte) :: u16)) = sint b \<longleftrightarrow> c = b" for b :: byte
proof -
  assume "0 \<le> sint b"
  moreover have "- 128 \<le> sint c" "sint b < 128" using sint_ge [of c] sint_lt [of b] by simp_all
  ultimately have "int (unat (scast c :: u16)) = sint b \<longleftrightarrow> sint c = sint b" by (auto simp: widen_char)
  moreover have "sint c = sint b \<longleftrightarrow> c = b" by (metis scast_eq scast_id)
  ultimately show ?thesis by simp
qed

lemma ustrcmp_run:
  "0 \<in> set t \<Longrightarrow> \<forall>b\<in>set name. b \<noteq> 0 \<and> 0 \<le> sint b \<Longrightarrow>
     ustrcmp (widen t) (name @ [0]) = Some (if takeWhile (\<lambda>c. c \<noteq> 0) t = name then 0 else 1)"
proof (induction t arbitrary: name)
  case (Cons c t)
  have z: "(scast c :: u16) = 0 \<longleftrightarrow> c = 0" using widen_eq [of 0 c] by (simp del: of_nat_unat add: unat_eq_0)
  show ?case
  proof (cases name)
    case Nil
    then show ?thesis using widen_eq [of 0 c] z by (auto simp: widen_def)
  next
    case (Cons b bs)
    then show ?thesis using Cons.IH [of bs] Cons.prems widen_eq [of b c] z by (auto simp: widen_def)
  qed
qed simp

definition icon_cmds :: "byte list \<Rightarrow> int \<Rightarrow> int \<Rightarrow> int \<Rightarrow> render_cmd list option" where
  "icon_cmds name x y shine = map_option (\<lambda>icon. icon x y shine) (map_of (map (\<lambda>(s, f). (ascii s, f)) button_icons) name)"

lemma icon_names_ascii: "\<forall>b\<in>set (ascii s). b \<noteq> 0 \<and> 0 \<le> sint b" if "s \<in> fst ` set button_icons" for s
  using that by (auto simp: button_icons_def ascii_def)

lemma icon_fold:
  "fst ` set icons \<subseteq> fst ` set button_icons \<Longrightarrow> 0 \<in> set t \<Longrightarrow>
     \<exists>cmds' b'. ofold (button_icon x y shine (widen t)) icons (cmds, b) = Some (cmds', b')"
proof (induction icons arbitrary: cmds b)
  case (Cons ic icons)
  have "ustrcmp (widen t) (ascii (fst ic) @ [0]) = Some (if takeWhile (\<lambda>c. c \<noteq> 0) t = ascii (fst ic) then 0 else 1)"
    using Cons.prems icon_names_ascii by (intro ustrcmp_run) auto
  then obtain out where "button_icon x y shine (widen t) ic (cmds, b) = Some out" by (simp add: button_icon_def)
  with Cons.IH [of "fst out" "snd out"] Cons.prems show ?case by simp
qed simp

lemma button_render_run:
  assumes "button_ok d"
  shows "\<exists>cmds cmds'. ngui_render_button d = Some (d\<lparr>bt_shine := max 0 (bt_shine d - 1)\<rparr>,
    map Draw cmds @ (if bt_shine d > 0 then [Act UiRedraw] else []) @ map Draw cmds')"
proof -
  have z: "0 \<in> set (bt_text d)" using assms by (simp add: button_ok_def)
  from icon_fold [OF subset_refl z] obtain cmds notext where
    "ofold (button_icon (bt_x d) (bt_y d) (bt_shine d) (widen (bt_text d))) button_icons
        ([SetRenderDrawColor 160 160 160 255], False) = Some (cmds, notext)" by blast
  moreover have "d\<lparr>bt_shine := 0\<rparr> = d" if "bt_shine d = 0" using that by simp
  ultimately show ?thesis using button_cstr [OF assms] assms
    by (intro exI [of _ cmds] exI [of _ "if notext then [] else
        [RenderDrawRect (bt_x d - bt_x_padding d) (bt_y d - bt_y_padding d)
                (int (length (button_name d)) * 8 + bt_x_padding d * 2) (16 + bt_y_padding d),
              RenderDrawText (bt_x d) (bt_y d) (widen (bt_text d)) 0 65535 0 0 0 0]"])
      (auto simp: ngui_render_button_def Let_def max_def button_ok_def)
qed

interpretation button_render: total_widget_kind bt_valid button_ok "\<lambda>d. d\<lparr>bt_valid := False\<rparr>"
    "\<lambda>(_::unit) d. ngui_render_button d"
proof
  fix d d' :: "'a button" and e as
  assume d: "button_ok d" "ngui_render_button d = Some (d', as)"
  then have "d' = d\<lparr>bt_shine := max 0 (bt_shine d - 1)\<rparr>" using button_render_run [OF d(1)] by auto
  then show "button_ok d' \<and> bt_valid d' = bt_valid d" using d(1) by (auto simp: button_ok_def)
next
  fix d :: "'a button" and e :: unit
  assume "button_ok d"
  from button_render_run [OF this] show "\<exists>d' as. ngui_render_button d = Some (d', as)" by blast
qed (auto simp: button_ok_def)

subsection \<open>Shining\<close>

text \<open>Render a button again and again, counting the requests for a redraw.\<close>

fun render_times :: "nat \<Rightarrow> 'cb button \<Rightarrow> ('cb button \<times> nat) option" where
  "render_times 0 d = Some (d, 0)"
| "render_times (Suc k) d = do {
     (d1, out) \<leftarrow> ngui_render_button d;
     (d2, m) \<leftarrow> render_times k d1;
     Some (d2, m + (if Act UiRedraw \<in> set out then 1 else 0)) }"

lemma no_act [simp]: "Act a \<notin> Draw ` A"
  by auto

lemma render_times_run:
  "button_ok d \<Longrightarrow> render_times k d = Some (d\<lparr>bt_shine := max 0 (bt_shine d - int k)\<rparr>, min k (nat (bt_shine d)))"
proof (induction k arbitrary: d)
  case 0
  then show ?case by (auto simp: button_ok_def)
next
  case (Suc k)
  let ?d = "d\<lparr>bt_shine := max 0 (bt_shine d - 1)\<rparr>"
  from button_render_run [OF Suc.prems] obtain out where r: "ngui_render_button d = Some (?d, out)"
    "Act UiRedraw \<in> set out \<longleftrightarrow> bt_shine d > 0"
    using no_act by (cases "bt_shine d > 0") auto
  have ok: "button_ok ?d" using Suc.prems by (auto simp: button_ok_def)
  have m: "max 0 (max 0 (bt_shine d - 1) - int k) = max 0 (bt_shine d - int (Suc k))"
    "min k (nat (max 0 (bt_shine d - 1))) + (if bt_shine d > 0 then 1 else 0) = min (Suc k) (nat (bt_shine d))"
    using Suc.prems by (auto simp: button_ok_def)
  show ?case using Suc.IH [OF ok] r m by simp
qed

text \<open>
  C31: A click on a button makes it shine: the next 20 renderings each dim it by one step and ask for
  another, and from then on rendering asks for nothing, so the redraw loop comes to rest.
\<close>

theorem button_shine_ends:
  assumes "button_ok d" "bt_callback d = Some f" "button_calls x y f d \<noteq> []"
  shows "\<exists>d'. ngui_receive_event_button (SDL_MOUSEBUTTONDOWN x y) d = Some (d', button_calls x y f d)
    \<and> (\<forall>k. render_times k d' = Some (d'\<lparr>bt_shine := max 0 (20 - int k)\<rparr>, min k 20))"
proof -
  have "button_ok (d\<lparr>bt_shine := 20\<rparr>)" using assms(1) by (simp add: button_ok_def)
  from render_times_run [OF this] show ?thesis
    using button_click_run [OF assms(1,2), of x y] assms(3) by simp
qed

definition demo_button :: "vkey button" where
  "demo_button = button_zero\<lparr>bt_valid := True, bt_x := 100, bt_y := 100, bt_x_padding := 20, bt_y_padding := 20,
     bt_text := [73, 117, 112] @ replicate 97 0, bt_callback := Some KbUp\<rparr>"

theorem button_shine_ends_witness:
  "\<exists>d'. ngui_receive_event_button (SDL_MOUSEBUTTONDOWN 150 150) demo_button = Some (d', [UiCall KbUp (ascii ''press''), UiRedraw])
    \<and> render_times 21 d' = Some (d'\<lparr>bt_shine := 0\<rparr>, 20)"
proof -
  have c: "button_calls 150 150 KbUp demo_button = [UiCall KbUp (ascii ''press''), UiRedraw]"
    by (simp add: button_calls_def demo_button_def button_in_icon_def button_in_text_def button_zero_def)
  have "button_ok demo_button" "bt_callback demo_button = Some KbUp"
    by (simp_all add: button_ok_def demo_button_def button_zero_def)
  from button_shine_ends [OF this, of 150 150] c show ?thesis by fastforce
qed

subsection \<open>The on-screen keys\<close>

definition pad_ok :: "'cb button table \<Rightarrow> bool" where
  "pad_ok t \<longleftrightarrow> table_ok button_ok t \<and> (\<forall>d\<in>set (live t). bt_valid d \<and> bt_x_padding d = 20 \<and> bt_y_padding d = 20)"

type_synonym 'cb place = "byte list \<times> int \<times> int \<times> 'cb option"

definition place :: "'cb button \<Rightarrow> 'cb place" where
  "place d = (button_name d, bt_x d, bt_y d, bt_callback d)"

definition placed :: "'cb button table \<Rightarrow> 'cb place list" where
  "placed t = map place (live t)"

definition relocate :: "string \<times> int \<times> int \<Rightarrow> 'cb place list \<Rightarrow> 'cb place list" where
  "relocate m ps = (case m of (name, x, y) \<Rightarrow> map (\<lambda>(s, a, b, c). if s = ascii name then (s, x, y, c) else (s, a, b, c)) ps)"

lemma live_put:
  assumes "0 \<le> n" "n < int (length (tab_slots t))" "tab_size t = n"
  shows "live (t\<lparr>tab_slots := (tab_slots t)[nat n := d], tab_size := n + 1\<rparr>) = live t @ [d]"
proof -
  have "nat (n + 1) = Suc (nat n)" "nat n < length (tab_slots t)" using assms by auto
  then show ?thesis using assms(3) by (simp add: live_def take_Suc_conv_app_nth)
qed

lemma add_button_run:
  assumes "pad_ok t" "tab_size t < 50" "length s < 100" "0 \<notin> set s"
  shows "\<exists>t'. ngui_add_button x y s (Some k) t = Some (t', tab_size t) \<and> pad_ok t' \<and> tab_size t' = tab_size t + 1
    \<and> placed t' = placed t @ [(s, x, y, Some k)]"
proof -
  let ?n = "tab_size t"
  define d0 where "d0 = tab_slots t ! nat ?n"
  from assms(1,2) have n: "0 \<le> ?n" "?n < int (length (tab_slots t))" "length (tab_slots t) = 50"
    by (simp_all add: pad_ok_def table_ok_def)
  then have g: "table_get t ?n = Some d0" "button_ok d0"
    using assms(1) by (auto simp: table_get_def arr_get_def d0_def pad_ok_def table_ok_def)
  define s' where "s' = s @ 0 # drop (Suc (length s)) (bt_text d0)"
  define d where "d = d0\<lparr>bt_valid := True, bt_x := x, bt_y := y, bt_x_padding := 20, bt_y_padding := 20,
              bt_shine := 0, bt_text := s', bt_callback := Some k\<rparr>"
  define t' where "t' = t\<lparr>tab_slots := (tab_slots t)[nat ?n := d], tab_size := ?n + 1\<rparr>"
  have c: "c_strcpy (bt_text d0) s = Some s'" using g(2) assms(3) by (simp add: c_strcpy_def s'_def button_ok_def)
  have "length s' = 100" using g(2) assms(3) by (simp add: s'_def button_ok_def)
  then have d: "button_ok d" "button_name d = s"
    using assms(4) by (auto simp: button_ok_def d_def s'_def button_name_def takeWhile_nul)
  have l: "live t' = live t @ [d]" unfolding t'_def by (rule live_put [OF n(1,2)]) simp
  have "ngui_add_button x y s (Some k) t = Some (t', ?n)"
    using g(1) c n by (simp add: ngui_add_button_def table_put_def arr_set_def Let_def d_def t'_def)
  moreover have "set (tab_slots t') \<subseteq> insert d (set (tab_slots t))" unfolding t'_def by (simp add: set_update_subset_insert)
  then have "pad_ok t'" using assms(1,2) d(1) l by (auto simp: pad_ok_def table_ok_def t'_def d_def)
  moreover have "placed t' = placed t @ [(s, x, y, Some k)]" using l d(2) by (simp add: placed_def place_def d_def)
  ultimately show ?thesis by (auto simp: t'_def)
qed

lemma step_all_map:
  "\<forall>w\<in>set ws. f w = Some (g w, []) \<Longrightarrow> step_all (\<lambda>_. True) f ws = Some (map g ws, [])"
  by (induction ws) auto

lemma move_button_run:
  assumes "pad_ok t"
  shows "\<exists>t'. ngui_move_button name x y t = Some t' \<and> pad_ok t' \<and> placed t' = relocate (name, x, y) (placed t)"
proof -
  define g where "g = (\<lambda>d. if button_name d = ascii name then d\<lparr>bt_x := x, bt_y := y\<rparr> else d :: 'a button)"
  define t' where "t' = t\<lparr>tab_slots := map g (live t) @ drop (nat (tab_size t)) (tab_slots t)\<rparr>"
  from assms have b: "0 \<le> tab_size t" "tab_size t \<le> int (length (tab_slots t))" by (simp_all add: pad_ok_def table_ok_def)
  have gk: "button_ok (g d) = button_ok d" "bt_valid (g d) = bt_valid d" "bt_x_padding (g d) = bt_x_padding d"
    "bt_y_padding (g d) = bt_y_padding d" for d by (simp_all add: g_def button_ok_def)
  have ok: "\<forall>d\<in>set (live t). button_ok d" using assms by (auto simp: pad_ok_def table_ok_def live_def dest: in_set_takeD)
  then have "\<forall>d\<in>set (live t). move_slot (ascii name) x y d = Some (g d, [])"
    by (auto simp: move_slot_def button_cstr g_def)
  from step_all_map [OF this] have r: "ngui_move_button name x y t = Some t'"
    unfolding ngui_move_button_def each_valid_step [OF b] by (simp add: t'_def)
  have len: "length (live t) = nat (tab_size t)" using b by (simp add: live_def)
  then have l: "live t' = map g (live t)" by (simp add: live_def t'_def)
  have "nat (tab_size t) \<le> 50" "length (tab_slots t) = 50" using assms unfolding pad_ok_def table_ok_def by linarith+
  then have "length (tab_slots t') = 50" using len by (simp add: t'_def)
  moreover have "\<forall>d\<in>set (tab_slots t'). button_ok d"
    using assms ok by (auto simp: t'_def gk pad_ok_def table_ok_def dest: in_set_dropD)
  ultimately have "pad_ok t'" using assms l by (auto simp: pad_ok_def table_ok_def gk t'_def)
  moreover have "place (g d) = (case place d of (s, a, b, c) \<Rightarrow> if s = ascii name then (s, x, y, c) else (s, a, b, c))" for d
    by (simp add: place_def g_def button_name_def)
  then have "placed t' = relocate (name, x, y) (placed t)" by (simp add: placed_def l relocate_def comp_def)
  ultimately show ?thesis using r by blast
qed

lemma add_vkeys_run:
  "pad_ok t \<Longrightarrow> tab_size t + int (length bs) \<le> 50 \<Longrightarrow> \<forall>(x, y, name, k)\<in>set bs. length (ascii name) < 100 \<and> 0 \<notin> set (ascii name) \<Longrightarrow>
   \<exists>t'. ofold add_vkey bs t = Some t' \<and> pad_ok t' \<and> placed t' = placed t @ map (\<lambda>(x, y, name, k). (ascii name, x, y, Some k)) bs"
proof (induction bs arbitrary: t)
  case (Cons b bs)
  obtain x y name k where b: "b = (x, y, name, k)" by (cases b)
  from add_button_run [of t "ascii name" x y k] Cons.prems b obtain t1 where
    "add_vkey b t = Some t1" "pad_ok t1" "tab_size t1 = tab_size t + 1" "placed t1 = placed t @ [(ascii name, x, y, Some k)]"
    by (auto simp: add_vkey_def)
  with Cons.IH [of t1] Cons.prems b show ?case by auto
qed simp

lemma move_vkeys_run:
  "pad_ok t \<Longrightarrow> \<exists>t'. ofold move_vkey ms t = Some t' \<and> pad_ok t' \<and> placed t' = fold relocate ms (placed t)"
proof (induction ms arbitrary: t)
  case (Cons m ms)
  obtain name x y where m: "m = (name, x, y)" by (cases m)
  from move_button_run [OF Cons.prems, of name x y] obtain t1 where
    "move_vkey m t = Some t1" "pad_ok t1" "placed t1 = relocate m (placed t)" by (auto simp: move_vkey_def m)
  with Cons.IH [of t1] show ?case by auto
qed simp

definition pad_places :: "int \<Rightarrow> int \<Rightarrow> int \<Rightarrow> int \<Rightarrow> int \<times> int \<Rightarrow> vkey place list" where
  "pad_places w h a b close = (let p = (\<lambda>s c r k. (ascii s, w - a * c, h - b * r, Some k)) in
     [p ''Iesc'' 3 3 KbEsc, p ''Ialt'' 3 1 KbAlt, p ''Ictrl'' 1 3 KbCtrl, p ''Itab'' 1 1 KbTab, p ''Iup'' 2 3 KbUp,
      p ''Idown'' 2 1 KbDown, p ''Ileft'' 3 2 KbLeft, p ''Iright'' 1 2 KbRight, p ''Ipaste'' 2 2 KbPaste,
      (ascii ''Iclose'', fst close, snd close, Some KbClose), (ascii ''Ikbshow'', - 1000, - 1000, Some KbKbshow)])"

lemma empty_pad: "pad_ok (ngui_buttons :: vkey button table)" "placed (ngui_buttons :: vkey button table) = []"
  by (auto simp: pad_ok_def table_ok_def ngui_buttons_def live_def placed_def button_ok_def button_zero_def)

lemma virtual_buttons_placed:
  assumes "0 < fw" "0 < fh" "0 \<le> display_width dp" "0 \<le> display_height dp"
  shows "\<exists>t. virtual_buttons_add dp fw fh ngui_buttons = Some t \<and> pad_ok t
    \<and> placed t = pad_places (display_width dp - display_width dp mod (fw * 2)) (display_height dp - display_height dp mod fh)
        (fw * 12) (fh * 6) (if display_height dp - fh * 18 > 80 then (display_width dp - display_width dp mod (fw * 2) - fw * 12, 0)
           else (display_width dp - display_width dp mod (fw * 2) - fw * 48, display_height dp - display_height dp mod fh - fh * 18))"
proof -
  let ?w = "display_width dp - (display_width dp smod 16)" and ?h = "display_height dp - (display_height dp smod 16)"
  define bs :: "(int \<times> int \<times> string \<times> vkey) list" where "bs =
          [(?w - 16 * 6 * 3, ?h - 16 * 6 * 3, ''Iesc'', KbEsc), (?w - 16 * 6 * 3, ?h - 16 * 6 * 1, ''Ialt'', KbAlt),
           (?w - 16 * 6 * 1, ?h - 16 * 6 * 3, ''Ictrl'', KbCtrl), (?w - 16 * 6 * 1, ?h - 16 * 6 * 1, ''Itab'', KbTab),
           (?w - 16 * 6 * 2, ?h - 16 * 6 * 3, ''Iup'', KbUp), (?w - 16 * 6 * 2, ?h - 16 * 6 * 1, ''Idown'', KbDown),
           (?w - 16 * 6 * 3, ?h - 16 * 6 * 2, ''Ileft'', KbLeft), (?w - 16 * 6 * 1, ?h - 16 * 6 * 2, ''Iright'', KbRight),
           (?w - 16 * 6 * 2, ?h - 16 * 6 * 2, ''Ipaste'', KbPaste),
           (if display_height dp - 16 * 6 * 3 > 80 then (?w - 16 * 6 * 1, 0, ''Iclose'', KbClose)
            else (?w - 16 * 6 * 4, ?h - 16 * 6 * 3, ''Iclose'', KbClose)),
           (display_width_abs dp - 16 * 7, display_height_abs dp - 5 * 16, ''Ikbshow'', KbKbshow)]"
  have "tab_size (ngui_buttons :: vkey button table) = 0" "length bs = 11" by (simp_all add: ngui_buttons_def bs_def)
  moreover have "\<forall>(x, y, name, k)\<in>set bs. length (ascii name) < 100 \<and> 0 \<notin> set (ascii name)" by (simp add: bs_def ascii_def)
  ultimately obtain t1 where t1: "ofold add_vkey bs ngui_buttons = Some t1" "pad_ok t1"
    "placed t1 = map (\<lambda>(x, y, name, k). (ascii name, x, y, Some k)) bs"
    using add_vkeys_run [of ngui_buttons bs] empty_pad by auto
  let ?W = "display_width dp - (display_width dp smod (fw * 2))" and ?H = "display_height dp - (display_height dp smod fh)"
  define ms :: "(string \<times> int \<times> int) list" where "ms =
        [(''Iesc'', ?W - fw * 2 * 6 * 3, ?H - fh * 6 * 3), (''Ialt'', ?W - fw * 2 * 6 * 3, ?H - fh * 6 * 1),
         (''Ictrl'', ?W - fw * 2 * 6 * 1, ?H - fh * 6 * 3), (''Itab'', ?W - fw * 2 * 6 * 1, ?H - fh * 6 * 1),
         (''Iup'', ?W - fw * 2 * 6 * 2, ?H - fh * 6 * 3), (''Idown'', ?W - fw * 2 * 6 * 2, ?H - fh * 6 * 1),
         (''Ileft'', ?W - fw * 2 * 6 * 3, ?H - fh * 6 * 2), (''Iright'', ?W - fw * 2 * 6 * 1, ?H - fh * 6 * 2),
         (''Ipaste'', ?W - fw * 2 * 6 * 2, ?H - fh * 6 * 2),
         (if display_height dp - fh * 6 * 3 > 80 then (''Iclose'', ?W - fw * 2 * 6 * 1, 0)
          else (''Iclose'', ?W - fw * 2 * 6 * 4, ?H - fh * 6 * 3)),
         (''Ikbshow'', display_width_abs dp - fw * 2 * 7, display_height_abs dp - 5 * fh),
         (''Ikbshow'', - 1000, - 1000)]"
  from move_vkeys_run [OF t1(2), of ms] obtain t where t: "ofold move_vkey ms t1 = Some t" "pad_ok t"
    "placed t = fold relocate ms (placed t1)" by blast
  have "virtual_buttons_add dp fw fh ngui_buttons = Some t"
    unfolding virtual_buttons_add_def virtual_buttons_reposition_def Let_def bs_def [symmetric] t1(1)
    by (simp only: bind.bind_lunit t(1) ms_def [symmetric])
  moreover have sm: "display_width dp smod (fw * 2) = display_width dp mod (fw * 2)" "display_height dp smod fh = display_height dp mod fh"
    using assms by (simp_all add: signed_modulo_int_def sgn_if)
  have "placed t = pad_places (display_width dp - display_width dp mod (fw * 2)) (display_height dp - display_height dp mod fh)
        (fw * 12) (fh * 6) (if display_height dp - fh * 18 > 80 then (display_width dp - display_width dp mod (fw * 2) - fw * 12, 0)
           else (display_width dp - display_width dp mod (fw * 2) - fw * 48, display_height dp - display_height dp mod fh - fh * 18))"
    unfolding t(3) t1(3) ms_def sm bs_def
    by (cases "display_height dp - 16 * 6 * 3 > 80"; cases "display_height dp - fh * 6 * 3 > 80")
      (simp_all add: relocate_def pad_places_def ascii_def Let_def)
  ultimately show ?thesis using t(2) by blast
qed


text \<open>What a click at \<open>(x, y)\<close> on a button at a place calls.\<close>

definition place_calls :: "int \<Rightarrow> int \<Rightarrow> 'cb place \<Rightarrow> 'cb ui_act list" where
  "place_calls x y p = (case p of (s, bx, by, cb) \<Rightarrow> let press = [UiCall (the cb) (ascii ''press''), UiRedraw] in
     (if s \<noteq> [] \<and> hd s = 73 \<and> bx < x \<and> x < bx + 96 \<and> by < y \<and> y < by + 96 then press else [])
     @ (if bx - 20 < x \<and> size_less x (bx + int (length s) * 8 + 20) \<and> by - 20 < y \<and> y < by + 36 then press else []))"

lemma hd_name: "0 \<in> set t \<Longrightarrow> t ! 0 = (73::byte) \<longleftrightarrow> takeWhile (\<lambda>c. c \<noteq> 0) t \<noteq> [] \<and> hd (takeWhile (\<lambda>c. c \<noteq> 0) t) = 73"
  by (cases t) auto

lemma pad_click_run:
  assumes "pad_ok t"
  shows "\<exists>t'. ngui_receiveall_button (SDL_MOUSEBUTTONDOWN x y) t = Some (t', concat (map (place_calls x y) (placed t)))"
proof -
  let ?e = "SDL_MOUSEBUTTONDOWN x y"
  have c: "(if bt_valid d then snd (the (ngui_receive_event_button ?e d)) else []) = place_calls x y (place d)"
    if "d \<in> set (live t)" for d
  proof -
    from that assms have d: "button_ok d" "bt_valid d" "bt_x_padding d = 20" "bt_y_padding d = 20"
      by (auto simp: pad_ok_def table_ok_def live_def dest: in_set_takeD)
    then obtain f where f: "bt_callback d = Some f" by (auto simp: button_ok_def)
    have "bt_text d ! 0 = 73 \<longleftrightarrow> button_name d \<noteq> [] \<and> hd (button_name d) = 73"
      using d(1) hd_name [of "bt_text d"] by (simp add: button_ok_def button_name_def)
    moreover have "button_in_icon x y d \<longleftrightarrow> bt_x d < x \<and> x < bt_x d + 96 \<and> bt_y d < y \<and> y < bt_y d + 96"
      by (simp add: button_in_icon_def)
    moreover have "bt_y d + 16 + 20 = bt_y d + 36" by simp
    then have "button_in_text x y (button_name d) d \<longleftrightarrow> bt_x d - 20 < x
        \<and> size_less x (bt_x d + int (length (button_name d)) * 8 + 20) \<and> bt_y d - 20 < y \<and> y < bt_y d + 36"
      by (simp only: button_in_text_def d(3,4))
    ultimately have "button_calls x y f d = place_calls x y (place d)"
      unfolding button_calls_def place_calls_def place_def f by (simp only: Let_def prod.case option.sel conj_assoc)
    then show ?thesis using d(2) by (simp add: button_click_run [OF d(1) f])
  qed
  have "table_ok button_ok t" using assms by (simp add: pad_ok_def)
  from button_events.each_total [OF this, of ?e] obtain t' where
    "ngui_receiveall_button ?e t = Some (t', concat (map (\<lambda>w. if bt_valid w then snd (the (ngui_receive_event_button ?e w)) else []) (live t)))"
    unfolding ngui_receiveall_button_def by blast
  moreover have "map (\<lambda>w. if bt_valid w then snd (the (ngui_receive_event_button ?e w)) else []) (live t)
      = map (place_calls x y) (placed t)" using c by (simp add: placed_def)
  ultimately show ?thesis by auto
qed

definition pad_keys :: "(vkey \<times> int \<times> int) list" where
  "pad_keys = [(KbEsc, 3, 3), (KbUp, 2, 3), (KbCtrl, 1, 3), (KbLeft, 3, 2), (KbPaste, 2, 2), (KbRight, 1, 2),
     (KbAlt, 3, 1), (KbDown, 2, 1), (KbTab, 1, 1)]"

lemma pad_key_hit:
  fixes w h :: int
  assumes "0 < dx" "dx < 96" "36 \<le> dy" "dy \<le> 76" "s \<noteq> []" "hd s = 73"
  shows "place_calls (w - 96 * c + dx) (h - 96 * r + dy) (s, w - 96 * c', h - 96 * r', Some k)
    = (if c' = c \<and> r' = r then [UiCall k (ascii ''press''), UiRedraw] else [])"
proof -
  have x: "w - 96 * c' < w - 96 * c + dx \<and> w - 96 * c + dx < w - 96 * c' + 96 \<longleftrightarrow> c' = c"
    using assms(1,2) by auto
  have y: "h - 96 * r' < h - 96 * r + dy \<and> h - 96 * r + dy < h - 96 * r' + 96 \<longleftrightarrow> r' = r"
    using assms(3,4) by auto
  have t: "\<not> (h - 96 * r' - 20 < h - 96 * r + dy \<and> h - 96 * r + dy < h - 96 * r' + 36)"
    using assms(3,4) by (cases "r' < r"; cases "r < r'") linarith+
  let ?x = "w - 96 * c + dx" and ?y = "h - 96 * r + dy" and ?bx = "w - 96 * c'" and ?by = "h - 96 * r'"
  have 1: "(s \<noteq> [] \<and> hd s = 73 \<and> ?bx < ?x \<and> ?x < ?bx + 96 \<and> ?by < ?y \<and> ?y < ?by + 96) = (c' = c \<and> r' = r)"
    using x y assms(5,6) by blast
  have 2: "(?bx - 20 < ?x \<and> size_less ?x (?bx + int (length s) * 8 + 20) \<and> ?by - 20 < ?y \<and> ?y < ?by + 36) = False"
    using t by blast
  show ?thesis unfolding place_calls_def prod.case Let_def 1 2 by (simp only: if_False append_Nil2 option.sel)
qed

lemma far_below:
  "by' + 96 \<le> y \<Longrightarrow> place_calls x y (s, bx, by', cb) = []"
  by (auto simp: place_calls_def Let_def)

lemma pad_place_hits:
  fixes w h :: int
  assumes "368 < h" "(k, c, r) \<in> set pad_keys" "0 < dx" "dx < 96" "36 \<le> dy" "dy \<le> 76"
  shows "concat (map (place_calls (w - 96 * c + dx) (h - 96 * r + dy)) (pad_places w h 96 96 (w - 96, 0)))
    = [UiCall k (ascii ''press''), UiRedraw]"
proof -
  let ?P = "place_calls (w - 96 * c + dx) (h - 96 * r + dy)"
  have r: "r \<le> 3" using assms(2) by (auto simp: pad_keys_def)
  have far: "?P (s, bx, by', cb) = []" if "by' \<le> 0" for s bx by' and cb :: "vkey option"
    using assms(1,5) r that by (intro far_below) simp
  have hit: "?P (ascii s, w - 96 * c', h - 96 * r', Some k')
      = (if c' = c \<and> r' = r then [UiCall k' (ascii ''press''), UiRedraw] else [])"
    if "s \<noteq> []" "hd (ascii s) = 73" for s c' r' and k' :: vkey
    using that by (intro pad_key_hit [OF assms(3-6)]) (auto simp: ascii_def)
  have "hd (ascii (CHR ''I'' # s)) = 73" for s by (simp add: ascii_def)
  then have e: "concat (map ?P (pad_places w h 96 96 (w - 96, 0))) =
      concat (map (\<lambda>(k', c', r'). if c' = c \<and> r' = r then [UiCall k' (ascii ''press''), UiRedraw] else [])
        [(KbEsc, 3, 3), (KbAlt, 3, 1), (KbCtrl, 1, 3), (KbTab, 1, 1), (KbUp, 2, 3), (KbDown, 2, 1), (KbLeft, 3, 2),
         (KbRight, 1, 2), (KbPaste, 2, 2)])"
    by (simp only: pad_places_def Let_def list.map concat.simps prod.case hit far fst_conv snd_conv list.distinct simp_thms) simp
  show ?thesis unfolding e using assms(2) by (auto simp: pad_keys_def)
qed

text \<open>
  C30: With the small font, the nine keys of the virtual keyboard stand in a 3 by 3 block at the lower
  right corner of the visible display, and a click into the band of a key's square from pixel row 36 to
  76 presses that key once and nothing else.
\<close>

theorem virtual_pad_press:
  assumes "0 \<le> display_width dp" "384 \<le> display_height dp" "(k, c, r) \<in> set pad_keys"
    "0 < dx" "dx < 96" "36 \<le> dy" "dy \<le> 76"
  shows "\<exists>t t'. virtual_buttons_add dp 8 16 ngui_buttons = Some t \<and>
    ngui_receiveall_button (SDL_MOUSEBUTTONDOWN
        (display_width dp - display_width dp mod 16 - 96 * c + dx) (display_height dp - display_height dp mod 16 - 96 * r + dy)) t
      = Some (t', [UiCall k (ascii ''press''), UiRedraw])"
proof -
  let ?w = "display_width dp - display_width dp mod 16" and ?h = "display_height dp - display_height dp mod 16"
  have h: "368 < ?h" using assms(2) pos_mod_bound [of 16 "display_height dp"] by simp
  from virtual_buttons_placed [of 8 16 dp] assms(1,2) obtain t where
    t: "virtual_buttons_add dp 8 16 ngui_buttons = Some t" "pad_ok t" "placed t = pad_places ?w ?h 96 96 (?w - 96, 0)"
    by auto
  from pad_click_run [OF t(2), of "?w - 96 * c + dx" "?h - 96 * r + dy"] obtain t' where
    "ngui_receiveall_button (SDL_MOUSEBUTTONDOWN (?w - 96 * c + dx) (?h - 96 * r + dy)) t = Some (t', [UiCall k (ascii ''press''), UiRedraw])"
    unfolding t(3) pad_place_hits [OF h assms(3-7)] by blast
  with t(1) show ?thesis by blast
qed

definition demo_display :: display where
  "demo_display = \<lparr>display_width = 1024, display_height = 768, display_width_abs = 1024, display_height_abs = 768\<rparr>"

theorem virtual_pad_press_witness:
  "\<exists>t t'. virtual_buttons_add demo_display 8 16 ngui_buttons = Some t \<and>
    ngui_receiveall_button (SDL_MOUSEBUTTONDOWN 880 530) t = Some (t', [UiCall KbUp (ascii ''press''), UiRedraw])"
  using virtual_pad_press [of demo_display KbUp 2 3 48 50] by (simp add: demo_display_def pad_keys_def)

text \<open>
  In the upper band of a key the square and the text area of the same button overlap: one click at
  up to 35 pixel rows and 52 columns inside a key's square presses the key twice, and the escape, Ctrl
  or arrow is sent twice.
\<close>

theorem icon_double_press:
  assumes "button_ok d" "bt_callback d = Some f" "bt_text d ! 0 = 73" "bt_x_padding d = 20" "bt_y_padding d = 20"
    "0 \<le> bt_x d" "bt_x d < 2 ^ 31" "0 < dx" "dx < 8 * int (length (button_name d)) + 20" "dx < 96" "0 < dy" "dy < 36"
  shows "ngui_receive_event_button (SDL_MOUSEBUTTONDOWN (bt_x d + dx) (bt_y d + dy)) d
    = Some (d\<lparr>bt_shine := 20\<rparr>, [UiCall f (ascii ''press''), UiRedraw, UiCall f (ascii ''press''), UiRedraw])"
proof -
  have "length (button_name d) \<le> 100"
    using assms(1) length_takeWhile_le [of "\<lambda>c. c \<noteq> 0" "bt_text d"] by (simp add: button_name_def button_ok_def)
  then have "size_less (bt_x d + dx) (bt_x d + int (length (button_name d)) * 8 + 20)"
    using assms(6-10) by (subst size_less_nonneg) auto
  then have "button_calls (bt_x d + dx) (bt_y d + dy) f d
      = [UiCall f (ascii ''press''), UiRedraw, UiCall f (ascii ''press''), UiRedraw]"
    using assms(3-5,8-12) by (simp add: button_calls_def button_in_icon_def button_in_text_def)
  then show ?thesis using button_click_run [OF assms(1,2)] by simp
qed

theorem icon_double_press_witness:
  "ngui_receive_event_button (SDL_MOUSEBUTTONDOWN 110 120) demo_button
    = Some (demo_button\<lparr>bt_shine := 20\<rparr>, [UiCall KbUp (ascii ''press''), UiRedraw, UiCall KbUp (ascii ''press''), UiRedraw])"
  using icon_double_press [of demo_button KbUp 10 20]
  by (simp add: demo_button_def button_ok_def button_zero_def button_name_def)

end
