(* ===== verification/Ngui.thy ===== *)
theory Ngui
  imports Buttons
begin

section \<open>Prompts and the widget toolkit (ngui_info_prompt.c, ngui.c)\<close>

text \<open>
  The prompt that groups labels, boxes and a button, and the two functions of \<open>ngui.c\<close> that pass events
  and rendering to all widgets, in a fixed order. The code of \<open>ngui_add_info_prompt\<close> that creates a prompt's
  widgets is commented out in the source, so their ids stay 0.
\<close>

record 'ip info_prompt =
  ip_valid :: bool
  ip_x :: int
  ip_y :: int
  ip_p1 :: "byte list"
  ip_p2 :: "byte list"
  ip_p3 :: "byte list"
  ip_p1_opt :: int
  ip_p2_opt :: int
  ip_p3_opt :: int
  ip_callback :: "'ip option"
  ip_textbox1 :: int
  ip_textbox2 :: int
  ip_textbox3 :: int
  ip_textlabel1 :: int
  ip_textlabel2 :: int
  ip_textlabel3 :: int
  ip_button1 :: int

definition info_prompt_zero :: "'ip info_prompt" where
  "info_prompt_zero = \<lparr>ip_valid = False, ip_x = 0, ip_y = 0, ip_p1 = replicate 100 0, ip_p2 = replicate 100 0,
     ip_p3 = replicate 100 0, ip_p1_opt = 0, ip_p2_opt = 0, ip_p3_opt = 0, ip_callback = None, ip_textbox1 = 0,
     ip_textbox2 = 0, ip_textbox3 = 0, ip_textlabel1 = 0, ip_textlabel2 = 0, ip_textlabel3 = 0, ip_button1 = 0\<rparr>"

text \<open>All widgets: the tables of the five files.\<close>

record ('cb, 'ip) ngui =
  ui_prompts :: "'ip info_prompt table"
  ui_labels :: "textlabel table"
  ui_buttons :: "'cb button table"
  ui_boxes :: "'cb textbox table"
  ui_selects :: "'cb stringselect table"

definition ngui_static :: "('cb, 'ip) ngui" where
  "ngui_static = \<lparr>ui_prompts = \<lparr>tab_size = 0, tab_slots = replicate 50 info_prompt_zero\<rparr>, ui_labels = ngui_textlabels,
     ui_buttons = ngui_buttons, ui_boxes = ngui_textboxs, ui_selects = ngui_stringselects\<rparr>"

text \<open>The call of a prompt's callback: the callback and the three texts, as the arrays passed.\<close>

definition ngui_info_prompt_button_call :: "('cb, 'ip) ngui \<Rightarrow> ('ip \<times> byte list \<times> byte list \<times> byte list) option" where
  "ngui_info_prompt_button_call u = do {
     p \<leftarrow> table_get (ui_prompts u) 0;
     t1 \<leftarrow> ngui_textbox_get_value (ip_textbox1 p) (ui_boxes u);
     t2 \<leftarrow> ngui_textbox_get_value (ip_textbox2 p) (ui_boxes u);
     t3 \<leftarrow> ngui_textbox_get_value (ip_textbox3 p) (ui_boxes u);
     f \<leftarrow> ip_callback p;
     Some (f, t1, t2, t3) }"

definition ngui_info_prompt_textbox_call :: "'cb ui_act list" where
  "ngui_info_prompt_textbox_call = [UiRedraw]"

definition ngui_delete_info_prompt :: "int \<Rightarrow> ('cb, 'ip) ngui \<Rightarrow> ('cb, 'ip) ngui option" where
  "ngui_delete_info_prompt i u = do {
     p \<leftarrow> table_get (ui_prompts u) i;
     ps \<leftarrow> table_put (ui_prompts u) i (p\<lparr>ip_valid := False\<rparr>);
     l1 \<leftarrow> ngui_delete_textlabel (ip_textlabel1 p) (ui_labels u);
     l2 \<leftarrow> ngui_delete_textlabel (ip_textlabel2 p) l1;
     l3 \<leftarrow> ngui_delete_textlabel (ip_textlabel3 p) l2;
     b1 \<leftarrow> ngui_delete_textbox (ip_textbox1 p) (ui_boxes u);
     b2 \<leftarrow> ngui_delete_textbox (ip_textbox2 p) b1;
     b3 \<leftarrow> ngui_delete_textbox (ip_textbox3 p) b2;
     k \<leftarrow> ngui_delete_button (ip_button1 p) (ui_buttons u);
     Some (u\<lparr>ui_prompts := ps, ui_labels := l3, ui_boxes := b3, ui_buttons := k\<rparr>) }"

definition ngui_add_info_prompt :: "int \<Rightarrow> int \<Rightarrow> byte list \<Rightarrow> byte list \<Rightarrow> byte list \<Rightarrow> int \<Rightarrow> int \<Rightarrow> int \<Rightarrow> 'ip option
    \<Rightarrow> ('cb, 'ip) ngui \<Rightarrow> (('cb, 'ip) ngui \<times> int) option" where
  "ngui_add_info_prompt x y p1 p2 p3 o1 o2 o3 callback u = do {
     let n = tab_size (ui_prompts u);
     d \<leftarrow> table_get (ui_prompts u) n;
     s1 \<leftarrow> c_strcpy (ip_p1 d) p1;
     s2 \<leftarrow> c_strcpy (ip_p2 d) p2;
     s3 \<leftarrow> c_strcpy (ip_p3 d) p3;
     t \<leftarrow> table_put (ui_prompts u) n (d\<lparr>ip_valid := True, ip_x := x, ip_y := y, ip_p1 := s1, ip_p2 := s2, ip_p3 := s3,
            ip_p1_opt := o1, ip_p2_opt := o2, ip_p3_opt := o3, ip_callback := callback\<rparr>);
     let t' = t\<lparr>tab_size := tab_size t + 1\<rparr>;
     Some (u\<lparr>ui_prompts := t'\<rparr>, tab_size t' - 1) }"

text \<open>The loops over the prompts do not look at \<open>valid\<close>; their bodies are empty.\<close>

definition ngui_receiveall_info_prompt :: "sdl_event \<Rightarrow> 'ip info_prompt table \<Rightarrow> ('ip info_prompt table \<times> 'cb ui_act list) option" where
  "ngui_receiveall_info_prompt event t = each_valid (\<lambda>_. True) (\<lambda>d. Some (d, [])) t"

definition ngui_renderall_info_prompt :: "'ip info_prompt table \<Rightarrow> ('ip info_prompt table \<times> render_cmd list) option" where
  "ngui_renderall_info_prompt t = each_valid (\<lambda>_. True) (\<lambda>d. Some (d, [])) t"

definition ngui_receive_event :: "sdl_event \<Rightarrow> ('cb, 'ip) ngui \<Rightarrow> (('cb, 'ip) ngui \<times> 'cb ui_act list) option" where
  "ngui_receive_event event u = do {
     (ps, a1) \<leftarrow> ngui_receiveall_info_prompt event (ui_prompts u);
     (ls, a2) \<leftarrow> ngui_receiveall_textlabel event (ui_labels u);
     (ks, a3) \<leftarrow> ngui_receiveall_button event (ui_buttons u);
     (bs, a4) \<leftarrow> ngui_receiveall_textbox event (ui_boxes u);
     (ss, a5) \<leftarrow> ngui_receiveall_stringselect event (ui_selects u);
     Some (u\<lparr>ui_prompts := ps, ui_labels := ls, ui_buttons := ks, ui_boxes := bs, ui_selects := ss\<rparr>, a1 @ a2 @ a3 @ a4 @ a5) }"

definition ngui_render :: "('cb, 'ip) ngui \<Rightarrow> (('cb, 'ip) ngui \<times> 'cb ui_out list) option" where
  "ngui_render u = do {
     (ps, c1) \<leftarrow> ngui_renderall_info_prompt (ui_prompts u);
     (ls, c2) \<leftarrow> ngui_renderall_textlabel (ui_labels u);
     (ks, c3) \<leftarrow> ngui_renderall_button (ui_buttons u);
     (bs, c4) \<leftarrow> ngui_renderall_textbox (ui_boxes u);
     (ss, c5) \<leftarrow> ngui_renderall_stringselect (ui_selects u);
     Some (u\<lparr>ui_prompts := ps, ui_labels := ls, ui_buttons := ks, ui_boxes := bs, ui_selects := ss\<rparr>,
           map Draw c1 @ map Draw c2 @ c3 @ map Draw c4 @ map Draw c5) }"

subsection \<open>The invariant of the toolkit\<close>

definition prompt_ok :: "'ip info_prompt \<Rightarrow> bool" where
  "prompt_ok p \<longleftrightarrow> length (ip_p1 p) = 100 \<and> length (ip_p2 p) = 100 \<and> length (ip_p3 p) = 100
     \<and> ip_textbox1 p = 0 \<and> ip_textbox2 p = 0 \<and> ip_textbox3 p = 0
     \<and> ip_textlabel1 p = 0 \<and> ip_textlabel2 p = 0 \<and> ip_textlabel3 p = 0 \<and> ip_button1 p = 0"

definition ngui_ok :: "('cb, 'ip) ngui \<Rightarrow> bool" where
  "ngui_ok u \<longleftrightarrow> table_ok prompt_ok (ui_prompts u) \<and> table_ok textlabel_ok (ui_labels u) \<and> table_ok button_ok (ui_buttons u)
     \<and> table_ok textbox_ok (ui_boxes u) \<and> table_ok stringselect_ok (ui_selects u)"

lemma each_valid_idle:
  assumes "table_ok wok t"
  shows "each_valid (\<lambda>_. True) (\<lambda>d. Some (d, [] :: 'a list)) t = Some (t, [])"
proof -
  from assms have b: "0 \<le> tab_size t" "tab_size t \<le> int (length (tab_slots t))" by (simp_all add: table_ok_def)
  have "step_all (\<lambda>_. True) (\<lambda>d. Some (d, [] :: 'a list)) (live t) = Some (map id (live t), [])" by (rule step_all_map) simp
  moreover have "live t @ drop (nat (tab_size t)) (tab_slots t) = tab_slots t" by (simp add: live_def)
  ultimately show ?thesis unfolding each_valid_step [OF b] by simp
qed

text \<open>What an event or a rendering may change: the widgets' contents, never which ids exist or are in use.\<close>

definition same_widgets :: "('cb, 'ip) ngui \<Rightarrow> ('cb, 'ip) ngui \<Rightarrow> bool" where
  "same_widgets u v \<longleftrightarrow> ui_prompts v = ui_prompts u
     \<and> tab_size (ui_labels v) = tab_size (ui_labels u) \<and> map tl_valid (tab_slots (ui_labels v)) = map tl_valid (tab_slots (ui_labels u))
     \<and> tab_size (ui_buttons v) = tab_size (ui_buttons u) \<and> map bt_valid (tab_slots (ui_buttons v)) = map bt_valid (tab_slots (ui_buttons u))
     \<and> tab_size (ui_boxes v) = tab_size (ui_boxes u) \<and> map tb_valid (tab_slots (ui_boxes v)) = map tb_valid (tab_slots (ui_boxes u))
     \<and> tab_size (ui_selects v) = tab_size (ui_selects u) \<and> map ss_valid (tab_slots (ui_selects v)) = map ss_valid (tab_slots (ui_selects u))"

lemma ngui_event_keeps:
  fixes u :: "('cb, 'ip) ngui"
  assumes "ngui_ok u" "ngui_receive_event e u = Some (v, as)"
  shows "ngui_ok v \<and> same_widgets u v"
proof -
  from assms(1) have ok: "table_ok prompt_ok (ui_prompts u)" "table_ok textlabel_ok (ui_labels u)"
    "table_ok button_ok (ui_buttons u)" "table_ok textbox_ok (ui_boxes u)" "table_ok stringselect_ok (ui_selects u)"
    by (simp_all add: ngui_ok_def)
  have p: "ngui_receiveall_info_prompt e (ui_prompts u) = Some (ui_prompts u, [])"
    unfolding ngui_receiveall_info_prompt_def by (rule each_valid_idle [OF ok(1)])
  from assms(2) obtain ls ks bs ss a2 a3 a4 a5 where
    r: "each_valid tl_valid (ngui_receive_event_textlabel e) (ui_labels u) = Some (ls, a2 :: 'cb ui_act list)"
      "each_valid bt_valid (ngui_receive_event_button e) (ui_buttons u) = Some (ks, a3)"
      "each_valid tb_valid (ngui_receive_event_textbox e) (ui_boxes u) = Some (bs, a4)"
      "each_valid ss_valid (ngui_receive_event_stringselect e) (ui_selects u) = Some (ss, a5)"
      "v = u\<lparr>ui_labels := ls, ui_buttons := ks, ui_boxes := bs, ui_selects := ss\<rparr>"
    unfolding ngui_receive_event_def p ngui_receiveall_textlabel_def ngui_receiveall_button_def
      ngui_receiveall_textbox_def ngui_receiveall_stringselect_def
    by (auto split: bind_splits)
  show ?thesis
    using ok(1) textlabel_events.each_keeps [OF ok(2) r(1)] button_events.each_keeps [OF ok(3) r(2)]
      textbox_events.each_keeps [OF ok(4) r(3)] stringselect_events.each_keeps [OF ok(5) r(4)]
    by (simp add: ngui_ok_def same_widgets_def r(5))
qed

text \<open>
  C32: The toolkit's invariant: an event keeps every table well formed (at most 50 widgets, texts
  terminated, buttons in use callable, shining between 0 and 20), and changes neither the ids in use nor
  the prompts.
\<close>

theorem ngui_event_invariant:
  assumes "ngui_ok u" "ngui_receive_event e u = Some (v, as)"
  shows "ngui_ok v \<and> same_widgets u v"
  by (rule ngui_event_keeps [OF assms])

lemma ngui_static_ok: "ngui_ok ngui_static"
  by (auto simp: ngui_ok_def ngui_static_def table_ok_def prompt_ok_def info_prompt_zero_def ngui_textlabels_def
      textlabel_ok_def textlabel_zero_def ngui_buttons_def button_ok_def button_zero_def ngui_textboxs_def textbox_ok_def
      textbox_zero_def ngui_stringselects_def stringselect_ok_def stringselect_zero_def)

lemma each_valid_empty: "tab_size t = 0 \<Longrightarrow> each_valid valid f t = Some (t, [])"
  by (simp add: each_valid_def)

text \<open>The Linux program adds no widget: its toolkit ignores every event and draws nothing.\<close>

lemma ngui_static_event: "ngui_receive_event e ngui_static = Some (ngui_static, [])"
  by (simp add: ngui_receive_event_def ngui_static_def ngui_receiveall_info_prompt_def ngui_receiveall_textlabel_def
      ngui_receiveall_button_def ngui_receiveall_textbox_def ngui_receiveall_stringselect_def each_valid_empty
      ngui_textlabels_def ngui_buttons_def ngui_textboxs_def ngui_stringselects_def)

lemma ngui_static_render: "ngui_render ngui_static = Some (ngui_static, [])"
  by (simp add: ngui_render_def ngui_static_def ngui_renderall_info_prompt_def ngui_renderall_textlabel_def
      ngui_renderall_button_def ngui_renderall_textbox_def ngui_renderall_stringselect_def each_valid_empty
      ngui_textlabels_def ngui_buttons_def ngui_textboxs_def ngui_stringselects_def)

theorem ngui_event_invariant_witness:
  "ngui_ok (ngui_static :: (vkey, unit) ngui) \<and> same_widgets (ngui_static :: (vkey, unit) ngui) ngui_static"
  using ngui_event_invariant [OF ngui_static_ok ngui_static_event] ngui_static_ok by blast

lemma table_put_run: "0 \<le> i \<Longrightarrow> i < int (length (tab_slots t)) \<Longrightarrow> table_put t i w = Some (t\<lparr>tab_slots := (tab_slots t)[nat i := w]\<rparr>)"
  by (simp add: table_put_def arr_set_def)

lemma table_get_run: "0 \<le> i \<Longrightarrow> i < int (length (tab_slots t)) \<Longrightarrow> table_get t i = Some (tab_slots t ! nat i)"
  by (simp add: table_get_def arr_get_def)

definition kill_slot0 :: "('w \<Rightarrow> 'w) \<Rightarrow> 'w table \<Rightarrow> 'w table" where
  "kill_slot0 kill t = t\<lparr>tab_slots := (tab_slots t)[0 := kill (tab_slots t ! 0)]\<rparr>"

lemma delete_slot0:
  "length (tab_slots ls) = 50 \<Longrightarrow> ngui_delete_textlabel 0 ls = Some (kill_slot0 (\<lambda>d. d\<lparr>tl_valid := False\<rparr>) ls)"
  "length (tab_slots bs) = 50 \<Longrightarrow> ngui_delete_textbox 0 bs = Some (kill_slot0 (\<lambda>d. d\<lparr>tb_valid := False\<rparr>) bs)"
  "length (tab_slots ks) = 50 \<Longrightarrow> ngui_delete_button 0 ks = Some (kill_slot0 (\<lambda>d. d\<lparr>bt_valid := False\<rparr>) ks)"
  by (simp_all add: ngui_delete_textlabel_def ngui_delete_textbox_def ngui_delete_button_def table_get_run table_put_run
      kill_slot0_def)

lemma kill_slot0_again:
  "length (tab_slots t) = 50 \<Longrightarrow> (\<And>d. kill (kill d) = kill d) \<Longrightarrow> kill_slot0 kill (kill_slot0 kill t) = kill_slot0 kill t"
  by (simp add: kill_slot0_def)

text \<open>
  A prompt deletes what it does not own: whichever prompt is deleted, the label, the text box and the
  button with id 0 are taken out of use, and nothing else in their tables changes.
\<close>

theorem info_prompt_deletes_first_widgets:
  assumes "ngui_ok u" "0 \<le> i" "i < tab_size (ui_prompts u)"
  shows "\<exists>ps. ngui_delete_info_prompt i u = Some (u\<lparr>ui_prompts := ps,
      ui_labels := kill_slot0 (\<lambda>d. d\<lparr>tl_valid := False\<rparr>) (ui_labels u),
      ui_boxes := kill_slot0 (\<lambda>d. d\<lparr>tb_valid := False\<rparr>) (ui_boxes u),
      ui_buttons := kill_slot0 (\<lambda>d. d\<lparr>bt_valid := False\<rparr>) (ui_buttons u)\<rparr>)"
proof -
  define p where "p = tab_slots (ui_prompts u) ! nat i"
  from assms have i: "i < int (length (tab_slots (ui_prompts u)))" and len: "length (tab_slots (ui_labels u)) = 50"
    "length (tab_slots (ui_boxes u)) = 50" "length (tab_slots (ui_buttons u)) = 50"
    by (simp_all add: ngui_ok_def table_ok_def)
  then have "p \<in> set (tab_slots (ui_prompts u))" using assms(2) by (simp add: p_def)
  then have p: "prompt_ok p" using assms(1) by (simp add: ngui_ok_def table_ok_def)
  have "length (tab_slots (kill_slot0 k t)) = length (tab_slots t)" for k and t :: "'c table" by (simp add: kill_slot0_def)
  then show ?thesis
    using p len i assms(2)
    by (auto simp: ngui_delete_info_prompt_def table_get_run table_put_run p_def [symmetric] prompt_ok_def delete_slot0
        kill_slot0_def)
qed

definition demo_ui :: "(vkey, unit) ngui" where
  "demo_ui = ngui_static\<lparr>ui_prompts := \<lparr>tab_size = 1, tab_slots = replicate 50 info_prompt_zero\<rparr>\<rparr>"

theorem info_prompt_deletes_first_widgets_witness:
  "\<exists>v. ngui_delete_info_prompt 0 demo_ui = Some v \<and> \<not> bt_valid (tab_slots (ui_buttons v) ! 0)"
proof -
  have "ngui_ok demo_ui" "tab_size (ui_prompts demo_ui) = 1"
    using ngui_static_ok [where 'a = vkey and 'b = unit]
    by (simp_all add: demo_ui_def ngui_ok_def ngui_static_def table_ok_def)
  with info_prompt_deletes_first_widgets [of demo_ui 0] show ?thesis
    by (auto simp: kill_slot0_def demo_ui_def ngui_static_def ngui_buttons_def)
qed

end
