(* ===== verification/Connection.thy ===== *)
theory Connection
  imports Prelude "HOL-Library.State_Monad"
begin

section \<open>Connections to a host (local.c, ssh.c)\<close>

text \<open>
  \<open>main.c\<close> talks to a host through five function pointers that are set to the functions of \<open>local.c\<close>
  (a shell on a pseudo terminal) or of \<open>ssh.c\<close>. The operating system and libssh2 are parameters: records
  of functions that map the state of the outside world to a result and its next state. The calls of
  \<open>ssh.c\<close> are recorded in order.

  A \<open>read\<close> hands over at most as many bytes as the caller's buffer holds, and fails with a negative
  code: both are built into the type of its result. Functions of the source that end without a
  \<open>return\<close> have the value \<^const>\<open>None\<close> (no caller uses it).
\<close>

datatype read_result = ReadErr nat | ReadData "byte list"

text \<open>\<open>ReadErr n\<close> is the error code \<open>-(n+1)\<close>.\<close>

fun read_len :: "nat \<Rightarrow> read_result \<Rightarrow> int" where
  "read_len n (ReadErr e) = - int e - 1"
| "read_len n (ReadData bs) = int (length (take n bs))"

fun read_bytes :: "nat \<Rightarrow> read_result \<Rightarrow> byte list" where
  "read_bytes n (ReadErr e) = []"
| "read_bytes n (ReadData bs) = take n bs"

lemma read_result_len: "read_len n r \<le> int n" "length (read_bytes n r) = nat (read_len n r)"
  by (cases r; simp)+

subsection \<open>The contract\<close>

text \<open>
  What \<open>console_poll\<close> relies on: a read delivers as many bytes as it says, at most as many as asked
  for, or a result that is not positive and no bytes.
\<close>

text \<open>The bytes of \<open>k\<close> rounds of reading, up to the first error.\<close>

fun rounds :: "(nat \<Rightarrow> 's \<Rightarrow> (int \<times> byte list) \<times> 's) \<Rightarrow> nat \<Rightarrow> nat \<Rightarrow> 's \<Rightarrow> byte list" where
  "rounds c_read n 0 s = []"
| "rounds c_read n (Suc k) s = (case c_read n s of ((l, bs), s') \<Rightarrow> if l < 0 then [] else bs @ rounds c_read n k s')"

locale connection =
  fixes c_read :: "nat \<Rightarrow> 's \<Rightarrow> (int \<times> byte list) \<times> 's"
  assumes read_law: "c_read n s = ((l, bs), s') \<Longrightarrow> l \<le> int n \<and> length bs = nat l"
begin

lemma rounds_bound: "length (rounds c_read n k s) \<le> k * n"
proof (induction k arbitrary: s)
  case (Suc k)
  obtain l bs s' where r: "c_read n s = ((l, bs), s')" by (metis surj_pair)
  have "nat l \<le> n" "length bs = nat l" using read_law [OF r] by auto
  with Suc.IH [of s'] r show ?case by simp
qed simp

end

text \<open>A connection that can be closed: from then on it reports an error and its state stays.\<close>

locale closing_connection = connection +
  fixes c_close :: "'a \<Rightarrow> 'a" and closed :: "'a \<Rightarrow> bool"
  assumes close_closes: "closed (c_close s)"
    and closed_read: "closed s \<Longrightarrow> c_read n s = ((- 1, []), s)"
begin

lemma rounds_closed: "closed s \<Longrightarrow> rounds c_read n k s = []"
  by (cases k) (simp_all add: closed_read)

end

subsection \<open>A shell on a pseudo terminal\<close>

record 'w posix =
  px_forkpty :: "'w \<Rightarrow> (int \<times> int) \<times> 'w"
  px_getfl :: "int \<Rightarrow> 'w \<Rightarrow> int \<times> 'w"
  px_setfl :: "int \<Rightarrow> int \<Rightarrow> 'w \<Rightarrow> 'w"
  px_putenv :: "byte list \<Rightarrow> 'w \<Rightarrow> 'w"
  px_execl :: "byte list \<Rightarrow> 'w \<Rightarrow> bool \<times> 'w"
  px_read :: "int \<Rightarrow> 'w \<Rightarrow> (int + byte list) \<times> 'w"
  px_write :: "int \<Rightarrow> byte list \<Rightarrow> 'w \<Rightarrow> int \<times> 'w"
  px_setwinsize :: "int \<Rightarrow> int \<Rightarrow> int \<Rightarrow> 'w \<Rightarrow> 'w"
  px_close :: "int \<Rightarrow> 'w \<Rightarrow> 'w"

text \<open>
  \<open>px_forkpty\<close> gives the process id and what it stores in \<open>fd\<close> (used if the id is not -1);
  \<open>px_execl\<close> says whether the process image was replaced; \<open>px_read\<close> gives an error number or data.
\<close>

record 'w local_state =
  local_pid :: int
  local_flags :: int
  local_fd :: int
  local_world :: 'w

definition local_static :: "'w \<Rightarrow> 'w local_state" where
  "local_static w = \<lparr>local_pid = 0, local_flags = 0, local_fd = 0, local_world = w\<rparr>"

definition O_NONBLOCK :: int where "O_NONBLOCK = 2048"
definition EAGAIN :: int where "EAGAIN = 11"

text \<open>The result is \<^const>\<open>None\<close> in the child, whose image \<open>execl\<close> replaces.\<close>

definition local_open :: "'w posix \<Rightarrow> 'w local_state \<Rightarrow> int option \<times> 'w local_state" where
  "local_open px s =
     (let ((p, f), w1) = px_forkpty px (local_world s);
          s1 = s\<lparr>local_pid := p, local_fd := (if p = - 1 then local_fd s else f), local_world := w1\<rparr>;
          (fl, w2) = px_getfl px (local_fd s1) (local_world s1);
          w3 = px_setfl px (local_fd s1) (fl OR O_NONBLOCK) w2;
          w4 = px_putenv px (ascii ''TERM=xterm'') w3;
          s2 = s1\<lparr>local_flags := fl, local_world := w4\<rparr>
      in if local_pid s2 = 0 then
           (let (replaced, w5) = px_execl px (ascii ''/bin/bash'') (local_world s2)
            in (if replaced then None else Some 1, s2\<lparr>local_world := w5\<rparr>))
         else (Some 1, s2))"

definition local_write :: "'w posix \<Rightarrow> byte list \<Rightarrow> 'w local_state \<Rightarrow> int \<times> 'w local_state" where
  "local_write px bytes s = (let (r, w) = px_write px (local_fd s) bytes (local_world s) in (r, s\<lparr>local_world := w\<rparr>))"

definition local_read :: "'w posix \<Rightarrow> nat \<Rightarrow> 'w local_state \<Rightarrow> (int \<times> byte list) \<times> 'w local_state" where
  "local_read px n s =
     (let (r, w) = px_read px (local_fd s) (local_world s);
          s' = s\<lparr>local_world := w\<rparr>
      in case r of
           Inl errno \<Rightarrow> (if errno = EAGAIN then ((0, []), s') else ((- 1, []), s'))
         | Inr bs \<Rightarrow> ((int (length (take n bs)), take n bs), s'))"

definition local_resize :: "'w posix \<Rightarrow> int \<Rightarrow> int \<Rightarrow> 'w local_state \<Rightarrow> 'w local_state" where
  "local_resize px cols rows s =
     s\<lparr>local_world := px_setwinsize px (local_fd s) (rows mod 65536) (cols mod 65536) (local_world s)\<rparr>"

definition local_close :: "'w posix \<Rightarrow> 'w local_state \<Rightarrow> 'w local_state" where
  "local_close px s = s\<lparr>local_world := px_close px (local_fd s) (local_world s)\<rparr>"

interpretation local_conn: connection "local_read px" for px
  by unfold_locales (auto simp: local_read_def Let_def split: prod.splits sum.splits if_splits)

subsection \<open>Calls to libssh2\<close>

datatype ssh_call =
    Getaddrinfo "byte list" | Getnameinfo nat | Socket | Connect "nat option"
  | SessionInit | SessionHandshake | HostkeyHash | UserauthList "byte list"
  | UserauthPassword "byte list" "byte list" | UserauthPublickey "byte list" "byte list" "byte list"
  | ChannelOpen | ChannelSetenv | RequestPty | ChannelShell | SetBlocking bool
  | ChannelEof | ChannelWrite "byte list" | ChannelRead int | ChannelFree
  | SessionDisconnect | SessionFree | CloseSocket | LibExit | RequestPtySize int int | ScpRecv "byte list"

text \<open>
  Addresses, sessions and channels are handles; a null pointer is \<^const>\<open>None\<close>. \<open>lib_getaddrinfo\<close> gives
  the addresses found, \<open>lib_getnameinfo\<close> the name, both \<^const>\<open>None\<close> on an error.
\<close>

record 'w ssh_lib =
  lib_getaddrinfo :: "byte list \<Rightarrow> 'w \<Rightarrow> nat list option \<times> 'w"
  lib_getnameinfo :: "nat \<Rightarrow> 'w \<Rightarrow> byte list option \<times> 'w"
  lib_socket :: "'w \<Rightarrow> int \<times> 'w"
  lib_connect :: "int \<Rightarrow> nat option \<Rightarrow> 'w \<Rightarrow> int \<times> 'w"
  lib_session_init :: "'w \<Rightarrow> nat option \<times> 'w"
  lib_handshake :: "nat option \<Rightarrow> int \<Rightarrow> 'w \<Rightarrow> int \<times> 'w"
  lib_hostkey_hash :: "nat option \<Rightarrow> 'w \<Rightarrow> byte list option \<times> 'w"
  lib_userauth_list :: "nat option \<Rightarrow> byte list \<Rightarrow> 'w \<Rightarrow> byte list option \<times> 'w"
  lib_userauth_password :: "nat option \<Rightarrow> byte list \<Rightarrow> byte list \<Rightarrow> 'w \<Rightarrow> int \<times> 'w"
  lib_userauth_publickey :: "nat option \<Rightarrow> byte list \<Rightarrow> byte list \<Rightarrow> byte list \<Rightarrow> 'w \<Rightarrow> int \<times> 'w"
  lib_channel_open :: "nat option \<Rightarrow> 'w \<Rightarrow> nat option \<times> 'w"
  lib_request_pty :: "nat option \<Rightarrow> 'w \<Rightarrow> int \<times> 'w"
  lib_channel_shell :: "nat option \<Rightarrow> 'w \<Rightarrow> int \<times> 'w"
  lib_channel_eof :: "nat option \<Rightarrow> 'w \<Rightarrow> int \<times> 'w"
  lib_channel_write :: "nat option \<Rightarrow> byte list \<Rightarrow> 'w \<Rightarrow> int \<times> 'w"
  lib_channel_read :: "nat option \<Rightarrow> 'w \<Rightarrow> read_result \<times> 'w"
  lib_scp_recv :: "nat option \<Rightarrow> byte list \<Rightarrow> 'w \<Rightarrow> (nat \<times> int) option \<times> 'w"
  lib_effect :: "ssh_call \<Rightarrow> 'w \<Rightarrow> 'w"

text \<open>\<open>lib_effect\<close> is the effect of the calls whose result the program ignores.\<close>

record 'w ssh_state =
  ssh_sock :: int
  ssh_session :: "nat option"
  ssh_channel :: "nat option"
  auth_pw :: int
  fingerprintstr :: "byte list"
  ssh_rc :: int
  ssh_world :: 'w
  ssh_trace :: "ssh_call list"

definition ssh_static :: "'w \<Rightarrow> 'w ssh_state" where
  "ssh_static w = \<lparr>ssh_sock = 0, ssh_session = None, ssh_channel = None, auth_pw = 0, fingerprintstr = replicate 100 0,
     ssh_rc = 0, ssh_world = w, ssh_trace = []\<rparr>"

definition update_st :: "('s \<Rightarrow> 's) \<Rightarrow> ('s, unit) state" where
  "update_st f = State (\<lambda>s. ((), f s))"

lemma run_update_st [simp]: "run_state (update_st f) s = ((), f s)"
  by (simp add: update_st_def)

definition lib_call :: "ssh_call \<Rightarrow> ('w ssh_state \<Rightarrow> 'w \<Rightarrow> 'a \<times> 'w) \<Rightarrow> ('w ssh_state, 'a) state" where
  "lib_call c f = State (\<lambda>s. let (r, w) = f s (ssh_world s) in (r, s\<lparr>ssh_world := w, ssh_trace := ssh_trace s @ [c]\<rparr>))"

definition lib_do :: "'w ssh_lib \<Rightarrow> ssh_call \<Rightarrow> ('w ssh_state, unit) state" where
  "lib_do lib c = lib_call c (\<lambda>s w. ((), lib_effect lib c w))"

subsection \<open>Opening\<close>

fun pick_address :: "'w ssh_lib \<Rightarrow> nat list \<Rightarrow> ('w ssh_state, nat option) state" where
  "pick_address lib [] = State_Monad.return None"
| "pick_address lib (a # as) = do {
     r \<leftarrow> lib_call (Getnameinfo a) (\<lambda>s. lib_getnameinfo lib a);
     case r of None \<Rightarrow> pick_address lib as
     | Some name \<Rightarrow> if name \<noteq> [] then State_Monad.return (Some a) else pick_address lib as }"

definition hex_digit :: "nat \<Rightarrow> byte" where
  "hex_digit v = (if v < 10 then of_nat (48 + v) else of_nat (55 + v))"

text \<open>One round of the loop that writes the fingerprint: \<open>sprintf\<close> of two digits, and a colon.\<close>

definition fingerprint_step :: "byte list \<Rightarrow> int \<Rightarrow> byte list \<times> int \<Rightarrow> (byte list \<times> int) option" where
  "fingerprint_step fingerprint i sp = (case sp of (str, pos) \<Rightarrow> do {
     b \<leftarrow> arr_get fingerprint i;
     s1 \<leftarrow> arr_set str pos (hex_digit (unat b div 16));
     s2 \<leftarrow> arr_set s1 (pos + 1) (hex_digit (unat b mod 16));
     s3 \<leftarrow> arr_set s2 (pos + 2) 0;
     if i \<noteq> 19 then do {
       s4 \<leftarrow> arr_set s3 (pos + 2) 58;
       s5 \<leftarrow> arr_set s4 (pos + 3) 0;
       Some (s5, pos + 3) }
     else Some (s3, pos + 2) })"

definition format_fingerprint :: "byte list \<Rightarrow> byte list \<Rightarrow> byte list option" where
  "format_fingerprint fingerprint str = map_option fst (ofold (fingerprint_step fingerprint) [0..19] (str, 0))"

fun strstr :: "byte list \<Rightarrow> byte list \<Rightarrow> bool" where
  "strstr [] sub = (sub = [])"
| "strstr (c # cs) sub = (take (length sub) (c # cs) = sub \<or> strstr cs sub)"

definition auth_methods :: "byte list \<Rightarrow> int \<Rightarrow> int" where
  "auth_methods l a0 =
     (let a1 = (if strstr l (ascii ''password'') then a0 OR 1 else a0);
          a2 = (if strstr l (ascii ''keyboard-interactive'') then a1 OR 2 else a1)
      in if strstr l (ascii ''publickey'') then a2 OR 4 else a2)"

text \<open>
  Logging in, from the list of methods on. A result \<^const>\<open>None\<close> of the functions below is undefined
  behaviour: a null host key hash, or a fingerprint outside its array.
\<close>

definition ssh_login :: "'w ssh_lib \<Rightarrow> byte list \<Rightarrow> byte list \<Rightarrow> byte list \<Rightarrow> byte list \<Rightarrow> ('w ssh_state, int option) state" where
  "ssh_login lib username password pubkeypath privkeypath = do {
     l \<leftarrow> lib_call (UserauthList username) (\<lambda>s. lib_userauth_list lib (ssh_session s) username);
     case l of
       None \<Rightarrow> State_Monad.return (Some (- 6))
     | Some userauthlist \<Rightarrow> do {
         update_st (\<lambda>s. s\<lparr>auth_pw := auth_methods userauthlist (auth_pw s)\<rparr>);
         r \<leftarrow> lib_call (UserauthPassword username password) (\<lambda>s. lib_userauth_password lib (ssh_session s) username password);
         if r = 0 then State_Monad.return (Some 0)
         else do {
           k \<leftarrow> lib_call (UserauthPublickey username pubkeypath privkeypath)
                  (\<lambda>s. lib_userauth_publickey lib (ssh_session s) username pubkeypath privkeypath);
           State_Monad.return (Some (if k \<noteq> 0 then - 1 else 0)) } } }"

definition ssh_verify :: "'w ssh_lib \<Rightarrow> byte list option \<Rightarrow> ('w ssh_state, int option) state \<Rightarrow> ('w ssh_state, int option) state" where
  "ssh_verify lib fingerprintstrin login = do {
     h \<leftarrow> lib_call HostkeyHash (\<lambda>s. lib_hostkey_hash lib (ssh_session s));
     s \<leftarrow> State_Monad.get;
     case h \<bind> (\<lambda>fp. format_fingerprint fp (fingerprintstr s)) of
       None \<Rightarrow> State_Monad.return None
     | Some str \<Rightarrow> do {
         update_st (\<lambda>s. s\<lparr>fingerprintstr := str\<rparr>);
         case fingerprintstrin of
           Some fp \<Rightarrow> if fp \<noteq> [] \<and> cstr str \<noteq> Some fp then State_Monad.return (Some (- 5)) else login
         | None \<Rightarrow> login } }"

definition ssh_open_preshell :: "'w ssh_lib \<Rightarrow> byte list \<Rightarrow> byte list \<Rightarrow> byte list \<Rightarrow> byte list option \<Rightarrow> byte list \<Rightarrow> byte list
    \<Rightarrow> ('w ssh_state, int option) state" where
  "ssh_open_preshell lib hostname username password fingerprintstrin pubkeypath privkeypath = do {
     r \<leftarrow> lib_call (Getaddrinfo hostname) (\<lambda>s. lib_getaddrinfo lib hostname);
     case r of
       None \<Rightarrow> State_Monad.return (Some (- 1))
     | Some addrs \<Rightarrow> do {
         sin \<leftarrow> pick_address lib addrs;
         k \<leftarrow> lib_call Socket (\<lambda>s. lib_socket lib);
         update_st (\<lambda>s. s\<lparr>ssh_sock := k\<rparr>);
         c \<leftarrow> lib_call (Connect sin) (\<lambda>s. lib_connect lib (ssh_sock s) sin);
         if c \<noteq> 0 then State_Monad.return (Some (- 1))
         else do {
           n \<leftarrow> lib_call SessionInit (\<lambda>s. lib_session_init lib);
           update_st (\<lambda>s. s\<lparr>ssh_session := n\<rparr>);
           h \<leftarrow> lib_call SessionHandshake (\<lambda>s. lib_handshake lib (ssh_session s) (ssh_sock s));
           if h \<noteq> 0 then State_Monad.return (Some (- 1))
           else ssh_verify lib fingerprintstrin (ssh_login lib username password pubkeypath privkeypath) } } }"

text \<open>The error codes of libssh2 that \<open>ssh_openshell\<close> tells apart.\<close>

definition pty_error :: "int \<Rightarrow> int" where
  "pty_error e = (if e = - 6 then - 3 else if e = - 7 then - 4 else if e = - 22 then - 5 else if e = - 37 then - 6 else - 3)"

definition ssh_openshell :: "'w ssh_lib \<Rightarrow> ('w ssh_state, int) state" where
  "ssh_openshell lib = do {
     c \<leftarrow> lib_call ChannelOpen (\<lambda>s. lib_channel_open lib (ssh_session s));
     update_st (\<lambda>s. s\<lparr>ssh_channel := c\<rparr>);
     if c = None then State_Monad.return (- 4)
     else do {
       lib_do lib ChannelSetenv;
       e \<leftarrow> lib_call RequestPty (\<lambda>s. lib_request_pty lib (ssh_channel s));
       if e \<noteq> 0 then State_Monad.return (pty_error e)
       else do {
         r \<leftarrow> lib_call ChannelShell (\<lambda>s. lib_channel_shell lib (ssh_channel s));
         if r \<noteq> 0 then State_Monad.return (- 7)
         else do {
           lib_do lib (SetBlocking False);
           State_Monad.return 0 } } } }"

definition ssh_open :: "'w ssh_lib \<Rightarrow> byte list \<Rightarrow> byte list \<Rightarrow> byte list \<Rightarrow> byte list option \<Rightarrow> byte list \<Rightarrow> byte list
    \<Rightarrow> ('w ssh_state, int option) state" where
  "ssh_open lib hostname username password fingerprintstrin pubkeypath privkeypath = do {
     r1 \<leftarrow> ssh_open_preshell lib hostname username password fingerprintstrin pubkeypath privkeypath;
     if r1 \<noteq> Some 0 then State_Monad.return r1
     else do {
       r2 \<leftarrow> ssh_openshell lib;
       State_Monad.return (Some r2) } }"

subsection \<open>The open connection\<close>

definition ssh_write :: "'w ssh_lib \<Rightarrow> byte list \<Rightarrow> ('w ssh_state, int option) state" where
  "ssh_write lib bytes = do {
     s \<leftarrow> State_Monad.get;
     if ssh_channel s = None then State_Monad.return (Some (- 1))
     else do {
       e \<leftarrow> lib_call ChannelEof (\<lambda>s. lib_channel_eof lib (ssh_channel s));
       if e \<noteq> 0 then State_Monad.return (Some (- 1))
       else do {
         l \<leftarrow> lib_call (ChannelWrite bytes) (\<lambda>s. lib_channel_write lib (ssh_channel s) bytes);
         State_Monad.return None } } }"

definition ssh_close :: "'w ssh_lib \<Rightarrow> ('w ssh_state, int) state" where
  "ssh_close lib = do {
     s \<leftarrow> State_Monad.get;
     (if ssh_channel s \<noteq> None then do { lib_do lib ChannelFree; update_st (\<lambda>s. s\<lparr>ssh_channel := None\<rparr>) }
      else State_Monad.return ());
     (if ssh_session s \<noteq> None then do { lib_do lib SessionDisconnect; lib_do lib SessionFree }
      else State_Monad.return ());
     lib_do lib CloseSocket;
     update_st (\<lambda>s. s\<lparr>ssh_session := None, ssh_channel := None\<rparr>);
     lib_do lib LibExit;
     State_Monad.return 0 }"

definition LIBSSH2_ERROR_EAGAIN :: int where "LIBSSH2_ERROR_EAGAIN = - 37"

definition ssh_read :: "'w ssh_lib \<Rightarrow> nat \<Rightarrow> ('w ssh_state, int \<times> byte list) state" where
  "ssh_read lib n = do {
     s \<leftarrow> State_Monad.get;
     if ssh_channel s = None then State_Monad.return (- 1, [])
     else do {
       e \<leftarrow> lib_call ChannelEof (\<lambda>s. lib_channel_eof lib (ssh_channel s));
       if e \<noteq> 0 then State_Monad.return (- 1, [])
       else do {
         r \<leftarrow> lib_call (ChannelRead (int n)) (\<lambda>s. lib_channel_read lib (ssh_channel s));
         let l = read_len n r;
         if l = LIBSSH2_ERROR_EAGAIN then State_Monad.return (0, [])
         else do {
           (if l < 0 then do { _ \<leftarrow> ssh_close lib; State_Monad.return () } else State_Monad.return ());
           State_Monad.return (l, read_bytes n r) } } } }"

definition is_closed :: "'w ssh_state \<Rightarrow> int" where
  "is_closed s = (if ssh_channel s = None then 0 else 1)"

definition ssh_resize :: "'w ssh_lib \<Rightarrow> int \<Rightarrow> int \<Rightarrow> ('w ssh_state, int option) state" where
  "ssh_resize lib cols rows = do {
     s \<leftarrow> State_Monad.get;
     if ssh_channel s = None then State_Monad.return (Some 1)
     else do {
       e \<leftarrow> lib_call ChannelEof (\<lambda>s. lib_channel_eof lib (ssh_channel s));
       if e \<noteq> 0 then State_Monad.return (Some (- 1))
       else do {
         lib_do lib (RequestPtySize cols rows);
         State_Monad.return None } } }"

subsection \<open>Copying key files\<close>

text \<open>
  The copy loop, with fuel: \<^const>\<open>None\<close> when it runs out. Otherwise the return value and the bytes
  written to the local file. \<open>fopen\<close>'s pointer goes through an \<open>int\<close>, which only the 32-bit iOS targets
  preserve; the only caller is in the iOS build.
\<close>

fun getfile_loop :: "'w ssh_lib \<Rightarrow> nat \<Rightarrow> int \<Rightarrow> int \<Rightarrow> byte list \<Rightarrow> ('w ssh_state, (int \<times> byte list) option) state" where
  "getfile_loop lib 0 st_size got file = State_Monad.return None"
| "getfile_loop lib (Suc k) st_size got file =
     (if got < st_size then do {
        let amount = (if st_size - got < 1024 then st_size - got else 1024);
        r \<leftarrow> lib_call (ChannelRead amount) (\<lambda>s. lib_channel_read lib (ssh_channel s));
        let l = read_len (nat amount) r;
        update_st (\<lambda>s. s\<lparr>ssh_rc := l\<rparr>);
        if l < 0 then State_Monad.return (Some (- 2, file))
        else getfile_loop lib k st_size (got + l) (file @ read_bytes (nat amount) r) }
      else State_Monad.return (Some (0, file)))"

definition ssh_getfile :: "'w ssh_lib \<Rightarrow> nat \<Rightarrow> byte list \<Rightarrow> ('w ssh_state, (int \<times> byte list) option) state" where
  "ssh_getfile lib fuel remotepath = do {
     r \<leftarrow> lib_call (ScpRecv remotepath) (\<lambda>s. lib_scp_recv lib (ssh_session s) remotepath);
     update_st (\<lambda>s. s\<lparr>ssh_channel := map_option fst r\<rparr>);
     case r of
       None \<Rightarrow> State_Monad.return (Some (- 1, []))
     | Some (c, st_size) \<Rightarrow> do {
         res \<leftarrow> getfile_loop lib fuel st_size 0 [];
         case res of
           None \<Rightarrow> State_Monad.return None
         | Some (ret, file) \<Rightarrow>
             if ret \<noteq> 0 then State_Monad.return (Some (ret, file))
             else do {
               lib_do lib ChannelFree;
               update_st (\<lambda>s. s\<lparr>ssh_channel := None\<rparr>);
               State_Monad.return (Some (0, file)) } } }"

text \<open>The value and the contents written to the private and the public key file.\<close>

definition ssh_getkeys :: "'w ssh_lib \<Rightarrow> nat \<Rightarrow> ('w ssh_state, (int \<times> byte list \<times> byte list) option) state" where
  "ssh_getkeys lib fuel = do {
     r1 \<leftarrow> ssh_getfile lib fuel (ascii ''.ssh/id_rsa'');
     case r1 of
       None \<Rightarrow> State_Monad.return None
     | Some (a, f1) \<Rightarrow> do {
         r2 \<leftarrow> ssh_getfile lib fuel (ascii ''.ssh/id_rsa.pub'');
         case r2 of
           None \<Rightarrow> State_Monad.return None
         | Some (b, f2) \<Rightarrow> State_Monad.return (Some (if a = 0 \<and> b = 0 then 0 else 1, f1, f2)) } }"

subsection \<open>Nobody logs in to a host with another key\<close>

definition is_auth :: "ssh_call \<Rightarrow> bool" where
  "is_auth c = (case c of UserauthList u \<Rightarrow> True | UserauthPassword u p \<Rightarrow> True | UserauthPublickey u a b \<Rightarrow> True | _ \<Rightarrow> False)"

text \<open>A step that only adds calls other than those that log in, and one that keeps the fingerprint.\<close>

definition quiet :: "'w ssh_state \<Rightarrow> 'w ssh_state \<Rightarrow> bool" where
  "quiet s s' \<longleftrightarrow> (\<exists>new. ssh_trace s' = ssh_trace s @ new \<and> (\<forall>c\<in>set new. \<not> is_auth c))"

definition keeps_fingerprint :: "'w ssh_state \<Rightarrow> 'w ssh_state \<Rightarrow> bool" where
  "keeps_fingerprint s s' \<longleftrightarrow> fingerprintstr s' = fingerprintstr s \<and> (\<exists>new. ssh_trace s' = ssh_trace s @ new)"

lemma quiet_trans: "quiet a b \<Longrightarrow> quiet b c \<Longrightarrow> quiet a c"
  by (fastforce simp: quiet_def)

lemma keeps_trans: "keeps_fingerprint a b \<Longrightarrow> keeps_fingerprint b c \<Longrightarrow> keeps_fingerprint a c"
  by (fastforce simp: keeps_fingerprint_def)

lemma io_rel_bind:
  assumes "\<And>a b c. R a b \<Longrightarrow> R b c \<Longrightarrow> R a c" "state_io_rel R m" "\<And>x. state_io_rel R (f x)"
  shows "state_io_rel R (m \<bind> f)"
  unfolding state_io_rel_def
proof
  fix s
  obtain x s1 where m: "run_state m s = (x, s1)" by (cases "run_state m s")
  have "R s s1" using state_io_relD [OF assms(2) m] .
  moreover have "R s1 (snd (run_state (f x) s1))" using assms(3) by (simp add: state_io_rel_def)
  ultimately show "R s (snd (run_state (m \<bind> f) s))" using assms(1) m by (auto split: prod.splits)
qed

lemma quiet_basic:
  "state_io_rel quiet (State_Monad.return x)"
  "\<not> is_auth c \<Longrightarrow> state_io_rel quiet (lib_call c f)"
  "\<not> is_auth c \<Longrightarrow> state_io_rel quiet (lib_do lib c)"
  "(\<And>s. ssh_trace (g s) = ssh_trace s) \<Longrightarrow> state_io_rel quiet (update_st g)"
  by (auto simp: state_io_rel_def quiet_def lib_call_def lib_do_def Let_def split: prod.splits)

lemma keeps_basic:
  "state_io_rel keeps_fingerprint (State_Monad.return x)"
  "state_io_rel keeps_fingerprint (lib_call c f)"
  "state_io_rel keeps_fingerprint (lib_do lib c)"
  "(\<And>s. ssh_trace (g s) = ssh_trace s \<and> fingerprintstr (g s) = fingerprintstr s) \<Longrightarrow> state_io_rel keeps_fingerprint (update_st g)"
  by (auto simp: state_io_rel_def keeps_fingerprint_def lib_call_def lib_do_def Let_def split: prod.splits)

lemmas quiet_bind = io_rel_bind [of quiet, OF quiet_trans]
lemmas keeps_bind = io_rel_bind [of keeps_fingerprint, OF keeps_trans]

lemma pick_address_quiet: "state_io_rel quiet (pick_address lib as)"
  by (induction as) (auto intro!: quiet_bind quiet_basic simp: is_auth_def split: option.splits)

lemma openshell_keeps: "state_io_rel keeps_fingerprint (ssh_openshell lib)"
  by (auto simp: ssh_openshell_def intro!: keeps_bind keeps_basic)

lemma openshell_quiet: "state_io_rel quiet (ssh_openshell lib)"
  by (auto simp: ssh_openshell_def intro!: quiet_bind quiet_basic simp: is_auth_def)

lemma login_keeps: "state_io_rel keeps_fingerprint (ssh_login lib u pw pk sk)"
  by (auto simp: ssh_login_def intro!: keeps_bind keeps_basic split: option.splits)

text \<open>What holds of a run: if it logs in, the fingerprint array holds the text that was asked for.\<close>

definition guarded :: "byte list \<Rightarrow> 'w ssh_state \<Rightarrow> 'w ssh_state \<Rightarrow> bool" where
  "guarded fp s s' \<longleftrightarrow> quiet s s' \<or> ((\<exists>new. ssh_trace s' = ssh_trace s @ new) \<and> cstr (fingerprintstr s') = Some fp)"

lemma quiet_guarded: "quiet a b \<Longrightarrow> guarded fp b c \<Longrightarrow> guarded fp a c"
  by (fastforce simp: guarded_def quiet_def)

lemma guarded_keeps: "guarded fp a b \<Longrightarrow> keeps_fingerprint b c \<Longrightarrow> quiet b c \<Longrightarrow> guarded fp a c"
  by (fastforce simp: guarded_def quiet_def keeps_fingerprint_def)

lemma guarded_bind:
  "state_io_rel quiet m \<Longrightarrow> (\<And>x. state_io_rel (guarded fp) (f x)) \<Longrightarrow> state_io_rel (guarded fp) (m \<bind> f)"
  unfolding state_io_rel_def by (auto split: prod.splits) (metis quiet_guarded snd_conv)

lemma guarded_return: "state_io_rel (guarded fp) (State_Monad.return x)"
  by (auto simp: state_io_rel_def guarded_def quiet_def)

lemma verify_guarded:
  assumes "fp \<noteq> []" "state_io_rel keeps_fingerprint login"
  shows "state_io_rel (guarded fp) (ssh_verify lib (Some fp) login)"
  unfolding state_io_rel_def
proof
  fix s :: "'a ssh_state"
  obtain h w where h: "lib_hostkey_hash lib (ssh_session s) (ssh_world s) = (h, w)" by (cases "lib_hostkey_hash lib (ssh_session s) (ssh_world s)")
  define s1 where "s1 = s\<lparr>ssh_world := w, ssh_trace := ssh_trace s @ [HostkeyHash]\<rparr>"
  have q: "quiet s s1" by (auto simp: quiet_def s1_def is_auth_def)
  have c: "run_state (lib_call HostkeyHash (\<lambda>s. lib_hostkey_hash lib (ssh_session s))) s = (h, s1)"
    using h by (simp add: lib_call_def s1_def)
  show "guarded fp s (snd (run_state (ssh_verify lib (Some fp) login) s))"
  proof (cases "h \<bind> (\<lambda>fp. format_fingerprint fp (fingerprintstr s1))")
    case None
    then show ?thesis using q c by (simp add: ssh_verify_def guarded_def)
  next
    case (Some str)
    let ?s2 = "s1\<lparr>fingerprintstr := str\<rparr>"
    have q2: "quiet s ?s2" using q by (simp add: quiet_def)
    show ?thesis
    proof (cases "cstr str = Some fp")
      case True
      have "keeps_fingerprint ?s2 (snd (run_state login ?s2))" using assms(2) by (simp add: state_io_rel_def)
      then have "guarded fp ?s2 (snd (run_state login ?s2))" using True by (auto simp: guarded_def keeps_fingerprint_def)
      then show ?thesis using Some c True quiet_guarded [OF q2] by (simp add: ssh_verify_def)
    next
      case False
      then show ?thesis using Some c assms(1) q2 by (simp add: ssh_verify_def guarded_def)
    qed
  qed
qed

lemma preshell_guarded:
  assumes "fp \<noteq> []"
  shows "state_io_rel (guarded fp) (ssh_open_preshell lib host u pw (Some fp) pk sk)"
  unfolding ssh_open_preshell_def
  by (intro guarded_bind quiet_basic pick_address_quiet verify_guarded [OF assms] login_keeps)
    (auto simp: is_auth_def split: option.splits intro!: guarded_bind quiet_basic pick_address_quiet verify_guarded [OF assms]
      login_keeps guarded_return)

lemma open_guarded:
  assumes "fp \<noteq> []"
  shows "state_io_rel (guarded fp) (ssh_open lib host u pw (Some fp) pk sk)"
  unfolding state_io_rel_def
proof
  fix s :: "'a ssh_state"
  obtain r1 s1 where r1: "run_state (ssh_open_preshell lib host u pw (Some fp) pk sk) s = (r1, s1)" by fastforce
  have g: "guarded fp s s1" using preshell_guarded [OF assms] r1 by (metis state_io_relD)
  obtain r2 s2 where r2: "run_state (ssh_openshell lib) s1 = (r2, s2)" by fastforce
  have "keeps_fingerprint s1 s2" "quiet s1 s2"
    using openshell_keeps openshell_quiet r2 by (metis state_io_relD)+
  then show "guarded fp s (snd (run_state (ssh_open lib host u pw (Some fp) pk sk) s))"
    using g guarded_keeps [OF g] by (simp add: ssh_open_def r1 r2)
qed


subsection \<open>The text of a fingerprint\<close>

fun fingerprint_text :: "byte list \<Rightarrow> byte list" where
  "fingerprint_text [] = []"
| "fingerprint_text [b] = [hex_digit (unat b div 16), hex_digit (unat b mod 16)]"
| "fingerprint_text (b # bs) = hex_digit (unat b div 16) # hex_digit (unat b mod 16) # 58 # fingerprint_text bs"

lemma fingerprint_step_run:
  assumes "k < 19" "k < length fp"
  shows "fingerprint_step fp (int k) (pre @ a # b # c # d # rest, int (length pre)) = Some
    (pre @ [hex_digit (unat (fp ! k) div 16), hex_digit (unat (fp ! k) mod 16), 58] @ 0 # rest, int (length pre + 3))"
  using assms by (simp add: fingerprint_step_def arr_set_def nat_add_distrib list_update_append)

lemma fingerprint_last_run:
  assumes "length fp = 20"
  shows "fingerprint_step fp 19 (pre @ a # b # c # rest, int (length pre)) = Some
    (pre @ [hex_digit (unat (fp ! 19) div 16), hex_digit (unat (fp ! 19) mod 16)] @ 0 # rest, int (length pre + 2))"
  using assms by (simp add: fingerprint_step_def arr_get_def arr_set_def nat_add_distrib list_update_append)

lemma fingerprint_text_length: "bs \<noteq> [] \<Longrightarrow> length (fingerprint_text bs) = 3 * length bs - 1"
  by (induction bs rule: fingerprint_text.induct) auto

definition fingerprint_prefix :: "byte list \<Rightarrow> byte list" where
  "fingerprint_prefix bs = concat (map (\<lambda>b. [hex_digit (unat b div 16), hex_digit (unat b mod 16), 58]) bs)"

lemma fingerprint_text_snoc:
  "fingerprint_text (bs @ [b]) = fingerprint_prefix bs @ [hex_digit (unat b div 16), hex_digit (unat b mod 16)]"
proof (induction bs)
  case (Cons c bs)
  then show ?case by (cases bs) (auto simp: fingerprint_prefix_def)
qed (simp add: fingerprint_prefix_def)

lemma length_prefix: "length (fingerprint_prefix bs) = 3 * length bs"
  by (induction bs) (auto simp: fingerprint_prefix_def)

lemma split4: "4 \<le> length xs \<Longrightarrow> \<exists>a b c d. xs = a # b # c # d # drop 4 xs" for xs :: "'a list"
  by (cases xs; cases "tl xs"; cases "tl (tl xs)"; cases "tl (tl (tl xs))") auto

lemma fingerprint_loop:
  assumes "length fp = 20" "length str = 100"
  shows "k \<le> 19 \<Longrightarrow> \<exists>R. ofold (fingerprint_step fp) (map int [0..<k]) (str, 0)
      = Some (fingerprint_prefix (take k fp) @ R, int (3 * k)) \<and> length R = 100 - 3 * k \<and> drop 4 R = drop (3 * k + 4) str"
proof (induction k)
  case 0
  then show ?case using assms(2) by (simp add: fingerprint_prefix_def)
next
  case (Suc k)
  then obtain R where R: "ofold (fingerprint_step fp) (map int [0..<k]) (str, 0) = Some (fingerprint_prefix (take k fp) @ R, int (3 * k))"
    "length R = 100 - 3 * k" "drop 4 R = drop (3 * k + 4) str" by auto
  have "4 \<le> length R" using R(2) Suc.prems by linarith
  from split4 [OF this] obtain a b c d where s: "R = a # b # c # d # drop 4 R" by auto
  have k: "k < 19" "k < length fp" using Suc.prems assms(1) by simp_all
  let ?p = "fingerprint_prefix (take k fp)" and ?b = "fp ! k"
  have l: "length ?p = 3 * k" using k by (simp add: length_prefix)
  have "fingerprint_step fp (int k) (?p @ R, int (3 * k))
      = Some (?p @ [hex_digit (unat ?b div 16), hex_digit (unat ?b mod 16), 58] @ 0 # drop 4 R, int (3 * k + 3))"
    using fingerprint_step_run [OF k, of ?p a b c d "drop 4 R"] s l by simp
  moreover have "?p @ [hex_digit (unat ?b div 16), hex_digit (unat ?b mod 16), 58] = fingerprint_prefix (take (Suc k) fp)"
    using k by (simp add: take_Suc_conv_app_nth fingerprint_prefix_def)
  ultimately have "ofold (fingerprint_step fp) (map int [0..<Suc k]) (str, 0)
      = Some (fingerprint_prefix (take (Suc k) fp) @ 0 # drop 4 R, int (3 * Suc k))"
    using R(1) by (simp add: ofold_append)
  moreover have "length (0 # drop 4 R) = 100 - 3 * Suc k" using R(2) Suc.prems by simp
  moreover have "drop 4 (0 # drop 4 R) = drop (3 * Suc k + 4) str"
  proof -
    have "drop 4 (0 # drop 4 R) = drop 3 (drop 4 R)" by simp
    also have "\<dots> = drop (3 * Suc k + 4) str" unfolding R(3) by (simp add: add.commute)
    finally show ?thesis .
  qed
  ultimately show ?case by blast
qed

lemma format_fingerprint_run:
  assumes "length fp = 20" "length str = 100"
  shows "\<exists>rest. format_fingerprint fp str = Some (fingerprint_text fp @ 0 # rest)"
proof -
  from fingerprint_loop [OF assms, of 19] obtain R where R:
    "ofold (fingerprint_step fp) (map int [0..<19]) (str, 0) = Some (fingerprint_prefix (take 19 fp) @ R, int (3 * 19))"
    "length R = 100 - 3 * 19" by auto
  from split4 [of R] R(2) obtain a b c d where s: "R = a # b # c # d # drop 4 R" by auto
  have l: "length (fingerprint_prefix (take 19 fp)) = 3 * 19" using assms(1) by (simp add: length_prefix)
  have i: "[0..19] = map int [0..<19] @ [19]" by (simp add: upto_rec1 upt_rec)
  have t: "fp = take 19 fp @ [fp ! 19]" using assms(1) take_Suc_conv_app_nth [of 19 fp] by simp
  have "fingerprint_step fp 19 (fingerprint_prefix (take 19 fp) @ R, int (3 * 19))
     = Some (fingerprint_text fp @ 0 # (d # drop 4 R), int (3 * 19 + 2))"
    using fingerprint_last_run [OF assms(1), of "fingerprint_prefix (take 19 fp)" a b c "d # drop 4 R"] s l
      fingerprint_text_snoc [of "take 19 fp" "fp ! 19"] t by simp
  moreover define L where "L = map int [0..<19]"
  ultimately show ?thesis using R(1) unfolding format_fingerprint_def i ofold_append L_def [symmetric] by auto
qed

lemma unat_hex_digit:
  assumes "v < 16"
  shows "unat (hex_digit v) = (if v < 10 then 48 + v else 55 + v)"
proof -
  have u: "unat (of_nat n :: byte) = n" if "n < 256" for n using that by (simp add: unat_of_nat)
  show ?thesis
  proof (cases "v < 10")
    case True
    then show ?thesis using u [of "48 + v"] by (simp only: hex_digit_def if_True)
  next
    case False
    then show ?thesis using assms u [of "55 + v"] by (simp only: hex_digit_def if_False)
  qed
qed

lemma hex_digit_inj:
  assumes "v < 16" "w < 16" "hex_digit v = hex_digit w"
  shows "v = w"
proof -
  have "(if v < 10 then 48 + v else 55 + v) = (if w < 10 then 48 + w else 55 + w)"
    unfolding unat_hex_digit [OF assms(1), symmetric] unat_hex_digit [OF assms(2), symmetric] assms(3) by (rule refl)
  then show ?thesis by (cases "v < 10"; cases "w < 10"; simp)
qed

lemma hex_digit_nz:
  assumes "v < 16"
  shows "hex_digit v \<noteq> 0"
proof
  assume "hex_digit v = 0"
  then have "unat (hex_digit v) = 0" by (simp only: unat_0)
  then show False unfolding unat_hex_digit [OF assms] by (simp split: if_splits)
qed

lemma byte_digits: "unat (b :: byte) div 16 < 16" "unat b mod 16 < 16"
  using unat_byte_less [of b] by (simp_all add: less_mult_imp_div_less)

lemma hex_byte_inj:
  fixes b c :: byte
  assumes "hex_digit (unat b div 16) = hex_digit (unat c div 16)" "hex_digit (unat b mod 16) = hex_digit (unat c mod 16)"
  shows "b = c"
proof -
  have 1: "unat b div 16 = unat c div 16" by (rule hex_digit_inj [OF byte_digits(1) byte_digits(1) assms(1)])
  have 2: "unat b mod 16 = unat c mod 16" by (rule hex_digit_inj [OF byte_digits(2) byte_digits(2) assms(2)])
  have "unat b = unat b div 16 * 16 + unat b mod 16" by (rule div_mult_mod_eq [symmetric])
  also have "\<dots> = unat c" unfolding 1 2 by (rule div_mult_mod_eq)
  finally show ?thesis by (simp only: unat_inj_iff)
qed

lemma fingerprint_text_inj: "length bs = length cs \<Longrightarrow> fingerprint_text bs = fingerprint_text cs \<Longrightarrow> bs = cs"
proof (induction bs arbitrary: cs rule: fingerprint_text.induct)
  case (2 b)
  then obtain c where c: "cs = [c]" by (cases cs) auto
  have "b = c" by (rule hex_byte_inj) (use 2(2) c in simp_all)
  with c show ?case by simp
next
  case (3 b b' bs)
  then obtain c c' cs' where c: "cs = c # c' # cs'" by (metis length_Suc_conv)
  have "b = c" by (rule hex_byte_inj) (use 3(3) c in simp_all)
  moreover have "b' # bs = c' # cs'" by (rule 3(1)) (use 3(2,3) c in simp_all)
  ultimately show ?case using c by simp
qed simp

lemma fingerprint_text_nz: "0 \<notin> set (fingerprint_text bs)"
proof -
  have nz: "0 \<noteq> hex_digit (unat b div 16)" "0 \<noteq> hex_digit (unat b mod 16)" for b :: byte
    using hex_digit_nz [OF byte_digits(1)] hex_digit_nz [OF byte_digits(2)] by (metis)+
  show ?thesis by (induction bs rule: fingerprint_text.induct) (simp_all add: nz)
qed

text \<open>
  Writing the fingerprint of a 20-byte host key hash stays inside the array of 100 characters and
  leaves a text of 59 characters, and the text determines the hash: comparing texts compares the keys.
\<close>

theorem fingerprint_text_faithful:
  assumes "length fp = 20" "length fp' = 20" "length str = 100" "length str' = 100"
  shows "\<exists>a b. format_fingerprint fp str = Some a \<and> format_fingerprint fp' str' = Some b
    \<and> cstr a = Some (fingerprint_text fp) \<and> length (fingerprint_text fp) = 59 \<and> (cstr a = cstr b \<longleftrightarrow> fp = fp')"
proof -
  from format_fingerprint_run [OF assms(1,3)] format_fingerprint_run [OF assms(2,4)] obtain r r' where
    f: "format_fingerprint fp str = Some (fingerprint_text fp @ 0 # r)" "format_fingerprint fp' str' = Some (fingerprint_text fp' @ 0 # r')"
    by blast
  have "fp \<noteq> []" using assms(1) by auto
  then have "length (fingerprint_text fp) = 59" using assms(1) fingerprint_text_length [of fp] by simp
  moreover have "fingerprint_text fp = fingerprint_text fp' \<longleftrightarrow> fp = fp'"
    using fingerprint_text_inj [of fp fp'] assms(1,2) by auto
  ultimately show ?thesis using f cstr_append_nul [OF fingerprint_text_nz] by auto
qed

theorem fingerprint_text_faithful_witness:
  "\<exists>a. format_fingerprint (replicate 20 255) (replicate 100 0) = Some a \<and> cstr a = Some (fingerprint_text (replicate 20 255))"
  using fingerprint_text_faithful [of "replicate 20 255" "replicate 20 0" "replicate 100 0" "replicate 100 0"] by auto

subsection \<open>A demonstration host\<close>

text \<open>
  A library whose world is the number of reads so far: the host key is constant, log-ins succeed, the
  first read fails with code -1 and later ones deliver one byte.
\<close>

definition demo_ssh :: "nat ssh_lib" where
  "demo_ssh = \<lparr>lib_getaddrinfo = (\<lambda>_ w. (Some [1], w)), lib_getnameinfo = (\<lambda>_ w. (Some [104], w)), lib_socket = (\<lambda>w. (3, w)),
     lib_connect = (\<lambda>_ _ w. (0, w)), lib_session_init = (\<lambda>w. (Some 1, w)), lib_handshake = (\<lambda>_ _ w. (0, w)),
     lib_hostkey_hash = (\<lambda>_ w. (Some (replicate 20 255), w)), lib_userauth_list = (\<lambda>_ _ w. (Some (ascii ''password''), w)),
     lib_userauth_password = (\<lambda>_ _ _ w. (0, w)), lib_userauth_publickey = (\<lambda>_ _ _ _ w. (0, w)),
     lib_channel_open = (\<lambda>_ w. (Some 2, w)), lib_request_pty = (\<lambda>_ w. (0, w)), lib_channel_shell = (\<lambda>_ w. (0, w)),
     lib_channel_eof = (\<lambda>_ w. (0, w)), lib_channel_write = (\<lambda>_ _ w. (0, w)),
     lib_channel_read = (\<lambda>_ w. (if w = 0 then ReadErr 0 else ReadData [65], w + 1)),
     lib_scp_recv = (\<lambda>_ _ w. (Some (4, 2), w)), lib_effect = (\<lambda>_ w. w)\<rparr>"

lemma demo_open:
  "run_state (ssh_open demo_ssh [104] [117] [112] (Some (fingerprint_text (replicate 20 255))) [] []) (ssh_static 0) = (r, s') \<Longrightarrow>
     UserauthPassword [117] [112] \<in> set (ssh_trace s')"
proof -
  let ?fp = "fingerprint_text (replicate 20 255)"
  from format_fingerprint_run [of "replicate 20 255" "replicate 100 0"] obtain rest where
    f: "format_fingerprint (replicate 20 255) (replicate 100 0) = Some (?fp @ 0 # rest)" by auto
  have c: "cstr (?fp @ 0 # rest) = Some ?fp" by (rule cstr_append_nul [OF fingerprint_text_nz])
  define fp where "fp = ?fp"
  show "run_state (ssh_open demo_ssh [104] [117] [112] (Some ?fp) [] []) (ssh_static 0) = (r, s') \<Longrightarrow> ?thesis"
    using f c unfolding fp_def [symmetric]
    by (auto simp: ssh_open_def ssh_open_preshell_def ssh_verify_def ssh_login_def ssh_openshell_def lib_call_def lib_do_def
        demo_ssh_def ssh_static_def)
qed


subsection \<open>Closing\<close>

text \<open>The calls of \<open>ssh_close\<close>.\<close>

definition close_calls :: "'w ssh_state \<Rightarrow> ssh_call list" where
  "close_calls s = (if ssh_channel s \<noteq> None then [ChannelFree] else [])
     @ (if ssh_session s \<noteq> None then [SessionDisconnect, SessionFree] else []) @ [CloseSocket, LibExit]"

lemma ssh_close_run:
  "\<exists>w. run_state (ssh_close lib) s = (0, s\<lparr>ssh_channel := None, ssh_session := None, ssh_world := w,
     ssh_trace := ssh_trace s @ close_calls s\<rparr>)"
proof -
  let ?w1 = "if ssh_channel s \<noteq> None then lib_effect lib ChannelFree (ssh_world s) else ssh_world s"
  let ?w2 = "if ssh_session s \<noteq> None then lib_effect lib SessionFree (lib_effect lib SessionDisconnect ?w1) else ?w1"
  have "run_state (ssh_close lib) s = (0, s\<lparr>ssh_channel := None, ssh_session := None,
      ssh_world := lib_effect lib LibExit (lib_effect lib CloseSocket ?w2), ssh_trace := ssh_trace s @ close_calls s\<rparr>)"
    by (cases "ssh_channel s"; cases "ssh_session s") (simp_all add: ssh_close_def close_calls_def lib_do_def lib_call_def)
  then show ?thesis by blast
qed

lemma ssh_read_closed: "ssh_channel s = None \<Longrightarrow> run_state (ssh_read lib n) s = ((- 1, []), s)"
  by (simp add: ssh_read_def)

lemma read_bytes_neg [simp]: "read_len n r < 0 \<Longrightarrow> read_bytes n r = []"
  by (cases r) simp_all

lemma ssh_read_law:
  assumes "run_state (ssh_read lib n) s = ((l, bs), s')"
  shows "l \<le> int n \<and> length bs = nat l"
proof (cases "ssh_channel s")
  case None
  then show ?thesis using assms ssh_read_closed [of s lib n] by auto
next
  case (Some c)
  then show ?thesis using assms
    by (auto simp: ssh_read_def lib_call_def read_result_len Let_def split: prod.splits if_splits)
qed

interpretation ssh_conn: closing_connection "\<lambda>n. run_state (ssh_read lib n)" "\<lambda>s. snd (run_state (ssh_close lib) s)"
    "\<lambda>s. ssh_channel s = None" for lib
proof
  fix n l bs and s s' :: "'a ssh_state"
  assume "run_state (ssh_read lib n) s = ((l, bs), s')"
  then show "l \<le> int n \<and> length bs = nat l" by (rule ssh_read_law)
next
  fix s :: "'a ssh_state"
  from ssh_close_run [of lib s] show "ssh_channel (snd (run_state (ssh_close lib) s)) = None" by auto
next
  fix s :: "'a ssh_state" and n
  assume "ssh_channel s = None"
  then show "run_state (ssh_read lib n) s = ((- 1, []), s)" by (rule ssh_read_closed)
qed


definition demo_opened :: "nat ssh_state" where
  "demo_opened = (ssh_static 0)\<lparr>ssh_channel := Some 2, ssh_session := Some 1, ssh_sock := 3\<rparr>"


subsection \<open>Copying a file\<close>

lemma getfile_step:
  assumes "got < st_size" "lib_channel_read lib (ssh_channel s) (ssh_world s) = (ReadData bs, w)"
  shows "\<exists>s1. run_state (getfile_loop lib (Suc k) st_size got out) s
      = run_state (getfile_loop lib k st_size (got + int (length (take (nat (min 1024 (st_size - got))) bs)))
          (out @ take (nat (min 1024 (st_size - got))) bs)) s1
    \<and> ssh_channel s1 = ssh_channel s \<and> ssh_world s1 = w"
proof -
  have "(if st_size - got < 1024 then st_size - got else 1024) = min 1024 (st_size - got)" by (simp add: min_def)
  with assms show ?thesis
    by (intro exI [of _ "s\<lparr>ssh_world := w, ssh_trace := ssh_trace s @ [ChannelRead (min 1024 (st_size - got))],
        ssh_rc := int (length (take (nat (min 1024 (st_size - got))) bs))\<rparr>"]) (simp add: lib_call_def Let_def)
qed

lemma getfile_progress:
  assumes "\<And>w. \<exists>b bs w'. lib_channel_read lib c w = (ReadData (b # bs), w')"
  shows "ssh_channel s = c \<Longrightarrow> got \<le> st_size \<Longrightarrow> int k > st_size - got \<Longrightarrow>
    \<exists>more s'. run_state (getfile_loop lib k st_size got out) s = (Some (0, out @ more), s') \<and> int (length more) = st_size - got"
proof (induction k arbitrary: s got out)
  case (Suc k)
  show ?case
  proof (cases "got < st_size")
    case True
    obtain b bs w' where r: "lib_channel_read lib (ssh_channel s) (ssh_world s) = (ReadData (b # bs), w')"
      using assms Suc.prems(1) by blast
    define d where "d = take (nat (min 1024 (st_size - got))) (b # bs)"
    have d: "1 \<le> int (length d)" "int (length d) \<le> st_size - got" using True by (auto simp: d_def min_def)
    from getfile_step [OF True r, of k out] obtain s1 where s1:
      "run_state (getfile_loop lib (Suc k) st_size got out) s = run_state (getfile_loop lib k st_size (got + int (length d)) (out @ d)) s1"
      "ssh_channel s1 = c" unfolding d_def [symmetric] using Suc.prems(1) by auto
    have "got + int (length d) \<le> st_size" "int k > st_size - (got + int (length d))"
      using d Suc.prems(3) by linarith+
    from Suc.IH [OF s1(2) this, of "out @ d"] obtain more s' where
      "run_state (getfile_loop lib k st_size (got + int (length d)) (out @ d)) s1 = (Some (0, (out @ d) @ more), s')"
      "int (length more) = st_size - (got + int (length d))" by blast
    with s1(1) show ?thesis by (intro exI [of _ "d @ more"] exI [of _ s']) simp
  next
    case False
    then show ?thesis using Suc.prems by simp
  qed
qed simp

lemma getfile_stuck:
  assumes "\<And>w. \<exists>w'. lib_channel_read lib c w = (ReadData [], w')" "got < st_size"
  shows "ssh_channel s = c \<Longrightarrow> fst (run_state (getfile_loop lib k st_size got out) s) = None"
proof (induction k arbitrary: s)
  case (Suc k)
  obtain w' where r: "lib_channel_read lib (ssh_channel s) (ssh_world s) = (ReadData [], w')" using assms(1) Suc.prems by blast
  from getfile_step [OF assms(2) r, of k out] obtain s1 where
    "run_state (getfile_loop lib (Suc k) st_size got out) s = run_state (getfile_loop lib k st_size got out) s1" "ssh_channel s1 = c"
    using Suc.prems by auto
  then show ?case using Suc.IH by simp
qed simp


definition demo_scp :: "nat ssh_lib" where
  "demo_scp = demo_ssh\<lparr>lib_channel_read := \<lambda>_ w. (ReadData [65], w + 1)\<rparr>"


end
