(* ===== verification/Terminal.thy ===== *)
theory Terminal
  imports InlineData Regis Selection Ngui Connection
begin

section \<open>The terminal program (main.c)\<close>

text \<open>
  The program around the components, on the Linux build: the callbacks from the terminal emulator, the
  drawing of a frame, the events of the window, the polling of the connection and the main loop.

  The emulator (libvterm) is a parameter: a record of functions on its state. Pushing bytes or setting
  the size makes it call back into \<open>main.c\<close>; the calls it makes, in order and with their arguments,
  are its answer. The clock, the clipboard program, the size of the window, the modifier keys and libpng
  are parameters too. Calls to the connection and to SDL that change the outside world are logged.
\<close>

subsection \<open>The emulator\<close>

record 'e emulator =
  emu_new :: "int \<Rightarrow> int \<Rightarrow> 'e"
  emu_push :: "byte list \<Rightarrow> 'e \<Rightarrow> vterm_call list \<times> 'e"
  emu_set_size :: "int \<Rightarrow> int \<Rightarrow> 'e \<Rightarrow> vterm_call list \<times> 'e"
  emu_cell :: "'e \<Rightarrow> int \<Rightarrow> int \<Rightarrow> vcell"
  emu_cursor :: "'e \<Rightarrow> int \<times> int"

text \<open>\<open>emu_cursor\<close> gives the column and the row of the cursor.\<close>

record ('p, 'e) host =
  hw_png :: "'p png_lib"
  hw_emu :: "'e emulator"
  hw_hexfile :: "byte list list"
  hw_past :: "vcell option"
  hw_clock :: "nat \<Rightarrow> nat \<Rightarrow> int \<times> int"
  hw_xclip :: "byte list option"
  hw_window :: "int \<times> int"
  hw_kb_shown :: bool
  hw_mod :: int

text \<open>
  \<open>hw_clock k\<close> are the readings of the clock during the \<open>k\<close>-th call back, \<open>hw_xclip\<close> the output of
  \<open>xclip -o\<close>, \<open>hw_past\<close> what lies behind a row's cells (see \<open>Selection\<close>).
\<close>

subsection \<open>State\<close>

datatype host_act =
    ConnWrite "byte list"
  | ConnResize int int
  | ConnOpen
  | KbAct kb_act
  | RecreateRenderer

record ('p, 'e) hterm =
  t_rows :: int
  t_cols :: int
  t_display :: display
  t_width_last_kb :: int
  t_height_last_kb :: int
  t_sel :: sel_state
  t_scroll :: scroll_state
  t_inline :: "'p inline_state"
  t_regis :: regis_state
  t_ui :: "(vkey, unit) ngui"
  t_emu :: 'e
  t_kb :: kb_flags
  hterm_ctrl_pressed :: bool
  hterm_quit :: bool
  forced_recreaterenderer :: int
  any_blinking :: bool
  t_calls :: nat
  t_log :: "host_act list"

text \<open>
  The globals of \<open>nunifont.c\<close> are the field \<open>regis_font\<close> of \<open>t_regis\<close>, shared by all users of fonts.
  \<open>redraw_req\<close>, \<open>scroll_offset\<close> and the selection are in \<open>t_sel\<close>. \<open>t_calls\<close> counts the call backs.
\<close>

abbreviation t_font :: "('p, 'e) hterm \<Rightarrow> font_state" where
  "t_font t \<equiv> regis_font (t_regis t)"

definition set_font :: "font_state \<Rightarrow> ('p, 'e) hterm \<Rightarrow> ('p, 'e) hterm" where
  "set_font f t = t\<lparr>t_regis := (t_regis t)\<lparr>regis_font := f\<rparr>\<rparr>"

definition t_redraw :: "('p, 'e) hterm \<Rightarrow> ('p, 'e) hterm" where
  "t_redraw t = t\<lparr>t_sel := redraw_required (t_sel t)\<rparr>"

definition log_act :: "host_act \<Rightarrow> ('p, 'e) hterm \<Rightarrow> ('p, 'e) hterm" where
  "log_act a t = t\<lparr>t_log := t_log t @ [a]\<rparr>"

definition c_write :: "byte list \<Rightarrow> ('p, 'e) hterm \<Rightarrow> ('p, 'e) hterm" where
  "c_write bytes t = log_act (ConnWrite bytes) t"

subsection \<open>Calls back from the emulator\<close>

definition screen_resize :: "int \<Rightarrow> int \<Rightarrow> ('p, 'e) hterm \<Rightarrow> ('p, 'e) hterm" where
  "screen_resize new_rows new_cols t = t\<lparr>t_rows := new_rows, t_cols := new_cols\<rparr>"

definition state_erase :: "('p, 'e) hterm \<Rightarrow> ('p, 'e) hterm" where
  "state_erase t = t_redraw t"

definition csi_handler :: "int \<times> int \<Rightarrow> byte \<Rightarrow> ('p, 'e) hterm \<Rightarrow> ('p, 'e) hterm" where
  "csi_handler now command t =
     (let t1 = (if command = 74
         then t_redraw (t\<lparr>t_regis := (if \<not> regis_recent now (t_regis t) then regis_clear (t_regis t) else t_regis t),
                          t_inline := inline_data_clear (t_inline t)\<rparr>)
         else t)
      in if command = 75 then t_redraw (t1\<lparr>t_inline := inline_data_clear (t_inline t1)\<rparr>) else t1)"

text \<open>The processor gets the string from its third byte on, but the length of the whole string.\<close>

definition dcs_handler :: "byte list list \<Rightarrow> (nat \<Rightarrow> int \<times> int) \<Rightarrow> byte list \<Rightarrow> int \<Rightarrow> ('p, 'e) hterm \<Rightarrow> ('p, 'e) hterm option" where
  "dcs_handler hexfile clock mem cmdlen t =
     (if cmdlen < 3 then Some t
      else do {
        (_, r) \<leftarrow> regis_processor hexfile clock 2 cmdlen mem (t_regis t);
        Some (t\<lparr>t_regis := r\<rparr>) })"

definition text_handler :: "'p png_lib \<Rightarrow> byte list \<Rightarrow> ('p, 'e) hterm \<Rightarrow> ('p, 'e) hterm option" where
  "text_handler png bytes t = do {
     ((inl, font), _) \<leftarrow> inline_data_receive png bytes (t_inline t, t_font t);
     Some (set_font font (t\<lparr>t_inline := inl\<rparr>)) }"

definition prescroll_handler :: "vrect \<Rightarrow> (int \<Rightarrow> int \<Rightarrow> vcell) \<Rightarrow> ('p, 'e) hterm \<Rightarrow> ('p, 'e) hterm option" where
  "prescroll_handler rect cell t = do {
     (scr, redraw, _) \<leftarrow> screen_prescroll cell (t_cols t) rect (t_scroll t);
     let t1 = t\<lparr>t_scroll := scr\<rparr>;
     Some (if redraw then t_redraw t1 else t1) }"

fun vterm_callback :: "('p, 'e) host \<Rightarrow> vterm_call \<Rightarrow> ('p, 'e) hterm \<Rightarrow> ('p, 'e) hterm option" where
  "vterm_callback hw (CbPrescroll rect cell) t = prescroll_handler rect cell t"
| "vterm_callback hw (CbResize r c) t = Some (screen_resize r c t)"
| "vterm_callback hw CbBell t = Some t"
| "vterm_callback hw CbErase t = Some (state_erase t)"
| "vterm_callback hw (CbText bytes) t = text_handler (hw_png hw) bytes t"
| "vterm_callback hw (CbCsi command) t = Some (csi_handler (hw_clock hw (t_calls t) 0) command t)"
| "vterm_callback hw (CbDcs mem cmdlen) t = dcs_handler (hw_hexfile hw) (hw_clock hw (t_calls t)) mem cmdlen t"
| "vterm_callback hw (CbOsc bytes) t = Some t"
| "vterm_callback hw (CbEscape bytes) t = Some t"

definition vterm_callbacks :: "('p, 'e) host \<Rightarrow> vterm_call list \<Rightarrow> ('p, 'e) hterm \<Rightarrow> ('p, 'e) hterm option" where
  "vterm_callbacks hw calls t = ofold (\<lambda>c t. do {
     t1 \<leftarrow> vterm_callback hw c t;
     Some (t1\<lparr>t_calls := Suc (t_calls t1)\<rparr>) }) calls t"

subsection \<open>Size\<close>

text \<open>The two divisions trap while no font size has been chosen.\<close>

definition terminal_resize :: "('p, 'e) host \<Rightarrow> ('p, 'e) hterm \<Rightarrow> ('p, 'e) hterm option" where
  "terminal_resize hw t = do {
     guard (nunifont_height (t_font t) \<noteq> 0 \<and> nunifont_width (t_font t) \<noteq> 0);
     let t1 = t\<lparr>t_rows := display_height (t_display t) sdiv nunifont_height (t_font t),
                t_cols := display_width (t_display t) sdiv nunifont_width (t_font t)\<rparr>;
     let t2 = log_act (ConnResize (t_cols t1) (t_rows t1)) t1;
     let (calls, e) = emu_set_size (hw_emu hw) (t_rows t2) (t_cols t2) (t_emu t2);
     vterm_callbacks hw calls (t2\<lparr>t_emu := e\<rparr>) }"

text \<open>
  What a window event carries; the fields read from any other event (only when a renderer is forced)
  are other members of the union and not modelled.
\<close>

fun window_data :: "sdl_event \<Rightarrow> (int \<times> int) option" where
  "window_data (SDL_WINDOWEVENT kind data1 data2) = Some (data1, data2)"
| "window_data _ = None"

fun window_kind :: "sdl_event \<Rightarrow> int option" where
  "window_kind (SDL_WINDOWEVENT kind data1 data2) = Some kind"
| "window_kind _ = None"

definition SDL_WINDOWEVENT_RESIZED :: int where "SDL_WINDOWEVENT_RESIZED = 5"
definition SDL_WINDOWEVENT_RESTORED :: int where "SDL_WINDOWEVENT_RESTORED = 9"
definition SDL_WINDOWEVENT_ROTATE :: int where "SDL_WINDOWEVENT_ROTATE = 15"

definition resize_window :: "('p, 'e) host \<Rightarrow> sdl_event \<Rightarrow> ('p, 'e) hterm \<Rightarrow> ('p, 'e) hterm option" where
  "resize_window hw event t0 = do {
     let t = t0\<lparr>forced_recreaterenderer := 0\<rparr>;
     let (aw, ah) = hw_window hw;
     (d1, d2) \<leftarrow> window_data event;
     let (w, h) = (if hw_kb_shown hw then (t_width_last_kb t, t_height_last_kb t) else (d1, d2));
     let t1 = t\<lparr>t_display := \<lparr>display_width = w, display_height = h, display_width_abs = aw, display_height_abs = ah\<rparr>,
                t_regis := regis_resize aw ah (t_regis t),
                t_inline := inline_data_resize aw ah (t_inline t)\<rparr>;
     let t2 = log_act RecreateRenderer t1;
     let t3 = log_act (KbAct StartTextInput) (set_font (fst (nunifont_initcache (t_font t2))) t2);
     t4 \<leftarrow> terminal_resize hw t3;
     Some (t_redraw t4) }"

definition rotate_window :: "('p, 'e) host \<Rightarrow> int \<times> int \<Rightarrow> ('p, 'e) hterm \<Rightarrow> ('p, 'e) hterm option" where
  "rotate_window hw wh t =
     (let t1 = t\<lparr>t_display := (t_display t)\<lparr>display_width := fst wh, display_height := snd wh\<rparr>\<rparr>;
          t2 = (if hw_kb_shown hw then t1\<lparr>t_width_last_kb := fst wh, t_height_last_kb := snd wh\<rparr> else t1)
      in terminal_resize hw t2)"

definition process_resize :: "('p, 'e) host \<Rightarrow> sdl_event \<Rightarrow> ('p, 'e) hterm \<Rightarrow> ('p, 'e) hterm option" where
  "process_resize hw event t = do {
     let t1 = (if forced_recreaterenderer t > 1 then t\<lparr>forced_recreaterenderer := forced_recreaterenderer t - 1\<rparr> else t);
     t2 \<leftarrow> (if forced_recreaterenderer t1 = 1 \<or> window_kind event = Some SDL_WINDOWEVENT_RESIZED
               \<or> window_kind event = Some SDL_WINDOWEVENT_RESTORED
            then resize_window hw event t1 else Some t1);
     if window_kind event = Some SDL_WINDOWEVENT_ROTATE
     then (case window_data event of Some wh \<Rightarrow> rotate_window hw wh t2 | None \<Rightarrow> Some t2)
     else Some t2 }"

subsection \<open>Drawing a frame\<close>

definition regis_render :: "regis_state \<Rightarrow> render_cmd list" where
  "regis_render r = (if \<not> regis_cleared r then [RenderCopyFull (regis_layer r)] else [])"

definition inline_data_render :: "'p inline_state \<Rightarrow> render_cmd list" where
  "inline_data_render s = [RenderCopyFull (inline_data_layer s)]"

text \<open>The block drawn over the cursor's cell, which is two cells wide on a wide character.\<close>

definition cursor_block :: "font_state \<Rightarrow> vcell list \<Rightarrow> int \<Rightarrow> int \<Rightarrow> render_cmd list option" where
  "cursor_block font rowdata cursorx row = do {
     c \<leftarrow> arr_get rowdata cursorx;
     let step = nunifont_width font + nunifont_space font;
     let width = (if cell_width c = 2 then step + step else step);
     Some [SetRenderDrawColor 239 239 239 160,
           RenderFillRect (cursorx * step) (row * (nunifont_height font + nunifont_space font)) width
             (nunifont_height font + nunifont_space font)] }"

definition redraw_row :: "('p, 'e) host \<Rightarrow> ('p, 'e) hterm \<Rightarrow> int \<Rightarrow> row_draw \<Rightarrow> row_draw option" where
  "redraw_row hw t row d = do {
     let trow = row - scroll_offset (t_sel t);
     (rowdata, dont_free, glen) \<leftarrow> grab_row (emu_cell (hw_emu hw) (t_emu t)) (t_cols t) (t_scroll t) trow False 0;
     d1 \<leftarrow> (case rowdata of
              None \<Rightarrow> Some d
            | Some cells \<Rightarrow> draw_row (hw_hexfile hw) cells
                (row * (nunifont_height (rd_font d) + nunifont_space (rd_font d))) glen (t_cols t) d);
     let (cursorx, cursory) = emu_cursor (hw_emu hw) (t_emu t);
     case rowdata of
       Some cells \<Rightarrow>
         if cursory = trow \<and> cursorx < t_cols t \<and> cursory < t_rows t then do {
           cmds \<leftarrow> cursor_block (rd_font d1) cells cursorx row;
           Some (d1\<lparr>rd_out := rd_out d1 @ cmds\<rparr>) }
         else Some d1
     | None \<Rightarrow> Some d1 }"

definition redraw_text :: "('p, 'e) host \<Rightarrow> ('p, 'e) hterm \<Rightarrow> (('p, 'e) hterm \<times> render_cmd list) option" where
  "redraw_text hw t = do {
     d \<leftarrow> ofold (redraw_row hw t) [0..t_rows t - 1] \<lparr>rd_font = t_font t, rd_blinking = any_blinking t, rd_out = []\<rparr>;
     Some ((set_font (rd_font d) t)\<lparr>any_blinking := rd_blinking d\<rparr>, rd_out d) }"

text \<open>The widgets' output: texts are drawn through the font cache, requests to redraw are noted.\<close>

definition ui_output :: "('p, 'e) host \<Rightarrow> 'cb ui_out \<Rightarrow> ('p, 'e) hterm \<times> render_cmd list \<Rightarrow> (('p, 'e) hterm \<times> render_cmd list) option" where
  "ui_output hw out = (\<lambda>(t, cmds). case out of
       Draw (RenderDrawText x y s bg fg bold underline italic strike) \<Rightarrow> do {
         (font, new) \<leftarrow> draw_unitext_renderer (hw_hexfile hw) (t_font t) x y s bg fg bold underline italic strike;
         Some (set_font font t, cmds @ new) }
     | Draw c \<Rightarrow> Some (t, cmds @ [c])
     | Act a \<Rightarrow> Some (t_redraw t, cmds))"

definition redraw_screen :: "('p, 'e) host \<Rightarrow> ('p, 'e) hterm \<Rightarrow> (('p, 'e) hterm \<times> render_cmd list) option" where
  "redraw_screen hw t = do {
     (t1, text) \<leftarrow> redraw_text hw (t\<lparr>any_blinking := False\<rparr>);
     let (sel, lines) = redraw_selection (nunifont_width (t_font t1) + nunifont_space (t_font t1))
            (nunifont_height (t_font t1) + nunifont_space (t_font t1)) (display_width (t_display t1)) (t_sel t1);
     let t2 = t1\<lparr>t_sel := sel\<rparr>;
     let layers = regis_render (t_regis t2) @ inline_data_render (t_inline t2);
     (ui, outs) \<leftarrow> ngui_render (t_ui t2);
     (t3, widgets) \<leftarrow> ofold (ui_output hw) outs (t2\<lparr>t_ui := ui\<rparr>, []);
     Some (t3, [SetRenderDrawColor 0 0 0 255, RenderClear] @ text @ lines @ layers @ widgets @ [RenderPresent]) }"

subsection \<open>Pasting\<close>

text \<open>
  The array of 10240 bytes that \<open>paste_text\<close> fills: its bytes are indeterminate until written, and the
  store of the NUL behind the 10240th byte is outside it. A failing \<open>popen\<close> leaves it all unwritten.
\<close>

definition paste_text :: "byte list option \<Rightarrow> byte option list option" where
  "paste_text xclip = (case xclip of
       None \<Rightarrow> Some (replicate 10240 None)
     | Some [] \<Rightarrow> Some (replicate 10240 None)
     | Some cs \<Rightarrow> do {
         guard (length cs < 10240);
         Some (map Some cs @ Some 0 # replicate (10239 - length cs) None) })"

text \<open>The text \<open>strlen\<close> finds in an array with indeterminate bytes.\<close>

fun written_text :: "byte option list \<Rightarrow> byte list option" where
  "written_text [] = None"
| "written_text (None # xs) = None"
| "written_text (Some c # xs) = (if c = 0 then Some [] else map_option (Cons c) (written_text xs))"

definition paste :: "('p, 'e) host \<Rightarrow> ('p, 'e) hterm \<Rightarrow> ('p, 'e) hterm option" where
  "paste hw t = do {
     array \<leftarrow> paste_text (hw_xclip hw);
     s \<leftarrow> written_text array;
     Some (c_write s t) }"

subsection \<open>Events\<close>

definition SDL_SCANCODE_ESCAPE :: int where "SDL_SCANCODE_ESCAPE = 41"
definition SDL_SCANCODE_RIGHT :: int where "SDL_SCANCODE_RIGHT = 79"
definition SDL_SCANCODE_LEFT :: int where "SDL_SCANCODE_LEFT = 80"
definition SDL_SCANCODE_DOWN :: int where "SDL_SCANCODE_DOWN = 81"
definition SDL_SCANCODE_UP :: int where "SDL_SCANCODE_UP = 82"
definition SDL_SCANCODE_LCTRL :: int where "SDL_SCANCODE_LCTRL = 224"
definition SDL_SCANCODE_RCTRL :: int where "SDL_SCANCODE_RCTRL = 228"
definition KMOD_CTRL :: int where "KMOD_CTRL = 192"
definition KMOD_GUI :: int where "KMOD_GUI = 3072"

lemmas scancode_defs = SDL_SCANCODE_ESCAPE_def SDL_SCANCODE_RIGHT_def SDL_SCANCODE_LEFT_def SDL_SCANCODE_DOWN_def
  SDL_SCANCODE_UP_def SDL_SCANCODE_LCTRL_def SDL_SCANCODE_RCTRL_def

text \<open>The control character of a key, as an \<open>int\<close>.\<close>

definition ctrl_code :: "int \<Rightarrow> int" where
  "ctrl_code i = (if i \<ge> 97 then i - 97 + 65 else i) - 64"

definition is_ctrl_key :: "int \<Rightarrow> bool" where
  "is_ctrl_key scancode \<longleftrightarrow> scancode = SDL_SCANCODE_LCTRL \<or> scancode = SDL_SCANCODE_RCTRL"

text \<open>
  Typed text. The local array of 255 characters holds the text and its NUL; with the text empty, storing a
  control character over the NUL leaves no end to find.
\<close>

definition text_input :: "byte list \<Rightarrow> ('p, 'e) hterm \<Rightarrow> ('p, 'e) hterm option" where
  "text_input event_text t = do {
     s \<leftarrow> cstr event_text;
     guard (length s < 255);
     let buffer0 = map Some s @ Some 0 # replicate (254 - length s) None;
     let buffer1 = (if hd buffer0 = Some 10 then Some 13 # tl buffer0 else buffer0);
     let (buffer2, t1) = (if hterm_next_key_ctrl (t_kb t)
         then (Some (of_int (ctrl_code (sint (the (hd buffer1))))) # tl buffer1, t\<lparr>t_kb := (t_kb t)\<lparr>hterm_next_key_ctrl := False\<rparr>\<rparr>)
         else (buffer1, t));
     let t2 = (if hterm_next_key_alt (t_kb t1)
         then (c_write [27] t1)\<lparr>t_kb := (t_kb t1)\<lparr>hterm_next_key_alt := False\<rparr>\<rparr> else t1);
     out \<leftarrow> written_text buffer2;
     Some (c_write out t2) }"

text \<open>What the chain of cases for the arrow keys and for keys with Ctrl held down sends.\<close>

definition key_bytes :: "int \<Rightarrow> int \<Rightarrow> bool \<Rightarrow> byte list option" where
  "key_bytes scancode key_sym ctrl =
     (if scancode = SDL_SCANCODE_LEFT then Some [27, 79, 68]
      else if scancode = SDL_SCANCODE_RIGHT then Some [27, 79, 67]
      else if scancode = SDL_SCANCODE_UP then Some [27, 79, 65]
      else if scancode = SDL_SCANCODE_DOWN then Some [27, 79, 66]
      else if ctrl \<and> \<not> is_ctrl_key scancode
      then (let c = (of_int (ctrl_code key_sym) :: byte) in if c \<noteq> 0 then Some [c] else None)
      else None)"

definition key_down :: "('p, 'e) host \<Rightarrow> int \<Rightarrow> int \<Rightarrow> ('p, 'e) hterm \<Rightarrow> ('p, 'e) hterm option" where
  "key_down hw scancode key_sym t = do {
     let t1 = (if scancode = SDL_SCANCODE_ESCAPE then c_write [27] t else t);
     let t2 = (if is_ctrl_key scancode then t1\<lparr>hterm_ctrl_pressed := True\<rparr> else t1);
     let t3 = t2\<lparr>t_sel := (t_sel t2)\<lparr>scroll_offset := 0\<rparr>\<rparr>;
     let t4 = (case key_bytes scancode key_sym (hterm_ctrl_pressed t3) of Some bytes \<Rightarrow> c_write bytes t3 | None \<Rightarrow> t3);
     if (key_sym = 118 \<and> hw_mod hw AND KMOD_CTRL \<noteq> 0) \<or> (key_sym = 118 \<and> hw_mod hw AND KMOD_GUI \<noteq> 0)
     then paste hw t4 else Some t4 }"

fun to_mouse_event :: "sdl_event \<Rightarrow> mouse_event" where
  "to_mouse_event (SDL_MOUSEMOTION x y) = MouseMotion x y"
| "to_mouse_event (SDL_MOUSEBUTTONUP x y) = MouseButtonUp x y"
| "to_mouse_event (SDL_MOUSEBUTTONDOWN x y) = MouseButtonDown x y"
| "to_mouse_event (SDL_MOUSEWHEEL y) = MouseWheel y"
| "to_mouse_event _ = OtherEvent"

definition mouse_env :: "('p, 'e) host \<Rightarrow> ('p, 'e) hterm \<Rightarrow> sel_env" where
  "mouse_env hw t = \<lparr>env_fw = nunifont_width (t_font t) + nunifont_space (t_font t),
     env_fh = nunifont_height (t_font t) + nunifont_space (t_font t), env_cols = t_cols t,
     env_cell = emu_cell (hw_emu hw) (t_emu t), env_scroll = t_scroll t, env_past = hw_past hw\<rparr>"

text \<open>What the widgets call: a request to redraw, or the function of an on-screen key.\<close>

definition ui_act :: "('p, 'e) host \<Rightarrow> vkey ui_act \<Rightarrow> ('p, 'e) hterm \<Rightarrow> ('p, 'e) hterm option" where
  "ui_act hw a t = (case a of
       UiRedraw \<Rightarrow> Some (t_redraw t)
     | UiCall k s \<Rightarrow>
         if k = KbPaste then paste hw t
         else (let (kb, acts) = virtual_kb k None (t_kb t) in Some (t\<lparr>t_kb := kb, t_log := t_log t @ map KbAct acts\<rparr>)))"

definition sdl_read_thread :: "('p, 'e) host \<Rightarrow> sdl_event \<Rightarrow> ('p, 'e) hterm \<Rightarrow> ('p, 'e) hterm option" where
  "sdl_read_thread hw event t = do {
     t1 \<leftarrow> process_resize hw event t;
     (ui, acts) \<leftarrow> ngui_receive_event event (t_ui t1);
     t2 \<leftarrow> ofold (ui_act hw) acts (t1\<lparr>t_ui := ui\<rparr>);
     sel \<leftarrow> process_mouse_event (mouse_env hw t2) (to_mouse_event event) (t_sel t2);
     let t3 = t2\<lparr>t_sel := sel\<rparr>;
     case event of
       SDL_QUIT \<Rightarrow> Some (t3\<lparr>hterm_quit := True\<rparr>)
     | SDL_TEXTINPUT event_text \<Rightarrow> text_input event_text t3
     | SDL_KEYUP scancode \<Rightarrow> Some (if is_ctrl_key scancode then t3\<lparr>hterm_ctrl_pressed := False\<rparr> else t3)
     | SDL_KEYDOWN scancode key_sym unicode \<Rightarrow> key_down hw scancode key_sym t3
     | _ \<Rightarrow> Some t3 }"

subsection \<open>The connection, the timer and the main loop\<close>

text \<open>\<open>len\<close> and \<open>bytes\<close> are what \<open>c_read\<close> returned.\<close>

definition console_poll :: "('p, 'e) host \<Rightarrow> int \<times> byte list \<Rightarrow> ('p, 'e) hterm \<Rightarrow> ('p, 'e) hterm option" where
  "console_poll hw rd t = (let (len, bytes) = rd in do {
     t1 \<leftarrow> (if len > 0 then do {
              let (calls, e) = emu_push (hw_emu hw) bytes (t_emu t);
              t' \<leftarrow> vterm_callbacks hw calls (t\<lparr>t_emu := e\<rparr>);
              Some (t_redraw t') }
            else Some t);
     Some (if len < 0 then t1\<lparr>hterm_quit := True\<rparr> else t1) })"

definition timed_repeat_tick :: "('p, 'e) hterm \<Rightarrow> ('p, 'e) hterm" where
  "timed_repeat_tick t =
     (let t1 = (if draw_selection (t_sel t)
           then t_redraw (if select_end_y (t_sel t) \<le> 0
                          then t\<lparr>t_sel := (t_sel t)\<lparr>scroll_offset := scroll_offset (t_sel t) + 1\<rparr>\<rparr> else t)
           else t);
          t2 = set_font (nunifont_blinktimer (t_font t1)) t1
      in if any_blinking t2 then t_redraw t2 else t2)"

text \<open>One round of the loop of \<open>sdl_render_thread\<close>: the events polled in it, and what the read returns.\<close>

definition render_round :: "('p, 'e) host \<Rightarrow> sdl_event list \<Rightarrow> int \<times> byte list \<Rightarrow> ('p, 'e) hterm \<Rightarrow> ('p, 'e) hterm option" where
  "render_round hw events rd t = do {
     t1 \<leftarrow> (if redraw_req (t_sel t)
            then map_option fst (redraw_screen hw (t\<lparr>t_sel := (t_sel t)\<lparr>redraw_req := False\<rparr>\<rparr>))
            else Some t);
     t2 \<leftarrow> ofold (sdl_read_thread hw) events t1;
     console_poll hw rd t2 }"

text \<open>The loop over the rounds of a run: the rest of the rounds is left when it ends.\<close>

fun sdl_render_thread :: "('p, 'e) host \<Rightarrow> (sdl_event list \<times> int \<times> byte list) list \<Rightarrow> ('p, 'e) hterm \<Rightarrow> ('p, 'e) hterm option" where
  "sdl_render_thread hw [] t = Some t"
| "sdl_render_thread hw ((events, rd) # rest) t = do {
     t1 \<leftarrow> render_round hw events rd t;
     if hterm_quit t1 then Some t1 else sdl_render_thread hw rest t1 }"

definition console_read_init :: "('p, 'e) host \<Rightarrow> ('p, 'e) hterm \<Rightarrow> ('p, 'e) hterm option" where
  "console_read_init hw t = terminal_resize hw (log_act ConnOpen t)"

definition vterm_initialisation :: "('p, 'e) host \<Rightarrow> ('p, 'e) hterm \<Rightarrow> ('p, 'e) hterm option" where
  "vterm_initialisation hw t = do {
     guard (nunifont_height (t_font t) \<noteq> 0 \<and> nunifont_width (t_font t) \<noteq> 0);
     let t1 = t\<lparr>t_rows := display_height (t_display t) sdiv nunifont_height (t_font t),
                t_cols := display_width (t_display t) sdiv nunifont_width (t_font t)\<rparr>;
     Some (t1\<lparr>t_emu := emu_new (hw_emu hw) (t_rows t1) (t_cols t1)\<rparr>) }"

text \<open>
  \<open>main\<close> up to its loop, for a window of the given size and the static font of \<open>fontmap_static.h\<close>. The
  globals before it are \<open>t\<close>.
\<close>

definition hterm_init :: "('p, 'e) host \<Rightarrow> byte list \<Rightarrow> byte list \<Rightarrow> ('p, 'e) hterm \<Rightarrow> ('p, 'e) hterm option" where
  "hterm_init hw fonts widths t = do {
     let (w, h) = hw_window hw;
     let t1 = set_font (set_system_bg 255 (t_font t)) t;
     let t2 = t1\<lparr>t_display := \<lparr>display_width = w, display_height = h, display_width_abs = w, display_height_abs = h\<rparr>,
                 t_regis := regis_init w h (t_regis t1), t_inline := inline_data_init w h (t_inline t1)\<rparr>;
     let t3 = set_font (nunifont_load_staticmap fonts widths (int (length fonts)) (int (length widths)) (t_font t2)) t2;
     let size = (if h > 2000 then 32 else if w > 2000 then 32 else 16);
     vterm_initialisation hw (set_font (nunifont_size size (t_font t3)) t3) }"

definition hterm_main :: "('p, 'e) host \<Rightarrow> byte list \<Rightarrow> byte list \<Rightarrow> (sdl_event list \<times> int \<times> byte list) list
    \<Rightarrow> ('p, 'e) hterm \<Rightarrow> ('p, 'e) hterm option" where
  "hterm_main hw fonts widths run t = do {
     t1 \<leftarrow> hterm_init hw fonts widths t;
     t2 \<leftarrow> console_read_init hw t1;
     t3 \<leftarrow> sdl_render_thread hw run t2;
     Some (log_act (KbAct ConnClose) (t3\<lparr>hterm_quit := False\<rparr>)) }"

text \<open>The globals when the program starts; the layers are null pointers until \<open>main\<close> sets them.\<close>

definition hterm_static :: "'e \<Rightarrow> ('p, 'e) hterm" where
  "hterm_static e = \<lparr>t_rows = 0, t_cols = 0,
     t_display = \<lparr>display_width = 0, display_height = 0, display_width_abs = 0, display_height_abs = 0\<rparr>,
     t_width_last_kb = 0, t_height_last_kb = 0, t_sel = sel_static, t_scroll = scroll_static, t_inline = inline_static,
     t_regis = regis_static 0 0, t_ui = ngui_static, t_emu = e,
     t_kb = \<lparr>hterm_next_key_ctrl = False, hterm_next_key_alt = False\<rparr>, hterm_ctrl_pressed = False, hterm_quit = False,
     forced_recreaterenderer = 0, any_blinking = False, t_calls = 0, t_log = []\<rparr>"

text \<open>What the prompt for a connection stores.\<close>

record ssh_info =
  ssh_received :: bool
  ssh_hostname :: "byte list"
  ssh_username :: "byte list"
  ssh_password :: "byte list"

definition receive_ssh_info :: "byte list \<Rightarrow> byte list \<Rightarrow> byte list \<Rightarrow> ssh_info \<Rightarrow> ssh_info option" where
  "receive_ssh_info o1 o2 o3 i = do {
     h \<leftarrow> c_strcpy (ssh_hostname i) o1;
     u \<leftarrow> c_strcpy (ssh_username i) o2;
     p \<leftarrow> c_strcpy (ssh_password i) o3;
     Some \<lparr>ssh_received = True, ssh_hostname = h, ssh_username = u, ssh_password = p\<rparr> }"

subsection \<open>What each part leaves alone\<close>

definition same_buffer :: "'p inline_state \<Rightarrow> 'p inline_state \<Rightarrow> bool" where
  "same_buffer a b \<longleftrightarrow> buffer b = buffer a \<and> buffer_size b = buffer_size a"

lemma same_buffer_ok: "same_buffer a b \<Longrightarrow> buffer_ok a \<Longrightarrow> buffer_ok b"
  by (simp add: same_buffer_def buffer_ok_def)

lemma png_callback_buffer: "png_callback e st = Some st' \<Longrightarrow> same_buffer st st'"
  by (cases e) (auto simp: same_buffer_def info_callback_def row_callback_def end_callback_def png_cleanup_def Let_def
      split: bind_splits)

lemma png_callbacks_buffer: "ofold png_callback es st = Some st' \<Longrightarrow> same_buffer st st'"
  by (rule ofold_inv [where P = "same_buffer st" and f = png_callback and xs = es and s = st])
    (auto simp: same_buffer_def dest!: png_callback_buffer)

lemma process_data_buffer: "inlinepng_process_data lib data st = Some (st', r) \<Longrightarrow> same_buffer st st'"
  by (auto simp: inlinepng_process_data_def png_cleanup_def same_buffer_def split: option.splits prod.splits bind_splits
      dest!: png_callbacks_buffer)

lemma decode_buffer: "decode_into cap data st = Some (st', out, f) \<Longrightarrow> same_buffer st st'"
  by (auto simp: decode_into_def same_buffer_def split: bind_splits)

lemma inline_continue_buffer: "inline_continue lib data st = Some (st', r) \<Longrightarrow> same_buffer st st'"
  by (auto simp: inline_continue_def same_buffer_def split: if_splits bind_splits prod.splits
      dest!: decode_buffer process_data_buffer)

lemma buffer_clear_ok: "buffer_ok st \<Longrightarrow> buffer_ok (buffer_clear st)"
  by (simp add: buffer_ok_def buffer_clear_def)

lemma init_reader_buffer: "same_buffer st (fst (initialize_png_reader lib st))"
  by (simp add: initialize_png_reader_def same_buffer_def split: option.split)

lemma inline_start_ok:
  assumes "inline_start lib pos st = Some (st', r)" "buffer_ok st"
  shows "buffer_ok st'"
proof -
  let ?st2 = "fst (initialize_png_reader lib (st\<lparr>processing_png := True, inline_b64 := base64_init (inline_b64 st)\<rparr>))"
  have "buffer_ok (st\<lparr>processing_png := True, inline_b64 := base64_init (inline_b64 st)\<rparr>)"
    using assms(2) by (simp add: buffer_ok_def)
  then have 2: "buffer_ok ?st2" by (rule same_buffer_ok [OF init_reader_buffer])
  obtain st3 d f where 3: "decode_into 4096 (take (nat (buffer_size ?st2) - (nat pos + length inline_magic))
      (drop (nat pos + length inline_magic) (buffer ?st2))) ?st2 = Some (st3, d, f)"
    using assms(1) by (auto simp: inline_start_def Let_def split: bind_splits)
  then have ok3: "buffer_ok st3" using 2 decode_buffer same_buffer_ok by blast
  obtain st4 where 4: "(if d \<noteq> [] then map_option fst (inlinepng_process_data lib d st3) else Some st3) = Some st4"
    using assms(1) 3 by (auto simp: inline_start_def Let_def split: bind_splits)
  then have "buffer_ok st4" using ok3 process_data_buffer same_buffer_ok by (fastforce split: if_splits)
  then have "buffer_ok (buffer_clear st4)" by (rule buffer_clear_ok)
  moreover have "st' = buffer_clear st4 \<or> st' = (buffer_clear st4)\<lparr>processing_png := False\<rparr>"
    using assms(1) 3 4 by (auto simp: inline_start_def Let_def split: bind_splits if_splits)
  ultimately show ?thesis by (auto simp: buffer_ok_def)
qed

lemma inline_receive_ok:
  assumes "inline_data_receive lib data (st, font) = Some ((st', font'), r)" "buffer_ok st"
  shows "buffer_ok st'"
proof (cases "processing_png st")
  case True
  then show ?thesis using assms by (auto simp: inline_data_receive_def dest!: inline_continue_buffer intro: same_buffer_ok)
next
  case False
  have "buffer_ok (st\<lparr>file_end := 0\<rparr>)" using assms(2) by (simp add: buffer_ok_def)
  from buffer_push_run [OF this, of data] obtain st1 where
    st1: "buffer_push data (st\<lparr>file_end := 0\<rparr>) = Some st1" "buffer_ok st1" by blast
  then show ?thesis using assms(1) False
    by (auto simp: inline_data_receive_def Let_def split: if_splits dest: inline_start_ok)
qed

lemma screen_prescroll_ok:
  assumes "screen_prescroll cell cols rect st = Some (st', b, r)" "scroll_ok st"
  shows "scroll_ok st'"
proof -
  have "scroll_ok s2" if "scroll_buffer_push row s1 = Some s2" "scroll_ok s1" for row s1 s2
    using scroll_push_spec [OF that(2), of row] that(1) by auto
  then have "scroll_ok s2" if "ofold (\<lambda>row st. do { guard (cols \<le> 1000); scroll_buffer_push (map (cell row) [0..cols - 1]) st }) rows st = Some s2" for rows s2
    using that assms(2)
    by (rule_tac ofold_inv [where P = scroll_ok]) auto
  with assms show ?thesis by (auto simp: screen_prescroll_def split: if_splits bind_splits)
qed

subsection \<open>The invariant of the program\<close>

definition hterm_ok :: "('p, 'e) hterm \<Rightarrow> bool" where
  "hterm_ok t \<longleftrightarrow> scroll_ok (t_scroll t) \<and> buffer_ok (t_inline t) \<and> ngui_ok (t_ui t)
     \<and> 0 \<le> scroll_offset (t_sel t) \<and> forced_recreaterenderer t = 0"

lemma hterm_ok_simps [simp]:
  "hterm_ok (set_font f t) = hterm_ok t" "hterm_ok (log_act a t) = hterm_ok t" "hterm_ok (c_write b t) = hterm_ok t"
  "hterm_ok (t_redraw t) = hterm_ok t" "hterm_ok (t\<lparr>t_calls := n\<rparr>) = hterm_ok t" "hterm_ok (t\<lparr>t_emu := e\<rparr>) = hterm_ok t"
  "hterm_ok (t\<lparr>t_rows := r, t_cols := c\<rparr>) = hterm_ok t" "hterm_ok (t\<lparr>hterm_quit := q\<rparr>) = hterm_ok t"
  "hterm_ok (t\<lparr>hterm_ctrl_pressed := q\<rparr>) = hterm_ok t" "hterm_ok (t\<lparr>t_kb := k\<rparr>) = hterm_ok t"
  "hterm_ok (t\<lparr>t_kb := k, t_log := l\<rparr>) = hterm_ok t" "hterm_ok (t\<lparr>t_regis := g\<rparr>) = hterm_ok t"
  "hterm_ok (t\<lparr>t_display := d\<rparr>) = hterm_ok t" "hterm_ok (t\<lparr>t_width_last_kb := kw, t_height_last_kb := kh\<rparr>) = hterm_ok t"
  "hterm_ok (t\<lparr>any_blinking := q\<rparr>) = hterm_ok t"
  by (simp_all add: hterm_ok_def set_font_def log_act_def c_write_def t_redraw_def redraw_required_def)

lemma csi_ok: "hterm_ok t \<Longrightarrow> hterm_ok (csi_handler now c t)"
  by (auto simp: csi_handler_def hterm_ok_def t_redraw_def redraw_required_def inline_data_clear_def buffer_clear_ok
      buffer_ok_def buffer_clear_def Let_def)

lemma vterm_callback_ok:
  assumes "hterm_ok t" "vterm_callback hw c t = Some t'"
  shows "hterm_ok t'"
proof (cases c)
  case (CbPrescroll rect cell)
  then show ?thesis using assms
    by (auto simp: prescroll_handler_def hterm_ok_def t_redraw_def redraw_required_def Let_def split: bind_splits if_splits
        dest: screen_prescroll_ok)
next
  case (CbText bytes)
  then show ?thesis using assms
    by (auto simp: text_handler_def hterm_ok_def set_font_def split: bind_splits dest: inline_receive_ok)
next
  case (CbCsi x)
  then show ?thesis using assms by (auto intro: csi_ok)
next
  case (CbDcs x y)
  then show ?thesis using assms by (auto simp: dcs_handler_def split: if_splits bind_splits)
qed (use assms in \<open>auto simp: screen_resize_def state_erase_def\<close>)

lemma vterm_callbacks_ok:
  assumes "hterm_ok t" "vterm_callbacks hw calls t = Some t'"
  shows "hterm_ok t'"
proof -
  have step: "hterm_ok s'" if "hterm_ok s" "vterm_callback hw c s \<bind> (\<lambda>t1. Some (t1\<lparr>t_calls := Suc (t_calls t1)\<rparr>)) = Some s'" for c s s'
    using that by (auto split: bind_splits dest: vterm_callback_ok [OF that(1)])
  show ?thesis
    by (rule ofold_inv [where P = hterm_ok, OF step assms(1) assms(2) [unfolded vterm_callbacks_def]])
qed

lemma terminal_resize_ok: "hterm_ok t \<Longrightarrow> terminal_resize hw t = Some t' \<Longrightarrow> hterm_ok t'"
  by (auto simp: terminal_resize_def Let_def split: prod.splits bind_splits intro: vterm_callbacks_ok [rotated])

lemma resize_window_ok: "hterm_ok t \<Longrightarrow> resize_window hw e t = Some t' \<Longrightarrow> hterm_ok t'"
proof -
  assume ok: "hterm_ok t" and r: "resize_window hw e t = Some t'"
  have "hterm_ok (t\<lparr>forced_recreaterenderer := 0, t_display := d, t_regis := g, t_inline := inline_data_resize w h (t_inline t)\<rparr>)"
    for d g w h using ok by (simp add: hterm_ok_def inline_data_resize_def buffer_ok_def)
  with r show ?thesis
    by (auto simp: resize_window_def Let_def split: prod.splits bind_splits dest!: terminal_resize_ok [rotated])
qed

lemma process_resize_ok:
  assumes "hterm_ok t" "process_resize hw e t = Some t'"
  shows "hterm_ok t'"
proof -
  have f: "forced_recreaterenderer t = 0" using assms(1) by (simp add: hterm_ok_def)
  then obtain t2 where t2: "hterm_ok t2" "(if window_kind e = Some SDL_WINDOWEVENT_ROTATE
     then (case window_data e of Some wh \<Rightarrow> rotate_window hw wh t2 | None \<Rightarrow> Some t2) else Some t2) = Some t'"
    using assms by (auto simp: process_resize_def split: if_splits bind_splits dest: resize_window_ok)
  then show ?thesis
    by (auto simp: rotate_window_def Let_def split: if_splits option.splits dest!: terminal_resize_ok [rotated])
qed


lemma paste_ok: "hterm_ok t \<Longrightarrow> paste hw t = Some t' \<Longrightarrow> hterm_ok t'"
  by (auto simp: paste_def split: bind_splits)

lemma ui_acts_ok: "hterm_ok t \<Longrightarrow> ofold (ui_act hw) acts t = Some t' \<Longrightarrow> hterm_ok t'"
  by (rule ofold_inv [where P = hterm_ok, rotated])
    (auto simp: ui_act_def Let_def split: ui_act.splits prod.splits if_splits dest: paste_ok [rotated])

lemma text_input_ok: "hterm_ok t \<Longrightarrow> text_input s t = Some t' \<Longrightarrow> hterm_ok t'"
  by (auto simp: text_input_def Let_def split: bind_splits if_splits prod.splits)

lemma scroll_to_end_ok: "hterm_ok t \<Longrightarrow> hterm_ok (t\<lparr>t_sel := (t_sel t)\<lparr>scroll_offset := 0\<rparr>\<rparr>)"
  by (simp add: hterm_ok_def)

lemma key_down_ok:
  assumes "hterm_ok t" "key_down hw sc k t = Some t'"
  shows "hterm_ok t'"
proof -
  define t2 where "t2 = (if is_ctrl_key sc then (if sc = SDL_SCANCODE_ESCAPE then c_write [27] t else t)\<lparr>hterm_ctrl_pressed := True\<rparr>
    else (if sc = SDL_SCANCODE_ESCAPE then c_write [27] t else t))"
  define t3 where "t3 = t2\<lparr>t_sel := (t_sel t2)\<lparr>scroll_offset := 0\<rparr>\<rparr>"
  define t4 where "t4 = (case key_bytes sc k (hterm_ctrl_pressed t3) of Some bytes \<Rightarrow> c_write bytes t3 | None \<Rightarrow> t3)"
  have "hterm_ok t2" using assms(1) by (simp add: t2_def)
  then have "hterm_ok t3" unfolding t3_def by (rule scroll_to_end_ok)
  then have "hterm_ok t4" by (simp add: t4_def split: option.split)
  moreover have "t' = t4 \<or> paste hw t4 = Some t'"
    using assms(2) unfolding key_down_def Let_def t2_def [symmetric] t3_def [symmetric] t4_def [symmetric]
    by (auto split: if_splits)
  ultimately show ?thesis by (auto dest: paste_ok [rotated])
qed

lemma sdl_event_ok:
  assumes "hterm_ok t" "sdl_read_thread hw e t = Some t'"
  shows "hterm_ok t'"
proof -
  from assms(2) obtain t1 ui acts t2 sel where
    1: "process_resize hw e t = Some t1" and 2: "ngui_receive_event e (t_ui t1) = Some (ui, acts)" and
    3: "ofold (ui_act hw) acts (t1\<lparr>t_ui := ui\<rparr>) = Some t2" and
    4: "process_mouse_event (mouse_env hw t2) (to_mouse_event e) (t_sel t2) = Some sel" and
    5: "(case e of
       SDL_QUIT \<Rightarrow> Some (t2\<lparr>t_sel := sel, hterm_quit := True\<rparr>)
     | SDL_TEXTINPUT event_text \<Rightarrow> text_input event_text (t2\<lparr>t_sel := sel\<rparr>)
     | SDL_KEYUP scancode \<Rightarrow> Some (if is_ctrl_key scancode then t2\<lparr>t_sel := sel, hterm_ctrl_pressed := False\<rparr> else t2\<lparr>t_sel := sel\<rparr>)
     | SDL_KEYDOWN scancode key_sym unicode \<Rightarrow> key_down hw scancode key_sym (t2\<lparr>t_sel := sel\<rparr>)
     | _ \<Rightarrow> Some (t2\<lparr>t_sel := sel\<rparr>)) = Some t'"
    by (auto simp: sdl_read_thread_def Let_def split: bind_splits)
  have ok1: "hterm_ok t1" using process_resize_ok [OF assms(1) 1] .
  then have "ngui_ok ui" using ngui_event_keeps [OF _ 2] by (simp add: hterm_ok_def)
  then have "hterm_ok (t1\<lparr>t_ui := ui\<rparr>)" using ok1 by (simp add: hterm_ok_def)
  then have ok2: "hterm_ok t2" using 3 by (rule ui_acts_ok)
  then have "0 \<le> scroll_offset sel" using mouse_offset_run [OF 4] by (simp add: hterm_ok_def)
  then have ok3: "hterm_ok (t2\<lparr>t_sel := sel\<rparr>)" using ok2 by (simp add: hterm_ok_def)
  then have "hterm_ok (t2\<lparr>t_sel := sel, hterm_quit := q\<rparr>)" "hterm_ok (t2\<lparr>t_sel := sel, hterm_ctrl_pressed := q\<rparr>)" for q
    by (simp_all add: hterm_ok_def)
  with 5 ok3 show ?thesis
    by (auto split: sdl_event.splits if_splits dest: text_input_ok [rotated] key_down_ok [rotated])
qed

lemma console_poll_ok: "hterm_ok t \<Longrightarrow> console_poll hw rd t = Some t' \<Longrightarrow> hterm_ok t'"
  by (auto simp: console_poll_def Let_def split: prod.splits if_splits bind_splits dest: vterm_callbacks_ok [rotated])

lemma tick_ok: "hterm_ok t \<Longrightarrow> hterm_ok (timed_repeat_tick t)"
  by (auto simp: timed_repeat_tick_def Let_def) (auto simp: hterm_ok_def t_redraw_def redraw_required_def)

interpretation stringselect_render: widget_kind ss_valid stringselect_ok "\<lambda>d. d\<lparr>ss_valid := False\<rparr>"
    "\<lambda>(_::unit) d. do { cmds \<leftarrow> ngui_render_stringselect d; Some (d, cmds) }"
  by unfold_locales (auto simp: stringselect_ok_def split: bind_splits)

lemma ngui_render_ok:
  assumes "ngui_ok u" "ngui_render u = Some (v, outs)"
  shows "ngui_ok v"
proof -
  from assms(1) have ok: "table_ok prompt_ok (ui_prompts u)" "table_ok textlabel_ok (ui_labels u)"
    "table_ok button_ok (ui_buttons u)" "table_ok textbox_ok (ui_boxes u)" "table_ok stringselect_ok (ui_selects u)"
    by (simp_all add: ngui_ok_def)
  have p: "ngui_renderall_info_prompt (ui_prompts u) = Some (ui_prompts u, [])"
    unfolding ngui_renderall_info_prompt_def by (rule each_valid_idle [OF ok(1)])
  from assms(2) obtain ls ks bs ss a2 a3 a4 a5 where
    r: "each_valid tl_valid (\<lambda>d. Some (d, ngui_render_textlabel d)) (ui_labels u) = Some (ls, a2)"
      "each_valid bt_valid ngui_render_button (ui_buttons u) = Some (ks, a3)"
      "each_valid tb_valid (\<lambda>d. Some (d, ngui_render_textbox d)) (ui_boxes u) = Some (bs, a4)"
      "each_valid ss_valid (\<lambda>d. do { cmds \<leftarrow> ngui_render_stringselect d; Some (d, cmds) }) (ui_selects u) = Some (ss, a5)"
      "v = u\<lparr>ui_labels := ls, ui_buttons := ks, ui_boxes := bs, ui_selects := ss\<rparr>"
    unfolding ngui_render_def p ngui_renderall_textlabel_def ngui_renderall_button_def
      ngui_renderall_textbox_def ngui_renderall_stringselect_def
    by (auto split: bind_splits)
  show ?thesis
    using ok(1) textlabel_render.each_keeps [OF ok(2) r(1)] button_render.each_keeps [OF ok(3) r(2)]
      textbox_render.each_keeps [OF ok(4) r(3)] stringselect_render.each_keeps [OF ok(5) r(4)]
    by (simp add: ngui_ok_def r(5))
qed

lemma redraw_selection_offset: "redraw_selection fw fh w s = (s', out) \<Longrightarrow> scroll_offset s' = scroll_offset s"
  by (auto simp: redraw_selection_def redraw_required_def Let_def split: if_splits)

lemma ui_output_ok: "hterm_ok t \<Longrightarrow> ui_output hw out (t, c) = Some (t', c') \<Longrightarrow> hterm_ok t'"
  by (auto simp: ui_output_def split: ui_out.splits render_cmd.splits bind_splits)

lemma ui_outputs_ok: "hterm_ok t \<Longrightarrow> ofold (ui_output hw) outs (t, c) = Some (t', c') \<Longrightarrow> hterm_ok t'"
proof (induction outs arbitrary: t c)
  case (Cons out outs)
  then obtain t1 c1 where "ui_output hw out (t, c) = Some (t1, c1)" "ofold (ui_output hw) outs (t1, c1) = Some (t', c')"
    by (auto split: bind_splits)
  with Cons.IH Cons.prems(1) ui_output_ok show ?case by blast
qed simp

lemma redraw_screen_ok:
  assumes "hterm_ok t" "redraw_screen hw t = Some (t', cmds)"
  shows "hterm_ok t'"
proof -
  from assms(2) obtain t1 tcmds sel ls ui outs c where
    1: "redraw_text hw (t\<lparr>any_blinking := False\<rparr>) = Some (t1, tcmds)" and
    2: "redraw_selection (nunifont_width (t_font t1) + nunifont_space (t_font t1))
            (nunifont_height (t_font t1) + nunifont_space (t_font t1)) (display_width (t_display t1)) (t_sel t1) = (sel, ls)" and
    3: "ngui_render (t_ui t1) = Some (ui, outs)" and
    4: "ofold (ui_output hw) outs (t1\<lparr>t_sel := sel, t_ui := ui\<rparr>, []) = Some (t', c)"
    by (auto simp: redraw_screen_def Let_def split: bind_splits prod.splits)
  have ok1: "hterm_ok t1" using 1 assms(1) by (auto simp: redraw_text_def split: bind_splits)
  then have "hterm_ok (t1\<lparr>t_sel := sel, t_ui := ui\<rparr>)"
    using redraw_selection_offset [OF 2] ngui_render_ok [OF _ 3] by (simp add: hterm_ok_def)
  then show ?thesis using 4 by (rule ui_outputs_ok)
qed

subsection \<open>Everything that can happen to the running program\<close>

text \<open>
  The steps of the program once it runs: a frame, an event, a poll of the connection, and a tick of the
  timer thread, in any order.
\<close>

inductive hterm_step :: "('p, 'e) host \<Rightarrow> ('p, 'e) hterm \<Rightarrow> ('p, 'e) hterm \<Rightarrow> bool" for hw where
  Frame: "redraw_req (t_sel t) \<Longrightarrow> redraw_screen hw (t\<lparr>t_sel := (t_sel t)\<lparr>redraw_req := False\<rparr>\<rparr>) = Some (t', cmds) \<Longrightarrow> hterm_step hw t t'"
| Event: "sdl_read_thread hw e t = Some t' \<Longrightarrow> hterm_step hw t t'"
| Poll: "console_poll hw rd t = Some t' \<Longrightarrow> hterm_step hw t t'"
| Tick: "hterm_step hw t (timed_repeat_tick t)"

inductive hterm_run :: "('p, 'e) host \<Rightarrow> ('p, 'e) hterm \<Rightarrow> ('p, 'e) hterm \<Rightarrow> bool" for hw where
  run_refl: "hterm_run hw t t"
| run_step: "hterm_run hw t u \<Longrightarrow> hterm_step hw u v \<Longrightarrow> hterm_run hw t v"

inductive_cases hterm_stepE: "hterm_step hw t t'"

lemma hterm_step_ok: "hterm_step hw t t' \<Longrightarrow> hterm_ok t \<Longrightarrow> hterm_ok t'"
proof (induction rule: hterm_step.induct)
  case (Frame t t' cmds)
  have "hterm_ok (t\<lparr>t_sel := (t_sel t)\<lparr>redraw_req := False\<rparr>\<rparr>)" using Frame.prems by (simp add: hterm_ok_def)
  then show ?case using Frame.hyps(2) redraw_screen_ok by blast
qed (blast intro: sdl_event_ok console_poll_ok tick_ok)+

lemma hterm_run_ok: "hterm_run hw t t' \<Longrightarrow> hterm_ok t \<Longrightarrow> hterm_ok t'"
  by (induction rule: hterm_run.induct) (auto dest: hterm_step_ok)

lemma run_trans: "hterm_run hw u v \<Longrightarrow> hterm_run hw t u \<Longrightarrow> hterm_run hw t v"
  by (induction rule: hterm_run.induct) (auto intro: run_step)

text \<open>A round of the main loop is a run of such steps.\<close>

lemma events_run: "ofold (sdl_read_thread hw) es t = Some t' \<Longrightarrow> hterm_run hw t t'"
proof (induction es arbitrary: t)
  case (Cons e es)
  then obtain t1 where "sdl_read_thread hw e t = Some t1" "hterm_run hw t1 t'" by (auto split: bind_splits)
  then show ?case by (rule_tac run_trans [OF _ run_step [OF run_refl Event]])
qed (auto intro: run_refl)

lemma render_round_run:
  assumes "render_round hw es rd t = Some t'"
  shows "hterm_run hw t t'"
proof -
  from assms obtain t1 t2 where 1: "(if redraw_req (t_sel t)
            then map_option fst (redraw_screen hw (t\<lparr>t_sel := (t_sel t)\<lparr>redraw_req := False\<rparr>\<rparr>)) else Some t) = Some t1"
    and 2: "ofold (sdl_read_thread hw) es t1 = Some t2" and 3: "console_poll hw rd t2 = Some t'"
    by (auto simp: render_round_def split: bind_splits)
  have "hterm_run hw t t1"
  proof (cases "redraw_req (t_sel t)")
    case True
    with 1 obtain cmds where "redraw_screen hw (t\<lparr>t_sel := (t_sel t)\<lparr>redraw_req := False\<rparr>\<rparr>) = Some (t1, cmds)" by auto
    from run_step [OF run_refl Frame [OF True this]] show ?thesis .
  next
    case False
    with 1 show ?thesis by (auto intro: run_refl)
  qed
  from run_trans [OF events_run [OF 2] this] have "hterm_run hw t t2" .
  then show ?thesis by (rule run_step) (rule Poll [OF 3])
qed

lemma render_thread_run: "sdl_render_thread hw rs t = Some t' \<Longrightarrow> hterm_run hw t t'"
proof (induction rs arbitrary: t)
  case (Cons r rs)
  obtain es rd where r: "r = (es, rd)" by (cases r)
  with Cons.prems obtain t1 where "render_round hw es rd t = Some t1" "t' = t1 \<or> sdl_render_thread hw rs t1 = Some t'"
    by (auto split: bind_splits if_splits)
  with Cons.IH render_round_run show ?case by (blast intro: run_trans)
qed (auto intro: run_refl)

lemma hterm_static_ok: "hterm_ok (hterm_static e)"
  by (simp add: hterm_ok_def hterm_static_def scroll_static_ok inline_static_ok ngui_static_ok sel_static_def)

lemma hterm_start_ok:
  assumes "hterm_init hw fonts widths (hterm_static e) = Some t" "console_read_init hw t = Some t'"
  shows "hterm_ok t'"
proof -
  have "hterm_ok ((set_font f (hterm_static e))\<lparr>t_display := d, t_regis := g, t_inline := inline_data_init w h (t_inline (set_font f (hterm_static e)))\<rparr>)"
    for f d g w h
    using hterm_static_ok [of e] by (simp add: hterm_ok_def inline_data_init_def buffer_ok_def set_font_def)
  then have "hterm_ok t" using assms(1)
    by (auto simp: hterm_init_def vterm_initialisation_def Let_def split: prod.splits bind_splits)
  then have "hterm_ok (log_act ConnOpen t)" by simp
  then show ?thesis using assms(2) unfolding console_read_init_def by (rule terminal_resize_ok)
qed

text \<open>
  C1: The invariant of the whole program: from the start of \<open>main\<close> on, whatever the emulator calls back,
  whatever events arrive and whatever the connection delivers, in any order, the scrollback ring and the
  inline data buffer keep their shapes, the widgets stay well formed, the scroll offset is not negative
  and no renderer is ever forced.
\<close>

theorem hterm_invariant:
  assumes "hterm_init hw fonts widths (hterm_static e) = Some t0" "console_read_init hw t0 = Some t1" "hterm_run hw t1 t"
  shows "hterm_ok t"
  using hterm_run_ok [OF assms(3) hterm_start_ok [OF assms(1,2)]] .

text \<open>
  A host for demonstrations: an emulator that remembers its size and calls back with the text pushed, a
  window of 640 by 480, no image library.
\<close>

definition demo_emu :: "(int \<times> int) emulator" where
  "demo_emu = \<lparr>emu_new = (\<lambda>r c. (r, c)), emu_push = (\<lambda>bytes e. ([CbText bytes], e)),
     emu_set_size = (\<lambda>r c e. ([CbResize r c], (r, c))), emu_cell = (\<lambda>_. demo_cell), emu_cursor = (\<lambda>e. (0, 0))\<rparr>"

definition demo_host :: "(unit, int \<times> int) host" where
  "demo_host = \<lparr>hw_png = demo_lib, hw_emu = demo_emu, hw_hexfile = [], hw_past = None, hw_clock = (\<lambda>k n. (int k, 0)),
     hw_xclip = Some [104, 105], hw_window = (640, 480), hw_kb_shown = False, hw_mod = 0\<rparr>"

definition demo_start :: "(unit, int \<times> int) hterm" where
  "demo_start = the (hterm_init demo_host [] [] (hterm_static (0, 0)) \<bind> console_read_init demo_host)"

lemma demo_start_run:
  "hterm_init demo_host [] [] (hterm_static (0, 0)) \<bind> console_read_init demo_host = Some demo_start"
  "t_rows demo_start = 30" "t_cols demo_start = 80" "nunifont_width (t_font demo_start) = 8" "nunifont_height (t_font demo_start) = 16"
  "forced_recreaterenderer demo_start = 0" "t_ui demo_start = ngui_static" "t_sel demo_start = sel_static"
  "t_kb demo_start = \<lparr>hterm_next_key_ctrl = False, hterm_next_key_alt = False\<rparr>" "hterm_ctrl_pressed demo_start = False"
  "t_scroll demo_start = scroll_static" "regis_layer (t_regis demo_start) = create_rgb_surface32 640 480"
  "\<not> hterm_quit demo_start"
  by (simp_all add: demo_start_def hterm_init_def console_read_init_def vterm_initialisation_def terminal_resize_def
      vterm_callbacks_def screen_resize_def demo_host_def demo_emu_def hterm_static_def set_font_def log_act_def
      nunifont_load_staticmap_def nunifont_initcache_def nunifont_size_def set_system_bg_def regis_init_def regis_static_def
      font_static_def signed_divide_int_def)

theorem hterm_invariant_witness: "hterm_ok (timed_repeat_tick demo_start)"
proof -
  from demo_start_run(1) obtain t0 where
    "hterm_init demo_host [] [] (hterm_static (0, 0)) = Some t0" "console_read_init demo_host t0 = Some demo_start"
    by (auto split: bind_splits)
  from hterm_invariant [OF this, of "timed_repeat_tick demo_start"] show ?thesis
    by (blast intro: run_step run_refl Tick)
qed

end
