(* ===== verification/Session.thy ===== *)
theory Session
  imports Terminal
begin

section \<open>What a session does\<close>

text \<open>
  Properties of the whole program on the Linux build: what reaches the shell when keys are pressed, text
  is typed or pasted, and the window is resized; what the scrollback holds; what a device control string
  draws; when the main loop ends.
\<close>

subsection \<open>Keys and text\<close>

text \<open>The Linux program has no widgets; events that are neither of the mouse nor of the window go straight on.\<close>

lemma same_ui [simp]: "t_ui t = u \<Longrightarrow> t\<lparr>t_ui := u\<rparr> = t"
  by auto

lemma plain_event:
  assumes "t_ui t = ngui_static" "forced_recreaterenderer t = 0" "window_kind e = None" "to_mouse_event e = OtherEvent"
  shows "sdl_read_thread hw e t = (case e of
       SDL_QUIT \<Rightarrow> Some (t\<lparr>hterm_quit := True\<rparr>)
     | SDL_TEXTINPUT event_text \<Rightarrow> text_input event_text t
     | SDL_KEYUP scancode \<Rightarrow> Some (if is_ctrl_key scancode then t\<lparr>hterm_ctrl_pressed := False\<rparr> else t)
     | SDL_KEYDOWN scancode key_sym unicode \<Rightarrow> key_down hw scancode key_sym t
     | _ \<Rightarrow> Some t)"
proof -
  have "process_resize hw e t = Some t" using assms(2,3) by (simp add: process_resize_def)
  then show ?thesis using assms(1,4)
    by (simp add: sdl_read_thread_def ngui_static_event)
qed

lemma written_text_run: "0 \<notin> set s \<Longrightarrow> written_text (map Some s @ Some 0 # xs) = Some s"
  by (induction s) auto

text \<open>What a typed text becomes: a line feed at its start turns into a carriage return, Ctrl takes the letter's low five bits.\<close>

definition typed :: "bool \<Rightarrow> byte list \<Rightarrow> byte list" where
  "typed ctrl s = (case s of [] \<Rightarrow> [] | c # cs \<Rightarrow> (let d = (if c = 10 then 13 else c) in (if ctrl then d AND 31 else d) # cs))"

definition is_letter :: "byte \<Rightarrow> bool" where
  "is_letter c \<longleftrightarrow> 65 \<le> unat c \<and> unat c \<le> 90 \<or> 97 \<le> unat c \<and> unat c \<le> 122"

lemma all_letters:
  assumes "is_letter c" "\<And>n. n \<in> set [65..<91] \<union> set [97..<123] \<Longrightarrow> P (of_nat n)"
  shows "P c"
proof -
  have "unat c \<in> set [65..<91] \<union> set [97..<123]" using assms(1) unfolding is_letter_def set_upt Un_iff atLeastLessThan_iff by auto
  from assms(2) [OF this] show ?thesis by simp
qed

lemma letter_control:
  assumes "is_letter c"
  shows "(of_int (ctrl_code (sint c)) :: byte) = c AND 31" "c AND 31 \<noteq> 0" "c \<noteq> 10" "c \<noteq> 0"
proof -
  have "(of_int (ctrl_code (sint c)) :: byte) = c AND 31 \<and> c AND 31 \<noteq> 0 \<and> c \<noteq> 10 \<and> c \<noteq> 0"
    by (rule all_letters [OF assms]) (auto simp: upt_conv_Cons ctrl_code_def)
  then show "(of_int (ctrl_code (sint c)) :: byte) = c AND 31" "c AND 31 \<noteq> 0" "c \<noteq> 10" "c \<noteq> 0" by auto
qed

text \<open>
  C17: Text typed into the window reaches the shell: it is written as it is, apart from a line feed at its
  start, which becomes a carriage return; after the on-screen Ctrl key its first letter becomes the
  control character; after the on-screen Alt key an escape is written before it. Both keys then have had
  their effect.
\<close>

theorem typed_text_sent:
  assumes "t_ui t = ngui_static" "forced_recreaterenderer t = 0" "cstr txt = Some s" "length s < 255"
    and "hterm_next_key_ctrl (t_kb t) \<Longrightarrow> s \<noteq> [] \<and> is_letter (hd s)"
  shows "\<exists>t'. sdl_read_thread hw (SDL_TEXTINPUT txt) t = Some t'
    \<and> t_log t' = t_log t @ (if hterm_next_key_alt (t_kb t) then [ConnWrite [27]] else []) @ [ConnWrite (typed (hterm_next_key_ctrl (t_kb t)) s)]
    \<and> t_kb t' = \<lparr>hterm_next_key_ctrl = False, hterm_next_key_alt = False\<rparr>"
proof -
  have nz: "0 \<notin> set s" using assms(3) by (auto simp: cstr_def split: if_splits dest: set_takeWhileD)
  define b0 where "b0 = map Some s @ Some 0 # replicate (254 - length s) None"
  define b1 where "b1 = (if hd b0 = Some 10 then Some 13 # tl b0 else b0)"
  define c where "c = hterm_next_key_ctrl (t_kb t)"
  define b2 where "b2 = (if c then Some (of_int (ctrl_code (sint (the (hd b1))))) # tl b1 else b1)"
  have b2: "b2 = map Some (typed c s) @ Some 0 # replicate (254 - length s) None \<and> 0 \<notin> set (typed c s)"
  proof (cases s)
    case Nil
    with assms(5) have "\<not> c" by (auto simp: c_def)
    then show ?thesis by (simp add: b2_def b1_def b0_def typed_def Nil)
  next
    case (Cons x xs)
    show ?thesis
    proof (cases c)
      case True
      then have l: "is_letter x" using assms(5) Cons by (simp add: c_def)
      show ?thesis using True letter_control [OF l] nz by (simp add: b2_def b1_def b0_def typed_def Cons)
    next
      case False
      with nz show ?thesis by (simp add: b2_def b1_def b0_def typed_def Cons)
    qed
  qed
  then have w: "written_text b2 = Some (typed c s)" using written_text_run by auto
  have "sdl_read_thread hw (SDL_TEXTINPUT txt) t = text_input txt t"
    using plain_event [OF assms(1,2), of "SDL_TEXTINPUT txt"] by simp
  moreover have "text_input txt t = do {
       let t1 = (if c then t\<lparr>t_kb := (t_kb t)\<lparr>hterm_next_key_ctrl := False\<rparr>\<rparr> else t);
       let t2 = (if hterm_next_key_alt (t_kb t1) then (c_write [27] t1)\<lparr>t_kb := (t_kb t1)\<lparr>hterm_next_key_alt := False\<rparr>\<rparr> else t1);
       out \<leftarrow> written_text b2;
       Some (c_write out t2) }"
    using assms(3,4) by (cases c) (simp_all add: text_input_def Let_def b2_def b1_def b0_def c_def)
  ultimately show ?thesis unfolding w Let_def
    by (cases "t_kb t"; cases "c"; cases "hterm_next_key_alt (t_kb t)") (simp_all add: c_def c_write_def log_act_def)
qed

theorem typed_text_sent_witness:
  "\<exists>t'. sdl_read_thread demo_host (SDL_TEXTINPUT (ascii ''ls'' @ [0])) demo_start = Some t'
    \<and> t_log t' = t_log demo_start @ [ConnWrite [108, 115]]"
proof -
  have "cstr (ascii ''ls'' @ [0]) = Some [108, 115]" by (simp add: ascii_def cstr_def)
  from typed_text_sent [OF demo_start_run(7,6) this, of demo_host] show ?thesis
    by (auto simp: demo_start_run typed_def)
qed

text \<open>
  C18: Holding Ctrl: pressing a control key, a letter and letting go writes exactly the letter's control
  code and scrolls back to the screen; for the letter v the text of the clipboard follows, so the shell
  sees the quoting character 22 before every paste.
\<close>

theorem ctrl_letter_sent:
  assumes "t_ui t = ngui_static" "forced_recreaterenderer t = 0" "is_ctrl_key ctrl" "ctrl_sym \<noteq> 118"
    and "97 \<le> letter" "letter \<le> 122" "\<not> is_ctrl_key sc" "sc \<notin> {SDL_SCANCODE_ESCAPE, SDL_SCANCODE_LEFT, SDL_SCANCODE_RIGHT, SDL_SCANCODE_UP, SDL_SCANCODE_DOWN}"
    and "hw_mod hw AND KMOD_CTRL \<noteq> 0" "hw_xclip hw = Some cs" "cs \<noteq> []" "0 \<notin> set cs" "length cs < 10240"
  shows "\<exists>t'. ofold (sdl_read_thread hw) [SDL_KEYDOWN ctrl ctrl_sym u, SDL_KEYDOWN sc letter u', SDL_KEYUP ctrl] t = Some t'
    \<and> t_log t' = t_log t @ [ConnWrite [of_int (letter - 96)]] @ (if letter = 118 then [ConnWrite cs] else [])
    \<and> scroll_offset (t_sel t') = 0 \<and> \<not> hterm_ctrl_pressed t'"
proof -
  define t1 where "t1 = t\<lparr>hterm_ctrl_pressed := True, t_sel := (t_sel t)\<lparr>scroll_offset := 0\<rparr>\<rparr>"
  define t2 where "t2 = c_write [of_int (letter - 96)] t1"
  define t3 where "t3 = (if letter = 118 then c_write cs t2 else t2)"
  have c: "ctrl \<noteq> SDL_SCANCODE_ESCAPE" "key_bytes ctrl k True = None" for k
    using assms(3) by (auto simp: is_ctrl_key_def key_bytes_def scancode_defs)
  have "\<not> 2 ^ LENGTH(8) dvd letter - 96" using assms(5,6) zdvd_not_zless [of "letter - 96" 256] by simp
  then have "(of_int (letter - 96) :: byte) \<noteq> 0" unfolding word_of_int_eq_0_iff .
  then have k: "key_bytes sc letter True = Some [of_int (letter - 96)]"
    using assms(5-8) by (auto simp: key_bytes_def ctrl_code_def Let_def)
  have p: "paste hw x = Some (c_write cs x)" for x :: "('a, 'b) hterm"
    using assms(10-13) written_text_run [of cs] by (cases cs) (simp_all add: paste_def paste_text_def)
  have 1: "sdl_read_thread hw (SDL_KEYDOWN ctrl ctrl_sym u) t = Some t1"
    using plain_event [OF assms(1,2), of "SDL_KEYDOWN ctrl ctrl_sym u" hw] assms(3,4) c
    by (simp add: key_down_def Let_def t1_def)
  have i1: "t_ui t1 = ngui_static" "forced_recreaterenderer t1 = 0" using assms(1,2) by (simp_all add: t1_def)
  have 2: "sdl_read_thread hw (SDL_KEYDOWN sc letter u') t1 = Some t3"
    using plain_event [OF i1, of "SDL_KEYDOWN sc letter u'" hw] assms(7-9) k p
    by (auto simp: key_down_def Let_def t1_def t2_def t3_def c_write_def log_act_def)
  have i3: "t_ui t3 = ngui_static" "forced_recreaterenderer t3 = 0"
    using i1 by (simp_all add: t2_def t3_def c_write_def log_act_def)
  have 3: "sdl_read_thread hw (SDL_KEYUP ctrl) t3 = Some (t3\<lparr>hterm_ctrl_pressed := False\<rparr>)"
    using plain_event [OF i3, of "SDL_KEYUP ctrl" hw] assms(3) by simp
  show ?thesis using 1 2 3 by (simp add: t3_def t2_def t1_def c_write_def log_act_def)
qed

theorem ctrl_letter_sent_witness:
  "\<exists>t'. ofold (sdl_read_thread (demo_host\<lparr>hw_mod := 64\<rparr>)) [SDL_KEYDOWN 224 0 0, SDL_KEYDOWN 25 118 0, SDL_KEYUP 224] demo_start = Some t'
    \<and> t_log t' = t_log demo_start @ [ConnWrite [22], ConnWrite [104, 105]]"
proof -
  have "\<exists>t'. ofold (sdl_read_thread (demo_host\<lparr>hw_mod := 64\<rparr>)) [SDL_KEYDOWN 224 0 0, SDL_KEYDOWN 25 118 0, SDL_KEYUP 224] demo_start = Some t'
    \<and> t_log t' = t_log demo_start @ [ConnWrite [of_int (118 - 96)]] @ (if (118::int) = 118 then [ConnWrite [104, 105]] else [])
    \<and> scroll_offset (t_sel t') = 0 \<and> \<not> hterm_ctrl_pressed t'"
    by (rule ctrl_letter_sent [OF demo_start_run(7,6)])
      (simp_all add: is_ctrl_key_def scancode_defs KMOD_CTRL_def demo_host_def)
  then show ?thesis by auto
qed

text \<open>
  Pasting writes the whole clipboard to the shell when it is shorter than 10240 bytes. Of a longer
  one the 10241st byte is stored outside the array, and of an empty one (or when \<open>xclip\<close> does not start)
  the array is read without ever having been written: both are undefined behaviour.
\<close>

theorem paste_whole_or_undefined:
  assumes "\<forall>cs. hw_xclip hw = Some cs \<longrightarrow> 0 \<notin> set cs"
  shows "paste hw t = (case hw_xclip hw of
      Some cs \<Rightarrow> if cs \<noteq> [] \<and> length cs < 10240 then Some (c_write cs t) else None
    | None \<Rightarrow> None)"
proof -
  have u: "written_text (replicate 10240 None) = None" by (simp add: numeral_eq_Suc)
  show ?thesis
  proof (cases "hw_xclip hw")
    case None
    then show ?thesis using u by (simp add: paste_def paste_text_def)
  next
    case (Some cs)
    then show ?thesis using u assms written_text_run [of cs]
      by (cases cs) (auto simp: paste_def paste_text_def)
  qed
qed

theorem paste_whole_or_undefined_witness:
  "paste (demo_host\<lparr>hw_xclip := Some (replicate 10240 65)\<rparr>) demo_start = None"
  using paste_whole_or_undefined [of "demo_host\<lparr>hw_xclip := Some (replicate 10240 65)\<rparr>" demo_start] by simp

subsection \<open>The size of the window\<close>



subsection \<open>The history of the screen\<close>

text \<open>The rows that scroll off the top with a call back, in a terminal of \<open>cols\<close> columns.\<close>

fun scrolled_off :: "int \<Rightarrow> vterm_call \<Rightarrow> vcell list list" where
  "scrolled_off cols (CbPrescroll rect cell) =
     (if start_row rect = 0 \<and> start_col rect = 0 \<and> end_col rect = cols
      then map (\<lambda>row. map (cell row) [0..cols - 1]) [0..end_row rect - 1] else [])"
| "scrolled_off cols _ = []"

lemma callback_history:
  assumes "vterm_callback hw c t = Some t'" "\<And>r k. c \<noteq> CbResize r k" "t_cols t \<le> 1000" "scroll_ok (t_scroll t)"
  shows "t_cols t' = t_cols t \<and> scroll_ok (t_scroll t')
    \<and> scroll_rows (t_scroll t') = last_n scroll_buffer_initial_size (scroll_rows (t_scroll t) @ scrolled_off (t_cols t) c)"
proof (cases c)
  case (CbPrescroll rect cell)
  from scroll.push_list [OF assms(4), of "map (\<lambda>row. map (cell row) [0..t_cols t - 1]) [0..end_row rect - 1]"] scroll_rows_bound [OF assms(4)]
  show ?thesis using assms(1,3,4) unfolding CbPrescroll
    by (auto simp: prescroll_handler_def screen_prescroll_def Let_def ofold_map t_redraw_def split: bind_splits if_splits)
next
  case (CbCsi x)
  then show ?thesis using assms(1,4) scroll_rows_bound [OF assms(4)] by (auto simp: csi_handler_def t_redraw_def Let_def)
qed (use assms scroll_rows_bound [OF assms(4)] in \<open>auto simp: state_erase_def t_redraw_def text_handler_def dcs_handler_def set_font_def split: bind_splits if_splits\<close>)

text \<open>
  C15: Over any calls back between two changes of the size, in a terminal of at most 1000 columns, the
  scrollback holds exactly the last 10000 rows that have scrolled off the top of the whole screen, in
  order, with the cells they had; regions that start further down or are narrower leave no trace.
\<close>

theorem scrollback_history:
  assumes "vterm_callbacks hw calls t = Some t'" "\<forall>r c. CbResize r c \<notin> set calls" "t_cols t \<le> 1000" "scroll_ok (t_scroll t)"
  shows "scroll_rows (t_scroll t')
    = last_n scroll_buffer_initial_size (scroll_rows (t_scroll t) @ concat (map (scrolled_off (t_cols t)) calls))"
  using assms
proof (induction calls arbitrary: t)
  case Nil
  then show ?case using scroll_rows_bound by (simp add: vterm_callbacks_def)
next
  case (Cons c calls)
  from Cons.prems(1) obtain t1 where t1: "vterm_callback hw c t = Some t1"
    "vterm_callbacks hw calls (t1\<lparr>t_calls := Suc (t_calls t1)\<rparr>) = Some t'"
    by (auto simp: vterm_callbacks_def split: bind_splits)
  have n: "\<And>r k. c \<noteq> CbResize r k" using Cons.prems(2) by fastforce
  note h = callback_history [OF t1(1) n Cons.prems(3,4)]
  have "scroll_rows (t_scroll t') = last_n scroll_buffer_initial_size
      (scroll_rows (t_scroll t1) @ concat (map (scrolled_off (t_cols t)) calls))"
    using Cons.IH [OF t1(2)] h Cons.prems(2,3) by simp
  with h show ?case by (simp add: last_n_last_n_append)
qed

theorem scrollback_history_witness:
  "\<exists>t'. vterm_callbacks demo_host [CbPrescroll \<lparr>start_row = 0, end_row = 1, start_col = 0, end_col = 80\<rparr> demo_cell] demo_start = Some t'
    \<and> scroll_rows (t_scroll t') = [map (demo_cell 0) [0..79]]"
proof -
  have s: "t_scroll demo_start = scroll_static" by (rule demo_start_run(11))
  let ?cs = "[CbPrescroll \<lparr>start_row = 0, end_row = 1, start_col = 0, end_col = 80\<rparr> demo_cell]"
  from scroll_push_spec [OF scroll_static_ok(1), of "map (demo_cell 0) [0..79]"] obtain st where
    "scroll_buffer_push (map (demo_cell 0) [0..79]) scroll_static = Some st" by blast
  then have "\<exists>t'. vterm_callbacks demo_host ?cs demo_start = Some t'"
    by (simp add: vterm_callbacks_def prescroll_handler_def screen_prescroll_def s demo_start_run(2,3))
  then obtain t' where "vterm_callbacks demo_host ?cs demo_start = Some t'" by blast
  with scrollback_history [OF this] show ?thesis
    by (simp add: s demo_start_run(2,3) scroll_static_ok last_n_def scroll_buffer_initial_size_def)
qed

subsection \<open>Graphics from the host\<close>



subsection \<open>The end of the main loop\<close>

lemma quit_simps [simp]:
  "hterm_quit (set_font f t) = hterm_quit t" "hterm_quit (log_act a t) = hterm_quit t" "hterm_quit (c_write b t) = hterm_quit t"
  "hterm_quit (t_redraw t) = hterm_quit t" "hterm_quit (screen_resize r c t) = hterm_quit t" "hterm_quit (csi_handler now k t) = hterm_quit t"
  by (simp_all add: set_font_def log_act_def c_write_def t_redraw_def screen_resize_def csi_handler_def Let_def)

lemma callbacks_quit: "vterm_callbacks hw calls t = Some t' \<Longrightarrow> hterm_quit t' = hterm_quit t"
proof -
  have c: "hterm_quit s' = hterm_quit s" if "vterm_callback hw c s = Some s'" for c s s'
    using that by (cases c) (auto simp: prescroll_handler_def text_handler_def dcs_handler_def state_erase_def Let_def
        split: bind_splits if_splits)
  assume "vterm_callbacks hw calls t = Some t'"
  then show ?thesis unfolding vterm_callbacks_def
    by (rule ofold_inv [where P = "\<lambda>s. hterm_quit s = hterm_quit t", rotated 2]) (auto split: bind_splits dest: c)
qed

lemma resize_quit: "terminal_resize hw t = Some t' \<Longrightarrow> hterm_quit t' = hterm_quit t"
  by (auto simp: terminal_resize_def Let_def split: prod.splits bind_splits dest: callbacks_quit)

lemma process_resize_quit: "process_resize hw e t = Some t' \<Longrightarrow> hterm_quit t' = hterm_quit t"
  by (auto simp: process_resize_def resize_window_def rotate_window_def Let_def
      split: prod.splits bind_splits if_splits option.splits dest!: resize_quit)

lemma paste_quit: "paste hw t = Some t' \<Longrightarrow> hterm_quit t' = hterm_quit t"
  by (auto simp: paste_def split: bind_splits)

lemma ui_acts_quit: "ofold (ui_act hw) acts t = Some t' \<Longrightarrow> hterm_quit t' = hterm_quit t"
  by (rule ofold_inv [where P = "\<lambda>s. hterm_quit s = hterm_quit t", rotated 2])
    (auto simp: ui_act_def Let_def split: ui_act.splits if_splits prod.splits dest: paste_quit)

lemma text_input_quit: "text_input s t = Some t' \<Longrightarrow> hterm_quit t' = hterm_quit t"
  by (auto simp: text_input_def Let_def split: bind_splits prod.splits if_splits)

lemma key_down_quit: "key_down hw sc k t = Some t' \<Longrightarrow> hterm_quit t' = hterm_quit t"
  by (auto simp: key_down_def Let_def split: if_splits option.splits dest!: paste_quit)

lemma event_quit: "sdl_read_thread hw e t = Some t' \<Longrightarrow> hterm_quit t' \<longleftrightarrow> hterm_quit t \<or> e = SDL_QUIT"
  by (auto simp: sdl_read_thread_def Let_def split: bind_splits sdl_event.splits if_splits
      dest!: process_resize_quit ui_acts_quit text_input_quit key_down_quit)

lemma events_quit: "ofold (sdl_read_thread hw) es t = Some t' \<Longrightarrow> hterm_quit t' \<longleftrightarrow> hterm_quit t \<or> SDL_QUIT \<in> set es"
proof (induction es arbitrary: t)
  case (Cons e es)
  then obtain t1 where "sdl_read_thread hw e t = Some t1" "ofold (sdl_read_thread hw) es t1 = Some t'" by (auto split: bind_splits)
  with Cons.IH event_quit show ?case by fastforce
qed simp

lemma redraw_screen_quit: "redraw_screen hw t = Some (t', cmds) \<Longrightarrow> hterm_quit t' = hterm_quit t"
proof -
  have u: "hterm_quit (fst x') = hterm_quit (fst x)" if "ui_output hw out x = Some x'" for out x x'
    using that by (cases x) (auto simp: ui_output_def split: ui_out.splits render_cmd.splits bind_splits)
  have us: "hterm_quit (fst x') = hterm_quit (fst x)" if "ofold (ui_output hw) outs x = Some x'" for outs x x'
    by (rule ofold_inv [where P = "\<lambda>y. hterm_quit (fst y) = hterm_quit (fst x)", rotated 2, OF that]) (auto dest: u)
  assume "redraw_screen hw t = Some (t', cmds)"
  then show ?thesis by (auto simp: redraw_screen_def redraw_text_def Let_def split: bind_splits prod.splits dest!: us)
qed

text \<open>What ends the main loop: a request to quit, or a read that fails.\<close>

lemma round_quit:
  assumes "render_round hw es rd t = Some t'"
  shows "hterm_quit t' \<longleftrightarrow> hterm_quit t \<or> SDL_QUIT \<in> set es \<or> fst rd < 0"
proof -
  from assms obtain t1 t2 where 1: "(if redraw_req (t_sel t)
            then map_option fst (redraw_screen hw (t\<lparr>t_sel := (t_sel t)\<lparr>redraw_req := False\<rparr>\<rparr>)) else Some t) = Some t1"
    and 2: "ofold (sdl_read_thread hw) es t1 = Some t2" and 3: "console_poll hw rd t2 = Some t'"
    by (auto simp: render_round_def split: bind_splits)
  have "hterm_quit t1 = hterm_quit t" using 1 by (auto split: if_splits dest!: redraw_screen_quit)
  moreover have "hterm_quit t' \<longleftrightarrow> hterm_quit t2 \<or> fst rd < 0"
    using 3 by (cases rd) (auto simp: console_poll_def Let_def split: if_splits bind_splits prod.splits dest!: callbacks_quit)
  ultimately show ?thesis using events_quit [OF 2] by simp
qed

definition ending :: "sdl_event list \<times> int \<times> byte list \<Rightarrow> bool" where
  "ending r \<longleftrightarrow> SDL_QUIT \<in> set (fst r) \<or> fst (snd r) < 0"

lemma thread_rounds:
  assumes "\<not> hterm_quit t" "\<forall>r\<in>set rs. \<not> ending r"
  shows "sdl_render_thread hw (rs @ later) t = sdl_render_thread hw rs t \<bind> sdl_render_thread hw later
    \<and> (\<forall>t'. sdl_render_thread hw rs t = Some t' \<longrightarrow> \<not> hterm_quit t')"
  using assms
proof (induction rs arbitrary: t)
  case (Cons r rs)
  obtain es len bs where r: "r = (es, len, bs)" by (metis surj_pair)
  show ?case
  proof (cases "render_round hw es (len, bs) t")
    case None
    then show ?thesis by (simp add: r)
  next
    case (Some t1)
    have "\<not> hterm_quit t1" using round_quit [OF Some] Cons.prems by (auto simp: r ending_def)
    with Cons.IH [of t1] Cons.prems(2) Some show ?thesis by (simp add: r)
  qed
qed simp



end
