(* ===== verification/Composition.thy ===== *)
theory Composition
  imports HostOutput Sizes Session
begin

section \<open>The program with its emulator (main.c and libvterm)\<close>

text \<open>
  \<open>Terminal\<close> takes the emulator as a parameter. Here it is the model of libvterm: its state is lost
  (\<^const>\<open>None\<close>) after undefined behaviour and for a negative size, which no window has; nothing is claimed of
  the program from then on.
\<close>

subsection \<open>libvterm as the program's emulator\<close>

definition emulator_call :: "(emu_state vterm \<Rightarrow> (vterm_call list \<times> emu_state vterm) option) \<Rightarrow> emu_state vterm option
    \<Rightarrow> vterm_call list \<times> emu_state vterm option" where
  "emulator_call f e = (case e \<bind> f of None \<Rightarrow> ([], None) | Some (calls, vt) \<Rightarrow> (calls, Some vt))"

definition libvterm :: "emu_state vterm option emulator" where
  "libvterm = \<lparr>emu_new = (\<lambda>rows cols. if 0 \<le> rows \<and> 0 \<le> cols then emulator_new rows cols else None),
     emu_push = (\<lambda>bytes. emulator_call (emulator_push bytes)),
     emu_set_size = (\<lambda>rows cols. emulator_call (\<lambda>vt. if 0 \<le> rows \<and> 0 \<le> cols then vterm_set_size rows cols vt else None)),
     emu_cell = (\<lambda>e. case e of None \<Rightarrow> (\<lambda>row col. undefined) | Some vt \<Rightarrow> cell_for_program (emulator_screen vt)),
     emu_cursor = (\<lambda>e. case e of None \<Rightarrow> (0, 0) | Some vt \<Rightarrow> emulator_cursor vt)\<rparr>"

lemma libvterm_simps [simp]:
  "emu_push libvterm bytes (Some vt) = (case emulator_push bytes vt of None \<Rightarrow> ([], None) | Some (calls, vt') \<Rightarrow> (calls, Some vt'))"
  "emu_cell libvterm (Some vt) = cell_for_program (emulator_screen vt)" "emu_cursor libvterm (Some vt) = emulator_cursor vt"
  by (simp_all add: libvterm_def emulator_call_def)

subsection \<open>The size of the program is that of the emulator\<close>

definition agreed :: "int \<Rightarrow> int \<Rightarrow> emu_state vterm option \<Rightarrow> bool" where
  "agreed rows cols e \<longleftrightarrow> (\<forall>vt. e = Some vt \<longrightarrow> emulator_ok rows cols vt \<and> scr_calls (emulator_screen vt) = [])"

lemma push_agreed:
  assumes "emu_push libvterm bytes e = (calls, e')" "agreed rows cols e"
  shows "agreed rows cols e' \<and> size_told (rows, cols) calls = (rows, cols)"
proof (cases "e \<bind> emulator_push bytes")
  case None
  with assms(1) show ?thesis by (simp add: libvterm_def emulator_call_def agreed_def)
next
  case (Some p)
  then obtain vt vt' where p: "e = Some vt" "p = (calls, vt')" "e' = Some vt'" "emulator_push bytes vt = Some (calls, vt')"
    using assms(1) by (cases e; cases p) (auto simp: libvterm_def emulator_call_def)
  from assms(2) p(1) have "emulator_ok rows cols vt" "scr_calls (emulator_screen vt) = []" by (simp_all add: agreed_def)
  with p(3,4) emulator_push_told [OF p(4)] emulator_push_ok [OF p(4)] show ?thesis by (simp add: agreed_def)
qed

lemma set_size_agreed:
  assumes "emu_set_size libvterm rows cols e = (calls, e')" "agreed r c e"
  shows "agreed rows cols e' \<and> size_told (rows, cols) calls = (rows, cols)"
proof (cases "e \<bind> (\<lambda>vt. if 0 \<le> rows \<and> 0 \<le> cols then vterm_set_size rows cols vt else None)")
  case None
  with assms(1) show ?thesis by (simp add: libvterm_def emulator_call_def agreed_def)
next
  case (Some p)
  then obtain vt vt' where p: "e = Some vt" "p = (calls, vt')" "e' = Some vt'" "vterm_set_size rows cols vt = Some (calls, vt')" "0 \<le> rows" "0 \<le> cols"
    using assms(1) by (cases e; cases p) (auto simp: libvterm_def emulator_call_def split: if_splits)
  from assms(2) p(1) have "emulator_ok r c vt" "scr_calls (emulator_screen vt) = []" by (simp_all add: agreed_def)
  with p(3,5,6) vterm_set_size_told [OF p(4)] vterm_set_size_ok [OF p(4)] show ?thesis by (simp add: agreed_def)
qed

lemma new_agreed: "agreed rows cols (emu_new libvterm rows cols)"
  using emulator_new_fresh [of rows cols] by (auto simp: libvterm_def agreed_def fresh_def)

text \<open>What matters of the program: its size and its emulator.\<close>

definition sizes :: "('p, 'e) hterm \<Rightarrow> (int \<times> int) \<times> 'e" where
  "sizes t = ((t_rows t, t_cols t), t_emu t)"

definition in_size :: "('p, emu_state vterm option) hterm \<Rightarrow> bool" where
  "in_size t \<longleftrightarrow> agreed (t_rows t) (t_cols t) (t_emu t)"

lemma sized_sizes: "sizes t' = sizes t \<Longrightarrow> in_size t' \<longleftrightarrow> in_size t"
  by (simp add: sizes_def in_size_def)

lemma sizes_simps [simp]:
  "sizes (set_font f t) = sizes t" "sizes (log_act a t) = sizes t" "sizes (c_write b t) = sizes t" "sizes (t_redraw t) = sizes t"
  "sizes (csi_handler now k t) = sizes t" "sizes (t\<lparr>t_sel := s\<rparr>) = sizes t" "sizes (t\<lparr>t_ui := u\<rparr>) = sizes t"
  "sizes (t\<lparr>t_inline := i\<rparr>) = sizes t" "sizes (t\<lparr>t_regis := r\<rparr>) = sizes t" "sizes (t\<lparr>t_kb := kb\<rparr>) = sizes t"
  "sizes (t\<lparr>t_calls := n\<rparr>) = sizes t" "sizes (t\<lparr>hterm_quit := q\<rparr>) = sizes t" "sizes (t\<lparr>hterm_ctrl_pressed := q\<rparr>) = sizes t"
  "sizes (t\<lparr>forced_recreaterenderer := k2\<rparr>) = sizes t" "sizes (t\<lparr>any_blinking := q\<rparr>) = sizes t" "sizes (t\<lparr>t_log := l\<rparr>) = sizes t"
  "sizes (t\<lparr>t_display := d\<rparr>) = sizes t" "sizes (t\<lparr>t_width_last_kb := kw\<rparr>) = sizes t" "sizes (t\<lparr>t_height_last_kb := kh\<rparr>) = sizes t" "sizes (t\<lparr>t_scroll := sc\<rparr>) = sizes t" "sizes (screen_resize r2 c2 t) = ((r2, c2), snd (sizes t))"
  by (simp_all add: sizes_def set_font_def log_act_def c_write_def t_redraw_def csi_handler_def screen_resize_def Let_def)

lemma callback_sizes: "vterm_callback hw c t = Some t' \<Longrightarrow> sizes t' = (told (fst (sizes t)) c, snd (sizes t))"
  by (cases c) (auto simp: prescroll_handler_def text_handler_def dcs_handler_def state_erase_def Let_def
      split: bind_splits if_splits)

lemma callbacks_sizes: "vterm_callbacks hw calls t = Some t' \<Longrightarrow> sizes t' = (size_told (t_rows t, t_cols t) calls, t_emu t)"
proof (induction calls arbitrary: t)
  case (Cons c calls)
  then obtain t1 where t1: "vterm_callback hw c t = Some t1" "vterm_callbacks hw calls (t1\<lparr>t_calls := Suc (t_calls t1)\<rparr>) = Some t'"
    by (auto simp: vterm_callbacks_def split: bind_splits)
  have "(t_rows t1, t_cols t1) = told (t_rows t, t_cols t) c" "t_emu t1 = t_emu t" using callback_sizes [OF t1(1)] by (simp_all add: sizes_def)
  with Cons.IH [OF t1(2)] show ?case by simp
qed (simp add: vterm_callbacks_def sizes_def)

lemma terminal_resize_sized:
  assumes "terminal_resize hw t = Some t'" "hw_emu hw = libvterm" "in_size t"
  shows "in_size t'"
proof -
  define t2 where "t2 = log_act (ConnResize (display_width (t_display t) sdiv nunifont_width (t_font t)) (display_height (t_display t) sdiv nunifont_height (t_font t)))
    (t\<lparr>t_rows := display_height (t_display t) sdiv nunifont_height (t_font t), t_cols := display_width (t_display t) sdiv nunifont_width (t_font t)\<rparr>)"
  have e: "t_emu t2 = t_emu t" by (simp add: t2_def log_act_def)
  from assms(1,2) obtain calls e where
    1: "emu_set_size libvterm (t_rows t2) (t_cols t2) (t_emu t2) = (calls, e)" "vterm_callbacks hw calls (t2\<lparr>t_emu := e\<rparr>) = Some t'"
    by (auto simp: terminal_resize_def Let_def t2_def split: bind_splits prod.splits)
  from set_size_agreed [OF 1(1)] assms(3) e have "agreed (t_rows t2) (t_cols t2) e" "size_told (t_rows t2, t_cols t2) calls = (t_rows t2, t_cols t2)"
    by (auto simp: in_size_def)
  with callbacks_sizes [OF 1(2)] show ?thesis by (simp add: in_size_def sizes_def)
qed

lemma poll_sized:
  assumes "console_poll hw rd t = Some t'" "hw_emu hw = libvterm" "in_size t"
  shows "in_size t'"
proof -
  obtain len bytes where rd: "rd = (len, bytes)" by (cases rd)
  obtain calls e where p: "emu_push libvterm bytes (t_emu t) = (calls, e)" by (cases "emu_push libvterm bytes (t_emu t)")
  have "in_size t2" if "vterm_callbacks hw calls (t\<lparr>t_emu := e\<rparr>) = Some t2" for t2
    using callbacks_sizes [OF that] push_agreed [OF p] assms(3) by (simp add: in_size_def sizes_def)
  then have a: "in_size (t_redraw t2)" "in_size (t_redraw t2\<lparr>hterm_quit := True\<rparr>)" if "vterm_callbacks hw calls (t\<lparr>t_emu := e\<rparr>) = Some t2" for t2
    using that sized_sizes [of "t_redraw t2" t2] sized_sizes [of "t_redraw t2\<lparr>hterm_quit := True\<rparr>" t2] by simp_all
  have b: "in_size (t\<lparr>hterm_quit := True\<rparr>)" using sized_sizes [of "t\<lparr>hterm_quit := True\<rparr>" t] assms(3) by simp
  from assms(1) show ?thesis unfolding rd console_poll_def
    using a b p assms(2,3) by (auto simp: Let_def split: if_splits bind_splits)
qed

lemma process_resize_sized:
  assumes "process_resize hw ev t = Some t'" "hw_emu hw = libvterm" "in_size t"
  shows "in_size t'"
proof -
  have redrawn: "sizes t3 = sizes t \<longrightarrow> in_size (t_redraw t4)" if "terminal_resize hw t3 = Some t4" for t3 t4
    using terminal_resize_sized [OF that assms(2)] assms(3) sized_sizes [of t3 t] sized_sizes [of "t_redraw t4" t4] by simp
  have window: "in_size t2" if "resize_window hw ev t1 = Some t2" "sizes t1 = sizes t" for t1 t2
    using that unfolding resize_window_def Let_def
    by (auto split: bind_splits prod.splits if_splits dest!: redrawn)
  have moved: "sizes t3 = sizes t1 \<longrightarrow> in_size t1 \<longrightarrow> in_size t4" if "terminal_resize hw t3 = Some t4" for t1 t3 t4
    using terminal_resize_sized [OF that assms(2)] sized_sizes [of t3 t1] by simp
  have rotate: "in_size t2" if "rotate_window hw wh t1 = Some t2" "in_size t1" for wh t1 t2
    using that unfolding rotate_window_def Let_def by (auto split: if_splits dest!: moved [of _ _ t1])
  define t1 where "t1 = (if forced_recreaterenderer t > 1 then t\<lparr>forced_recreaterenderer := forced_recreaterenderer t - 1\<rparr> else t)"
  have 1: "sizes t1 = sizes t" by (simp add: t1_def)
  from assms(1) obtain t2 where
    2: "(if forced_recreaterenderer t1 = 1 \<or> window_kind ev = Some SDL_WINDOWEVENT_RESIZED \<or> window_kind ev = Some SDL_WINDOWEVENT_RESTORED
        then resize_window hw ev t1 else Some t1) = Some t2"
    and 3: "(if window_kind ev = Some SDL_WINDOWEVENT_ROTATE
        then (case window_data ev of Some wh \<Rightarrow> rotate_window hw wh t2 | None \<Rightarrow> Some t2) else Some t2) = Some t'"
    unfolding process_resize_def Let_def t1_def [symmetric] bind_eq_Some_conv by blast
  from 2 have "in_size t2" using window [OF _ 1] sized_sizes [OF 1] assms(3) by (auto split: if_splits)
  with 3 rotate show ?thesis by (auto split: if_splits option.splits)
qed

lemma paste_sizes: "paste hw t = Some t' \<Longrightarrow> sizes t' = sizes t"
  by (auto simp: paste_def split: bind_splits)

lemma ui_acts_sizes: "ofold (ui_act hw) acts t = Some t' \<Longrightarrow> sizes t' = sizes t"
proof (rule ofold_inv [where P = "\<lambda>s. sizes s = sizes t", rotated 2])
  fix a s s' assume "ui_act hw a s = Some s'" "sizes s = sizes t"
  then show "sizes s' = sizes t"
    by (auto simp: ui_act_def Let_def split: ui_act.splits if_splits prod.splits dest!: paste_sizes)
qed simp_all

lemma text_input_sizes: "text_input s t = Some t' \<Longrightarrow> sizes t' = sizes t"
  by (auto simp: text_input_def Let_def split: bind_splits prod.splits if_splits)

lemma key_down_sizes: "key_down hw sc k t = Some t' \<Longrightarrow> sizes t' = sizes t"
  by (auto simp: key_down_def Let_def split: if_splits option.splits dest!: paste_sizes)

lemma event_sized:
  assumes "sdl_read_thread hw ev t = Some t'" "hw_emu hw = libvterm" "in_size t"
  shows "in_size t'"
proof -
  from assms(1) obtain t1 ui acts t2 sel where
    1: "process_resize hw ev t = Some t1" "ofold (ui_act hw) acts (t1\<lparr>t_ui := ui\<rparr>) = Some t2"
    and 2: "(case ev of SDL_QUIT \<Rightarrow> Some (t2\<lparr>t_sel := sel\<rparr>\<lparr>hterm_quit := True\<rparr>)
      | SDL_TEXTINPUT event_text \<Rightarrow> text_input event_text (t2\<lparr>t_sel := sel\<rparr>)
      | SDL_KEYUP scancode \<Rightarrow> Some (if is_ctrl_key scancode then t2\<lparr>t_sel := sel\<rparr>\<lparr>hterm_ctrl_pressed := False\<rparr> else t2\<lparr>t_sel := sel\<rparr>)
      | SDL_KEYDOWN scancode key_sym unicode \<Rightarrow> key_down hw scancode key_sym (t2\<lparr>t_sel := sel\<rparr>)
      | _ \<Rightarrow> Some (t2\<lparr>t_sel := sel\<rparr>)) = Some t'"
    by (auto simp: sdl_read_thread_def Let_def split: bind_splits)
  have t1: "in_size t1" by (rule process_resize_sized [OF 1(1) assms(2,3)])
  have "sizes t2 = sizes t1" using ui_acts_sizes [OF 1(2)] by simp
  moreover have "sizes t' = sizes t2"
    using 2 text_input_sizes [of _ "t2\<lparr>t_sel := sel\<rparr>" t'] key_down_sizes [of hw _ _ "t2\<lparr>t_sel := sel\<rparr>" t']
    by (cases ev) (auto split: if_splits)
  ultimately show ?thesis using t1 sized_sizes by metis
qed

lemma redraw_sizes: "redraw_screen hw t = Some (t', cmds) \<Longrightarrow> sizes t' = sizes t"
proof -
  have u: "sizes (fst x') = sizes (fst x)" if "ui_output hw out x = Some x'" for out x x'
    using that by (cases x) (auto simp: ui_output_def split: ui_out.splits render_cmd.splits bind_splits)
  have us: "sizes (fst x') = sizes (fst x)" if "ofold (ui_output hw) outs x = Some x'" for outs x x'
    by (rule ofold_inv [where P = "\<lambda>y. sizes (fst y) = sizes (fst x)", rotated 2, OF that]) (auto dest: u)
  assume "redraw_screen hw t = Some (t', cmds)"
  then show ?thesis by (auto simp: redraw_screen_def redraw_text_def Let_def split: bind_splits prod.splits dest!: us)
qed

lemma tick_sizes: "sizes (timed_repeat_tick t) = sizes t"
  by (simp add: timed_repeat_tick_def Let_def)

lemma step_sized: "hterm_step hw t t' \<Longrightarrow> hw_emu hw = libvterm \<Longrightarrow> in_size t \<Longrightarrow> in_size t'"
proof (induction rule: hterm_step.induct)
  case (Frame t t' cmds)
  with redraw_sizes [OF Frame(2)] sized_sizes [of t' t] show ?case by simp
next
  case (Tick t)
  then show ?case using sized_sizes [OF tick_sizes] by blast
qed (blast intro: event_sized poll_sized)+

lemma run_sized: "hterm_run hw t t' \<Longrightarrow> hw_emu hw = libvterm \<Longrightarrow> in_size t \<Longrightarrow> in_size t'"
  by (induction rule: hterm_run.induct) (auto dest: step_sized)

lemma start_sized:
  assumes "hterm_init hw fonts widths (hterm_static e) = Some t" "console_read_init hw t = Some t'" "hw_emu hw = libvterm"
  shows "in_size t'"
proof -
  have "in_size t" using assms(1,3) new_agreed
    by (auto simp: hterm_init_def vterm_initialisation_def Let_def in_size_def split: prod.splits bind_splits)
  then have "in_size (log_act ConnOpen t)" using sized_sizes [of "log_act ConnOpen t" t] by simp
  with assms(2,3) show ?thesis by (auto simp: console_read_init_def intro: terminal_resize_sized)
qed


text \<open>
  C2: From the start of main on, under any interleaving of frames, events, output of the host and timer
  ticks, the size the program works with is the size of libvterm's screen: every cell it reads exists.
\<close>

theorem program_in_step:
  assumes "hw_emu hw = libvterm" "hterm_init hw fonts widths (hterm_static e) = Some t" "console_read_init hw t = Some t1"
    "hterm_run hw t1 t2" "t_emu t2 = Some vt"
  shows "scr_rows (emulator_screen vt) = t_rows t2 \<and> scr_cols (emulator_screen vt) = t_cols t2
    \<and> (\<forall>row\<in>{0..<t_rows t2}. \<forall>col\<in>{0..<t_cols t2}. vterm_screen_get_cell (emulator_screen vt) row col \<noteq> Some None)"
proof -
  have "in_size t2" using run_sized [OF assms(4,1)] start_sized [OF assms(2,3,1)] by blast
  with assms(5) have "screen.inv (t_rows t2) (t_cols t2) (cbdata vt)" by (simp add: in_size_def agreed_def emulator_ok_def)
  then have s: "screen_ok (emulator_screen vt)" "scr_rows (emulator_screen vt) = t_rows t2" "scr_cols (emulator_screen vt) = t_cols t2"
    by (simp_all add: screen.inv_def emulator_screen_def)
  moreover have "vterm_screen_get_cell (emulator_screen vt) row col \<noteq> Some None" if "row \<in> {0..<t_rows t2}" "col \<in> {0..<t_cols t2}" for row col
    using get_cell_eq [OF s(1), of row col] s(2,3) that by (simp add: on_screen_at_def)
  ultimately show ?thesis by simp
qed

text \<open>The demonstration host with libvterm: a window of 640 by 480 gives 30 rows of 80 cells.\<close>

definition libvterm_host :: "(unit, emu_state vterm option) host" where
  "libvterm_host = \<lparr>hw_png = demo_lib, hw_emu = libvterm, hw_hexfile = [], hw_past = None, hw_clock = (\<lambda>k n. (int k, 0)),
     hw_xclip = None, hw_window = (640, 480), hw_kb_shown = False, hw_mod = 0\<rparr>"

lemma libvterm_start:
  "\<exists>t t1 vt. hterm_init libvterm_host [] [] (hterm_static None) = Some t \<and> console_read_init libvterm_host t = Some t1 \<and> t_emu t1 = Some vt"
proof -
  obtain vt where vt: "emulator_new 30 80 = Some vt" "fresh 30 80 vt" using emulator_new_fresh [of 30 80] by auto
  obtain t where t: "hterm_init libvterm_host [] [] (hterm_static None) = Some t" "t_rows t = 30" "t_cols t = 80" "t_emu t = emu_new libvterm 30 80"
    "nunifont_width (t_font t) = 8" "nunifont_height (t_font t) = 16" "display_width (t_display t) = 640" "display_height (t_display t) = 480"
    by (simp add: hterm_init_def vterm_initialisation_def libvterm_host_def hterm_static_def set_font_def
      nunifont_load_staticmap_def nunifont_size_def set_system_bg_def regis_init_def regis_static_def font_static_def signed_divide_int_def)
  have e: "t_emu t = Some vt" using t(4) vt(1) by (simp add: libvterm_def)
  have i: "agreed 30 80 (Some vt)" using vt(2) by (simp add: agreed_def fresh_def)
  then have c: "st_rows (cbdata vt) = 30" "st_cols (cbdata vt) = 80" "scr_calls (st_screen (cbdata vt)) = []" "at_phantom (cbdata vt) = False"
      "st_pos (cbdata vt) = \<lparr>pos_row = 0, pos_col = 0\<rparr>"
    using vt(2) by (simp_all add: agreed_def emulator_ok_def screen.inv_def fresh_def emulator_screen_def)
  have "scr_calls (resize 30 80 (st_screen (cbdata vt))) = [CbResize 30 80]"
    using c(3) undamaged_same(8) [OF undamaged_damage(1)] by (simp add: resize_def screen_resize_buffers_def Let_def)
  then obtain vt1 where s: "vterm_set_size 30 80 vt = Some ([CbResize 30 80], vt1)"
    using c(1,2,4,5) by (auto simp: vterm_set_size_def on_resize_def resize_tabstops_def state_cbs_def on_screen_def updatecursor_def Let_def)
  then have "emu_set_size libvterm 30 80 (Some vt) = ([CbResize 30 80], Some vt1)" by (simp add: libvterm_def emulator_call_def)
  then have "\<exists>t1. console_read_init libvterm_host t = Some t1 \<and> t_emu t1 = Some vt1"
    using t(5-8) e by (simp add: console_read_init_def terminal_resize_def log_act_def libvterm_host_def signed_divide_int_def
      vterm_callbacks_def screen_resize_def)
  with t(1) show ?thesis by blast
qed

theorem program_in_step_witness:
  "\<exists>t vt. hterm_run libvterm_host t t \<and> t_emu t = Some vt \<and> scr_rows (emulator_screen vt) = t_rows t \<and> scr_cols (emulator_screen vt) = t_cols t
    \<and> (\<forall>row\<in>{0..<t_rows t}. \<forall>col\<in>{0..<t_cols t}. vterm_screen_get_cell (emulator_screen vt) row col \<noteq> Some None)"
proof -
  from libvterm_start obtain t t1 vt where t: "hterm_init libvterm_host [] [] (hterm_static None) = Some t"
    "console_read_init libvterm_host t = Some t1" "t_emu t1 = Some vt" by blast
  have "hw_emu libvterm_host = libvterm" by (simp add: libvterm_host_def)
  from program_in_step [OF this t(1,2) run_refl t(3)] t(3) show ?thesis by (blast intro: run_refl)
qed

text \<open>
  C3: What scrolls off libvterm's screen is kept by the program: after a line feed on the last line, sent by
  the host, the scrollback ends with the top row as the program would have read it, and a new frame is due.
\<close>

theorem top_line_kept:
  assumes "hw_emu hw = libvterm" "t_emu t = Some vt" "emulator_ok rows (t_cols t) vt" "parser_state vt = NORMAL"
    "ended (emulator_screen vt)" "scr_calls (emulator_screen vt) = []" "emulator_cursor vt = (col, rows - 1)"
    "scrollregion_start (cbdata vt) = 0" "scrollregion_end (cbdata vt) = - 1" "\<not> m_newline (st_mode (cbdata vt))"
    "2 \<le> rows" "1 \<le> t_cols t" "t_cols t \<le> 1000" "scroll_ok (t_scroll t)"
  shows "\<exists>t'. console_poll hw (1, [0x0a]) t = Some t' \<and> redraw_req (t_sel t')
    \<and> scroll_rows (t_scroll t') = last_n scroll_buffer_initial_size
        (scroll_rows (t_scroll t) @ [map (emu_cell (hw_emu hw) (t_emu t) 0) [0..t_cols t - 1]])"
proof -
  obtain vt' where p: "emulator_push [0x0a] vt = Some
      ([CbPrescroll \<lparr>start_row = 0, end_row = 1, start_col = 0, end_col = t_cols t\<rparr> (cell_for_program (emulator_screen vt))], vt')"
    using line_feed_push [OF assms(3-12)] by (auto split: option.splits)
  let ?row = "map (cell_for_program (emulator_screen vt) 0) [0..t_cols t - 1]"
  from scroll_push_spec [OF assms(14), of ?row] obtain scr where
    scr: "scroll_buffer_push ?row (t_scroll t) = Some scr" "scroll_rows scr = last_n scroll_buffer_initial_size (scroll_rows (t_scroll t) @ [?row])"
    by blast
  have "console_poll hw (1, [0x0a]) t = Some (t_redraw ((t_redraw (t\<lparr>t_emu := Some vt', t_scroll := scr\<rparr>))\<lparr>t_calls := Suc (t_calls t)\<rparr>))"
    using p assms(1,2,13) scr(1)
    by (simp add: console_poll_def vterm_callbacks_def prescroll_handler_def screen_prescroll_def t_redraw_def Let_def)
  then show ?thesis using scr(2) assms(1,2) by (simp add: t_redraw_def redraw_required_def)
qed

theorem top_line_kept_witness:
  "\<exists>t t' vt. t_emu (t :: (unit, emu_state vterm option) hterm) = Some vt \<and> console_poll libvterm_host (1, [0x0a]) t = Some t' \<and> redraw_req (t_sel t')
    \<and> scroll_rows (t_scroll t') = last_n scroll_buffer_initial_size
        (scroll_rows (t_scroll t) @ [map (emu_cell (hw_emu libvterm_host) (t_emu t) 0) [0..t_cols t - 1]])"
proof -
  from emulator_new_fresh [of 2 3] obtain v0 where "fresh 2 3 v0" by auto
  from fresh_line_feed [OF this] obtain vt where f: "emulator_ok 2 3 vt" "parser_state vt = NORMAL" "ended (emulator_screen vt)"
    "scr_calls (emulator_screen vt) = []" "emulator_cursor vt = (0, 2 - 1)" "scrollregion_start (cbdata vt) = 0"
    "scrollregion_end (cbdata vt) = - 1" "\<not> m_newline (st_mode (cbdata vt))" by auto
  define t where "t = (hterm_static (Some vt) :: (unit, emu_state vterm option) hterm)\<lparr>t_rows := 2, t_cols := 3\<rparr>"
  have t: "t_emu t = Some vt" "t_cols t = 3" "scroll_ok (t_scroll t)" by (simp_all add: t_def hterm_static_def scroll_static_ok)
  have "hw_emu libvterm_host = libvterm" by (simp add: libvterm_host_def)
  from top_line_kept [OF this t(1) f(1) [folded t(2)] f(2-8) _ _ _ t(3)] t(1,2) show ?thesis by fastforce
qed

end
