(* ===== verification/VtInput.thy ===== *)
theory VtInput
  imports VtLaws
begin

section \<open>Keyboard, mouse and the output buffer (libvterm/src/input.c, state.c, vterm.c)\<close>

text \<open>
  What libvterm offers to turn keys and mouse events into bytes for the host, and the buffer from which a
  program reads them. hackterm calls none of these functions, but they change the same state as the rest.
\<close>

subsection \<open>The output buffer\<close>

definition vterm_push_output_bytes :: "byte list \<Rightarrow> 'c vtstate \<Rightarrow> 'c vtstate" where
  "vterm_push_output_bytes bytes st =
     (let stored = take (length (outbuffer st) - outbuffer_cur st) bytes
      in st\<lparr>outbuffer := take (outbuffer_cur st) (outbuffer st) @ stored @ drop (outbuffer_cur st + length stored) (outbuffer st),
            outbuffer_cur := outbuffer_cur st + length stored\<rparr>)"

definition vterm_output_bufferread :: "nat \<Rightarrow> 'c vtstate \<Rightarrow> byte list \<times> 'c vtstate" where
  "vterm_output_bufferread len st =
     (let cur = outbuffer_cur st; n = (if len > cur then cur else len); b = outbuffer st;
          moved = (if n < cur then take (cur - n) (drop n b) @ drop (cur - n) b else b)
      in (take n b, st\<lparr>outbuffer := moved, outbuffer_cur := cur - n\<rparr>))"

text \<open>The bytes not read yet are a queue that holds as many as the buffer.\<close>

definition unread :: "'c vtstate \<Rightarrow> byte list" where
  "unread st = take (outbuffer_cur st) (outbuffer st)"

lemma push_unread:
  assumes "outbuffer_cur st \<le> length (outbuffer st)"
  shows "unread (vterm_push_output_bytes bytes st) = take (length (outbuffer st)) (unread st @ bytes)"
  using assms by (simp add: unread_def vterm_push_output_bytes_def Let_def min_def)

lemma read_unread:
  assumes "outbuffer_cur st \<le> length (outbuffer st)"
  shows "fst (vterm_output_bufferread n st) = take n (unread st) \<and> unread (snd (vterm_output_bufferread n st)) = drop n (unread st)"
  using assms by (simp add: unread_def vterm_output_bufferread_def Let_def min_def drop_take)

subsection \<open>Colours\<close>

definition vterm_state_set_default_colors :: "vcolor \<Rightarrow> vcolor \<Rightarrow> 'c vtstate \<Rightarrow> 'c vtstate" where
  "vterm_state_set_default_colors fg bg st = st\<lparr>default_fg := fg, default_bg := bg\<rparr>"

subsection \<open>The mouse\<close>

definition char_of_int :: "int \<Rightarrow> byte" where
  "char_of_int i = word_of_int i"

text \<open>The bytes of the UTF-8 report end at a NUL and must fit an array of 18 with theirs.\<close>

definition output_mouse :: "int \<Rightarrow> bool \<Rightarrow> int \<Rightarrow> int \<Rightarrow> int \<Rightarrow> 'c vtstate \<Rightarrow> 'c vtstate option" where
  "output_mouse code0 pressed modifiers0 col0 row0 st =
     (let modifiers = push_bit 2 modifiers0; code = (if pressed then code0 else 3)
      in case mouse_proto st of
        MOUSE_X10 \<Rightarrow>
          (let col = (if col0 + 0x21 > 0xff then 0xff - 0x21 else col0);
               row = (if row0 + 0x21 > 0xff then 0xff - 0x21 else row0)
           in Some (vterm_push_output ([0x1b] @ ascii ''[M'' @
                [char_of_int ((code OR modifiers) + 0x20), char_of_int (col + 0x21), char_of_int (row + 0x21)]) st))
      | MOUSE_UTF8 \<Rightarrow>
          (let utf8 = fill_utf8 ((code OR modifiers) + 0x20) @ fill_utf8 (col0 + 0x21) @ fill_utf8 (row0 + 0x21)
           in do {
             guard (length utf8 < 18);
             Some (vterm_push_output ([0x1b] @ ascii ''[M'' @ takeWhile (\<lambda>b. b \<noteq> 0) utf8) st) })
      | MOUSE_SGR \<Rightarrow>
          Some (vterm_push_output ([0x1b] @ ascii ''[<'' @ dec (code0 OR modifiers) @ ascii '';'' @ dec (col0 + 1) @ ascii '';''
            @ dec (row0 + 1) @ (if pressed then ascii ''M'' else ascii ''m'')) st)
      | MOUSE_RXVT \<Rightarrow>
          Some (vterm_push_output ([0x1b] @ ascii ''['' @ dec (code OR modifiers) @ ascii '';'' @ dec (col0 + 1) @ ascii '';''
            @ dec (row0 + 1) @ ascii ''M'') st))"

text \<open>The buttons held after an event.\<close>

definition buttons_after :: "int \<Rightarrow> bool \<Rightarrow> int \<Rightarrow> int" where
  "buttons_after button pressed buttons =
     (let bit = push_bit (nat (button - 1)) 1
      in if button > 0 \<and> button \<le> 3 then if pressed then buttons OR bit else buttons AND NOT bit else buttons)"

definition mousefunc :: "int \<Rightarrow> int \<Rightarrow> int \<Rightarrow> bool \<Rightarrow> int \<Rightarrow> 'c vtstate \<Rightarrow> 'c vtstate option" where
  "mousefunc col row button pressed modifiers0 st =
     (let buttons = buttons_after button pressed (mouse_buttons st);
          s = st\<lparr>mouse_col := col, mouse_row := row, mouse_buttons := buttons\<rparr>;
          modifiers = modifiers0 AND 7
      in if buttons \<noteq> mouse_buttons st \<or> button \<ge> 4 then
           (if button < 4 then output_mouse (button - 1) pressed modifiers col row s
            else if button < 6 then output_mouse (button - 4 + 0x40) pressed modifiers col row s
            else Some s)
         else if col \<noteq> mouse_col st \<or> row \<noteq> mouse_row st then
           (if mouse_want_drag s \<and> buttons \<noteq> 0 \<or> mouse_want_move s then
              (let held = (if buttons AND 1 \<noteq> 0 then 1 else if buttons AND 2 \<noteq> 0 then 2 else if buttons AND 4 \<noteq> 0 then 3 else 4)
               in output_mouse (held - 1 + 0x20) True modifiers col row s)
            else Some s)
         else Some s)"

subsection \<open>The keyboard\<close>

definition VTERM_MOD_SHIFT :: int where "VTERM_MOD_SHIFT = 1"
definition VTERM_MOD_ALT :: int where "VTERM_MOD_ALT = 2"
definition VTERM_MOD_CTRL :: int where "VTERM_MOD_CTRL = 4"

text \<open>The local array has six bytes; a character of six bytes needs a seventh for the NUL.\<close>

definition needs_CSIu :: "u32 \<Rightarrow> bool" where
  "needs_CSIu c =
     (if c = 0x68 \<or> c = 0x69 \<or> c = 0x6a \<or> c = 0x6d \<or> c = 0x5b then True
      else if c = 0x5c \<or> c = 0x5d \<or> c = 0x5e \<or> c = 0x5f then False
      else c < 0x61 \<or> c > 0x7a)"

definition vterm_input_push_char :: "int \<Rightarrow> u32 \<Rightarrow> 'c vtstate \<Rightarrow> 'c vtstate option" where
  "vterm_input_push_char mod0 c st =
     (let md = (if c \<noteq> 0x20 then mod0 AND NOT VTERM_MOD_SHIFT else if mod0 = VTERM_MOD_SHIFT then 0 else mod0)
      in if md = 0 then do {
           guard (utf8_seqlen (uint c) < 6);
           Some (vterm_push_output_bytes (fill_utf8 (uint c)) st) }
         else if needs_CSIu c \<and> md AND NOT VTERM_MOD_ALT \<noteq> 0 then
           Some (vterm_push_output ([0x1b] @ ascii ''['' @ dec (sint c) @ ascii '';'' @ dec (md + 1) @ ascii ''u'') st)
         else
           (let key = (if md AND VTERM_MOD_CTRL \<noteq> 0 then c AND 0x1f else c)
            in Some (vterm_push_output ((if md AND VTERM_MOD_ALT \<noteq> 0 then [0x1b] else []) @ [ucast key]) st)))"

datatype keycode =
    KEYCODE_NONE
  | KEYCODE_LITERAL byte
  | KEYCODE_TAB byte
  | KEYCODE_ENTER byte
  | KEYCODE_CSI_CURSOR byte
  | KEYCODE_CSINUM byte int

text \<open>The table is indexed by \<open>VTermKey\<close>; no key has the type \<open>KEYCODE_CSI\<close>.\<close>

definition keycodes :: "keycode list" where
  "keycodes =
     [KEYCODE_NONE,
      KEYCODE_ENTER 0x0d, KEYCODE_TAB 0x09, KEYCODE_LITERAL 0x7f, KEYCODE_LITERAL 0x1b,
      KEYCODE_CSI_CURSOR 0x41, KEYCODE_CSI_CURSOR 0x42, KEYCODE_CSI_CURSOR 0x44, KEYCODE_CSI_CURSOR 0x43,
      KEYCODE_CSINUM 0x7e 2, KEYCODE_CSINUM 0x7e 3, KEYCODE_CSI_CURSOR 0x48, KEYCODE_CSI_CURSOR 0x46,
      KEYCODE_CSINUM 0x7e 5, KEYCODE_CSINUM 0x7e 6,
      KEYCODE_NONE,
      KEYCODE_CSI_CURSOR 0x50, KEYCODE_CSI_CURSOR 0x51, KEYCODE_CSI_CURSOR 0x52, KEYCODE_CSI_CURSOR 0x53,
      KEYCODE_CSINUM 0x7e 15, KEYCODE_CSINUM 0x7e 17, KEYCODE_CSINUM 0x7e 18, KEYCODE_CSINUM 0x7e 19,
      KEYCODE_CSINUM 0x7e 20, KEYCODE_CSINUM 0x7e 21, KEYCODE_CSINUM 0x7e 23, KEYCODE_CSINUM 0x7e 24]"

definition VTERM_KEY_ENTER :: nat where "VTERM_KEY_ENTER = 1"
definition VTERM_KEY_BACKSPACE :: nat where "VTERM_KEY_BACKSPACE = 3"

definition push_literal :: "int \<Rightarrow> byte \<Rightarrow> 'c vtstate \<Rightarrow> 'c vtstate" where
  "push_literal md literal st =
     (if md AND (VTERM_MOD_SHIFT OR VTERM_MOD_CTRL) \<noteq> 0
      then vterm_push_output ([0x1b] @ ascii ''['' @ dec (sint literal) @ ascii '';'' @ dec (md + 1) @ ascii ''u'') st
      else vterm_push_output ((if md AND VTERM_MOD_ALT \<noteq> 0 then [0x1b] else []) @ [literal]) st)"

definition push_keycode :: "int \<Rightarrow> keycode \<Rightarrow> 'c vtstate \<Rightarrow> 'c vtstate" where
  "push_keycode md k st = (case k of
       KEYCODE_NONE \<Rightarrow> st
     | KEYCODE_TAB literal \<Rightarrow>
         if md = VTERM_MOD_SHIFT then vterm_push_output ([0x1b] @ ascii ''[Z'') st
         else if md AND VTERM_MOD_SHIFT \<noteq> 0 then vterm_push_output ([0x1b] @ ascii ''[1;'' @ dec (md + 1) @ ascii ''Z'') st
         else push_literal md literal st
     | KEYCODE_ENTER literal \<Rightarrow>
         if m_newline (st_mode st) then vterm_push_output [0x0d, 0x0a] st else push_literal md literal st
     | KEYCODE_LITERAL literal \<Rightarrow> push_literal md literal st
     | KEYCODE_CSI_CURSOR literal \<Rightarrow>
         if m_cursor (st_mode st) \<and> md = 0 then vterm_push_output ([0x1b] @ ascii ''O'' @ [literal]) st
         else if md = 0 then vterm_push_output ([0x1b] @ ascii ''['' @ [literal]) st
         else vterm_push_output ([0x1b] @ ascii ''[1;'' @ dec (md + 1) @ [literal]) st
     | KEYCODE_CSINUM literal csinum \<Rightarrow>
         if md = 0 then vterm_push_output ([0x1b] @ ascii ''['' @ dec csinum @ [literal]) st
         else vterm_push_output ([0x1b] @ ascii ''['' @ dec csinum @ ascii '';'' @ dec (md + 1) @ [literal]) st)"

definition vterm_input_push_key :: "int \<Rightarrow> nat \<Rightarrow> 'c vtstate \<Rightarrow> 'c vtstate" where
  "vterm_input_push_key mod0 key st =
     (let md = (if (key = VTERM_KEY_ENTER \<or> key = VTERM_KEY_BACKSPACE) \<and> mod0 = VTERM_MOD_SHIFT then 0 else mod0)
      in if key = 0 \<or> key \<ge> length keycodes then st else push_keycode md (keycodes ! key) st)"

subsection \<open>The arrays of the state stay at their sizes\<close>

lemma state_ok_output: "state_ok (vterm_push_output bytes st) = state_ok st" if "state_ok st"
  using that push_output_fields [of st bytes] by (simp add: state_ok_def) (simp add: vterm_push_output_def Let_def)

lemma state_ok_input:
  assumes "state_ok st"
  shows "state_ok (vterm_push_output_bytes bytes st)" "state_ok (snd (vterm_output_bufferread n st))"
    "state_ok (vterm_state_set_default_colors fg bg st)" "state_ok (vterm_input_push_key md key st)"
proof -
  show "state_ok (vterm_push_output_bytes bytes st)" "state_ok (snd (vterm_output_bufferread n st))" "state_ok (vterm_state_set_default_colors fg bg st)"
    using assms by (auto simp: state_ok_def vterm_push_output_bytes_def vterm_output_bufferread_def vterm_state_set_default_colors_def Let_def min_def)
  show "state_ok (vterm_input_push_key md key st)"
    using assms state_ok_output [OF assms] by (simp add: vterm_input_push_key_def push_keycode_def push_literal_def Let_def split: keycode.split)
qed

lemma mousefunc_cases:
  assumes "mousefunc col row button pressed md st = Some st'"
  defines "s \<equiv> st\<lparr>mouse_col := col, mouse_row := row, mouse_buttons := buttons_after button pressed (mouse_buttons st)\<rparr>"
  shows "st' = s \<or> (\<exists>code p k. output_mouse code p k col row s = Some st')"
  using assms(1) unfolding mousefunc_def Let_def s_def [symmetric]
  by (simp split: if_splits) blast+

lemma output_mouse_pushes: "output_mouse code p k c r s = Some s' \<Longrightarrow> \<exists>bytes. s' = vterm_push_output bytes s"
  by (auto simp: output_mouse_def Let_def bind_eq_Some_conv split: mouse_protocol.splits if_splits)

lemma state_ok_mouse:
  assumes "mousefunc col row button pressed md st = Some st'" "state_ok st"
  shows "state_ok st'"
proof -
  have "state_ok (st\<lparr>mouse_col := col, mouse_row := row, mouse_buttons := b\<rparr>)" for b using assms(2) by (simp add: state_ok_def)
  with mousefunc_cases [OF assms(1)] output_mouse_pushes state_ok_output show ?thesis by metis
qed

lemma mouse_push [simp]: "mouse_buttons (vterm_push_output bytes st) = mouse_buttons st"
  by (simp add: vterm_push_output_def Let_def)

lemma mouse_buttons_after:
  assumes "mousefunc col row button pressed md st = Some st'"
  shows "mouse_buttons st' = buttons_after button pressed (mouse_buttons st)"
  using mousefunc_cases [OF assms] by (auto dest!: output_mouse_pushes)

text \<open>A press and the release of the same button leave the buttons held as they were.\<close>

lemma mouse_press_release:
  assumes "mousefunc c r button True md st = Some s1" "mousefunc c' r' button False md' s1 = Some s2"
    "mouse_buttons st AND push_bit (nat (button - 1)) 1 = 0"
  shows "mouse_buttons s2 = mouse_buttons st"
proof -
  let ?b = "push_bit (nat (button - 1)) 1 :: int"
  have "(mouse_buttons st OR ?b) AND NOT ?b = mouse_buttons st AND NOT ?b" by (simp add: bit_eq_iff bit_simps) blast
  also have "\<dots> = mouse_buttons st"
    using assms(3) by (auto simp: bit_eq_iff bit_simps)
  finally show ?thesis
    using mouse_buttons_after [OF assms(1)] mouse_buttons_after [OF assms(2)] by (simp add: buttons_after_def Let_def)
qed

end
