(* ===== verification/Spec2Isabelle.thy ===== *)
theory Spec2Isabelle
  imports Chunks CursorInside Composition VtInput
begin

text \<open>
  Verification of hackterm, a terminal emulator in C on SDL, libvterm, libpng and libssh2. The build that is
  modelled is that of the Linux makefile; the branches for iOS and OS X are left out.

  \<^bold>\<open>The program.\<close> \<open>main.c\<close> opens a connection (a local shell, \<open>local.c\<close>, or a remote one, \<open>ssh.c\<close>), reads
  what the host sends and pushes it into libvterm. libvterm parses the bytes (\<open>parser.c\<close>), keeps the state of
  the terminal (\<open>state.c\<close>, \<open>pen.c\<close>, \<open>encoding.c\<close>, \<open>unicode.c\<close>) and the cells of the screen (\<open>screen.c\<close>) and calls
  back into \<open>main.c\<close>: rows that scroll off go into a ring of copies, ReGIS strings to \<open>regis.c\<close>, plain text to
  \<open>inlinedata.c\<close>, which looks for images in it. Key presses and typed text go to the host, the mouse selects
  text, and every frame draws the rows through the font cache of \<open>nunifont.c\<close>, then the selection, the ReGIS
  and image layers and the widgets (\<open>ngui*.c\<close>, \<open>virtual_buttons.c\<close>).

  \<^bold>\<open>How C is modelled.\<close> A function of the source is a function of the same name on the state it uses, a record
  of the static variables or of the struct. Undefined behaviour (an access outside an array, a null pointer,
  a trap, overflow of an \<open>int\<close> where the code can reach it) is \<^const>\<open>None\<close>, any other result \<^const>\<open>Some\<close>; so a
  theorem that a call is \<^const>\<open>Some\<close> says that the memory accesses are inside, and one that it is \<^const>\<open>None\<close>
  says the opposite. Bytes and pixels are words of their width, \<open>int\<close> and \<open>long\<close> are \<^typ>\<open>int\<close> with guards
  where a sum can leave the range. Calls to SDL that draw are values of a trace. Loops are recursive functions
  that end; only the copy loop of \<open>ssh_getfile\<close> takes fuel, because it may run for ever (as many rounds as the
  file has bytes, plus one, are enough when reads deliver bytes, and no number is when they do not). The
  inner loops of \<open>nsdl_lineS\<close> (1000 steps) and of the row drawing take the bound the code has.

  \<^bold>\<open>Theories and sources.\<close>
  \<^item> \<open>Prelude\<close>: bytes, C arrays and strings, option results, lists. \<open>Cells\<close>: cells, colours, rectangles and the
    calls from libvterm to the program.
  \<^item> \<open>Base64\<close> (\<open>base64.c\<close>), \<open>Nsdl\<close> (\<open>nsdl.c\<close>), \<open>Nunifont\<close> (\<open>nunifont.c\<close>), \<open>InlineData\<close> (\<open>inlinedata.c\<close>),
    \<open>Regis\<close> (\<open>regis.c\<close>): whole files.
  \<^item> \<open>Widgets\<close>, \<open>TextWidgets\<close>, \<open>Buttons\<close>, \<open>Ngui\<close>: the toolkit, the on-screen keyboard and the prompts.
  \<^item> \<open>Scrollback\<close>, \<open>Selection\<close>, \<open>Terminal\<close>, \<open>Session\<close>: \<open>main.c\<close>; \<open>Connection\<close>: \<open>local.c\<close> and \<open>ssh.c\<close>.
  \<^item> \<open>Parser\<close>, \<open>ParserInv\<close>, \<open>Chunks\<close>: \<open>parser.c\<close>. \<open>Encoding\<close>, \<open>Unicode\<close>: \<open>encoding.c\<close>, \<open>utf8.h\<close>, \<open>unicode.c\<close>.
  \<^item> \<open>Screen\<close>, \<open>ScreenCells\<close>: \<open>screen.c\<close>, \<open>rect.h\<close> and \<open>vterm_scroll_rect\<close> of \<open>vterm.c\<close>.
  \<^item> \<open>VtState\<close> (text, tab stops, scrolling), \<open>VtPen\<close> (\<open>pen.c\<close>), \<open>VtControl\<close> (control characters, escape
    sequences, modes, reset), \<open>VtCsi\<close> (control sequences, strings, size), \<open>VtLaws\<close>, \<open>CursorInside\<close>: \<open>state.c\<close>. \<open>VtInput\<close>: \<open>input.c\<close>, the mouse
    reports of \<open>state.c\<close> and the output buffer of \<open>vterm.c\<close>.
  \<^item> \<open>Emulator\<close>, \<open>HostOutput\<close>, \<open>Sizes\<close>: the parts of libvterm put together as \<open>vterm_initialisation\<close> does.
  \<^item> \<open>Composition\<close>: the program of \<open>Terminal\<close> with that model of libvterm as its emulator.

  \<^bold>\<open>Interfaces.\<close> Each locale states a contract and is interpreted on the model of the code that provides it: the
  functions the parser calls (\<open>string_handlers\<close>, \<open>kept_by_callbacks\<close>, \<open>kept_by_both\<close>), what the screen promises
  the state (\<open>screen_contract\<close>; interpreted once for the cells and once more with the size told to the program),
  and the laws named in the theories of the program's own components.

  \<^bold>\<open>What the lemmas show.\<close> \<open>*_keeps\<close>, \<open>*_ok\<close> and \<open>*_inv\<close>: an operation keeps the shape of the state (the ring,
  the buffer, the widget tables, the cells, the arrays of the emulator's state). \<open>*_run\<close>: the result of an
  operation under its preconditions. \<open>*_frame\<close>, \<open>*_quit\<close>, \<open>view_*\<close>, \<open>*_told\<close>: what an operation leaves alone.
  The properties rest on these: the scrollback is the last 10000 rows; strings mean the same however chunks
  cut them; texts and glyphs are shown and read back; the memory of the screen fits its size and state and
  screen agree; the cursor stays on the screen under stated conditions; texts, keys and pastes reach the host;
  drawing paints exactly the pixels it should; decoders undo encoders; nobody is logged in to a host whose
  fingerprint is not the one given; loops end. Where the code fails, the failure is a theorem: reads and
  writes behind arrays that output of the host can cause, rows the scrollback does not show, closing a
  socket twice.

  \<^bold>\<open>Parameters.\<close> Not under \<open>src\<close> or third-party: libpng's decoder, libssh2, POSIX and socket calls, the clock,
  the window system's events, the output of \<open>xclip\<close>, the lines of a font file. \<open>Terminal\<close> takes the emulator as a
  parameter as well, so that its theorems hold for any; \<open>Composition\<close> supplies libvterm. There the emulator is lost
  after undefined behaviour, and nothing is claimed of the program from then on.

  \<^bold>\<open>Not modelled.\<close> \<open>ngui_flowbox.c\<close> (not compiled), \<open>ngui_scrollbar.c\<close> (empty), \<open>unifont_conv.c\<close> and the generated
  font tables, the Objective-C files, the iOS branches. Of libvterm: reading the text of an area,
  queries of attributes, freeing memory and the CJK widths, none of which is called. The keyboard and the mouse
  of libvterm are in \<open>VtInput\<close> although the program does not call them either (it encodes keys itself).
  The vendored SDL, libpng, libssh2, uthash and the rest of utf8proc. The
  mutex of \<open>regis.c\<close> and the threads of SDL: the calls are modelled in the order of the main loop.
\<close>

end
